(* ===== verification/Prelude.thy ===== *)
theory Prelude
  imports Complex_Main "HOL-Library.Word" "HOL-Library.AList"
begin

text \<open>
  What every component shares: the type names of the model, the results of fallible
  operations, Go's clock (instants and durations in nanoseconds), and the generic lemmas
  on lists, maps and sums that the component proofs use.
\<close>

named_theorems go_simps \<open>unfolding rules for the small helpers of the model\<close>
named_theorems frame \<open>which parts of a state an operation leaves alone\<close>

subsection \<open>Bytes\<close>

text \<open>A Go \<open>string\<close> and a Go \<open>[]byte\<close> are both sequences of bytes, here a list of \<open>char\<close>.\<close>

type_synonym bytes = "char list"

definition byte_val :: "char \<Rightarrow> nat" where
  "byte_val c = of_char c"

definition val_byte :: "nat \<Rightarrow> char" where
  "val_byte n = char_of n"

lemma byte_val_lt [simp]: "byte_val c < 256"
  by (simp add: byte_val_def)

lemma val_byte_val [simp]: "val_byte (byte_val c) = c"
  by (simp add: byte_val_def val_byte_def)

lemma byte_val_val_byte [simp]: "byte_val (val_byte n) = n mod 256"
  by (simp add: byte_val_def val_byte_def)

lemma byte_val_inject [simp]: "byte_val a = byte_val b \<longleftrightarrow> a = b"
  by (simp add: byte_val_def)

definition ascii_char :: "char \<Rightarrow> bool" where
  "ascii_char c \<longleftrightarrow> byte_val c < 128"

definition ascii_string :: "bytes \<Rightarrow> bool" where
  "ascii_string s \<longleftrightarrow> list_all ascii_char s"

lemma ascii_string_append [simp]:
  "ascii_string (a @ b) \<longleftrightarrow> ascii_string a \<and> ascii_string b"
  by (simp add: ascii_string_def)

lemma ascii_string_Nil [simp]: "ascii_string []"
  by (simp add: ascii_string_def)

lemma ascii_string_Cons [simp]: "ascii_string (c # s) \<longleftrightarrow> ascii_char c \<and> ascii_string s"
  by (simp add: ascii_string_def)

subsection \<open>Results\<close>

text \<open>
  A Go function with an \<open>error\<close> result is modelled by a sum: \<open>Inl\<close> is the error return,
  \<open>Inr\<close> the value.
\<close>

definition bind_sum :: "'e + 'a \<Rightarrow> ('a \<Rightarrow> 'e + 'b) \<Rightarrow> 'e + 'b" where
  "bind_sum r f = (case r of Inl e \<Rightarrow> Inl e | Inr a \<Rightarrow> f a)"

lemma bind_sum_simps [simp]:
  "bind_sum (Inl e) f = Inl e"
  "bind_sum (Inr a) f = f a"
  by (simp_all add: bind_sum_def)

lemma bind_sum_Inr_iff:
  "bind_sum r f = Inr b \<longleftrightarrow> (\<exists>a. r = Inr a \<and> f a = Inr b)"
  by (cases r) auto

text \<open>
  A chain of guards and early error returns that ends in a value: each guard was passed. As
  simplification rules these keep such chains from being split into cases.
\<close>

lemma guard_Inr [simp]:
  "(if b then Inl e else r) = Inr x \<longleftrightarrow> \<not> b \<and> r = Inr x"
  "(if b then r else Inl e) = Inr x \<longleftrightarrow> b \<and> r = Inr x"
  by auto

lemma guard_Some [simp]:
  "(if b then None else r) = Some x \<longleftrightarrow> \<not> b \<and> r = Some x"
  "(if b then r else None) = Some x \<longleftrightarrow> b \<and> r = Some x"
  by auto

lemma case_option_Inr [simp]:
  "(case m of None \<Rightarrow> Inl e | Some a \<Rightarrow> f a) = Inr x \<longleftrightarrow> (\<exists>a. m = Some a \<and> f a = Inr x)"
  by (cases m) auto

lemma case_option_error_Inr [simp]:
  "(case m of None \<Rightarrow> r | Some e \<Rightarrow> Inl (g e)) = Inr x \<longleftrightarrow> m = None \<and> r = Inr x"
  by (cases m) auto

lemma case_option_Some:
  "(case m of None \<Rightarrow> None | Some a \<Rightarrow> f a) = Some x \<longleftrightarrow> (\<exists>a. m = Some a \<and> f a = Some x)"
  by (cases m) auto

lemma case_sum_Inr [simp]:
  "(case r of Inl e \<Rightarrow> Inl (g e) | Inr a \<Rightarrow> f a) = Inr x \<longleftrightarrow> (\<exists>a. r = Inr a \<and> f a = Inr x)"
  by (cases r) auto

definition is_ok :: "'e + 'a \<Rightarrow> bool" where
  "is_ok r \<longleftrightarrow> (case r of Inl _ \<Rightarrow> False | Inr _ \<Rightarrow> True)"

lemma is_ok_simps [simp]: "\<not> is_ok (Inl e)" "is_ok (Inr a)"
  by (simp_all add: is_ok_def)

lemma is_ok_iff: "is_ok r \<longleftrightarrow> (\<exists>a. r = Inr a)"
  by (cases r) auto

subsection \<open>Time\<close>

text \<open>
  A \<open>time.Time\<close> is the exact number of nanoseconds since the Unix epoch, a
  \<open>time.Duration\<close> a number of nanoseconds. \<open>Sub\<close> saturates at the bounds of an int64, as
  Go's does; \<open>Unix\<close> is the floor to whole seconds.
\<close>

type_synonym time = int
type_synonym duration = int

definition nanosecond :: duration where "nanosecond = 1"
definition millisecond :: duration where "millisecond = 1000000"
definition second :: duration where "second = 1000000000"
definition minute :: duration where "minute = 60000000000"
definition hour :: duration where "hour = 3600000000000"

lemmas time_units = nanosecond_def millisecond_def second_def minute_def hour_def

definition max_int64 :: int where "max_int64 = 9223372036854775807"
definition min_int64 :: int where "min_int64 = -9223372036854775808"

definition in_int64 :: "int \<Rightarrow> bool" where
  "in_int64 n \<longleftrightarrow> min_int64 \<le> n \<and> n \<le> max_int64"

definition time_sub :: "time \<Rightarrow> time \<Rightarrow> duration" where
  "time_sub t u = max min_int64 (min max_int64 (t - u))"

definition time_unix :: "time \<Rightarrow> int" where
  "time_unix t = t div second"

definition time_unix_milli :: "time \<Rightarrow> int" where
  "time_unix_milli t = t div millisecond"

definition unix_time :: "int \<Rightarrow> time" where
  "unix_time sec = sec * second"

text \<open>\<open>int(d.Seconds())\<close> and integer division of durations truncate towards zero.\<close>

definition go_div :: "int \<Rightarrow> int \<Rightarrow> int" where
  "go_div a b = (let q = \<bar>a\<bar> div \<bar>b\<bar> in if a < 0 \<longleftrightarrow> b < 0 then q else - q)"

lemma go_div_nonneg: "0 \<le> a \<Longrightarrow> 0 < b \<Longrightarrow> go_div a b = a div b"
  by (simp add: go_div_def Let_def)

lemma time_sub_exact: "in_int64 (t - u) \<Longrightarrow> time_sub t u = t - u"
  by (simp add: time_sub_def in_int64_def)

lemma time_sub_less_iff:
  "min_int64 < d \<Longrightarrow> d \<le> max_int64 \<Longrightarrow> time_sub t u < d \<longleftrightarrow> t - u < d"
  by (auto simp: time_sub_def min_def max_def)

lemma time_sub_le_iff:
  "min_int64 \<le> d \<Longrightarrow> d < max_int64 \<Longrightarrow> time_sub t u \<le> d \<longleftrightarrow> t - u \<le> d"
  by (auto simp: time_sub_def min_def max_def)

lemma time_unix_unix_time [simp]: "time_unix (unix_time s) = s"
  by (simp add: time_unix_def unix_time_def second_def)

lemma unix_time_le: "unix_time (time_unix t) \<le> t"
  by (simp add: time_unix_def unix_time_def second_def)

lemma unix_time_gt: "t - second < unix_time (time_unix t)"
  by (simp add: time_unix_def unix_time_def second_def)

lemma time_unix_mono: "t \<le> u \<Longrightarrow> time_unix t \<le> time_unix u"
  by (simp add: time_unix_def second_def zdiv_mono1)

lemma unix_time_mono [simp]: "unix_time a \<le> unix_time b \<longleftrightarrow> a \<le> b"
  by (simp add: unix_time_def second_def)

lemma unix_time_less [simp]: "unix_time a < unix_time b \<longleftrightarrow> a < b"
  by (simp add: unix_time_def second_def)

lemma time_unix_add: "time_unix (t + unix_time s) = time_unix t + s"
  by (simp add: time_unix_def unix_time_def second_def)

lemma time_unix_le_iff: "time_unix t < s \<longleftrightarrow> t < unix_time s"
  by (simp add: time_unix_def unix_time_def second_def) linarith

subsection \<open>Generic lemmas\<close>

lemma take_append_exact: "length a = n \<Longrightarrow> take n (a @ b) = a"
  by simp

lemma drop_append_exact: "length a = n \<Longrightarrow> drop n (a @ b) = b"
  by simp

lemma finite_dom_remove: "finite (dom m) \<Longrightarrow> finite (dom (m(k := None)))"
  by simp

lemma card_dom_insert_new:
  "finite (dom m) \<Longrightarrow> m k = None \<Longrightarrow> card (dom (m(k \<mapsto> v))) = Suc (card (dom m))"
  by (simp add: domIff)

lemma card_dom_insert_old:
  "m k \<noteq> None \<Longrightarrow> card (dom (m(k \<mapsto> v))) = card (dom m)"
  by (metis domIff dom_fun_upd insert_absorb option.distinct(1))

lemma card_dom_delete:
  "finite (dom m) \<Longrightarrow> m k \<noteq> None \<Longrightarrow> card (dom (m(k := None))) = card (dom m) - 1"
  by (simp add: domIff)

text \<open>A Go map that is ranged over, or whose size matters, is an association list.\<close>

lemma length_update:
  "length (AList.update k v al) = (if k \<in> fst ` set al then length al else Suc (length al))"
  by (induction al) auto

lemma map_of_update: "map_of (AList.update k v al) = (map_of al)(k \<mapsto> v)"
  by (rule AList.update_conv')

subsection \<open>The contract of an encoder and a decoder\<close>

text \<open>
  Pass payloads, challenge payloads, audience profiles, recorded grants and base64 text share
  one contract: what the encoder writes for a well-formed value, the decoder reads back.
\<close>

locale codec =
  fixes enc :: "'a \<Rightarrow> bytes"
    and dec :: "bytes \<Rightarrow> 'a option"
    and wf :: "'a \<Rightarrow> bool"
  assumes dec_enc: "wf a \<Longrightarrow> dec (enc a) = Some a"
begin

lemma enc_inject: "wf a \<Longrightarrow> wf b \<Longrightarrow> enc a = enc b \<longleftrightarrow> a = b"
  using dec_enc by (metis option.inject)

lemma enc_inj_on: "inj_on enc {a. wf a}"
  by (rule inj_onI) (simp add: enc_inject)

lemma dec_enc_unique: "wf a \<Longrightarrow> dec (enc a) = Some b \<Longrightarrow> b = a"
  by (simp add: dec_enc)

lemma dec_enc_not_None: "wf a \<Longrightarrow> dec (enc a) \<noteq> None"
  by (simp add: dec_enc)

end

end
