(* ===== verification/Base64.thy ===== *)
theory Base64
  imports GoStrings
begin

text \<open>
  Go's \<open>encoding/base64\<close>: the four encodings the gate uses (standard or URL alphabet, padded or
  raw). Decoding is Go's non-strict one: carriage returns and newlines are skipped, and the
  unused low bits of the last character are not checked, so one byte string has several
  spellings.
\<close>

record b64_encoding =
  b64_url :: bool
  b64_pad :: bool

definition StdEncoding :: b64_encoding where
  "StdEncoding = \<lparr>b64_url = False, b64_pad = True\<rparr>"
definition RawStdEncoding :: b64_encoding where
  "RawStdEncoding = \<lparr>b64_url = False, b64_pad = False\<rparr>"
definition URLEncoding :: b64_encoding where
  "URLEncoding = \<lparr>b64_url = True, b64_pad = True\<rparr>"
definition RawURLEncoding :: b64_encoding where
  "RawURLEncoding = \<lparr>b64_url = True, b64_pad = False\<rparr>"

lemmas b64_encodings = StdEncoding_def RawStdEncoding_def URLEncoding_def RawURLEncoding_def

definition b64_char :: "bool \<Rightarrow> nat \<Rightarrow> char" where
  "b64_char url n =
     (if n < 26 then val_byte (65 + n)
      else if n < 52 then val_byte (71 + n)
      else if n < 62 then val_byte (n - 4)
      else if n = 62 then (if url then CHR ''-'' else CHR ''+'')
      else (if url then CHR ''_'' else CHR ''/''))"

definition b64_val :: "bool \<Rightarrow> char \<Rightarrow> nat option" where
  "b64_val url c =
     (let n = byte_val c in
      if 65 \<le> n \<and> n \<le> 90 then Some (n - 65)
      else if 97 \<le> n \<and> n \<le> 122 then Some (n - 71)
      else if 48 \<le> n \<and> n \<le> 57 then Some (n + 4)
      else if c = (if url then CHR ''-'' else CHR ''+'') then Some 62
      else if c = (if url then CHR ''_'' else CHR ''/'') then Some 63
      else None)"

fun b64_encode_vals :: "b64_encoding \<Rightarrow> nat list \<Rightarrow> bytes" where
  "b64_encode_vals e [] = []"
| "b64_encode_vals e [a] =
     [b64_char (b64_url e) (a div 4), b64_char (b64_url e) ((a mod 4) * 16)]
     @ (if b64_pad e then ''=='' else [])"
| "b64_encode_vals e [a, b] =
     [b64_char (b64_url e) (a div 4), b64_char (b64_url e) ((a mod 4) * 16 + b div 16),
      b64_char (b64_url e) ((b mod 16) * 4)]
     @ (if b64_pad e then ''='' else [])"
| "b64_encode_vals e (a # b # c # s) =
     [b64_char (b64_url e) (a div 4), b64_char (b64_url e) ((a mod 4) * 16 + b div 16),
      b64_char (b64_url e) ((b mod 16) * 4 + c div 64), b64_char (b64_url e) (c mod 64)]
     @ b64_encode_vals e s"

definition b64_encode :: "b64_encoding \<Rightarrow> bytes \<Rightarrow> bytes" where
  "b64_encode e s = b64_encode_vals e (map byte_val s)"

text \<open>One quantum at a time; a short or padded quantum ends the input.\<close>

definition quantum2 :: "nat \<Rightarrow> nat \<Rightarrow> bytes" where
  "quantum2 a b = [val_byte (a * 4 + b div 16)]"

definition quantum3 :: "nat \<Rightarrow> nat \<Rightarrow> nat \<Rightarrow> bytes" where
  "quantum3 a b c = [val_byte (a * 4 + b div 16), val_byte ((b mod 16) * 16 + c div 4)]"

definition quantum4 :: "nat \<Rightarrow> nat \<Rightarrow> nat \<Rightarrow> nat \<Rightarrow> bytes" where
  "quantum4 a b c d =
     [val_byte (a * 4 + b div 16), val_byte ((b mod 16) * 16 + c div 4), val_byte ((c mod 4) * 64 + d)]"

definition b64_tail :: "b64_encoding \<Rightarrow> char \<Rightarrow> char \<Rightarrow> bytes \<Rightarrow> bytes option" where
  "b64_tail e a b rest =
     (case (b64_val (b64_url e) a, b64_val (b64_url e) b) of
        (Some va, Some vb) \<Rightarrow>
          (if rest = (if b64_pad e then ''=='' else []) then Some (quantum2 va vb)
           else case rest of
             c # rest' \<Rightarrow>
               (case b64_val (b64_url e) c of
                  None \<Rightarrow> None
                | Some vc \<Rightarrow> if rest' = (if b64_pad e then ''='' else [])
                             then Some (quantum3 va vb vc) else None)
           | [] \<Rightarrow> None)
      | _ \<Rightarrow> None)"

fun b64_decode_quanta :: "b64_encoding \<Rightarrow> bytes \<Rightarrow> bytes option" where
  "b64_decode_quanta e [] = Some []"
| "b64_decode_quanta e [a] = None"
| "b64_decode_quanta e [a, b] = b64_tail e a b []"
| "b64_decode_quanta e [a, b, c] = b64_tail e a b [c]"
| "b64_decode_quanta e (a # b # c # d # s) =
     (case (b64_val (b64_url e) a, b64_val (b64_url e) b, b64_val (b64_url e) c, b64_val (b64_url e) d) of
        (Some va, Some vb, Some vc, Some vd) \<Rightarrow>
          map_option (\<lambda>r. quantum4 va vb vc vd @ r) (b64_decode_quanta e s)
      | _ \<Rightarrow> if s = [] then b64_tail e a b [c, d] else None)"

definition b64_decode :: "b64_encoding \<Rightarrow> bytes \<Rightarrow> bytes option" where
  "b64_decode e s = b64_decode_quanta e (filter (\<lambda>c. c \<noteq> CHR 0x0A \<and> c \<noteq> CHR 0x0D) s)"

subsection \<open>Round trip\<close>

lemma b64_char_val:
  assumes "n < 64" shows "b64_val url (b64_char url n) = Some n"
proof -
  consider "n < 26" | "26 \<le> n" "n < 52" | "52 \<le> n" "n < 62" | "n = 62" | "n = 63"
    using assms by linarith
  then show ?thesis
    by cases (auto simp: b64_char_def b64_val_def Let_def byte_val_def val_byte_def)
qed

lemma b64_char_plain:
  assumes "n < 64"
  shows "b64_char url n \<noteq> CHR 0x0A" "b64_char url n \<noteq> CHR 0x0D" "b64_char url n \<noteq> CHR ''=''"
proof -
  have "b64_val url CHR 0x0A = None" "b64_val url CHR 0x0D = None" "b64_val url CHR ''='' = None"
    by (auto simp: b64_val_def Let_def byte_val_def)
  then show "b64_char url n \<noteq> CHR 0x0A" "b64_char url n \<noteq> CHR 0x0D" "b64_char url n \<noteq> CHR ''=''"
    using b64_char_val [OF assms, of url] by auto
qed

lemma b64_char_ascii: "n < 64 \<Longrightarrow> ascii_char (b64_char url n)"
  by (auto simp: b64_char_def ascii_char_def byte_val_def val_byte_def)

lemma b64_char_not_dot: "n < 64 \<Longrightarrow> b64_char url n \<noteq> CHR ''.''"
proof
  assume n: "n < 64" and eq: "b64_char url n = CHR ''.''"
  have "b64_val url CHR ''.'' = None" by (auto simp: b64_val_def Let_def byte_val_def)
  with b64_char_val [OF n, of url] eq show False by simp
qed

definition b64_out :: "b64_encoding \<Rightarrow> char \<Rightarrow> bool" where
  "b64_out e c \<longleftrightarrow> (\<exists>n < 64. c = b64_char (b64_url e) n) \<or> c = CHR ''=''"

lemma b64_out_char [simp]: "n < 64 \<Longrightarrow> b64_out e (b64_char (b64_url e) n)"
  by (auto simp: b64_out_def)

lemma b64_out_pad [simp]: "b64_out e CHR ''=''"
  by (simp add: b64_out_def)

lemma sextet_hi: "(a::nat) < 256 \<Longrightarrow> a div 4 < 64"
  by auto

lemma sextet_mid: "(a mod 4) * 16 < (64::nat)" "(b::nat) < 256 \<Longrightarrow> (a mod 4) * 16 + b div 16 < 64"
  by auto

lemma sextet_low:
  "(b mod 16) * 4 < (64::nat)" "(c::nat) < 256 \<Longrightarrow> (b mod 16) * 4 + c div 64 < 64" "c mod 64 < (64::nat)"
  by auto

lemmas sextets = sextet_hi sextet_mid sextet_low

lemma b64_encode_vals_chars:
  "list_all (\<lambda>v. v < 256) vs \<Longrightarrow> list_all (b64_out e) (b64_encode_vals e vs)"
  by (induction e vs rule: b64_encode_vals.induct) (simp_all add: sextets)

lemma list_all_byte_val [simp]: "list_all (\<lambda>v. v < 256) (map byte_val s)"
  by (simp add: list_all_iff)

lemma b64_encode_out: "c \<in> set (b64_encode e s) \<Longrightarrow> b64_out e c"
  using b64_encode_vals_chars [of "map byte_val s" e] by (simp add: b64_encode_def list_all_iff)

lemma b64_encode_plain:
  "filter (\<lambda>c. c \<noteq> CHR 0x0A \<and> c \<noteq> CHR 0x0D) (b64_encode e s) = b64_encode e s"
proof (rule filter_True, rule ballI)
  fix c assume "c \<in> set (b64_encode e s)"
  then have "b64_out e c" by (rule b64_encode_out)
  then show "c \<noteq> CHR 0x0A \<and> c \<noteq> CHR 0x0D" by (auto simp: b64_char_plain b64_out_def)
qed

lemma quantum2_val:
  assumes "a < 256" shows "quantum2 (a div 4) ((a mod 4) * 16) = [val_byte a]"
  using assms by (simp add: quantum2_def)

lemma quantum3_val:
  assumes "a < 256" "b < 256"
  shows "quantum3 (a div 4) ((a mod 4) * 16 + b div 16) ((b mod 16) * 4) = [val_byte a, val_byte b]"
proof -
  have "((a mod 4) * 16 + b div 16) div 16 = a mod 4" and "((a mod 4) * 16 + b div 16) mod 16 = b div 16"
    using assms by auto
  then show ?thesis using assms by (simp add: quantum3_def)
qed

lemma quantum4_val:
  assumes "a < 256" "b < 256" "c < 256"
  shows "quantum4 (a div 4) ((a mod 4) * 16 + b div 16) ((b mod 16) * 4 + c div 64) (c mod 64)
         = [val_byte a, val_byte b, val_byte c]"
proof -
  have "((a mod 4) * 16 + b div 16) div 16 = a mod 4" and "((a mod 4) * 16 + b div 16) mod 16 = b div 16"
    and "((b mod 16) * 4 + c div 64) div 4 = b mod 16" and "((b mod 16) * 4 + c div 64) mod 4 = c div 64"
    using assms by auto
  then show ?thesis using assms by (simp add: quantum4_def)
qed

lemma b64_val_pad [simp]: "b64_val url CHR ''='' = None"
  by (auto simp: b64_val_def Let_def byte_val_def)

lemma b64_tail_quantum2:
  "m < 64 \<Longrightarrow> n < 64 \<Longrightarrow> rest = (if b64_pad e then ''=='' else []) \<Longrightarrow>
   b64_tail e (b64_char (b64_url e) m) (b64_char (b64_url e) n) rest = Some (quantum2 m n)"
  by (simp add: b64_tail_def b64_char_val)

lemma b64_tail_quantum3:
  assumes "m < 64" "n < 64" "k < 64" "pad = (if b64_pad e then ''='' else [])"
  shows "b64_tail e (b64_char (b64_url e) m) (b64_char (b64_url e) n) (b64_char (b64_url e) k # pad)
         = Some (quantum3 m n k)"
  using assms by (simp add: b64_tail_def b64_char_val b64_char_plain)

lemma b64_decode_encode_vals:
  "list_all (\<lambda>v. v < 256) vs \<Longrightarrow> b64_decode_quanta e (b64_encode_vals e vs) = Some (map val_byte vs)"
proof (induction e vs rule: b64_encode_vals.induct)
  case (2 e a)
  then show ?case
    by (cases "b64_pad e") (simp_all add: b64_char_val b64_tail_quantum2 quantum2_val sextets)
next
  case (3 e a b)
  then show ?case
    by (cases "b64_pad e") (simp_all add: b64_char_val b64_tail_quantum3 quantum3_val sextets)
next
  case (4 e a b c s)
  then show ?case by (simp add: b64_char_val quantum4_val sextets)
qed simp

theorem b64_decode_encode [simp]: "b64_decode e (b64_encode e s) = Some s"
proof -
  have "b64_decode_quanta e (b64_encode e s) = Some (map val_byte (map byte_val s))"
    unfolding b64_encode_def by (rule b64_decode_encode_vals) simp
  then show ?thesis by (simp add: b64_decode_def b64_encode_plain comp_def map_idI)
qed

lemma b64_encode_inject: "b64_encode e a = b64_encode e b \<longleftrightarrow> a = b"
  by (metis b64_decode_encode option.inject)

lemma b64_encode_ascii: "ascii_string (b64_encode e s)"
  unfolding ascii_string_def list_all_iff
proof
  fix c assume "c \<in> set (b64_encode e s)"
  then have "b64_out e c" by (rule b64_encode_out)
  moreover have "ascii_char CHR ''=''" by (simp add: ascii_char_def byte_val_def)
  ultimately show "ascii_char c" by (auto simp: b64_char_ascii b64_out_def)
qed

lemma b64_encode_no_dot: "CHR ''.'' \<notin> set (b64_encode e s)"
proof
  assume "CHR ''.'' \<in> set (b64_encode e s)"
  then have "b64_out e CHR ''.''" by (rule b64_encode_out)
  then show False using b64_char_not_dot by (fastforce simp: b64_out_def)
qed

subsection \<open>Reading one encoding as another\<close>

lemma b64_val_cross:
  assumes "n < 64" shows "b64_val url (b64_char url' n) = None \<or> b64_val url (b64_char url' n) = Some n"
proof (cases "n < 62 \<or> url = url'")
  case True
  then have "b64_char url' n = b64_char url n" by (auto simp: b64_char_def)
  then show ?thesis using b64_char_val [OF assms] by simp
next
  case False
  then have "n = 62 \<or> n = 63" "url' = (\<not> url)" using assms by auto
  moreover have "b64_val True (b64_char False 62) = None" "b64_val True (b64_char False 63) = None"
    "b64_val False (b64_char True 62) = None" "b64_val False (b64_char True 63) = None"
    by code_simp+
  ultimately show ?thesis by (cases url) auto
qed

lemma b64_char_not_pad: "n < 64 \<Longrightarrow> b64_char url n \<noteq> CHR ''=''"
  using b64_char_val [of n url] by auto

lemma b64_tail_cross2:
  assumes "m < 64" "n < 64" "rest \<in> {[], ''==''}"
  shows "b64_tail e' (b64_char u m) (b64_char u n) rest \<in> {None, Some (quantum2 m n)}"
  using b64_val_cross [OF assms(1), of "b64_url e'" u] b64_val_cross [OF assms(2), of "b64_url e'" u] assms(3)
  by (auto simp: b64_tail_def)

lemma b64_tail_cross3:
  assumes "m < 64" "n < 64" "k < 64" "pad \<in> {[], ''=''}"
  shows "b64_tail e' (b64_char u m) (b64_char u n) (b64_char u k # pad) \<in> {None, Some (quantum3 m n k)}"
  using b64_val_cross [OF assms(1), of "b64_url e'" u] b64_val_cross [OF assms(2), of "b64_url e'" u]
    b64_val_cross [OF assms(3), of "b64_url e'" u] b64_char_not_pad [OF assms(3), of u] assms(4)
  by (auto simp: b64_tail_def)

lemma b64_tail_full:
  assumes "m < 64" "n < 64" "k < 64" "l < 64"
  shows "b64_tail e' (b64_char u m) (b64_char u n) [b64_char u k, b64_char u l] = None"
  using b64_char_not_pad [OF assms(3), of u] b64_char_not_pad [OF assms(4), of u]
  by (auto simp: b64_tail_def split: option.split)

lemma b64_decode_cross_vals:
  "list_all (\<lambda>v. v < 256) vs \<Longrightarrow>
     b64_decode_quanta e' (b64_encode_vals e vs) \<in> {None, Some (map val_byte vs)}"
proof (induction e vs rule: b64_encode_vals.induct)
  case (2 e a)
  have "b64_tail e' (b64_char (b64_url e) (a div 4)) (b64_char (b64_url e) ((a mod 4) * 16)) rest
      \<in> {None, Some (quantum2 (a div 4) ((a mod 4) * 16))}" if "rest \<in> {[], ''==''}" for rest
    using 2 that by (intro b64_tail_cross2) (simp_all add: sextets)
  from this [of "[]"] this [of "''==''"] 2 show ?case
    by (cases "b64_pad e") (auto simp: quantum2_val split: option.split)
next
  case (3 e a b)
  let ?m = "a div 4" and ?n = "(a mod 4) * 16 + b div 16" and ?k = "(b mod 16) * 4"
  have "b64_tail e' (b64_char (b64_url e) ?m) (b64_char (b64_url e) ?n) (b64_char (b64_url e) ?k # pad)
      \<in> {None, Some (quantum3 ?m ?n ?k)}" if "pad \<in> {[], ''=''}" for pad
    using 3 that by (intro b64_tail_cross3) (simp_all add: sextets)
  from this [of "[]"] this [of "''=''"] 3 show ?case
    by (cases "b64_pad e") (auto simp: quantum3_val split: option.split)
next
  case (4 e a b c s)
  let ?m = "a div 4" and ?n = "(a mod 4) * 16 + b div 16" and ?k = "(b mod 16) * 4 + c div 64" and ?l = "c mod 64"
  have l: "?m < 64" "?n < 64" "?k < 64" "?l < 64" using 4(2) by (simp_all add: sextets)
  have v: "b64_val (b64_url e') (b64_char (b64_url e) x) = None
      \<or> b64_val (b64_url e') (b64_char (b64_url e) x) = Some x" if "x < 64" for x
    using that by (rule b64_val_cross)
  have ih: "b64_decode_quanta e' (b64_encode_vals e s) \<in> {None, Some (map val_byte s)}"
    using 4 by simp
  have q: "quantum4 ?m ?n ?k ?l = map val_byte [a, b, c]" using 4(2) by (simp add: quantum4_val)
  show ?case
  proof (cases "b64_val (b64_url e') (b64_char (b64_url e) ?m) = Some ?m
      \<and> b64_val (b64_url e') (b64_char (b64_url e) ?n) = Some ?n
      \<and> b64_val (b64_url e') (b64_char (b64_url e) ?k) = Some ?k
      \<and> b64_val (b64_url e') (b64_char (b64_url e) ?l) = Some ?l")
    case True
    then show ?thesis using ih q by auto
  next
    case False
    then have "b64_decode_quanta e' (b64_encode_vals e (a # b # c # s)) = None"
      using v [OF l(1)] v [OF l(2)] v [OF l(3)] v [OF l(4)] b64_tail_full [OF l, of e' "b64_url e"]
      by (auto split: option.split)
    then show ?thesis by simp
  qed
qed simp

theorem b64_decode_cross: "b64_decode e' (b64_encode e s) = None \<or> b64_decode e' (b64_encode e s) = Some s"
proof -
  have "b64_decode_quanta e' (b64_encode e s) \<in> {None, Some (map val_byte (map byte_val s))}"
    unfolding b64_encode_def by (rule b64_decode_cross_vals) simp
  then show ?thesis by (simp add: b64_decode_def b64_encode_plain comp_def map_idI)
qed

interpretation b64_std: codec "b64_encode StdEncoding" "b64_decode StdEncoding" "\<lambda>_. True"
  by unfold_locales simp

interpretation b64_raw_url: codec "b64_encode RawURLEncoding" "b64_decode RawURLEncoding" "\<lambda>_. True"
  by unfold_locales simp

end
