(* ===== verification/Json.thy ===== *)
theory Json
  imports GoStrings
begin

text \<open>
  Go's \<open>encoding/json\<close> as the gate uses it: the compact printer of \<open>Marshal\<close> (with its HTML
  escaping), the parser behind \<open>Unmarshal\<close>, and the rules by which an object is decoded into
  the fields of a struct. A parsed document is the datatype \<open>json\<close>; an object keeps its members
  in order and with duplicates, because the last duplicate wins and a struct field also matches
  a key that differs in case.
\<close>

datatype json =
    JNull
  | JBool bool
  | JNum bytes
  | JStr bytes
  | JArr "json list"
  | JObj "(bytes \<times> json) list"

subsection \<open>UTF-8\<close>

text \<open>\<open>utf8.DecodeRune\<close>: the rune and its width; an invalid byte is U+FFFD of width 1.\<close>

definition cont_byte :: "nat \<Rightarrow> nat \<Rightarrow> nat \<Rightarrow> bool" where
  "cont_byte lo hi b \<longleftrightarrow> lo \<le> b \<and> b \<le> hi"

definition rune_error :: nat where "rune_error = 65533"

definition utf8_lead_range :: "nat \<Rightarrow> nat \<times> nat" where
  "utf8_lead_range b =
     (if b = 224 then (160, 191) else if b = 237 then (128, 159)
      else if b = 240 then (144, 191) else if b = 244 then (128, 143) else (128, 191))"

definition utf8_decode :: "bytes \<Rightarrow> nat \<times> nat" where
  "utf8_decode s =
     (case map byte_val (take 4 s) of
        [] \<Rightarrow> (rune_error, 0)
      | b0 # r \<Rightarrow>
         (let (lo, hi) = utf8_lead_range b0 in
          if b0 < 128 then (b0, 1)
          else if 194 \<le> b0 \<and> b0 \<le> 223 then
            (case r of b1 # _ \<Rightarrow> if cont_byte lo hi b1 then ((b0 mod 32) * 64 + b1 mod 64, 2)
                                else (rune_error, 1)
             | [] \<Rightarrow> (rune_error, 1))
          else if 224 \<le> b0 \<and> b0 \<le> 239 then
            (case r of b1 # b2 # _ \<Rightarrow>
                if cont_byte lo hi b1 \<and> cont_byte 128 191 b2
                then ((b0 mod 16) * 4096 + (b1 mod 64) * 64 + b2 mod 64, 3) else (rune_error, 1)
             | _ \<Rightarrow> (rune_error, 1))
          else if 240 \<le> b0 \<and> b0 \<le> 244 then
            (case r of [b1, b2, b3] \<Rightarrow>
                if cont_byte lo hi b1 \<and> cont_byte 128 191 b2 \<and> cont_byte 128 191 b3
                then ((b0 mod 8) * 262144 + (b1 mod 64) * 4096 + (b2 mod 64) * 64 + b3 mod 64, 4)
                else (rune_error, 1)
             | _ \<Rightarrow> (rune_error, 1))
          else (rune_error, 1)))"

definition utf8_encode :: "nat \<Rightarrow> bytes" where
  "utf8_encode r =
     (let r = (if 1114111 < r \<or> (55296 \<le> r \<and> r \<le> 57343) then rune_error else r) in
      map val_byte
       (if r < 128 then [r]
        else if r < 2048 then [192 + r div 64, 128 + r mod 64]
        else if r < 65536 then [224 + r div 4096, 128 + r div 64 mod 64, 128 + r mod 64]
        else [240 + r div 262144, 128 + r div 4096 mod 64, 128 + r div 64 mod 64, 128 + r mod 64]))"

lemma utf8_decode_width: "s \<noteq> [] \<Longrightarrow> 1 \<le> snd (utf8_decode s)"
  by (cases s) (auto simp: utf8_decode_def Let_def split: list.splits prod.splits)

lemma utf8_decode_pos: "(r, w) = utf8_decode (c # s) \<Longrightarrow> Suc 0 \<le> w"
  using utf8_decode_width [of "c # s"] by (metis One_nat_def list.distinct(1) snd_conv)

subsection \<open>The printer\<close>

definition hex4 :: "nat \<Rightarrow> bytes" where
  "hex4 n = [hex_char (n div 4096 mod 16), hex_char (n div 256 mod 16), hex_char (n div 16 mod 16),
             hex_char (n mod 16)]"

text \<open>One ASCII byte of a string, escaped as \<open>Marshal\<close> escapes it.\<close>

definition escape_char :: "char \<Rightarrow> bytes" where
  "escape_char c =
     (let n = byte_val c in
      if n = 34 then [CHR 0x5C, CHR 0x22]
      else if n = 92 then [CHR 0x5C, CHR 0x5C]
      else if n = 8 then [CHR 0x5C, CHR ''b'']
      else if n = 12 then [CHR 0x5C, CHR ''f'']
      else if n = 10 then [CHR 0x5C, CHR ''n'']
      else if n = 13 then [CHR 0x5C, CHR ''r'']
      else if n = 9 then [CHR 0x5C, CHR ''t'']
      else if n < 32 \<or> n = 60 \<or> n = 62 \<or> n = 38 then CHR 0x5C # CHR ''u'' # hex4 n
      else [c])"

function escape_string :: "bytes \<Rightarrow> bytes" where
  "escape_string [] = []"
| "escape_string (c # s) =
     (if byte_val c < 128 then escape_char c @ escape_string s
      else (case utf8_decode (c # s) of (r, w) \<Rightarrow>
              (if r = rune_error \<and> w = 1 \<or> r = 8232 \<or> r = 8233
               then CHR 0x5C # CHR ''u'' # hex4 r else take w (c # s))
              @ escape_string (drop w (c # s))))"
  by pat_completeness auto
termination
  by (relation "measure length") (auto dest!: utf8_decode_pos)

text \<open>\<open>json.Marshal\<close>: no white space, members in the order of the struct's fields.\<close>

fun json_print :: "json \<Rightarrow> bytes"
  and json_print_elems :: "json list \<Rightarrow> bytes"
  and json_print_members :: "(bytes \<times> json) list \<Rightarrow> bytes" where
  "json_print JNull = ''null''"
| "json_print (JBool b) = (if b then ''true'' else ''false'')"
| "json_print (JNum n) = n"
| "json_print (JStr s) = CHR 0x22 # escape_string s @ [CHR 0x22]"
| "json_print (JArr xs) = CHR ''['' # json_print_elems xs @ '']''"
| "json_print (JObj ms) = CHR ''{'' # json_print_members ms @ ''}''"
| "json_print_elems [] = []"
| "json_print_elems [x] = json_print x"
| "json_print_elems (x # y # xs) = json_print x @ '','' @ json_print_elems (y # xs)"
| "json_print_members [] = []"
| "json_print_members [(k, x)] = CHR 0x22 # escape_string k @ [CHR 0x22, CHR '':''] @ json_print x"
| "json_print_members ((k, x) # m # ms) =
     CHR 0x22 # escape_string k @ [CHR 0x22, CHR '':''] @ json_print x @ '','' @ json_print_members (m # ms)"

subsection \<open>The parser\<close>

definition json_space :: "char \<Rightarrow> bool" where
  "json_space c \<longleftrightarrow> byte_val c = 32 \<or> byte_val c = 9 \<or> byte_val c = 10 \<or> byte_val c = 13"

definition skip_ws :: "bytes \<Rightarrow> bytes" where
  "skip_ws s = dropWhile json_space s"

definition hex4_val :: "bytes \<Rightarrow> nat option" where
  "hex4_val s = (if length s < 4 then None else hex_val 0 (take 4 s))"

text \<open>
  The part of an escape after the backslash: its bytes and what follows. A surrogate pair is
  one rune, a lone surrogate is U+FFFD.
\<close>

definition p_unicode :: "bytes \<Rightarrow> (bytes \<times> bytes) option" where
  "p_unicode s =
     (case hex4_val s of
        None \<Rightarrow> None
      | Some hi \<Rightarrow>
         (let r = drop 4 s in
          if 55296 \<le> hi \<and> hi \<le> 57343 then
            (case (if take 2 r = [CHR 0x5C, CHR ''u''] then hex4_val (drop 2 r) else None) of
               Some lo \<Rightarrow>
                 if hi \<le> 56319 \<and> 56320 \<le> lo \<and> lo \<le> 57343
                 then Some (utf8_encode (65536 + (hi - 55296) * 1024 + (lo - 56320)), drop 6 r)
                 else Some (utf8_encode rune_error, r)
             | None \<Rightarrow> Some (utf8_encode rune_error, r))
          else Some (utf8_encode hi, r)))"

definition p_escape :: "bytes \<Rightarrow> (bytes \<times> bytes) option" where
  "p_escape s =
     (case s of
        [] \<Rightarrow> None
      | c # r \<Rightarrow>
         (let n = byte_val c in
          if n = 34 \<or> n = 92 \<or> n = 47 then Some ([c], r)
          else if n = 98 then Some ([CHR 0x08], r)
          else if n = 102 then Some ([CHR 0x0C], r)
          else if n = 110 then Some ([CHR 0x0A], r)
          else if n = 114 then Some ([CHR 0x0D], r)
          else if n = 116 then Some ([CHR 0x09], r)
          else if n = 117 then p_unicode r
          else None))"

lemma p_unicode_length: "p_unicode s = Some (t, r) \<Longrightarrow> length r \<le> length s"
  by (auto simp: p_unicode_def Let_def split: option.splits if_splits)

lemma p_escape_length: "p_escape s = Some (t, r) \<Longrightarrow> length r < length s"
  by (cases s) (auto simp: p_escape_def Let_def less_Suc_eq_le dest: p_unicode_length split: if_splits)

definition prepend :: "bytes \<Rightarrow> (bytes \<times> bytes) option \<Rightarrow> (bytes \<times> bytes) option" where
  "prepend t p = map_option (\<lambda>(u, r). (t @ u, r)) p"

text \<open>A string after its opening quote: its contents and what follows the closing quote.\<close>

function p_string :: "bytes \<Rightarrow> (bytes \<times> bytes) option" where
  "p_string [] = None"
| "p_string (c # s) =
     (let n = byte_val c in
      if n = 34 then Some ([], s)
      else if n = 92 then
        (case p_escape s of None \<Rightarrow> None | Some (t, r) \<Rightarrow> prepend t (p_string r))
      else if n < 32 then None
      else if n < 128 then prepend [c] (p_string s)
      else (case utf8_decode (c # s) of (r, w) \<Rightarrow> prepend (utf8_encode r) (p_string (drop w (c # s)))))"
  by pat_completeness auto
termination
  by (relation "measure length") (auto dest!: utf8_decode_pos p_escape_length)

text \<open>A number literal: the scanner's grammar, greedy.\<close>

definition p_digits :: "bytes \<Rightarrow> bytes \<times> bytes" where
  "p_digits s = (takeWhile is_digit s, dropWhile is_digit s)"

definition p_frac :: "bytes \<Rightarrow> (bytes \<times> bytes) option" where
  "p_frac s =
     (case s of
        c # r \<Rightarrow>
          if c = CHR ''.'' then
            (case p_digits r of (ds, r') \<Rightarrow> if ds = [] then None else Some (c # ds, r'))
          else Some ([], s)
      | [] \<Rightarrow> Some ([], s))"

definition p_exp :: "bytes \<Rightarrow> (bytes \<times> bytes) option" where
  "p_exp s =
     (case s of
        c # r \<Rightarrow>
          if c = CHR ''e'' \<or> c = CHR ''E'' then
            (let (sg, r1) = (case r of d # r' \<Rightarrow> if d = CHR ''+'' \<or> d = CHR ''-'' then ([d], r') else ([], r)
                              | [] \<Rightarrow> ([], r));
                 (ds, r2) = p_digits r1
             in if ds = [] then None else Some (c # sg @ ds, r2))
          else Some ([], s)
      | [] \<Rightarrow> Some ([], s))"

definition p_number :: "bytes \<Rightarrow> (bytes \<times> bytes) option" where
  "p_number s =
     (let (sg, r0) = (case s of d # r \<Rightarrow> if d = CHR ''-'' then ([d], r) else ([], s) | [] \<Rightarrow> ([], s)) in
      case r0 of
        [] \<Rightarrow> None
      | c # r \<Rightarrow>
         (let (ip, r1) = (if c = CHR ''0'' then ([c], r) else p_digits r0) in
          if ip = [] then None
          else (case p_frac r1 of
                  None \<Rightarrow> None
                | Some (fp, r2) \<Rightarrow>
                   (case p_exp r2 of
                      None \<Rightarrow> None
                    | Some (ep, r3) \<Rightarrow> Some (sg @ ip @ fp @ ep, r3)))))"

text \<open>
  Values, elements after \<open>[\<close> and members after \<open>{\<close>. The fuel bounds the depth of the recursion;
  \<open>json_parse\<close> gives twice the length of the input, which \<open>p_fuel\<close> below shows is enough.
\<close>

fun p_value :: "nat \<Rightarrow> bytes \<Rightarrow> (json \<times> bytes) option"
  and p_elems :: "nat \<Rightarrow> bytes \<Rightarrow> (json list \<times> bytes) option"
  and p_members :: "nat \<Rightarrow> bytes \<Rightarrow> ((bytes \<times> json) list \<times> bytes) option" where
  "p_value 0 s = None"
| "p_value (Suc n) s =
     (case skip_ws s of
        [] \<Rightarrow> None
      | c # r \<Rightarrow>
         (if c = CHR ''{'' then
            (case skip_ws r of
               [] \<Rightarrow> None
             | d # r' \<Rightarrow> if d = CHR ''}'' then Some (JObj [], r')
                         else map_option (\<lambda>(ms, q). (JObj ms, q)) (p_members n r))
          else if c = CHR ''['' then
            (case skip_ws r of
               [] \<Rightarrow> None
             | d # r' \<Rightarrow> if d = CHR '']'' then Some (JArr [], r')
                         else map_option (\<lambda>(xs, q). (JArr xs, q)) (p_elems n r))
          else if c = CHR 0x22 then map_option (\<lambda>(t, q). (JStr t, q)) (p_string r)
          else if c = CHR ''-'' \<or> is_digit c then map_option (\<lambda>(t, q). (JNum t, q)) (p_number (c # r))
          else if has_prefix (c # r) ''true'' then Some (JBool True, drop 4 (c # r))
          else if has_prefix (c # r) ''false'' then Some (JBool False, drop 5 (c # r))
          else if has_prefix (c # r) ''null'' then Some (JNull, drop 4 (c # r))
          else None))"
| "p_elems 0 s = None"
| "p_elems (Suc n) s =
     (case p_value n s of
        None \<Rightarrow> None
      | Some (x, r) \<Rightarrow>
         (case skip_ws r of
            [] \<Rightarrow> None
          | d # r' \<Rightarrow>
             (if d = CHR '','' then map_option (\<lambda>(xs, q). (x # xs, q)) (p_elems n r')
              else if d = CHR '']'' then Some ([x], r')
              else None)))"
| "p_members 0 s = None"
| "p_members (Suc n) s =
     (case skip_ws s of
        [] \<Rightarrow> None
      | c # r0 \<Rightarrow>
         (if c \<noteq> CHR 0x22 then None
          else (case p_string r0 of
                  None \<Rightarrow> None
                | Some (k, r1) \<Rightarrow>
                   (case skip_ws r1 of
                      [] \<Rightarrow> None
                    | e # r2 \<Rightarrow>
                       (if e \<noteq> CHR '':'' then None
                        else (case p_value n r2 of
                                None \<Rightarrow> None
                              | Some (x, r) \<Rightarrow>
                                 (case skip_ws r of
                                    [] \<Rightarrow> None
                                  | d # r' \<Rightarrow>
                                     (if d = CHR '','' then
                                        map_option (\<lambda>(ms, q). ((k, x) # ms, q)) (p_members n r')
                                      else if d = CHR ''}'' then Some ([(k, x)], r')
                                      else None)))))))) "

text \<open>How deep arrays and objects are nested; the decoder refuses a document beyond ten thousand.\<close>

definition maxNestingDepth :: nat where
  [simp]: "maxNestingDepth = 10000"

fun json_depth :: "json \<Rightarrow> nat"
  and depth_elems :: "json list \<Rightarrow> nat"
  and depth_members :: "(bytes \<times> json) list \<Rightarrow> nat" where
  "json_depth (JArr xs) = Suc (depth_elems xs)"
| "json_depth (JObj ms) = Suc (depth_members ms)"
| "json_depth JNull = 0"
| "json_depth (JBool b) = 0"
| "json_depth (JNum n) = 0"
| "json_depth (JStr s) = 0"
| "depth_elems [] = 0"
| "depth_elems (x # xs) = max (json_depth x) (depth_elems xs)"
| "depth_members [] = 0"
| "depth_members ((k, x) # ms) = max (json_depth x) (depth_members ms)"

definition json_parse :: "bytes \<Rightarrow> json option" where
  "json_parse s =
     (case p_value (2 * length s + 2) s of
        None \<Rightarrow> None
      | Some (j, r) \<Rightarrow> if skip_ws r = [] \<and> json_depth j \<le> maxNestingDepth then Some j else None)"

subsection \<open>Decoding into a struct\<close>

text \<open>
  The values given for a field, in order: a key matches a field exactly or up to case. A
  \<open>null\<close> leaves a string, number or boolean field unchanged; a value of another type makes
  \<open>Unmarshal\<close> return an error.
\<close>

definition obj_values :: "bytes \<Rightarrow> (bytes \<times> json) list \<Rightarrow> json list" where
  "obj_values f ms = map snd (filter (\<lambda>(k, _). equal_fold k f) ms)"

fun dec_string :: "bytes \<Rightarrow> json list \<Rightarrow> bytes option" where
  "dec_string v [] = Some v"
| "dec_string v (JNull # js) = dec_string v js"
| "dec_string v (JStr s # js) = dec_string s js"
| "dec_string v (_ # js) = None"

fun dec_bool :: "bool \<Rightarrow> json list \<Rightarrow> bool option" where
  "dec_bool v [] = Some v"
| "dec_bool v (JNull # js) = dec_bool v js"
| "dec_bool v (JBool b # js) = dec_bool b js"
| "dec_bool v (_ # js) = None"

definition parse_int64 :: "bytes \<Rightarrow> int option" where
  "parse_int64 s =
     (case s of
        [] \<Rightarrow> None
      | c # r \<Rightarrow>
         (let neg = (c = CHR ''-''); ds = (if neg then r else s);
              v = (if neg then - int (dec_val ds) else int (dec_val ds))
          in if all_digits ds \<and> in_int64 v then Some v else None))"

fun dec_int64 :: "int \<Rightarrow> json list \<Rightarrow> int option" where
  "dec_int64 v [] = Some v"
| "dec_int64 v (JNull # js) = dec_int64 v js"
| "dec_int64 v (JNum n # js) = (case parse_int64 n of None \<Rightarrow> None | Some i \<Rightarrow> dec_int64 i js)"
| "dec_int64 v (_ # js) = None"

text \<open>A \<open>map[string]T\<close> takes keys exactly, and the last duplicate wins.\<close>

definition obj_lookup :: "bytes \<Rightarrow> (bytes \<times> json) list \<Rightarrow> json option" where
  "obj_lookup k ms = map_of (rev ms) k"

subsection \<open>Round trip\<close>

text \<open>
  What the gate prints (ASCII strings and integer literals) is read back unchanged. A string
  with bytes from 128 up is also read back when it is valid UTF-8, which is not needed here.
\<close>

definition int_lit :: "bytes \<Rightarrow> bool" where
  "int_lit n \<longleftrightarrow>
     (let ds = (if take 1 n = ''-'' then drop 1 n else n)
      in all_digits ds \<and> (take 1 ds = ''0'' \<longrightarrow> length ds = 1))"

fun json_ok :: "json \<Rightarrow> bool"
  and json_ok_elems :: "json list \<Rightarrow> bool"
  and json_ok_members :: "(bytes \<times> json) list \<Rightarrow> bool" where
  "json_ok JNull = True"
| "json_ok (JBool b) = True"
| "json_ok (JNum n) = int_lit n"
| "json_ok (JStr s) = ascii_string s"
| "json_ok (JArr xs) = json_ok_elems xs"
| "json_ok (JObj ms) = json_ok_members ms"
| "json_ok_elems [] = True"
| "json_ok_elems (x # xs) = (json_ok x \<and> json_ok_elems xs)"
| "json_ok_members [] = True"
| "json_ok_members ((k, x) # ms) = (ascii_string k \<and> json_ok x \<and> json_ok_members ms)"

lemma hex_char_val: "d < 16 \<Longrightarrow> hex_digit_val (hex_char d) = Some d"
  by (auto simp: hex_char_def hex_digit_val_def)

lemma hex4_val_hex4:
  assumes "n < 65536" shows "hex4_val (hex4 n @ s) = Some n"
proof -
  have "n div 4096 = n div 16 div 16 div 16" "n div 256 = n div 16 div 16"
    by (simp_all add: div_mult2_eq [symmetric])
  moreover have "n div 16 div 16 div 16 mod 16 = n div 16 div 16 div 16"
    using assms by (simp add: div_mult2_eq [symmetric])
  ultimately have n: "16 * (16 * (16 * (n div 4096 mod 16) + n div 256 mod 16) + n div 16 mod 16) + n mod 16 = n"
    by simp
  have "hex_digit_val (hex_char (k mod 16)) = Some (k mod 16)" for k
    by (simp add: hex_char_val)
  then have "hex4_val (hex4 n @ s) =
      Some (16 * (16 * (16 * (n div 4096 mod 16) + n div 256 mod 16) + n div 16 mod 16) + n mod 16)"
    by (simp add: hex4_val_def hex4_def)
  then show ?thesis by (simp only: n)
qed

lemma val_byte_eq: "byte_val c = n \<Longrightarrow> val_byte n = c"
  using val_byte_val by blast

lemma p_unicode_hex4:
  assumes "byte_val c < 128"
  shows "p_unicode (hex4 (byte_val c) @ s) = Some ([c], s)"
proof -
  have "drop 4 (hex4 (byte_val c) @ s) = s" by (simp add: hex4_def)
  with assms show ?thesis
    by (simp add: p_unicode_def hex4_val_hex4 utf8_encode_def)
qed

lemma byte_val_literals:
  "byte_val CHR 0x22 = 34" "byte_val CHR 0x5C = 92" "byte_val CHR ''b'' = 98" "byte_val CHR ''f'' = 102"
  "byte_val CHR ''n'' = 110" "byte_val CHR ''r'' = 114" "byte_val CHR ''t'' = 116" "byte_val CHR ''u'' = 117"
  "byte_val CHR 0x08 = 8" "byte_val CHR 0x0C = 12" "byte_val CHR 0x0A = 10" "byte_val CHR 0x0D = 13"
  "byte_val CHR 0x09 = 9"
  by (simp_all add: byte_val_def)

lemma char_eq_val: "c = d \<longleftrightarrow> byte_val c = byte_val d"
  by simp

lemma char_of_val:
  "byte_val c = 34 \<Longrightarrow> c = CHR 0x22" "byte_val c = 92 \<Longrightarrow> c = CHR 0x5C" "byte_val c = 8 \<Longrightarrow> c = CHR 0x08"
  "byte_val c = 12 \<Longrightarrow> c = CHR 0x0C" "byte_val c = 10 \<Longrightarrow> c = CHR 0x0A" "byte_val c = 13 \<Longrightarrow> c = CHR 0x0D"
  "byte_val c = 9 \<Longrightarrow> c = CHR 0x09"
  unfolding char_eq_val byte_val_literals by assumption+

lemma p_string_escape_char:
  assumes "ascii_char c"
  shows "p_string (escape_char c @ s) = prepend [c] (p_string s)"
proof -
  have n: "byte_val c < 128" using assms by (simp add: ascii_char_def)
  consider "byte_val c \<in> {34, 92, 8, 12, 10, 13, 9}"
    | "byte_val c \<notin> {34, 92, 8, 12, 10, 13, 9}" "byte_val c < 32 \<or> byte_val c \<in> {60, 62, 38}"
    | "byte_val c \<notin> {34, 92, 8, 12, 10, 13, 9}" "\<not> (byte_val c < 32 \<or> byte_val c \<in> {60, 62, 38})"
    by blast
  then show ?thesis
  proof cases
    case 1
    then show ?thesis
      by (auto simp: escape_char_def byte_val_literals p_escape_def dest: char_of_val)
  next
    case 2
    then have "escape_char c = CHR 0x5C # CHR ''u'' # hex4 (byte_val c)"
      by (auto simp: escape_char_def)
    then show ?thesis
      by (simp add: byte_val_literals p_escape_def p_unicode_hex4 [OF n])
  next
    case 3
    then have "escape_char c = [c]" by (auto simp: escape_char_def)
    with 3 n show ?thesis by simp
  qed
qed

lemma p_string_escape:
  "ascii_string s \<Longrightarrow> p_string (escape_string s @ CHR 0x22 # r) = Some (s, r)"
proof (induction s)
  case Nil
  then show ?case by (simp add: byte_val_literals)
next
  case (Cons c s)
  then have "ascii_char c" "p_string (escape_string s @ CHR 0x22 # r) = Some (s, r)" by auto
  moreover have "escape_string (c # s) = escape_char c @ escape_string s"
    using \<open>ascii_char c\<close> by (simp add: ascii_char_def)
  ultimately show ?case by (simp add: p_string_escape_char prepend_def)
qed

definition num_stop :: "bytes \<Rightarrow> bool" where
  "num_stop s \<longleftrightarrow> (case s of [] \<Rightarrow> True | c # _ \<Rightarrow> \<not> is_digit c \<and> c \<noteq> CHR ''.'' \<and> c \<noteq> CHR ''e'' \<and> c \<noteq> CHR ''E'')"

lemma p_digits_stop:
  "list_all is_digit ds \<Longrightarrow> num_stop s \<Longrightarrow> p_digits (ds @ s) = (ds, s)"
  by (cases s) (auto simp: p_digits_def num_stop_def list_all_iff takeWhile_append dropWhile_append)

lemma not_digit_minus: "\<not> is_digit CHR ''-''"
  by (simp add: is_digit_def byte_val_def)

lemma p_number_digits:
  assumes "all_digits ds" "take 1 ds = ''0'' \<longrightarrow> length ds = 1" "num_stop r"
  shows "p_number (ds @ r) = Some (ds, r)"
proof -
  from assms(1) obtain c t where ds: "ds = c # t" by (cases ds) (auto simp: all_digits_def)
  have c: "c \<noteq> CHR ''-''" using assms(1) ds not_digit_minus by (auto simp: all_digits_def)
  have fr: "p_frac r = Some ([], r)" and ex: "p_exp r = Some ([], r)"
    using assms(3) by (auto simp: p_frac_def p_exp_def num_stop_def split: list.splits)
  have dg: "p_digits (ds @ r) = (ds, r)" using assms by (simp add: p_digits_stop all_digits_def)
  show ?thesis
  proof (cases "c = CHR ''0''")
    case True
    then show ?thesis using c assms(2) fr ex by (simp add: p_number_def ds)
  next
    case False
    then show ?thesis using c dg fr ex by (simp add: p_number_def ds)
  qed
qed

lemma p_number_int_lit:
  assumes "int_lit n" "num_stop r"
  shows "p_number (n @ r) = Some (n, r)"
proof (cases "take 1 n = ''-''")
  case True
  then obtain ds where n: "n = CHR ''-'' # ds" by (cases n) auto
  with assms(1) have ds: "all_digits ds" "take 1 ds = ''0'' \<longrightarrow> length ds = 1"
    by (simp_all add: int_lit_def)
  from p_number_digits [OF ds assms(2)]
  have "p_number (ds @ r) = Some (ds, r)" .
  moreover have "ds \<noteq> []" "hd ds \<noteq> CHR ''-''"
    using ds(1) not_digit_minus by (auto simp: all_digits_def neq_Nil_conv)
  ultimately show ?thesis
    by (cases ds) (auto simp: p_number_def n split: option.splits if_splits prod.splits)
next
  case False
  then show ?thesis using assms p_number_digits by (simp add: int_lit_def)
qed

lemma json_print_first:
  "json_ok j \<Longrightarrow> \<exists>c t. json_print j = c # t \<and> \<not> json_space c \<and> c \<noteq> CHR '']'' \<and> c \<noteq> CHR ''}''"
proof (cases j)
  case (JNum n)
  assume "json_ok j"
  with JNum have i: "int_lit n" by simp
  then obtain c t where n: "n = c # t"
    by (cases n) (auto simp: int_lit_def all_digits_def)
  with i have "c = CHR ''-'' \<or> is_digit c"
    by (auto simp: int_lit_def all_digits_def split: if_splits)
  then have "\<not> json_space c \<and> c \<noteq> CHR '']'' \<and> c \<noteq> CHR ''}''"
    by (auto simp: json_space_def is_digit_def byte_val_def)
  with n JNum show ?thesis by simp
qed (auto simp: json_space_def byte_val_def)

lemma skip_ws_print: "json_ok j \<Longrightarrow> skip_ws (json_print j @ r) = json_print j @ r"
  using json_print_first [of j] by (auto simp: skip_ws_def)

lemma skip_ws_delims [simp]:
  "skip_ws (CHR '','' # r) = CHR '','' # r" "skip_ws (CHR '']'' # r) = CHR '']'' # r"
  "skip_ws (CHR ''}'' # r) = CHR ''}'' # r" "skip_ws (CHR '':'' # r) = CHR '':'' # r"
  "skip_ws (CHR 0x22 # r) = CHR 0x22 # r" "skip_ws [] = []"
  by (simp_all add: skip_ws_def json_space_def byte_val_def)

lemma num_stop_delims [simp]:
  "num_stop (CHR '','' # r)" "num_stop (CHR '']'' # r)" "num_stop (CHR ''}'' # r)" "num_stop []"
  by (simp_all add: num_stop_def is_digit_def byte_val_def)

lemma not_digit_delims [simp]:
  "\<not> is_digit CHR ''{''" "\<not> is_digit CHR ''[''" "\<not> is_digit CHR 0x22" "\<not> is_digit CHR ''t''"
  "\<not> is_digit CHR ''f''" "\<not> is_digit CHR ''n''"
  by (simp_all add: is_digit_def byte_val_def)

lemma p_value_num:
  assumes "int_lit n" "num_stop r"
  shows "p_value (Suc k) (n @ r) = Some (JNum n, r)"
proof -
  from assms(1) obtain c t where n: "n = c # t" "c = CHR ''-'' \<or> is_digit c"
    by (cases n) (auto simp: int_lit_def all_digits_def split: if_splits)
  then have "\<not> json_space c" "c \<noteq> CHR ''{''" "c \<noteq> CHR ''[''" "c \<noteq> CHR 0x22"
    by (auto simp: json_space_def is_digit_def byte_val_def)
  with n p_number_int_lit [OF assms] show ?thesis by (simp add: skip_ws_def)
qed

lemma print_elems_Cons:
  "json_print_elems (x # xs) @ '']'' @ r =
   json_print x @ (if xs = [] then CHR '']'' # r else CHR '','' # json_print_elems xs @ '']'' @ r)"
  by (cases xs) auto

lemma print_members_Cons:
  "json_print_members ((k, x) # ms) @ ''}'' @ r =
   CHR 0x22 # escape_string k @ CHR 0x22 # CHR '':'' # json_print x @
   (if ms = [] then CHR ''}'' # r else CHR '','' # json_print_members ms @ ''}'' @ r)"
  by (cases ms) auto

lemma json_print_pos: "json_ok j \<Longrightarrow> 0 < length (json_print j)"
  using json_print_first [of j] by auto

lemma length_print_elems_Cons:
  "length (json_print_elems (x # xs)) =
   length (json_print x) + (if xs = [] then 0 else Suc (length (json_print_elems xs)))"
  by (cases xs) auto

lemma length_print_members_Cons:
  "length (json_print_members ((k, x) # ms)) =
   3 + length (escape_string k) + length (json_print x)
   + (if ms = [] then 0 else Suc (length (json_print_members ms)))"
  by (cases ms) auto

definition print_value_at :: "nat \<Rightarrow> bool" where
  "print_value_at n \<longleftrightarrow> (\<forall>j r. json_ok j \<longrightarrow> num_stop r \<longrightarrow> 2 * length (json_print j) \<le> n \<longrightarrow>
     p_value n (json_print j @ r) = Some (j, r))"

definition print_elems_at :: "nat \<Rightarrow> bool" where
  "print_elems_at n \<longleftrightarrow> (\<forall>xs r. json_ok_elems xs \<longrightarrow> xs \<noteq> [] \<longrightarrow>
     2 * length (json_print_elems xs) + 1 \<le> n \<longrightarrow>
     p_elems n (json_print_elems xs @ '']'' @ r) = Some (xs, r))"

definition print_members_at :: "nat \<Rightarrow> bool" where
  "print_members_at n \<longleftrightarrow> (\<forall>ms r. json_ok_members ms \<longrightarrow> ms \<noteq> [] \<longrightarrow>
     2 * length (json_print_members ms) + 1 \<le> n \<longrightarrow>
     p_members n (json_print_members ms @ ''}'' @ r) = Some (ms, r))"

lemma skip_ws_print_elems:
  "json_ok x \<Longrightarrow> \<exists>c t. skip_ws (json_print_elems (x # xs) @ r) = c # t \<and> c \<noteq> CHR '']''"
  using json_print_first [of x] by (cases xs) (auto simp: skip_ws_def)

lemma skip_ws_print_members:
  "\<exists>t. skip_ws (json_print_members (m # ms) @ r) = CHR 0x22 # t"
  by (cases m; cases ms) auto

lemma print_value_step:
  assumes el: "print_elems_at n" and me: "print_members_at n"
  shows "print_value_at (Suc n)"
  unfolding print_value_at_def
proof (intro allI impI)
  fix j r assume ok: "json_ok j" and st: "num_stop r" and len: "2 * length (json_print j) \<le> Suc n"
  show "p_value (Suc n) (json_print j @ r) = Some (j, r)"
  proof (cases j)
    case JNull
    then show ?thesis by (simp add: skip_ws_def json_space_def byte_val_def)
  next
    case (JBool b)
    then show ?thesis by (cases b) (simp_all add: skip_ws_def json_space_def byte_val_def)
  next
    case (JNum m)
    then show ?thesis using ok st p_value_num by simp
  next
    case (JStr s)
    then show ?thesis using ok by (simp add: p_string_escape)
  next
    case (JArr xs)
    show ?thesis
    proof (cases xs)
      case Nil
      then show ?thesis using JArr by (simp add: skip_ws_def json_space_def byte_val_def)
    next
      case (Cons x ys)
      then have "p_elems n (json_print_elems xs @ '']'' @ r) = Some (xs, r)"
        using el ok len JArr unfolding print_elems_at_def by auto
      moreover obtain c t where "skip_ws (json_print_elems xs @ '']'' @ r) = c # t" "c \<noteq> CHR '']''"
        using skip_ws_print_elems [of x ys "'']'' @ r"] ok JArr Cons by auto
      ultimately show ?thesis using JArr by (simp add: skip_ws_def [of "CHR ''['' # _"] json_space_def byte_val_def)
    qed
  next
    case (JObj ms)
    show ?thesis
    proof (cases ms)
      case Nil
      then show ?thesis using JObj by (simp add: skip_ws_def json_space_def byte_val_def)
    next
      case (Cons m ys)
      then have "p_members n (json_print_members ms @ ''}'' @ r) = Some (ms, r)"
        using me ok len JObj unfolding print_members_at_def by auto
      moreover obtain t where "skip_ws (json_print_members ms @ ''}'' @ r) = CHR 0x22 # t"
        using skip_ws_print_members [of m ys "''}'' @ r"] Cons by auto
      ultimately show ?thesis using JObj by (simp add: skip_ws_def [of "CHR ''{'' # _"] json_space_def byte_val_def)
    qed
  qed
qed

lemma print_elems_step:
  assumes va: "print_value_at n" and el: "print_elems_at n"
  shows "print_elems_at (Suc n)"
  unfolding print_elems_at_def
proof (intro allI impI)
  fix xs r
  assume ok: "json_ok_elems xs" and ne: "xs \<noteq> []" and len: "2 * length (json_print_elems xs) + 1 \<le> Suc n"
  from ne obtain x ys where xs: "xs = x # ys" by (cases xs) auto
  let ?r = "if ys = [] then CHR '']'' # r else CHR '','' # json_print_elems ys @ '']'' @ r"
  have "p_value n (json_print x @ ?r) = Some (x, ?r)"
    using va ok len unfolding print_value_at_def xs length_print_elems_Cons by auto
  moreover have "ys \<noteq> [] \<Longrightarrow> p_elems n (json_print_elems ys @ '']'' @ r) = Some (ys, r)"
    using el ok len json_print_pos [of x] unfolding print_elems_at_def xs length_print_elems_Cons by auto
  ultimately show "p_elems (Suc n) (json_print_elems xs @ '']'' @ r) = Some (xs, r)"
    unfolding xs print_elems_Cons by auto
qed

lemma print_members_step:
  assumes va: "print_value_at n" and me: "print_members_at n"
  shows "print_members_at (Suc n)"
  unfolding print_members_at_def
proof (intro allI impI)
  fix ms r
  assume ok: "json_ok_members ms" and ne: "ms \<noteq> []" and len: "2 * length (json_print_members ms) + 1 \<le> Suc n"
  from ne obtain k x ys where ms: "ms = (k, x) # ys" by (cases ms) auto
  let ?r = "if ys = [] then CHR ''}'' # r else CHR '','' # json_print_members ys @ ''}'' @ r"
  have "p_value n (json_print x @ ?r) = Some (x, ?r)"
    using va ok len unfolding print_value_at_def ms length_print_members_Cons by auto
  moreover have "ys \<noteq> [] \<Longrightarrow> p_members n (json_print_members ys @ ''}'' @ r) = Some (ys, r)"
    using me ok len unfolding print_members_at_def ms length_print_members_Cons by auto
  ultimately show "p_members (Suc n) (json_print_members ms @ ''}'' @ r) = Some (ms, r)"
    using ok unfolding ms print_members_Cons by (auto simp: p_string_escape)
qed

lemma print_at: "print_value_at n \<and> print_elems_at n \<and> print_members_at n"
proof (induction n)
  case 0
  then show ?case using json_print_pos
    by (auto simp: print_value_at_def print_elems_at_def print_members_at_def)
next
  case (Suc n)
  then show ?case by (blast intro: print_value_step print_elems_step print_members_step)
qed

lemma depth_members_append [simp]: "depth_members (a @ b) = max (depth_members a) (depth_members b)"
  by (induction a) auto

lemma depth_elems_map [simp]: "depth_elems (map f xs) \<le> n \<longleftrightarrow> (\<forall>x\<in>set xs. json_depth (f x) \<le> n)"
  by (induction xs) auto

theorem json_parse_print:
  assumes ok: "json_ok j" and deep: "json_depth j \<le> maxNestingDepth"
  shows "json_parse (json_print j) = Some j"
proof -
  have "p_value (2 * length (json_print j) + 2) (json_print j @ []) = Some (j, [])"
    by (rule print_at [THEN conjunct1, unfolded print_value_at_def, rule_format, OF ok num_stop_delims(4)])
      simp
  with deep show ?thesis by (simp add: json_parse_def del: p_value.simps)
qed

subsection \<open>The fuel is enough\<close>

lemma skip_ws_length: "skip_ws s = c # r \<Longrightarrow> length r < length s"
  using length_dropWhile_le [of json_space s] by (simp add: skip_ws_def)

lemma prepend_Some: "prepend t p = Some (u, r) \<Longrightarrow> \<exists>v. p = Some (v, r)"
  by (cases p) (auto simp: prepend_def)

lemma p_string_length: "p_string s = Some (t, r) \<Longrightarrow> length r < length s"
proof (induction "length s" arbitrary: s t r rule: less_induct)
  case less
  have IH: "p_string u = Some (v, q) \<Longrightarrow> length u < length s \<Longrightarrow> length q < length s" for u v q
    using less.hyps [of u v q] by simp
  show ?case
  proof (cases s)
    case Nil
    with less.prems show ?thesis by simp
  next
    case (Cons c s')
    with less.prems IH show ?thesis
      by (auto simp: Let_def dest!: prepend_Some p_escape_length dest: utf8_decode_pos [OF sym]
          split: if_splits option.splits prod.splits)
  qed
qed

lemma p_digits_length: "p_digits s = (t, r) \<Longrightarrow> length r \<le> length s"
  by (auto simp: p_digits_def length_dropWhile_le)

lemma p_digits_length': "p_digits s = (t, r) \<Longrightarrow> t \<noteq> [] \<Longrightarrow> length r < length s"
proof -
  assume d: "p_digits s = (t, r)" "t \<noteq> []"
  then have "length s = length t + length r"
    by (auto simp: p_digits_def simp flip: length_append)
  with d(2) show ?thesis by simp
qed

lemma p_frac_length: "p_frac s = Some (t, r) \<Longrightarrow> length r \<le> length s"
  by (auto simp: p_frac_def dest!: p_digits_length split: list.splits if_splits prod.splits)

lemma p_exp_length: "p_exp s = Some (t, r) \<Longrightarrow> length r \<le> length s"
  by (auto simp: p_exp_def Let_def dest!: p_digits_length split: list.splits if_splits prod.splits)

lemma p_number_length: "p_number s = Some (t, r) \<Longrightarrow> length r < length s"
  by (auto simp: p_number_def Let_def dest!: p_digits_length' p_exp_length p_frac_length
      split: list.splits if_splits prod.splits option.splits)

lemma p_length:
  "(p_value n s = Some (j, r) \<longrightarrow> length r < length s) \<and>
   (p_elems n s = Some (xs, r) \<longrightarrow> length r < length s) \<and>
   (p_members n s = Some (ms, r) \<longrightarrow> length r < length s)"
proof (induction n arbitrary: s j xs ms r)
  case (Suc n)
  have v: "p_value n u = Some (x, q) \<Longrightarrow> length q < length u" for u x q using Suc.IH by blast
  have e: "p_elems n u = Some (x, q) \<Longrightarrow> length q < length u" for u x q using Suc.IH by blast
  have m: "p_members n u = Some (x, q) \<Longrightarrow> length q < length u" for u x q using Suc.IH by blast
  have "p_value (Suc n) s = Some (j, r) \<Longrightarrow> length r < length s"
    by (auto dest!: skip_ws_length e m p_string_length p_number_length
        split: list.splits if_splits option.splits)
  moreover have "p_elems (Suc n) s = Some (xs, r) \<Longrightarrow> length r < length s"
    by (auto dest!: skip_ws_length v e split: list.splits if_splits option.splits)
  moreover have "p_members (Suc n) s = Some (ms, r) \<Longrightarrow> length r < length s"
    by (auto dest!: skip_ws_length v m p_string_length split: list.splits if_splits option.splits)
  ultimately show ?case by blast
qed simp

lemma p_value_length: "p_value n s = Some (j, r) \<Longrightarrow> length r < length s"
  using p_length by blast

text \<open>Any two amounts of fuel from \<open>2 * length s + 2\<close> up give the same result.\<close>

definition value_fuel :: "bytes \<Rightarrow> bool" where
  "value_fuel s \<longleftrightarrow> (\<forall>n m. 2 * length s + 1 \<le> n \<longrightarrow> 2 * length s + 1 \<le> m \<longrightarrow> p_value n s = p_value m s)"

definition seq_fuel :: "bytes \<Rightarrow> bool" where
  "seq_fuel s \<longleftrightarrow> (\<forall>n m. 2 * length s + 2 \<le> n \<longrightarrow> 2 * length s + 2 \<le> m \<longrightarrow>
     p_elems n s = p_elems m s \<and> p_members n s = p_members m s)"

lemma value_fuelD:
  "value_fuel s \<Longrightarrow> 2 * length s + 1 \<le> n \<Longrightarrow> 2 * length s + 1 \<le> m \<Longrightarrow> p_value n s = p_value m s"
  unfolding value_fuel_def by blast

lemma seq_fuelD:
  "seq_fuel s \<Longrightarrow> 2 * length s + 2 \<le> n \<Longrightarrow> 2 * length s + 2 \<le> m \<Longrightarrow> p_elems n s = p_elems m s"
  "seq_fuel s \<Longrightarrow> 2 * length s + 2 \<le> n \<Longrightarrow> 2 * length s + 2 \<le> m \<Longrightarrow> p_members n s = p_members m s"
  unfolding seq_fuel_def by blast+

lemma value_fuel_step:
  assumes IH: "\<And>u. length u < length s \<Longrightarrow> seq_fuel u"
  shows "value_fuel s"
  unfolding value_fuel_def
proof (intro allI impI)
  fix n m assume "2 * length s + 1 \<le> n" "2 * length s + 1 \<le> m"
  then obtain n' m' where nm: "n = Suc n'" "m = Suc m'" "2 * length s \<le> n'" "2 * length s \<le> m'"
    by (cases n; cases m) auto
  have "p_elems n' r = p_elems m' r \<and> p_members n' r = p_members m' r" if "skip_ws s = c # r" for c r
    using seq_fuelD [OF IH [OF skip_ws_length [OF that]], of n' m'] skip_ws_length [OF that] nm(3,4)
    by simp
  then show "p_value n s = p_value m s"
    by (cases "skip_ws s") (simp_all add: nm split: list.split)
qed

lemma seq_fuel_step:
  assumes IH: "\<And>u. length u < length s \<Longrightarrow> seq_fuel u \<and> value_fuel u" and va: "value_fuel s"
  shows "seq_fuel s"
  unfolding seq_fuel_def
proof (intro allI impI)
  fix n m assume nm0: "2 * length s + 2 \<le> n" "2 * length s + 2 \<le> m"
  define n' where "n' = n - 1"
  define m' where "m' = m - 1"
  have nm: "n = Suc n'" "m = Suc m'" "2 * length s + 1 \<le> n'" "2 * length s + 1 \<le> m'"
    using nm0 by (simp_all add: n'_def m'_def)
  have v0: "p_value n' s = p_value m' s" by (rule value_fuelD [OF va nm(3,4)])
  have v: "p_value n' u = p_value m' u" if "length u < length s" for u
    by (rule value_fuelD [OF IH [OF that, THEN conjunct2]]) (use that nm(3,4) in simp_all)
  have e: "p_elems n' u = p_elems m' u" "p_members n' u = p_members m' u" if "length u < length s" for u
    using seq_fuelD [OF IH [OF that, THEN conjunct1], of n' m'] that nm(3,4) by simp_all
  have "p_elems (Suc n') s = p_elems (Suc m') s"
  proof (cases "p_value m' s")
    case (Some xr)
    obtain x r where xr: "xr = (x, r)" by (cases xr)
    have "p_elems n' r' = p_elems m' r'" if "skip_ws r = d # r'" for d r'
      using e(1) [of r'] p_value_length [of m' s x r] skip_ws_length [OF that] Some xr by simp
    then show ?thesis by (auto simp: v0 Some xr split: list.split)
  qed (simp add: v0)
  moreover have "p_members (Suc n') s = p_members (Suc m') s"
  proof (cases "skip_ws s")
    case (Cons c r0)
    show ?thesis
    proof (cases "p_string r0")
      case (Some kr)
      obtain k r1 where kr: "kr = (k, r1)" by (cases kr)
      show ?thesis
      proof (cases "skip_ws r1")
        case (Cons d r2)
        have len: "length r2 < length s"
          using skip_ws_length [OF \<open>skip_ws s = c # r0\<close>] skip_ws_length [OF Cons]
            p_string_length [of r0 k r1] Some kr by simp
        have "p_members n' r' = p_members m' r'"
          if "p_value m' r2 = Some (x, r)" "skip_ws r = d' # r'" for x r d' r'
          using e(2) [of r'] len p_value_length [OF that(1)] skip_ws_length [OF that(2)] by simp
        then show ?thesis using v [OF len]
          by (cases "p_value m' r2") (auto simp: \<open>skip_ws s = c # r0\<close> Some kr Cons split: list.split)
      qed (simp add: Cons Some kr)
    qed (simp add: Cons)
  qed simp
  ultimately show "p_elems n s = p_elems m s \<and> p_members n s = p_members m s"
    unfolding nm by blast
qed

lemma p_fuel: "value_fuel s \<and> seq_fuel s"
proof (induction "length s" arbitrary: s rule: less_induct)
  case less
  then have "value_fuel s" using value_fuel_step by blast
  moreover from this less have "seq_fuel s" using seq_fuel_step by blast
  ultimately show ?case by blast
qed

lemma json_parse_more_fuel:
  assumes "2 * length s + 2 \<le> n"
  shows "json_parse s = (case p_value n s of None \<Rightarrow> None
           | Some (j, r) \<Rightarrow> if skip_ws r = [] \<and> json_depth j \<le> maxNestingDepth then Some j else None)"
proof -
  have "p_value n s = p_value (2 * length s + 2) s"
    by (rule p_fuel [of s, THEN conjunct1, unfolded value_fuel_def, rule_format]) (use assms in simp_all)
  then show ?thesis by (simp only: json_parse_def)
qed

subsection \<open>Integer literals\<close>

lemma show_nat_first: "take 1 (show_nat n) = ''0'' \<Longrightarrow> n = 0"
proof (induction n rule: show_nat.induct)
  case (1 n)
  show ?case
  proof (cases "n < 10")
    case True
    then have "show_nat n = [digit_char n]" by (subst show_nat.simps) simp
    with "1.prems" have "byte_val (digit_char n) = byte_val CHR ''0''" by simp
    with True show ?thesis by (simp add: byte_val_def [of "CHR ''0''"])
  next
    case False
    then have "show_nat n = show_nat (n div 10) @ [digit_char (n mod 10)]"
      by (subst show_nat.simps) simp
    with "1.prems" have "take 1 (show_nat (n div 10)) = ''0''"
      by (cases "show_nat (n div 10)") auto
    with "1.IH" False show ?thesis by simp
  qed
qed

lemma int_lit_digits: "take 1 (show_nat n) = ''0'' \<longrightarrow> length (show_nat n) = 1"
  using show_nat_first [of n] by (auto simp: show_nat.simps [of 0])

lemma int_lit_show_int: "int_lit (show_int i)"
proof -
  have d: "all_digits (show_nat n)" for n by (rule show_nat_digits)
  have "take 1 (show_nat n) \<noteq> ''-''" for n
    using not_digit_minus d [of n] by (cases "show_nat n") (auto simp: all_digits_def)
  with d show ?thesis by (simp add: show_int_def int_lit_def int_lit_digits)
qed

lemma parse_int64_show_int: "in_int64 i \<Longrightarrow> parse_int64 (show_int i) = Some i"
proof -
  assume i: "in_int64 i"
  have ne: "show_nat n = c # t \<Longrightarrow> c \<noteq> CHR ''-''" for n c t
    using show_nat_digits [of n] not_digit_minus by (auto simp: all_digits_def)
  show ?thesis
  proof (cases "i < 0")
    case True
    with i show ?thesis by (simp add: show_int_def parse_int64_def show_nat_digits)
  next
    case False
    obtain c t where s: "show_nat (nat i) = c # t" by (cases "show_nat (nat i)") auto
    have "int (dec_val (c # t)) = i" using False by (simp flip: s)
    moreover have "all_digits (c # t)" using show_nat_digits [of "nat i"] by (simp add: s)
    ultimately show ?thesis using False i ne [OF s] by (simp add: show_int_def parse_int64_def s)
  qed
qed

lemma digits_ascii: "list_all is_digit s \<Longrightarrow> ascii_string s"
  by (auto simp: ascii_string_def list_all_iff is_digit_def ascii_char_def)

lemma ascii_show_nat [simp]: "ascii_string (show_nat n)"
  using show_nat_digits [of n] by (intro digits_ascii) (auto simp: all_digits_def list_all_iff)

end
