(* ===== verification/Token.thy ===== *)
theory Token
  imports Base64 Json
begin

text \<open>
  Package \<open>internal/token\<close>: the pass, its validation, the keyring, \<open>Mint\<close> and \<open>Verify\<close>, on the
  bytes of the cookie value. The HMAC is the parameter \<open>hm\<close> (key, then message): nothing
  below depends on which function it is.
\<close>

type_synonym mac_fun = "bytes \<Rightarrow> bytes \<Rightarrow> bytes"

definition token_domain :: bytes where
  "token_domain = ''anteroom-pass-v0.''"

definition token_Version :: int where
  "token_Version = 1"

definition KindPoW :: bytes where "KindPoW = ''pow''"
definition KindPaid :: bytes where "KindPaid = ''paid''"

definition ScopeAll :: bytes where
  "ScopeAll = ''*''"

datatype token_error =
    TokErrMalformed
  | TokErrUnknownKid
  | TokErrBadSignature
  | TokErrExpired
  | TokErrFromFuture
  | TokErrInvalid bytes  \<comment> \<open>the plain errors of \<open>validate\<close> and \<open>NewKeyring\<close>\<close>

record pass =
  pass_V :: int
  pass_Kid :: bytes
  pass_Kind :: bytes
  pass_Scope :: bytes
  pass_Aud :: bytes
  pass_Iat :: int
  pass_Exp :: int
  pass_IPP :: bytes
  pass_UAH :: bytes
  pass_Rt :: int
  pass_Payer :: bytes
  pass_Tx :: bytes

definition zero_pass :: pass where
  "zero_pass = \<lparr>pass_V = 0, pass_Kid = [], pass_Kind = [], pass_Scope = [], pass_Aud = [], pass_Iat = 0,
     pass_Exp = 0, pass_IPP = [], pass_UAH = [], pass_Rt = 0, pass_Payer = [], pass_Tx = []\<rparr>"

definition RootAt :: "pass \<Rightarrow> time" where
  "RootAt p = (if pass_Rt p = 0 then unix_time (pass_Iat p) else unix_time (pass_Rt p))"

definition pass_validate :: "pass \<Rightarrow> token_error option" where
  "pass_validate p =
     (if pass_Aud p = [] \<or> pass_Scope p = [] then Some (TokErrInvalid ''missing audience or scope'')
      else if pass_Iat p \<le> 0 \<or> pass_Exp p \<le> pass_Iat p then Some (TokErrInvalid ''invalid lifetime'')
      else if pass_Rt p < 0 \<or> pass_Rt p > pass_Iat p
        then Some (TokErrInvalid ''invalid root admission time'')
      else if pass_Kind p = KindPoW then
        (if pass_Scope p \<noteq> ScopeAll \<or> pass_IPP p = [] \<or> pass_UAH p = [] \<or> pass_Payer p \<noteq> [] \<or> pass_Tx p \<noteq> []
         then Some (TokErrInvalid ''invalid proof-of-work pass fields'') else None)
      else if pass_Kind p = KindPaid then
        (if pass_Scope p = ScopeAll \<or> pass_IPP p \<noteq> [] \<or> pass_UAH p \<noteq> [] \<or> pass_Rt p \<noteq> 0
         then Some (TokErrInvalid ''invalid paid pass fields'') else None)
      else Some (TokErrInvalid ''unknown pass kind''))"

subsection \<open>The keyring\<close>

record hmac_key =
  Kid :: bytes
  KeyBytes :: bytes

record keyring =
  signKid :: bytes
  keys :: "bytes \<rightharpoonup> bytes"

fun add_keys :: "keyring \<Rightarrow> hmac_key list \<Rightarrow> token_error + keyring" where
  "add_keys kr [] = Inr kr"
| "add_keys kr (k # ks) =
     (if Kid k = [] \<or> length (KeyBytes k) < 16 then Inl (TokErrInvalid ''key must have a kid and at least 16 bytes'')
      else if keys kr (Kid k) \<noteq> None then Inl (TokErrInvalid ''duplicate kid'')
      else add_keys (kr\<lparr>keys := (keys kr)(Kid k \<mapsto> KeyBytes k)\<rparr>) ks)"

definition NewKeyring :: "hmac_key list \<Rightarrow> token_error + keyring" where
  "NewKeyring ks =
     (case ks of
        [] \<Rightarrow> Inl (TokErrInvalid ''keyring needs at least one key'')
      | k # _ \<Rightarrow> add_keys \<lparr>signKid = Kid k, keys = Map.empty\<rparr> ks)"

definition clockSkew :: duration where
  "clockSkew = 60 * second"

definition token_tag :: "mac_fun \<Rightarrow> bytes \<Rightarrow> bytes \<Rightarrow> bytes" where
  "token_tag hm key payload = hm key (token_domain @ payload)"

subsection \<open>The payload as JSON\<close>

definition opt_str :: "bytes \<Rightarrow> bytes \<Rightarrow> (bytes \<times> json) list" where
  "opt_str k v = (if v = [] then [] else [(k, JStr v)])"

definition opt_int :: "bytes \<Rightarrow> int \<Rightarrow> (bytes \<times> json) list" where
  "opt_int k v = (if v = 0 then [] else [(k, JNum (show_int v))])"

definition pass_json :: "pass \<Rightarrow> json" where
  "pass_json p = JObj
     ([(''v'', JNum (show_int (pass_V p))), (''kid'', JStr (pass_Kid p)), (''kind'', JStr (pass_Kind p)),
       (''scope'', JStr (pass_Scope p))]
      @ opt_str ''aud'' (pass_Aud p)
      @ [(''iat'', JNum (show_int (pass_Iat p))), (''exp'', JNum (show_int (pass_Exp p)))]
      @ opt_str ''ipp'' (pass_IPP p)
      @ opt_str ''uah'' (pass_UAH p)
      @ opt_int ''rt'' (pass_Rt p)
      @ opt_str ''payer'' (pass_Payer p)
      @ opt_str ''tx'' (pass_Tx p))"

definition pass_of_members :: "(bytes \<times> json) list \<Rightarrow> pass option" where
  "pass_of_members ms =
     (case (dec_int64 0 (obj_values ''v'' ms), dec_string [] (obj_values ''kid'' ms),
            dec_string [] (obj_values ''kind'' ms), dec_string [] (obj_values ''scope'' ms),
            dec_string [] (obj_values ''aud'' ms), dec_int64 0 (obj_values ''iat'' ms),
            dec_int64 0 (obj_values ''exp'' ms), dec_string [] (obj_values ''ipp'' ms),
            dec_string [] (obj_values ''uah'' ms), dec_int64 0 (obj_values ''rt'' ms),
            dec_string [] (obj_values ''payer'' ms), dec_string [] (obj_values ''tx'' ms)) of
        (Some v, Some kid, Some kind, Some scope, Some aud, Some iat, Some ex, Some ipp, Some uah,
         Some rt, Some payer, Some tx) \<Rightarrow>
          Some \<lparr>pass_V = v, pass_Kid = kid, pass_Kind = kind, pass_Scope = scope, pass_Aud = aud,
                pass_Iat = iat, pass_Exp = ex, pass_IPP = ipp, pass_UAH = uah, pass_Rt = rt,
                pass_Payer = payer, pass_Tx = tx\<rparr>
      | _ \<Rightarrow> None)"

text \<open>\<open>json.Unmarshal\<close> into a zero \<open>Pass\<close>: a top-level \<open>null\<close> changes nothing.\<close>

definition pass_unmarshal :: "bytes \<Rightarrow> pass option" where
  "pass_unmarshal s =
     (case json_parse s of
        Some JNull \<Rightarrow> Some zero_pass
      | Some (JObj ms) \<Rightarrow> pass_of_members ms
      | _ \<Rightarrow> None)"

definition pass_marshal :: "pass \<Rightarrow> bytes" where
  "pass_marshal p = json_print (pass_json p)"

subsection \<open>\<open>Mint\<close> and \<open>Verify\<close>\<close>

definition keyring_key :: "keyring \<Rightarrow> bytes \<Rightarrow> bytes" where
  "keyring_key kr kid = (case keys kr kid of None \<Rightarrow> [] | Some k \<Rightarrow> k)"

definition Mint :: "mac_fun \<Rightarrow> keyring \<Rightarrow> pass \<Rightarrow> token_error + bytes" where
  "Mint hm kr p =
     (case pass_validate p of
        Some e \<Rightarrow> Inl e
      | None \<Rightarrow>
         (let p' = p\<lparr>pass_V := token_Version, pass_Kid := signKid kr\<rparr>;
              payload = pass_marshal p'
          in Inr (b64_encode RawURLEncoding payload @ ''.''
                  @ b64_encode RawURLEncoding (token_tag hm (keyring_key kr (signKid kr)) payload))))"

definition token_Verify :: "mac_fun \<Rightarrow> keyring \<Rightarrow> bytes \<Rightarrow> time \<Rightarrow> token_error + pass" where
  "token_Verify hm kr s now =
     (let (payloadB64, tagB64, ok) = cut CHR ''.'' s in
      if \<not> ok then Inl TokErrMalformed
      else (case b64_decode RawURLEncoding payloadB64 of
        None \<Rightarrow> Inl TokErrMalformed
      | Some payload \<Rightarrow>
       (case b64_decode RawURLEncoding tagB64 of
          None \<Rightarrow> Inl TokErrMalformed
        | Some got \<Rightarrow>
         (case pass_unmarshal payload of
            None \<Rightarrow> Inl TokErrMalformed
          | Some p \<Rightarrow>
             if pass_V p \<noteq> token_Version then Inl TokErrMalformed
             else (case keys kr (pass_Kid p) of
               None \<Rightarrow> Inl TokErrUnknownKid
             | Some key \<Rightarrow>
                if got \<noteq> token_tag hm key payload then Inl TokErrBadSignature
                else if pass_validate p \<noteq> None then Inl TokErrMalformed
                else if pass_Exp p \<le> time_unix now then Inl TokErrExpired
                else if time_unix (now + clockSkew) < pass_Iat p then Inl TokErrFromFuture
                else Inr p)))))"


subsection \<open>Decoding a cookie in steps\<close>

text \<open>
  \<open>token_open\<close> is the part of \<open>Verify\<close> before the key lookup: the payload bytes, the tag
  bytes and the decoded payload.
\<close>

definition token_open :: "bytes \<Rightarrow> (bytes \<times> bytes \<times> pass) option" where
  "token_open s =
     (let (payloadB64, tagB64, ok) = cut CHR ''.'' s in
      if \<not> ok then None
      else Option.bind (b64_decode RawURLEncoding payloadB64) (\<lambda>payload.
           Option.bind (b64_decode RawURLEncoding tagB64) (\<lambda>got.
           Option.bind (pass_unmarshal payload) (\<lambda>p.
             if pass_V p \<noteq> token_Version then None else Some (payload, got, p)))))"

lemma token_Verify_open:
  "token_Verify hm kr s now =
     (case token_open s of
        None \<Rightarrow> Inl TokErrMalformed
      | Some (payload, got, p) \<Rightarrow>
         (case keys kr (pass_Kid p) of
            None \<Rightarrow> Inl TokErrUnknownKid
          | Some key \<Rightarrow>
             if got \<noteq> token_tag hm key payload then Inl TokErrBadSignature
             else if pass_validate p \<noteq> None then Inl TokErrMalformed
             else if pass_Exp p \<le> time_unix now then Inl TokErrExpired
             else if time_unix (now + clockSkew) < pass_Iat p then Inl TokErrFromFuture
             else Inr p))"
proof -
  obtain a b ok where c: "cut CHR ''.'' s = (a, b, ok)" by (cases "cut CHR ''.'' s")
  note unfold = token_Verify_def token_open_def c Let_def prod.case option.case bind.simps
  show ?thesis
  proof (cases "b64_decode RawURLEncoding a"; cases "b64_decode RawURLEncoding b")
    fix payload got
    assume d: "b64_decode RawURLEncoding a = Some payload" "b64_decode RawURLEncoding b = Some got"
    show ?thesis
    proof (cases "pass_unmarshal payload")
      case None
      show ?thesis unfolding unfold d None by (cases ok) simp_all
    next
      case (Some p)
      show ?thesis unfolding unfold d Some
        by (cases ok; cases "pass_V p = token_Version";
            simp only: simp_thms if_True if_False option.case prod.case)
    qed
  qed (simp_all add: token_Verify_def token_open_def c)
qed

lemma token_Verify_Inr_iff:
  "token_Verify hm kr s now = Inr p \<longleftrightarrow>
     (\<exists>payload key. token_open s = Some (payload, token_tag hm key payload, p)
        \<and> keys kr (pass_Kid p) = Some key \<and> pass_validate p = None
        \<and> time_unix now < pass_Exp p \<and> pass_Iat p \<le> time_unix (now + clockSkew))"
  by (force simp: token_Verify_open not_le)

lemma token_open_Version: "token_open s = Some (payload, got, p) \<Longrightarrow> pass_V p = token_Version"
  by (auto simp: token_open_def Let_def Option.bind_eq_Some_conv split: prod.splits if_splits)

subsection \<open>Payload codec\<close>

definition pass_wf :: "pass \<Rightarrow> bool" where
  "pass_wf p \<longleftrightarrow>
     ascii_string (pass_Kid p) \<and> ascii_string (pass_Kind p) \<and> ascii_string (pass_Scope p)
     \<and> ascii_string (pass_Aud p) \<and> ascii_string (pass_IPP p) \<and> ascii_string (pass_UAH p)
     \<and> ascii_string (pass_Payer p) \<and> ascii_string (pass_Tx p)
     \<and> in_int64 (pass_V p) \<and> in_int64 (pass_Iat p) \<and> in_int64 (pass_Exp p) \<and> in_int64 (pass_Rt p)"

lemma json_ok_members_append [simp]:
  "json_ok_members (a @ b) \<longleftrightarrow> json_ok_members a \<and> json_ok_members b"
  by (induction a) auto

lemma opt_str_ok [simp]: "ascii_string k \<Longrightarrow> ascii_string v \<Longrightarrow> json_ok_members (opt_str k v)"
  by (simp add: opt_str_def)

lemma opt_int_ok [simp]: "ascii_string k \<Longrightarrow> json_ok_members (opt_int k v)"
  by (simp add: opt_int_def int_lit_show_int)

lemma ascii_chars:
  "ascii_char c \<longleftrightarrow> (of_char c :: nat) < 128"
  by (simp add: ascii_char_def byte_val_def)

lemma pass_json_ok: "pass_wf p \<Longrightarrow> json_ok (pass_json p)"
  by (simp add: pass_json_def pass_wf_def int_lit_show_int ascii_chars)

lemma pass_json_flat: "json_depth (pass_json p) \<le> maxNestingDepth"
  by (simp add: pass_json_def opt_str_def opt_int_def)

lemma obj_values_Nil [simp]: "obj_values f [] = []"
  by (simp add: obj_values_def)

lemma obj_values_Cons [simp]:
  "obj_values f ((k, v) # ms) = (if equal_fold k f then v # obj_values f ms else obj_values f ms)"
  by (simp add: obj_values_def)

lemma obj_values_append [simp]: "obj_values f (a @ b) = obj_values f a @ obj_values f b"
  by (simp add: obj_values_def)

definition opt_jstr :: "bytes \<Rightarrow> json list" where
  "opt_jstr v = (if v = [] then [] else [JStr v])"

definition opt_jint :: "int \<Rightarrow> json list" where
  "opt_jint v = (if v = 0 then [] else [JNum (show_int v)])"

lemma obj_values_opt_str [simp]:
  "obj_values f (opt_str k v) = (if equal_fold k f then opt_jstr v else [])"
  by (simp add: opt_str_def opt_jstr_def)

lemma obj_values_opt_int [simp]:
  "obj_values f (opt_int k v) = (if equal_fold k f then opt_jint v else [])"
  by (simp add: opt_int_def opt_jint_def)

lemma dec_int64_show [simp]: "in_int64 i \<Longrightarrow> dec_int64 v [JNum (show_int i)] = Some i"
  by (simp add: parse_int64_show_int)

lemma dec_int64_opt [simp]: "in_int64 i \<Longrightarrow> dec_int64 0 (opt_jint i) = Some i"
  by (simp add: parse_int64_show_int opt_jint_def)

lemma dec_string_opt [simp]: "dec_string [] (opt_jstr v) = Some v"
  by (simp add: opt_jstr_def)

lemma pass_fields_lower:
  "to_lower ''v'' = ''v''" "to_lower ''kid'' = ''kid''" "to_lower ''kind'' = ''kind''"
  "to_lower ''scope'' = ''scope''" "to_lower ''aud'' = ''aud''" "to_lower ''iat'' = ''iat''"
  "to_lower ''exp'' = ''exp''" "to_lower ''ipp'' = ''ipp''" "to_lower ''uah'' = ''uah''"
  "to_lower ''rt'' = ''rt''" "to_lower ''payer'' = ''payer''" "to_lower ''tx'' = ''tx''"
  by code_simp+

lemma pass_json_parse:
  "pass_wf p \<Longrightarrow> json_parse (pass_marshal p) = Some (pass_json p)"
  unfolding pass_marshal_def by (rule json_parse_print [OF pass_json_ok pass_json_flat])

lemma pass_unmarshal_marshal: "pass_wf p \<Longrightarrow> pass_unmarshal (pass_marshal p) = Some p"
  by (simp add: pass_unmarshal_def pass_json_parse)
    (simp add: pass_json_def pass_of_members_def equal_fold_def pass_fields_lower pass_wf_def
      del: dec_int64.simps)

interpretation pass_payload: codec pass_marshal pass_unmarshal pass_wf
  by unfold_locales (rule pass_unmarshal_marshal)

subsection \<open>The keyring invariant\<close>

definition keyring_ok :: "keyring \<Rightarrow> bool" where
  "keyring_ok kr \<longleftrightarrow>
     keys kr (signKid kr) \<noteq> None
     \<and> (\<forall>kid key. keys kr kid = Some key \<longrightarrow> kid \<noteq> [] \<and> 16 \<le> length key)"

lemma add_keys_signKid: "add_keys kr ks = Inr kr' \<Longrightarrow> signKid kr' = signKid kr"
  by (induction kr ks rule: add_keys.induct) auto

lemma map_add_upd_fresh: "n k = None \<Longrightarrow> m(k \<mapsto> v) ++ n = (m ++ n)(k \<mapsto> v)"
  by (rule ext) (simp add: map_add_def split: option.split)

abbreviation key_map :: "hmac_key list \<Rightarrow> bytes \<rightharpoonup> bytes" where
  "key_map ks \<equiv> map_of (map (\<lambda>k. (Kid k, KeyBytes k)) ks)"

lemma key_map_fresh: "Kid k \<notin> Kid ` set ks \<Longrightarrow> key_map ks (Kid k) = None"
  by (auto simp: map_of_eq_None_iff)

lemma add_keys_keys:
  "add_keys kr ks = Inr kr' \<Longrightarrow>
     keys kr' = keys kr ++ key_map ks
     \<and> (\<forall>k\<in>set ks. Kid k \<noteq> [] \<and> 16 \<le> length (KeyBytes k) \<and> keys kr (Kid k) = None)
     \<and> distinct (map Kid ks)"
proof (induction kr ks rule: add_keys.induct)
  case (2 kr k ks)
  then have ih: "keys kr' = (keys kr)(Kid k \<mapsto> KeyBytes k) ++ key_map ks"
    "\<forall>k'\<in>set ks. Kid k' \<noteq> [] \<and> 16 \<le> length (KeyBytes k')
       \<and> ((keys kr)(Kid k \<mapsto> KeyBytes k)) (Kid k') = None"
    "distinct (map Kid ks)"
    by (simp_all del: fun_upd_apply)
  from ih(2) have fresh: "Kid k \<notin> Kid ` set ks"
    by (metis (no_types, lifting) fun_upd_same image_iff option.distinct(1))
  have "keys kr' = keys kr ++ key_map (k # ks)"
    unfolding ih(1) by (simp add: map_add_upd_fresh [where n = "key_map ks", OF key_map_fresh [OF fresh]] del: fun_upd_apply)
  moreover have "\<forall>k'\<in>set ks. keys kr (Kid k') = None"
    using ih(2) by (auto split: if_splits)
  moreover have "\<forall>k'\<in>set ks. Kid k' \<noteq> [] \<and> 16 \<le> length (KeyBytes k')"
    using ih(2) by blast
  ultimately show ?case using 2(2) ih(3) fresh by (simp del: fun_upd_apply)
qed simp

lemma NewKeyring_keys:
  assumes "NewKeyring ks = Inr kr"
  shows "keys kr = key_map ks \<and> signKid kr = Kid (hd ks) \<and> ks \<noteq> [] \<and> distinct (map Kid ks)
    \<and> (\<forall>k\<in>set ks. Kid k \<noteq> [] \<and> 16 \<le> length (KeyBytes k))"
proof (cases ks)
  case (Cons k t)
  with assms have a: "add_keys \<lparr>signKid = Kid k, keys = Map.empty\<rparr> ks = Inr kr"
    by (simp add: NewKeyring_def)
  show ?thesis
    using add_keys_keys [OF a] add_keys_signKid [OF a] by (simp add: Cons)
qed (use assms in \<open>simp add: NewKeyring_def\<close>)

lemma NewKeyring_ok:
  assumes n: "NewKeyring ks = Inr kr" shows "keyring_ok kr"
proof -
  note k = NewKeyring_keys [OF n]
  have "keys kr (signKid kr) = Some (KeyBytes (hd ks))"
    using k by (cases ks) auto
  moreover have "kid \<noteq> [] \<and> 16 \<le> length key" if "keys kr kid = Some key" for kid key
  proof -
    have "(kid, key) \<in> set (map (\<lambda>k. (Kid k, KeyBytes k)) ks)"
      using that k by (metis map_of_SomeD)
    then show ?thesis using k by auto
  qed
  ultimately show ?thesis by (auto simp: keyring_ok_def)
qed

subsection \<open>\<open>Mint\<close> and \<open>Verify\<close> together\<close>

lemma token_open_mint:
  assumes "pass_wf p" "pass_V p = token_Version"
  shows "token_open (b64_encode RawURLEncoding (pass_marshal p) @ ''.'' @ b64_encode RawURLEncoding t)
    = Some (pass_marshal p, t, p)"
  using assms by (simp add: token_open_def b64_encode_no_dot pass_unmarshal_marshal)

lemma pass_validate_stamp [simp]:
  "pass_validate (p\<lparr>pass_V := v, pass_Kid := k\<rparr>) = pass_validate p"
  by (simp add: pass_validate_def)

lemma token_roundtrip:
  assumes kr: "keyring_ok kr" "ascii_string (signKid kr)" and wf: "pass_wf p"
    and mint: "Mint hm kr p = Inr s"
    and live: "time_unix now < pass_Exp p" "pass_Iat p \<le> time_unix (now + clockSkew)"
  shows "token_Verify hm kr s now = Inr (p\<lparr>pass_V := token_Version, pass_Kid := signKid kr\<rparr>)"
proof -
  let ?q = "p\<lparr>pass_V := token_Version, pass_Kid := signKid kr\<rparr>"
  obtain key where key: "keys kr (signKid kr) = Some key" using kr(1) by (auto simp: keyring_ok_def)
  have valid: "pass_validate p = None"
    and s: "s = b64_encode RawURLEncoding (pass_marshal ?q) @ ''.''
      @ b64_encode RawURLEncoding (token_tag hm key (pass_marshal ?q))"
    using mint key by (auto simp: Mint_def Let_def keyring_key_def)
  have "pass_wf ?q" using wf kr(2) by (simp add: pass_wf_def token_Version_def in_int64_def min_int64_def max_int64_def)
  then have "token_open s = Some (pass_marshal ?q, token_tag hm key (pass_marshal ?q), ?q)"
    unfolding s by (rule token_open_mint) simp
  then show ?thesis using key valid live by (simp add: token_Verify_Inr_iff)
qed

text \<open>A keyring and a pass at which the hypotheses of this development hold.\<close>

definition demo_key :: hmac_key where
  "demo_key = \<lparr>Kid = ''k1'', KeyBytes = ''0123456789abcdef''\<rparr>"

definition demo_new_key :: hmac_key where
  "demo_new_key = \<lparr>Kid = ''k2'', KeyBytes = ''fedcba9876543210''\<rparr>"

definition demo_keyring :: keyring where
  "demo_keyring = \<lparr>signKid = ''k1'', keys = [''k1'' \<mapsto> ''0123456789abcdef'']\<rparr>"

definition demo_pass :: pass where
  "demo_pass = \<lparr>pass_V = 1, pass_Kid = ''k1'', pass_Kind = ''pow'', pass_Scope = ''*'',
     pass_Aud = ''example.com'', pass_Iat = 1000, pass_Exp = 4600, pass_IPP = ''192.0.2.0/24'',
     pass_UAH = ''abc'', pass_Rt = 1000, pass_Payer = [], pass_Tx = []\<rparr>"

definition demo_cookie :: "mac_fun \<Rightarrow> bytes" where
  "demo_cookie hm = b64_encode RawURLEncoding (pass_marshal demo_pass) @ ''.''
     @ b64_encode RawURLEncoding (token_tag hm ''0123456789abcdef'' (pass_marshal demo_pass))"

lemma demo_keyring: "NewKeyring [demo_key] = Inr demo_keyring"
  by (simp add: NewKeyring_def demo_key_def demo_keyring_def)

lemma demo_pass_wf: "pass_wf demo_pass" by code_simp
lemma demo_pass_valid: "pass_validate demo_pass = None" by code_simp

lemma demo_pass_stamp: "demo_pass\<lparr>pass_V := token_Version, pass_Kid := ''k1''\<rparr> = demo_pass"
  by (simp add: demo_pass_def token_Version_def)

lemma demo_mint: "Mint hm demo_keyring demo_pass = Inr (demo_cookie hm)"
  by (simp add: Mint_def demo_pass_valid demo_cookie_def demo_keyring_def keyring_key_def
      demo_pass_stamp [unfolded token_Version_def] token_Version_def Let_def)

lemma demo_keyring_facts: "keyring_ok demo_keyring" "ascii_string (signKid demo_keyring)"
  using NewKeyring_ok [OF demo_keyring] by (simp_all add: demo_keyring_def ascii_chars)

lemma demo_live:
  "time_unix (unix_time 2000) < pass_Exp demo_pass"
  "pass_Iat demo_pass \<le> time_unix (unix_time 2000 + clockSkew)"
  by (simp_all add: demo_pass_def time_unix_def unix_time_def clockSkew_def second_def)

lemma demo_verify: "token_Verify hm demo_keyring (demo_cookie hm) (unix_time 2000) = Inr demo_pass"
  using token_roundtrip [OF demo_keyring_facts demo_pass_wf demo_mint demo_live]
  by (simp add: demo_keyring_def demo_pass_stamp)

subsection \<open>Properties\<close>

text \<open>A pass the gate mints is accepted by every instance holding the keyring for as long as it
  is live, and what \<open>Verify\<close> returns is the minted pass with the version and key id stamped.\<close>

theorem Verify_Mint:
  assumes "NewKeyring ks = Inr kr" and "ascii_string (signKid kr)" and "pass_wf p"
    and "Mint hm kr p = Inr s"
    and "time_unix now < pass_Exp p" and "pass_Iat p \<le> time_unix (now + clockSkew)"
  shows "token_Verify hm kr s now = Inr (p\<lparr>pass_V := token_Version, pass_Kid := signKid kr\<rparr>)"
  using NewKeyring_ok [OF assms(1)] assms(2-) by (rule token_roundtrip)

lemma Verify_Mint_witness:
  "token_Verify (\<lambda>k m. k) demo_keyring (demo_cookie (\<lambda>k m. k)) (unix_time 2000)
     = Inr (demo_pass\<lparr>pass_V := token_Version, pass_Kid := signKid demo_keyring\<rparr>)"
  by (rule Verify_Mint [OF demo_keyring demo_keyring_facts(2) demo_pass_wf demo_mint demo_live])

text \<open>C16: \<open>Verify\<close> accepts nothing else: an accepted cookie is a payload and the tag of exactly
  those payload bytes under a key of the ring, separated by the pass domain, and the pass is a
  valid variant inside its lifetime.\<close>

theorem Verify_sound:
  assumes "token_Verify hm kr s now = Inr p"
  shows "\<exists>payload key. token_open s = Some (payload, hm key (token_domain @ payload), p)
    \<and> pass_unmarshal payload = Some p \<and> keys kr (pass_Kid p) = Some key
    \<and> pass_V p = token_Version \<and> pass_validate p = None
    \<and> unix_time (pass_Iat p) \<le> now + clockSkew \<and> now < unix_time (pass_Exp p)"
proof -
  obtain payload key where o: "token_open s = Some (payload, token_tag hm key payload, p)"
    and k: "keys kr (pass_Kid p) = Some key" "pass_validate p = None"
    and t: "time_unix now < pass_Exp p" "pass_Iat p \<le> time_unix (now + clockSkew)"
    using assms by (auto simp: token_Verify_Inr_iff)
  have "unix_time (pass_Iat p) \<le> now + clockSkew"
    using t(2) unix_time_le [of "now + clockSkew"] unix_time_mono order_trans by blast
  moreover have "now < unix_time (pass_Exp p)" using t(1) by (simp add: time_unix_le_iff)
  moreover have "pass_unmarshal payload = Some p" "pass_V p = token_Version"
    using o by (auto simp: token_open_def Let_def Option.bind_eq_Some_conv split: prod.splits)
  ultimately show ?thesis using o k by (auto simp: token_tag_def)
qed

lemma Verify_sound_witness:
  "\<exists>payload key. token_open (demo_cookie (\<lambda>k m. k))
       = Some (payload, (\<lambda>k m. k) key (token_domain @ payload), demo_pass)
    \<and> pass_unmarshal payload = Some demo_pass \<and> keys demo_keyring (pass_Kid demo_pass) = Some key
    \<and> pass_V demo_pass = token_Version \<and> pass_validate demo_pass = None
    \<and> unix_time (pass_Iat demo_pass) \<le> unix_time 2000 + clockSkew
    \<and> unix_time 2000 < unix_time (pass_Exp demo_pass)"
  by (rule Verify_sound [OF demo_verify])

text \<open>Key rotation. A pass accepted by a keyring is accepted by the keyring with a new signing
  key put in front, so long as that ring can be built at all.\<close>

theorem Verify_rotation:
  assumes "NewKeyring ks = Inr kr" and "NewKeyring (k # ks) = Inr kr'"
    and "token_Verify hm kr s now = Inr p"
  shows "token_Verify hm kr' s now = Inr p"
proof -
  note new = NewKeyring_keys [OF assms(2)]
  have "keys kr' kid = Some key" if "keys kr kid = Some key" for kid key
    using that new NewKeyring_keys [OF assms(1)] key_map_fresh [of k ks]
    by (cases "kid = Kid k") auto
  with assms(3) show ?thesis by (auto simp: token_Verify_Inr_iff)
qed

lemma Verify_rotation_witness:
  "token_Verify (\<lambda>k m. k)
     \<lparr>signKid = ''k2'', keys = [''k1'' \<mapsto> ''0123456789abcdef'', ''k2'' \<mapsto> ''fedcba9876543210'']\<rparr>
     (demo_cookie (\<lambda>k m. k)) (unix_time 2000) = Inr demo_pass"
  by (rule Verify_rotation [OF demo_keyring _ demo_verify, of demo_new_key])
    (simp add: NewKeyring_def demo_new_key_def demo_key_def fun_upd_twist)

text \<open>C39: the clock is consulted only for authentic passes. When \<open>Verify\<close> reports an expired pass or
  one from the future, the tag was right, so an unsigned probe learns nothing about time
  handling.\<close>

theorem Verify_clock_only_after_signature:
  assumes "token_Verify hm kr s now = Inl TokErrExpired \<or> token_Verify hm kr s now = Inl TokErrFromFuture"
  shows "\<exists>payload key p. token_open s = Some (payload, hm key (token_domain @ payload), p)
    \<and> keys kr (pass_Kid p) = Some key \<and> pass_validate p = None"
proof -
  obtain payload got p where o: "token_open s = Some (payload, got, p)"
    using assms by (cases "token_open s") (auto simp: token_Verify_open)
  with assms show ?thesis
    by (cases "keys kr (pass_Kid p)") (auto simp: token_Verify_open token_tag_def split: if_splits)
qed

lemma demo_expired: "token_Verify hm demo_keyring (demo_cookie hm) (unix_time 4600) = Inl TokErrExpired"
proof -
  have "token_open (demo_cookie hm)
      = Some (pass_marshal demo_pass, token_tag hm ''0123456789abcdef'' (pass_marshal demo_pass), demo_pass)"
    unfolding demo_cookie_def by (rule token_open_mint [OF demo_pass_wf]) (simp add: demo_pass_def token_Version_def)
  then show ?thesis
    by (simp add: token_Verify_open demo_pass_valid) (simp add: demo_pass_def demo_keyring_def)
qed

lemma Verify_clock_only_after_signature_witness:
  "\<exists>payload key p. token_open (demo_cookie (\<lambda>k m. k))
       = Some (payload, (\<lambda>k m. k) key (token_domain @ payload), p)
    \<and> keys demo_keyring (pass_Kid p) = Some key \<and> pass_validate p = None"
  by (rule Verify_clock_only_after_signature [OF disjI1 [OF demo_expired]])

end
