(* ===== verification/Challenge.thy ===== *)
theory Challenge
  imports Token
begin

text \<open>
  Package \<open>internal/challenge\<close>: the signed proof profile, \<open>Issue\<close>, \<open>Verify\<close>, \<open>Threshold\<close> and
  \<open>CheckPoW\<close>. The HMAC \<open>hm\<close>, the hash \<open>sha\<close> and the random bytes are parameters; a
  difficulty is a rational, and \<open>math.Exp2\<close> is the parameter \<open>exp2\<close> of \<open>Threshold\<close>.
\<close>

definition challenge_domain :: bytes where
  "challenge_domain = ''anteroom-challenge-v2.''"

definition tsLen :: nat where "tsLen = 8"
definition randLen :: nat where "randLen = 16"
definition versionLen :: nat where "versionLen = 1"
definition kindLen :: nat where "kindLen = 1"
definition ttlLen :: nat where "ttlLen = 8"
definition thresholdLen :: nat where "thresholdLen = 32"
definition profileLen :: nat where "profileLen = versionLen + kindLen + ttlLen + thresholdLen"
definition macLen :: nat where "macLen = 32"
definition bodyLen :: nat where "bodyLen = tsLen + randLen + profileLen"
definition rawLen :: nat where "rawLen = bodyLen + macLen"
definition profileV1 :: char where "profileV1 = val_byte 1"
definition skew :: duration where "skew = 60 * second"

lemmas challenge_lens = tsLen_def randLen_def versionLen_def kindLen_def ttlLen_def
  thresholdLen_def profileLen_def macLen_def bodyLen_def rawLen_def

datatype challenge_error =
    ChErrMalformed
  | ChErrBadMAC
  | ChErrStale
  | ChErrProfile
  | ChErrWrongPoW
  | ChErrKeys       \<comment> \<open>the errors of \<open>NewIssuer\<close>\<close>
  | ChErrEntropy
  | ChErrRange      \<comment> \<open>\<open>Threshold\<close>: difficulty out of range\<close>
  | ChPanicNoKey    \<comment> \<open>\<open>i.keys[0]\<close> on an issuer without keys\<close>

subsection \<open>Big-endian integers\<close>

text \<open>\<open>be_bytes n v\<close> are the low \<open>n\<close> bytes of \<open>v\<close>, most significant first.\<close>

fun be_bytes :: "nat \<Rightarrow> nat \<Rightarrow> bytes" where
  "be_bytes 0 v = []"
| "be_bytes (Suc n) v = be_bytes n (v div 256) @ [val_byte v]"

fun be_acc :: "nat \<Rightarrow> bytes \<Rightarrow> nat" where
  "be_acc a [] = a"
| "be_acc a (c # cs) = be_acc (a * 256 + byte_val c) cs"

definition be_val :: "bytes \<Rightarrow> nat" where
  "be_val = be_acc 0"

text \<open>The conversions \<open>uint64(x)\<close> of an int64 and \<open>int64(u)\<close> of a uint64.\<close>

definition to_uint64 :: "int \<Rightarrow> nat" where
  "to_uint64 i = nat (i mod 2 ^ 64)"

definition of_uint64 :: "nat \<Rightarrow> int" where
  "of_uint64 u = (if u < 2 ^ 63 then int u else int u - 2 ^ 64)"

definition AppendUint64 :: "bytes \<Rightarrow> nat \<Rightarrow> bytes" where
  "AppendUint64 dst v = dst @ be_bytes 8 v"

subsection \<open>Proof profiles\<close>

type_synonym proof_kind = char

definition KindAdmit :: proof_kind where "KindAdmit = val_byte 1"
definition KindRenew :: proof_kind where "KindRenew = val_byte 2"

definition Kind_String :: "proof_kind \<Rightarrow> bytes" where
  "Kind_String k = (if k = KindRenew then ''renew'' else ''admit'')"

record profile =
  prof_Kind :: proof_kind
  prof_TTL :: duration
  prof_Threshold :: bytes

definition profile_validate :: "profile \<Rightarrow> challenge_error option" where
  "profile_validate p =
     (if prof_Kind p \<noteq> KindAdmit \<and> prof_Kind p \<noteq> KindRenew then Some ChErrProfile
      else if prof_TTL p \<le> 0 then Some ChErrProfile
      else None)"

definition appendProfile :: "bytes \<Rightarrow> profile \<Rightarrow> bytes" where
  "appendProfile dst p =
     AppendUint64 (dst @ [profileV1, prof_Kind p]) (to_uint64 (prof_TTL p)) @ prof_Threshold p"

definition parseProfile :: "bytes \<Rightarrow> challenge_error + profile" where
  "parseProfile raw =
     (if length raw \<noteq> profileLen \<or> raw ! 0 \<noteq> profileV1 then Inl ChErrProfile
      else
        (let p = \<lparr>prof_Kind = raw ! 1,
                  prof_TTL = of_uint64 (be_val (take ttlLen (drop 2 raw))),
                  prof_Threshold = take thresholdLen (drop (2 + ttlLen) raw)\<rparr>
         in (case profile_validate p of Some e \<Rightarrow> Inl e | None \<Rightarrow> Inr p)))"

subsection \<open>The issuer\<close>

type_synonym issuer = "hmac_key list"

definition NewIssuer :: "hmac_key list \<Rightarrow> challenge_error + issuer" where
  "NewIssuer ks =
     (if ks = [] then Inl ChErrKeys
      else if list_ex (\<lambda>k. length (KeyBytes k) < 16) ks then Inl ChErrKeys
      else Inr ks)"

definition challenge_mac :: "mac_fun \<Rightarrow> bytes \<Rightarrow> bytes \<Rightarrow> bytes \<Rightarrow> bytes" where
  "challenge_mac hm key body audience = hm key (challenge_domain @ body @ [CHR 0x00] @ audience)"

text \<open>
  \<open>rnd\<close> is what \<open>rand.Read\<close> returns: 16 bytes, or nothing. The result is the challenge and the
  instant it was stamped with.
\<close>

definition Issue ::
  "mac_fun \<Rightarrow> issuer \<Rightarrow> bytes option \<Rightarrow> time \<Rightarrow> bytes \<Rightarrow> profile \<Rightarrow> challenge_error + (bytes \<times> time)" where
  "Issue hm ks rnd now audience prof =
     (case profile_validate prof of
        Some e \<Rightarrow> Inl e
      | None \<Rightarrow>
         (let issuedAt = unix_time (time_unix now);
              raw = AppendUint64 [] (to_uint64 (time_unix issuedAt))
          in (case rnd of
                None \<Rightarrow> Inl ChErrEntropy
              | Some r \<Rightarrow>
                 (let raw = appendProfile (raw @ r) prof
                  in (case ks of
                        [] \<Rightarrow> Inl ChPanicNoKey
                      | k # _ \<Rightarrow>
                          Inr (b64_encode RawURLEncoding
                                 (raw @ challenge_mac hm (KeyBytes k) raw audience), issuedAt))))))"

text \<open>
  An accepted challenge gives its issue time and its profile. On \<open>ErrStale\<close> the Go function
  also returns both beside the error; no caller reads them, and they are left out.
\<close>

definition challenge_Verify ::
  "mac_fun \<Rightarrow> issuer \<Rightarrow> bytes \<Rightarrow> bytes \<Rightarrow> time \<Rightarrow> challenge_error + (time \<times> profile)" where
  "challenge_Verify hm ks s audience now =
     (case b64_decode RawURLEncoding s of
        None \<Rightarrow> Inl ChErrMalformed
      | Some raw \<Rightarrow>
         if length raw \<noteq> rawLen then Inl ChErrMalformed
         else
           (let body = take bodyLen raw; got = drop bodyLen raw in
            if \<not> list_ex (\<lambda>k. got = challenge_mac hm (KeyBytes k) body audience) ks then Inl ChErrBadMAC
            else
              (case parseProfile (drop (tsLen + randLen) body) of
                 Inl e \<Rightarrow> Inl e
               | Inr prof \<Rightarrow>
                  (let ts = unix_time (of_uint64 (be_val (take tsLen body))) in
                   if prof_TTL prof < time_sub now ts \<or> skew < time_sub ts now then Inl ChErrStale
                   else Inr (ts, prof)))))"

subsection \<open>Thresholds and proofs of work\<close>

definition challenge_Threshold :: "(rat \<Rightarrow> rat) \<Rightarrow> rat \<Rightarrow> challenge_error + bytes" where
  "challenge_Threshold exp2 difficulty =
     (if difficulty < 0 \<or> 255 < difficulty then Inl ChErrRange
      else
        (let ex = 256 - difficulty;
             intPart = nat \<lfloor>ex\<rfloor>;
             fracPart = ex - of_int \<lfloor>ex\<rfloor>;
             n = nat \<lfloor>exp2 fracPart * 2 ^ intPart\<rfloor>
         in if 2 ^ 256 \<le> n then Inr (replicate 32 (CHR 0xFF))
            else Inr (be_bytes 32 n)))"

fun pow_compare :: "bytes \<Rightarrow> bytes \<Rightarrow> challenge_error option" where
  "pow_compare (h # hs) (t # ts) =
     (if byte_val h < byte_val t then None
      else if byte_val t < byte_val h then Some ChErrWrongPoW
      else pow_compare hs ts)"
| "pow_compare _ _ = Some ChErrWrongPoW"

definition CheckPoW :: "(bytes \<Rightarrow> bytes) \<Rightarrow> bytes \<Rightarrow> bytes \<Rightarrow> bytes \<Rightarrow> challenge_error option" where
  "CheckPoW sha challengeStr nonce threshold = pow_compare (sha (challengeStr @ nonce)) threshold"

subsection \<open>Facts on big-endian integers\<close>

lemma length_be_bytes [simp]: "length (be_bytes n v) = n"
  by (induction n arbitrary: v) auto

lemma be_acc_append: "be_acc a (xs @ ys) = be_acc (be_acc a xs) ys"
  by (induction xs arbitrary: a) auto

lemma be_val_Nil [simp]: "be_val [] = 0"
  by (simp add: be_val_def)

lemma be_val_snoc: "be_val (xs @ [c]) = be_val xs * 256 + byte_val c"
  by (simp add: be_val_def be_acc_append)

lemma be_val_be_bytes: "v < 256 ^ n \<Longrightarrow> be_val (be_bytes n v) = v"
proof (induction n arbitrary: v)
  case (Suc n)
  then have "v div 256 < 256 ^ n" by (simp add: less_mult_imp_div_less mult.commute)
  with Suc.IH show ?case by (simp add: be_val_snoc)
qed simp

lemma be_acc_eq: "be_acc a xs = a * 256 ^ length xs + be_val xs"
proof (induction xs arbitrary: a)
  case (Cons c xs)
  have "be_val (c # xs) = byte_val c * 256 ^ length xs + be_val xs"
    unfolding be_val_def by (simp add: Cons [of "byte_val c"] be_val_def)
  then show ?case by (simp add: Cons algebra_simps)
qed simp

lemma be_val_Cons: "be_val (c # xs) = byte_val c * 256 ^ length xs + be_val xs"
  by (simp add: be_val_def be_acc_eq [of "byte_val c", unfolded be_val_def])

lemma be_val_lt: "be_val xs < 256 ^ length xs"
proof (induction xs)
  case (Cons c xs)
  have "byte_val c * 256 ^ length xs + be_val xs < (byte_val c + 1) * 256 ^ length xs"
    using Cons by simp
  also have "\<dots> \<le> 256 * 256 ^ length xs"
    using byte_val_lt [of c] by (intro mult_right_mono) linarith+
  finally show ?case by (simp add: be_val_Cons)
qed simp

lemma be_val_less_first:
  assumes "length xs = length ys" and "byte_val a < byte_val b"
  shows "be_val (a # xs) < be_val (b # ys)"
proof -
  have "be_val (a # xs) < (byte_val a + 1) * 256 ^ length xs"
    using be_val_lt [of xs] by (simp add: be_val_Cons)
  also have "\<dots> \<le> byte_val b * 256 ^ length ys"
    using mult_right_mono [of "byte_val a + 1" "byte_val b" "256 ^ length ys"] assms by simp
  also have "\<dots> \<le> be_val (b # ys)" by (simp add: be_val_Cons)
  finally show ?thesis .
qed

lemma pow_compare_iff:
  "length h = length t \<Longrightarrow> pow_compare h t = None \<longleftrightarrow> be_val h < be_val t"
proof (induction h t rule: list_induct2)
  case (Cons a xs b ys)
  show ?case
  proof (cases "byte_val a = byte_val b")
    case True
    with Cons show ?thesis by (simp add: be_val_Cons)
  next
    case False
    with Cons(1) be_val_less_first [of xs ys a b] be_val_less_first [of ys xs b a]
    show ?thesis by (auto simp: not_less less_imp_le dest: less_asym)
  qed
qed simp

lemma of_to_uint64: "in_int64 i \<Longrightarrow> of_uint64 (to_uint64 i) = i"
proof -
  assume "in_int64 i"
  then have "- (2 ^ 63) \<le> i \<and> i < 2 ^ 63" by (simp add: in_int64_def min_int64_def max_int64_def)
  moreover have "i mod 2 ^ 64 = i + 2 ^ 64" if "- (2 ^ 63) \<le> i" "i < 0"
    using that mod_pos_pos_trivial [of "i + 2 ^ 64" "2 ^ 64"] by simp
  ultimately show ?thesis
    by (cases "0 \<le> i") (auto simp: of_uint64_def to_uint64_def nat_less_iff)
qed

lemma to_uint64_lt: "to_uint64 i < 256 ^ 8"
  by (simp add: to_uint64_def nat_less_iff)

lemma be_uint64: "in_int64 i \<Longrightarrow> of_uint64 (be_val (be_bytes 8 (to_uint64 i))) = i"
  using be_val_be_bytes [OF to_uint64_lt, of i] by (simp add: of_to_uint64)

subsection \<open>The profile codec\<close>

definition profile_wf :: "profile \<Rightarrow> bool" where
  "profile_wf p \<longleftrightarrow>
     profile_validate p = None \<and> in_int64 (prof_TTL p) \<and> length (prof_Threshold p) = thresholdLen"

definition profile_bytes :: "profile \<Rightarrow> bytes" where
  "profile_bytes p = appendProfile [] p"

definition profile_read :: "bytes \<Rightarrow> profile option" where
  "profile_read raw = (case parseProfile raw of Inl _ \<Rightarrow> None | Inr p \<Rightarrow> Some p)"

lemma appendProfile_bytes: "appendProfile dst p = dst @ profile_bytes p"
  by (simp add: appendProfile_def profile_bytes_def AppendUint64_def)

lemma length_profile_bytes: "length (prof_Threshold p) = thresholdLen \<Longrightarrow> length (profile_bytes p) = profileLen"
  by (simp add: profile_bytes_def appendProfile_def AppendUint64_def challenge_lens)

lemma parseProfile_bytes:
  assumes "profile_wf p" shows "parseProfile (profile_bytes p) = Inr p"
proof -
  let ?r = "be_bytes 8 (to_uint64 (prof_TTL p))"
  have b: "profile_bytes p = profileV1 # prof_Kind p # ?r @ prof_Threshold p"
    by (simp add: profile_bytes_def appendProfile_def AppendUint64_def)
  have l: "length (prof_Threshold p) = 32"
    using assms by (simp add: profile_wf_def challenge_lens)
  have f: "take ttlLen (drop 2 (profile_bytes p)) = ?r"
    "take thresholdLen (drop (2 + ttlLen) (profile_bytes p)) = prof_Threshold p"
    "length (profile_bytes p) = profileLen" "profile_bytes p ! 0 = profileV1"
    "profile_bytes p ! 1 = prof_Kind p"
    unfolding b using l by (simp_all add: challenge_lens)
  have "profile_validate p = None" "in_int64 (prof_TTL p)" using assms by (simp_all add: profile_wf_def)
  moreover have "\<lparr>prof_Kind = prof_Kind p, prof_TTL = prof_TTL p, prof_Threshold = prof_Threshold p\<rparr> = p"
    by simp
  ultimately show ?thesis unfolding parseProfile_def f by (simp only: be_uint64 Let_def) simp
qed

interpretation profile_codec: codec profile_bytes profile_read profile_wf
  by unfold_locales (simp add: profile_read_def parseProfile_bytes)

subsection \<open>Issued challenges\<close>

definition challenge_body :: "time \<Rightarrow> bytes \<Rightarrow> profile \<Rightarrow> bytes" where
  "challenge_body now r prof = be_bytes 8 (to_uint64 (time_unix now)) @ r @ profile_bytes prof"

lemma Issue_Inr_iff:
  "Issue hm ks (Some r) now aud prof = Inr (s, t) \<longleftrightarrow>
     profile_validate prof = None \<and> t = unix_time (time_unix now)
     \<and> (\<exists>k ks'. ks = k # ks' \<and> s = b64_encode RawURLEncoding
          (challenge_body now r prof @ challenge_mac hm (KeyBytes k) (challenge_body now r prof) aud))"
  by (cases ks)
    (auto simp: Issue_def Let_def AppendUint64_def appendProfile_bytes challenge_body_def)

lemma challenge_Verify_raw:
  assumes "b64_decode RawURLEncoding s = Some (body @ tag)"
    and "length body = bodyLen" and "length tag = macLen"
  shows "challenge_Verify hm ks s aud now =
     (if \<not> list_ex (\<lambda>k. tag = challenge_mac hm (KeyBytes k) body aud) ks then Inl ChErrBadMAC
      else
        (case parseProfile (drop (tsLen + randLen) body) of
           Inl e \<Rightarrow> Inl e
         | Inr prof \<Rightarrow>
            (let ts = unix_time (of_uint64 (be_val (take tsLen body))) in
             if prof_TTL prof < time_sub now ts \<or> skew < time_sub ts now then Inl ChErrStale
             else Inr (ts, prof))))"
  using assms by (simp add: challenge_Verify_def rawLen_def Let_def)

lemma challenge_body_parts:
  assumes "length r = randLen" "profile_wf prof"
  shows "length (challenge_body now r prof) = bodyLen"
    and "drop (tsLen + randLen) (challenge_body now r prof) = profile_bytes prof"
    and "take tsLen (challenge_body now r prof) = be_bytes 8 (to_uint64 (time_unix now))"
  using assms length_profile_bytes [of prof]
  by (simp_all add: challenge_body_def profile_wf_def challenge_lens)

lemma challenge_roundtrip:
  assumes mac: "\<And>m. length (hm (KeyBytes k) m) = macLen"
    and i: "Issue hm (k # ks) (Some r) now aud prof = Inr (s, t)"
    and wf: "profile_wf prof" and r: "length r = randLen" and now: "in_int64 (time_unix now)"
    and k': "k \<in> set ks'"
  shows "challenge_Verify hm ks' s aud later =
    (if prof_TTL prof < time_sub later t \<or> skew < time_sub t later then Inl ChErrStale
     else Inr (t, prof))"
proof -
  let ?b = "challenge_body now r prof"
  note parts = challenge_body_parts [OF r wf, of now]
  have s: "b64_decode RawURLEncoding s = Some (?b @ challenge_mac hm (KeyBytes k) ?b aud)"
    and t: "t = unix_time (time_unix now)"
    using i by (auto simp: Issue_Inr_iff)
  have m: "list_ex (\<lambda>j. challenge_mac hm (KeyBytes k) ?b aud = challenge_mac hm (KeyBytes j) ?b aud) ks'"
    using k' by (auto simp: list_ex_iff)
  have "length (challenge_mac hm (KeyBytes k) ?b aud) = macLen"
    by (simp add: challenge_mac_def mac)
  then show ?thesis
    using m by (simp add: challenge_Verify_raw [OF s parts(1)] parts parseProfile_bytes wf be_uint64 now t Let_def)
qed

lemma parseProfile_valid: "parseProfile raw = Inr p \<Longrightarrow> profile_validate p = None"
  by (simp add: parseProfile_def Let_def) blast

lemma of_uint64_range: "u < 2 ^ 64 \<Longrightarrow> in_int64 (of_uint64 u)"
  by (simp add: of_uint64_def in_int64_def min_int64_def max_int64_def)

definition demo_profile :: profile where
  "demo_profile = \<lparr>prof_Kind = KindAdmit, prof_TTL = hour, prof_Threshold = replicate 32 CHR 0xFF\<rparr>"

definition const_mac :: mac_fun where
  "const_mac k m = replicate 32 CHR ''m''"

lemma demo_profile_facts:
  "profile_validate demo_profile = None" "profile_wf demo_profile" "prof_TTL demo_profile = 3600000000000"
  by (simp_all add: profile_wf_def demo_profile_def profile_validate_def hour_def in_int64_def
      min_int64_def max_int64_def thresholdLen_def)

lemma demo_issue:
  "\<exists>s. Issue const_mac [demo_key] (Some (replicate 16 CHR ''r'')) (unix_time 1000) ''example.com'' demo_profile
     = Inr (s, unix_time 1000)"
  by (simp add: Issue_Inr_iff demo_profile_facts)

subsection \<open>Properties\<close>

text \<open>C35: a challenge that one instance issues verifies on every instance that holds its key, for the
  same audience, from \<open>skew\<close> before its stamped instant until the end of its signed lifetime and
  not a nanosecond longer, and gives back the stamped instant and the promised profile. The
  stamped instant is the whole second of the issuer's clock.\<close>

theorem challenge_Verify_Issue:
  assumes "\<And>m. length (hm (KeyBytes k) m) = macLen"
    and "Issue hm (k # ks) (Some r) now aud prof = Inr (s, t)"
    and "profile_wf prof" and "length r = randLen" and "in_int64 (time_unix now)" and "k \<in> set ks'"
    and "in_int64 (later - t)" and "in_int64 (t - later)"
  shows "t = unix_time (time_unix now) \<and> challenge_Verify hm ks' s aud later =
      (if t + prof_TTL prof < later \<or> later + skew < t then Inl ChErrStale else Inr (t, prof))"
proof (rule conjI)
  show "t = unix_time (time_unix now)" using assms(2) by (simp add: Issue_Inr_iff)
  show "challenge_Verify hm ks' s aud later =
      (if t + prof_TTL prof < later \<or> later + skew < t then Inl ChErrStale else Inr (t, prof))"
    unfolding challenge_roundtrip [OF assms(1-6)] time_sub_exact [OF assms(7)] time_sub_exact [OF assms(8)]
    by (rule if_cong) auto
qed

lemma challenge_Verify_Issue_witness:
  "\<exists>s. challenge_Verify const_mac [demo_new_key, demo_key] s ''example.com'' (unix_time 2000)
     = Inr (unix_time 1000, demo_profile)"
proof -
  obtain s where i: "Issue const_mac [demo_key] (Some (replicate 16 CHR ''r'')) (unix_time 1000)
      ''example.com'' demo_profile = Inr (s, unix_time 1000)"
    using demo_issue by blast
  have "challenge_Verify const_mac [demo_new_key, demo_key] s ''example.com'' (unix_time 2000) =
    (if unix_time 1000 + prof_TTL demo_profile < unix_time 2000 \<or> unix_time 2000 + skew < unix_time 1000
     then Inl ChErrStale else Inr (unix_time 1000, demo_profile))"
    by (rule challenge_Verify_Issue [THEN conjunct2, OF _ i])
      (simp_all add: const_mac_def macLen_def randLen_def demo_profile_facts in_int64_def
        min_int64_def max_int64_def unix_time_def time_unix_def second_def)
  then show ?thesis by (auto simp: demo_profile_facts unix_time_def second_def skew_def)
qed

text \<open>C17: \<open>Verify\<close> accepts nothing else. An accepted challenge is a body and its MAC, under a key
  of the issuer, over that body and this audience; its profile is a valid one, it is not from the
  future beyond \<open>skew\<close>, and it is not older than the lifetime signed into it.\<close>

theorem challenge_Verify_sound:
  assumes "challenge_Verify hm ks s aud now = Inr (ts, prof)" and "prof_TTL prof < max_int64"
  shows "\<exists>body k. b64_decode RawURLEncoding s = Some (body @ challenge_mac hm (KeyBytes k) body aud)
    \<and> k \<in> set ks \<and> length body = bodyLen
    \<and> parseProfile (drop (tsLen + randLen) body) = Inr prof \<and> profile_validate prof = None
    \<and> ts = unix_time (of_uint64 (be_val (take tsLen body)))
    \<and> now \<le> ts + prof_TTL prof \<and> ts \<le> now + skew"
proof -
  obtain raw where raw: "b64_decode RawURLEncoding s = Some raw" "length raw = rawLen"
    using assms(1) by (auto simp: challenge_Verify_def)
  let ?b = "take bodyLen raw" and ?t = "drop bodyLen raw"
  have l: "length ?b = bodyLen" "length ?t = macLen" using raw(2) by (simp_all add: challenge_lens)
  have d: "b64_decode RawURLEncoding s = Some (?b @ ?t)" using raw(1) by simp
  from assms(1) have v: "\<exists>k\<in>set ks. ?t = challenge_mac hm (KeyBytes k) ?b aud"
    "parseProfile (drop (tsLen + randLen) ?b) = Inr prof"
    "ts = unix_time (of_uint64 (be_val (take tsLen ?b)))"
    "time_sub now ts \<le> prof_TTL prof" "time_sub ts now \<le> skew"
    unfolding challenge_Verify_raw [OF d l] by (auto simp: list_ex_iff Let_def)
  have "0 < prof_TTL prof"
    using parseProfile_valid [OF v(2)] by (auto simp: profile_validate_def split: if_splits)
  then have "now - ts \<le> prof_TTL prof" "ts - now \<le> skew"
    using v(4,5) assms(2) time_sub_le_iff [of "prof_TTL prof" now ts] time_sub_le_iff [of skew ts now]
    by (simp_all add: min_int64_def max_int64_def skew_def second_def)
  moreover from v(1) obtain k where "k \<in> set ks" "?t = challenge_mac hm (KeyBytes k) ?b aud" by blast
  ultimately show ?thesis using d l(1) v(2,3) parseProfile_valid [OF v(2)]
    by (intro exI [of _ ?b] exI [of _ k]) simp
qed

lemma demo_challenge:
  "\<exists>s. challenge_Verify const_mac [demo_key] s ''example.com'' (unix_time 1000) = Inr (unix_time 1000, demo_profile)"
proof -
  obtain s where i: "Issue const_mac [demo_key] (Some (replicate 16 CHR ''r'')) (unix_time 1000)
      ''example.com'' demo_profile = Inr (s, unix_time 1000)"
    using demo_issue by blast
  have "challenge_Verify const_mac [demo_key] s ''example.com'' (unix_time 1000) =
    (if prof_TTL demo_profile < time_sub (unix_time 1000) (unix_time 1000)
        \<or> skew < time_sub (unix_time 1000) (unix_time 1000)
     then Inl ChErrStale else Inr (unix_time 1000, demo_profile))"
    by (rule challenge_roundtrip [OF _ i])
      (simp_all add: const_mac_def macLen_def randLen_def demo_profile_facts in_int64_def min_int64_def max_int64_def)
  then show ?thesis
    by (auto simp: demo_profile_facts time_sub_def min_int64_def max_int64_def skew_def second_def)
qed

lemma challenge_Verify_sound_witness:
  "\<exists>s body. b64_decode RawURLEncoding s
     = Some (body @ challenge_mac const_mac (KeyBytes demo_key) body ''example.com'') \<and> length body = bodyLen"
proof -
  obtain s where v: "challenge_Verify const_mac [demo_key] s ''example.com'' (unix_time 1000)
      = Inr (unix_time 1000, demo_profile)"
    using demo_challenge by blast
  show ?thesis
    using challenge_Verify_sound [OF v] by (auto simp: demo_profile_facts max_int64_def)
qed

text \<open>Domain separation. No byte string that is authenticated as a pass is ever authenticated as a
  challenge, whatever the payload, the challenge body and the audience, so a key shared by the
  two cannot turn one into the other.\<close>

theorem mac_domain_separation:
  "\<exists>m m'. (\<forall>hm. token_tag hm key payload = hm key m)
    \<and> (\<forall>hm. challenge_mac hm key body aud = hm key m') \<and> m \<noteq> m'"
  by (intro exI [of _ "token_domain @ payload"] exI [of _ "challenge_domain @ body @ [CHR 0x00] @ aud"])
    (simp add: token_tag_def challenge_mac_def token_domain_def challenge_domain_def)

text \<open>The authenticated bytes of a challenge determine its body (issue time, randomness, profile)
  and its audience: two challenges for different virtual hosts, or with different promises, never
  share a MAC input.\<close>

theorem challenge_mac_binding:
  assumes "length body = bodyLen" and "length body' = bodyLen"
    and "challenge_mac (\<lambda>k m. m) key body aud = challenge_mac (\<lambda>k m. m) key body' aud'"
  shows "body = body' \<and> aud = aud'"
  using assms by (simp add: challenge_mac_def)

lemma challenge_mac_binding_witness:
  "replicate 66 CHR ''b'' = replicate 66 CHR ''b'' \<and> ''example.com'' = ''example.com''"
  by (rule challenge_mac_binding [of _ _ "[]"]) (simp_all add: challenge_lens)

text \<open>C40: the byte-by-byte comparison of \<open>CheckPoW\<close> accepts a nonce exactly when the hash, read as a
  big-endian number, is strictly below the threshold.\<close>

theorem CheckPoW_iff:
  assumes "length (sha (c @ nonce)) = 32" and "length threshold = 32"
  shows "CheckPoW sha c nonce threshold = None \<longleftrightarrow> be_val (sha (c @ nonce)) < be_val threshold"
  using assms by (simp add: CheckPoW_def pow_compare_iff)

lemma CheckPoW_iff_witness:
  "be_val ((\<lambda>_. replicate 32 CHR 0x01) (''c'' @ ''n'')) < be_val (replicate 32 CHR 0x02)"
  by (rule CheckPoW_iff [THEN iffD1]) (simp, simp, code_simp)

lemma be_val_all_ones: "be_val (replicate n CHR 0xFF) + 1 = 256 ^ n"
proof (induction n)
  case (Suc n)
  have "byte_val CHR 0xFF = 255" by code_simp
  with Suc show ?case by (simp add: be_val_Cons algebra_simps)
qed (simp add: be_val_def)

lemma all_ones_32: "be_val (replicate 32 CHR 0xFF) = 2 ^ 256 - 1"
proof -
  have "(256::nat) ^ 32 = 2 ^ 256" by simp
  then show ?thesis using be_val_all_ones [of 32] by (metis add_diff_cancel_right')
qed

text \<open>For a difficulty of \<open>d\<close> whole bits the threshold is \<open>2 ^ (256 - d)\<close>: exactly the hashes
  with \<open>d\<close> leading zero bits are accepted. For difficulty 0 it is \<open>2 ^ 256 - 1\<close>, the largest
  32-byte number.\<close>

theorem Threshold_whole_bits:
  assumes "exp2 0 = 1" and "d \<le> 255"
  shows "\<exists>t. challenge_Threshold exp2 (of_nat d) = Inr t \<and> length t = 32
    \<and> be_val t = (if d = 0 then 2 ^ 256 - 1 else 2 ^ (256 - d))"
proof (cases "d = 0")
  case True
  have "be_val (replicate 32 CHR 0xFF) = 2 ^ 256 - 1"
    by (rule all_ones_32)
  moreover have "challenge_Threshold exp2 (of_nat d) = Inr (replicate 32 CHR 0xFF)"
    using assms(1) by (simp add: True challenge_Threshold_def Let_def)
  ultimately show ?thesis
    by (intro exI [of _ "replicate 32 CHR 0xFF"]) (simp only: True if_True length_replicate simp_thms)
next
  case False
  obtain e where e: "256 = d + e" "256 - d = e"
    using assms(2) by (intro that [of "256 - d"]) simp_all
  let ?n = "2 ^ e :: nat"
  have ex: "256 - (of_nat d :: rat) = of_nat e"
    using arg_cong [OF e(1), of "of_nat :: nat \<Rightarrow> rat"] by simp
  have n: "?n < 2 ^ 256" using False e by (intro power_strict_increasing) auto
  have fl: "nat \<lfloor>(2::rat) ^ e\<rfloor> = ?n" by (simp add: nat_power_eq)
  have "challenge_Threshold exp2 (of_nat d)
      = (if 2 ^ 256 \<le> nat \<lfloor>(2::rat) ^ e\<rfloor> then Inr (replicate 32 CHR 0xFF)
         else Inr (be_bytes 32 (nat \<lfloor>(2::rat) ^ e\<rfloor>)))"
    using assms by (simp add: challenge_Threshold_def ex Let_def)
  then have "challenge_Threshold exp2 (of_nat d) = Inr (be_bytes 32 ?n)"
    using n by (simp only: fl not_le [symmetric] if_False)
  moreover have "(256::nat) ^ 32 = 2 ^ 256" by simp
  then have "be_val (be_bytes 32 ?n) = ?n" using n by (intro be_val_be_bytes) (simp only:)
  ultimately show ?thesis
    using False by (intro exI [of _ "be_bytes 32 ?n"]) (simp only: length_be_bytes if_False simp_thms e(2))
qed

lemma Threshold_whole_bits_witness:
  "\<exists>t. challenge_Threshold (\<lambda>_. 1) (of_nat 17) = Inr t \<and> length t = 32
    \<and> be_val t = (if (17::nat) = 0 then 2 ^ 256 - 1 else 2 ^ (256 - 17))"
  by (rule Threshold_whole_bits) simp_all

text \<open>The hash of all ones is refused even at difficulty 0.\<close>

lemma difficulty_zero_refuses_all_ones:
  "CheckPoW (\<lambda>_. replicate 32 CHR 0xFF) c nonce (replicate 32 CHR 0xFF) = Some ChErrWrongPoW"
proof -
  have "pow_compare (replicate n CHR 0xFF) (replicate n CHR 0xFF) = Some ChErrWrongPoW" for n
    by (induction n) simp_all
  then show ?thesis by (simp add: CheckPoW_def)
qed

end
