(* ===== verification/NetIP.thy ===== *)
theory NetIP
  imports GoStrings
begin

unbundle bit_operations_syntax

text \<open>
  The parts of Go's \<open>net/netip\<close> the code relies on: addresses (IPv4, IPv6 with a zone, or
  the invalid zero value), prefixes, their parsers and printers, \<open>Unmap\<close>, \<open>Contains\<close> and
  \<open>Masked\<close>.
\<close>

datatype addr =
    AddrInvalid
  | AddrV4 "32 word"
  | AddrV6 "128 word" bytes  \<comment> \<open>with its zone, empty for none\<close>

definition addr_IsValid :: "addr \<Rightarrow> bool" where
  "addr_IsValid a \<longleftrightarrow> a \<noteq> AddrInvalid"

fun addr_BitLen :: "addr \<Rightarrow> nat" where
  "addr_BitLen AddrInvalid = 0"
| "addr_BitLen (AddrV4 _) = 32"
| "addr_BitLen (AddrV6 _ _) = 128"

fun addr_Is4 :: "addr \<Rightarrow> bool" where
  "addr_Is4 (AddrV4 _) = True"
| "addr_Is4 _ = False"

fun addr_Is6 :: "addr \<Rightarrow> bool" where
  "addr_Is6 (AddrV6 _ _) = True"
| "addr_Is6 _ = False"

definition is_4in6 :: "128 word \<Rightarrow> bool" where
  "is_4in6 w \<longleftrightarrow> drop_bit 32 w = 0xFFFF"

text \<open>\<open>Unmap\<close> turns an IPv4-mapped IPv6 address into the IPv4 address, dropping its zone.\<close>

fun addr_Unmap :: "addr \<Rightarrow> addr" where
  "addr_Unmap (AddrV6 w z) = (if is_4in6 w then AddrV4 (ucast w) else AddrV6 w z)"
| "addr_Unmap a = a"

lemma addr_Unmap_idem [simp]: "addr_Unmap (addr_Unmap a) = addr_Unmap a"
  by (cases a) auto

fun addr_hasZone :: "addr \<Rightarrow> bool" where
  "addr_hasZone (AddrV6 _ z) = (z \<noteq> [])"
| "addr_hasZone _ = False"

fun addr_WithoutZone :: "addr \<Rightarrow> addr" where
  "addr_WithoutZone (AddrV6 w _) = AddrV6 w []"
| "addr_WithoutZone a = a"

subsection \<open>Parsing\<close>

definition dec_octet :: "bytes \<Rightarrow> nat option" where
  "dec_octet s =
     (if all_digits s \<and> (length s = 1 \<or> take 1 s \<noteq> ''0'') \<and> dec_val s \<le> 255 then Some (dec_val s)
      else None)"

fun octets_of :: "bytes list \<Rightarrow> nat list option" where
  "octets_of [] = Some []"
| "octets_of (s # ss) =
     (case dec_octet s of None \<Rightarrow> None
      | Some n \<Rightarrow> (case octets_of ss of None \<Rightarrow> None | Some ns \<Rightarrow> Some (n # ns)))"

text \<open>Four decimal fields without leading zeros.\<close>

definition parseIPv4Fields :: "bytes \<Rightarrow> nat list option" where
  "parseIPv4Fields s =
     (let parts = split_on CHR ''.'' s in if length parts = 4 then octets_of parts else None)"

definition bytes_word :: "nat list \<Rightarrow> 'a::len word" where
  "bytes_word ns = foldl (\<lambda>w n. w * 256 + of_nat n) 0 ns"

definition parseIPv4 :: "bytes \<Rightarrow> addr option" where
  "parseIPv4 s = map_option (\<lambda>ns. AddrV4 (bytes_word ns)) (parseIPv4Fields s)"

text \<open>
  The loop of \<open>parseIPv6\<close>: \<open>ip\<close> are the bytes so far, \<open>ell\<close> the position of \<open>::\<close>, \<open>s\<close> the rest.
  The result holds the bytes, the position of \<open>::\<close> and the unread rest.
\<close>

definition is_hex :: "char \<Rightarrow> bool" where
  "is_hex c \<longleftrightarrow> hex_digit_val c \<noteq> None"

function v6_loop ::
  "nat list \<Rightarrow> nat option \<Rightarrow> bytes \<Rightarrow> (nat list \<times> nat option \<times> bytes) option" where
  "v6_loop ip ell s =
     (if 16 \<le> length ip then Some (ip, ell, s)
      else
        (let hs = takeWhile is_hex s; r = dropWhile is_hex s in
         if hs = [] \<or> 4 < length hs then None
         else
           (case hex_val 0 hs of
              None \<Rightarrow> None
            | Some v \<Rightarrow>
               (case r of
                  [] \<Rightarrow> Some (ip @ [v div 256, v mod 256], ell, [])
                | c # r' \<Rightarrow>
                   if c = CHR ''.'' then
                     (if (ell = None \<and> length ip \<noteq> 12) \<or> 16 < length ip + 4 then None
                      else map_option (\<lambda>ns. (ip @ ns, ell, [])) (parseIPv4Fields s))
                   else if c \<noteq> CHR '':'' then None
                   else
                     (case r' of
                        [] \<Rightarrow> None
                      | d # r'' \<Rightarrow>
                         if d = CHR '':'' then
                           (if ell \<noteq> None then None
                            else if r'' = []
                            then Some (ip @ [v div 256, v mod 256], Some (length ip + 2), [])
                            else v6_loop (ip @ [v div 256, v mod 256]) (Some (length ip + 2)) r'')
                         else v6_loop (ip @ [v div 256, v mod 256]) ell r')))))"
  by pat_completeness auto
termination
  by (relation "measure (\<lambda>(ip, _, _). 16 - length ip)") auto

declare v6_loop.simps [simp del]

definition parseIPv6 :: "bytes \<Rightarrow> addr option" where
  "parseIPv6 inp =
     (let (s, zone, hasZone) = cut CHR ''%'' inp in
      if hasZone \<and> zone = [] then None
      else if s = ''::'' then Some (AddrV6 0 zone)
      else
        (case (if has_prefix s ''::'' then v6_loop [] (Some 0) (drop 2 s) else v6_loop [] None s) of
           None \<Rightarrow> None
         | Some (ip, ell, rest) \<Rightarrow>
            if rest \<noteq> [] then None
            else if length ip < 16 then
              (case ell of
                 None \<Rightarrow> None
               | Some e \<Rightarrow>
                  Some (AddrV6 (bytes_word
                    (take e ip @ replicate (16 - length ip) 0 @ drop e ip)) zone))
            else if ell \<noteq> None then None
            else Some (AddrV6 (bytes_word ip) zone)))"

text \<open>The first of \<open>.\<close>, \<open>:\<close> and \<open>%\<close> decides which parser runs.\<close>

definition ParseAddr :: "bytes \<Rightarrow> addr option" where
  "ParseAddr s =
     (case dropWhile (\<lambda>c. c \<noteq> CHR ''.'' \<and> c \<noteq> CHR '':'' \<and> c \<noteq> CHR ''%'') s of
        [] \<Rightarrow> None
      | c # _ \<Rightarrow>
         if c = CHR ''.'' then parseIPv4 s
         else if c = CHR '':'' then parseIPv6 s
         else None)"

subsection \<open>Prefixes\<close>

record ip_prefix =
  pfx_addr :: addr
  pfx_bits :: nat

definition PrefixFrom :: "addr \<Rightarrow> nat \<Rightarrow> ip_prefix" where
  "PrefixFrom a n = \<lparr>pfx_addr = addr_WithoutZone a, pfx_bits = n\<rparr>"

definition ParsePrefix :: "bytes \<Rightarrow> ip_prefix option" where
  "ParsePrefix s =
     (case last_index s ''/'' of
        None \<Rightarrow> None
      | Some i \<Rightarrow>
         (case ParseAddr (take i s) of
            None \<Rightarrow> None
          | Some a \<Rightarrow>
             (let b = drop (Suc i) s in
              if addr_hasZone a then None
              else if \<not> all_digits b \<or> (length b > 1 \<and> take 1 b = ''0'') then None
              else if addr_BitLen a < dec_val b then None
              else Some \<lparr>pfx_addr = a, pfx_bits = dec_val b\<rparr>)))"

fun mask_addr :: "addr \<Rightarrow> nat \<Rightarrow> addr" where
  "mask_addr AddrInvalid n = AddrInvalid"
| "mask_addr (AddrV4 w) n = AddrV4 (push_bit (32 - n) (drop_bit (32 - n) w))"
| "mask_addr (AddrV6 w z) n = AddrV6 (push_bit (128 - n) (drop_bit (128 - n) w)) []"

definition prefix_Masked :: "ip_prefix \<Rightarrow> ip_prefix" where
  "prefix_Masked p = \<lparr>pfx_addr = mask_addr (pfx_addr p) (pfx_bits p), pfx_bits = pfx_bits p\<rparr>"

definition prefix_Contains :: "ip_prefix \<Rightarrow> addr \<Rightarrow> bool" where
  "prefix_Contains p a =
     (if addr_hasZone a then False
      else
        (case (pfx_addr p, a) of
           (AddrV4 u, AddrV4 v) \<Rightarrow> pfx_bits p \<le> 32 \<and> drop_bit (32 - pfx_bits p) (v XOR u) = 0
         | (AddrV6 u _, AddrV6 v _) \<Rightarrow> pfx_bits p \<le> 128 \<and> drop_bit (128 - pfx_bits p) (v XOR u) = 0
         | _ \<Rightarrow> False))"

text \<open>\<open>Addr.Prefix(b)\<close>: the masked network of an address, or an error when \<open>b\<close> is too long.\<close>

definition addr_Prefix :: "addr \<Rightarrow> nat \<Rightarrow> ip_prefix option" where
  "addr_Prefix a b =
     (if a = AddrInvalid \<or> addr_BitLen a < b then None
      else Some \<lparr>pfx_addr = mask_addr a b, pfx_bits = b\<rparr>)"

subsection \<open>Printing\<close>

definition v4_string :: "32 word \<Rightarrow> bytes" where
  "v4_string w =
     join ''.'' (map (\<lambda>k. show_nat (unat (drop_bit k w AND 255))) [24, 16, 8, 0])"

definition v6_groups :: "128 word \<Rightarrow> 16 word list" where
  "v6_groups w = map (\<lambda>k. ucast (drop_bit k w)) [112, 96, 80, 64, 48, 32, 16, 0]"

definition hex_group :: "16 word \<Rightarrow> bytes" where
  "hex_group g =
     (let ds = map (\<lambda>k. hex_char (unat (drop_bit k g AND 15))) [12, 8, 4, 0];
          r = dropWhile (\<lambda>c. c = CHR ''0'') ds
      in if r = [] then ''0'' else r)"

text \<open>The longest run of at least two zero groups, the first of equals.\<close>

definition zero_run :: "16 word list \<Rightarrow> nat \<Rightarrow> nat" where
  "zero_run gs i = length (takeWhile (\<lambda>g. g = 0) (drop i gs))"

definition best_zero_run :: "16 word list \<Rightarrow> (nat \<times> nat) option" where
  "best_zero_run gs =
     foldl (\<lambda>best i.
        let l = zero_run gs i in
        if l \<ge> 2 \<and> (case best of None \<Rightarrow> True | Some (_, m) \<Rightarrow> l > m) then Some (i, l) else best)
       None [0..<length gs]"

definition v6_string :: "128 word \<Rightarrow> bytes" where
  "v6_string w =
     (let gs = v6_groups w in
      case best_zero_run gs of
        None \<Rightarrow> join '':'' (map hex_group gs)
      | Some (i, l) \<Rightarrow>
          join '':'' (map hex_group (take i gs)) @ ''::'' @ join '':'' (map hex_group (drop (i + l) gs)))"

fun addr_String :: "addr \<Rightarrow> bytes" where
  "addr_String AddrInvalid = ''invalid IP''"
| "addr_String (AddrV4 w) = v4_string w"
| "addr_String (AddrV6 w z) =
     (if is_4in6 w then ''::ffff:'' @ v4_string (ucast w) else v6_string w)
     @ (if z = [] then [] else ''%'' @ z)"

definition prefix_String :: "ip_prefix \<Rightarrow> bytes" where
  "prefix_String p = addr_String (pfx_addr p) @ ''/'' @ show_nat (pfx_bits p)"

subsection \<open>Facts\<close>

text \<open>Two addresses of one family share their first \<open>n\<close> bits.\<close>

lemma drop_bit_xor_0: "drop_bit k (v XOR u) = 0 \<longleftrightarrow> drop_bit k v = drop_bit k (u :: 'a::len word)"
proof
  assume "drop_bit k (v XOR u) = 0"
  then have "(drop_bit k v XOR drop_bit k u) XOR drop_bit k u = drop_bit k u" by (simp add: drop_bit_xor)
  then show "drop_bit k v = drop_bit k u" by (simp add: xor.assoc)
qed (simp add: drop_bit_xor)

lemma addr_hasZone_Unmap_V4 [simp]: "\<not> addr_hasZone (AddrV4 w)"
  by simp

lemma prefix_Contains_V4:
  "prefix_Contains \<lparr>pfx_addr = AddrV4 u, pfx_bits = n\<rparr> (AddrV4 v) \<longleftrightarrow>
     n \<le> 32 \<and> drop_bit (32 - n) v = drop_bit (32 - n) u"
  by (simp add: prefix_Contains_def drop_bit_xor_0 del: drop_bit_xor)

lemma prefix_Contains_V6:
  "prefix_Contains \<lparr>pfx_addr = AddrV6 u z, pfx_bits = n\<rparr> (AddrV6 v z') \<longleftrightarrow>
     z' = [] \<and> n \<le> 128 \<and> drop_bit (128 - n) v = drop_bit (128 - n) u"
  by (simp add: prefix_Contains_def drop_bit_xor_0 del: drop_bit_xor)

lemma drop_push_drop: "drop_bit k (push_bit k (drop_bit k (w :: 'a::len word))) = drop_bit k w"
  by (rule bit_word_eqI) (auto simp: bit_simps dest: bit_imp_le_length)

text \<open>Masking a prefix does not change which addresses it contains.\<close>

lemma prefix_Contains_Masked: "prefix_Contains (prefix_Masked p) a = prefix_Contains p a"
  by (cases "pfx_addr p"; cases a)
    (simp_all add: prefix_Contains_def prefix_Masked_def drop_bit_xor drop_push_drop)

text \<open>A network contains exactly the addresses whose own network of that length it is.\<close>

lemma addr_Prefix_eq_iff_V4:
  assumes "n \<le> 32"
  shows "addr_Prefix (AddrV4 u) n = addr_Prefix (AddrV4 v) n \<longleftrightarrow> drop_bit (32 - n) u = drop_bit (32 - n) v"
  using assms by (auto simp: addr_Prefix_def) (metis drop_push_drop)

end
