(* ===== verification/Http.thy ===== *)
theory Http
  imports GoStrings
begin

text \<open>
  The parts of Go's \<open>net/http\<close> and \<open>net\<close> the code relies on: header maps, the request as the
  gate reads it, cookies, and \<open>SplitHostPort\<close>. A header map is a function from header names
  to the list of their values; names are written in canonical form throughout
  (\<open>Payment-Signature\<close>), as \<open>textproto\<close> canonicalises every key it stores or looks up.
\<close>

subsection \<open>Headers\<close>

type_synonym header = "bytes \<Rightarrow> bytes list"

definition hdr_empty :: header where
  "hdr_empty = (\<lambda>_. [])"

definition hdr_Values :: "header \<Rightarrow> bytes \<Rightarrow> bytes list" where
  "hdr_Values h k = h k"

definition hdr_Get :: "header \<Rightarrow> bytes \<Rightarrow> bytes" where
  "hdr_Get h k = (case h k of [] \<Rightarrow> [] | v # _ \<Rightarrow> v)"

definition hdr_Set :: "header \<Rightarrow> bytes \<Rightarrow> bytes \<Rightarrow> header" where
  "hdr_Set h k v = h(k := [v])"

definition hdr_Add :: "header \<Rightarrow> bytes \<Rightarrow> bytes \<Rightarrow> header" where
  "hdr_Add h k v = h(k := h k @ [v])"

definition hdr_Del :: "header \<Rightarrow> bytes \<Rightarrow> header" where
  "hdr_Del h k = h(k := [])"

definition hdr_Del_all :: "header \<Rightarrow> bytes list \<Rightarrow> header" where
  "hdr_Del_all h ks = foldl hdr_Del h ks"

definition hdr_Set_list :: "header \<Rightarrow> bytes \<Rightarrow> bytes list \<Rightarrow> header" where
  "hdr_Set_list h k vs = foldl (\<lambda>h v. hdr_Add h k v) (hdr_Del h k) vs"

lemma hdr_Values_Set [simp]: "hdr_Values (hdr_Set h k v) k' = (if k' = k then [v] else hdr_Values h k')"
  by (simp add: hdr_Values_def hdr_Set_def)

lemma hdr_Values_Del [simp]: "hdr_Values (hdr_Del h k) k' = (if k' = k then [] else hdr_Values h k')"
  by (simp add: hdr_Values_def hdr_Del_def)

lemma hdr_Values_Add [simp]:
  "hdr_Values (hdr_Add h k v) k' = (if k' = k then hdr_Values h k @ [v] else hdr_Values h k')"
  by (simp add: hdr_Values_def hdr_Add_def)

lemma hdr_Get_Values: "hdr_Get h k = (case hdr_Values h k of [] \<Rightarrow> [] | v # _ \<Rightarrow> v)"
  by (simp add: hdr_Get_def hdr_Values_def)

lemma hdr_Get_Set [simp]: "hdr_Get (hdr_Set h k v) k' = (if k' = k then v else hdr_Get h k')"
  by (simp add: hdr_Get_Values)

lemma hdr_Get_Del [simp]: "hdr_Get (hdr_Del h k) k' = (if k' = k then [] else hdr_Get h k')"
  by (simp add: hdr_Get_Values)

lemma hdr_Values_empty [simp]: "hdr_Values hdr_empty k = []"
  by (simp add: hdr_Values_def hdr_empty_def)

lemma hdr_Values_Del_all:
  "hdr_Values (hdr_Del_all h ks) k = (if k \<in> set ks then [] else hdr_Values h k)"
  unfolding hdr_Del_all_def by (induction ks arbitrary: h) auto

lemma hdr_Values_foldl_Add:
  "hdr_Values (foldl (\<lambda>h v. hdr_Add h k v) h vs) k'
     = (if k' = k then hdr_Values h k @ vs else hdr_Values h k')"
  by (induction vs arbitrary: h) auto

lemma hdr_Values_Set_list [simp]:
  "hdr_Values (hdr_Set_list h k vs) k' = (if k' = k then vs else hdr_Values h k')"
  by (simp add: hdr_Set_list_def hdr_Values_foldl_Add)

lemma hdr_eqI: "(\<And>k. hdr_Values h k = hdr_Values h' k) \<Longrightarrow> h = h'"
  by (rule ext) (simp add: hdr_Values_def)

subsection \<open>Requests\<close>

text \<open>
  \<open>req_Path\<close> is \<open>URL.Path\<close> (decoded), \<open>req_EscapedPath\<close> is \<open>URL.EscapedPath()\<close>, \<open>req_TLS\<close> is
  \<open>r.TLS != nil\<close>.
\<close>

record request =
  req_Method :: bytes
  req_Path :: bytes
  req_EscapedPath :: bytes
  req_RawQuery :: bytes
  req_Host :: bytes
  req_Header :: header
  req_RemoteAddr :: bytes
  req_TLS :: bool
  req_Body :: bytes

definition req_Get :: "request \<Rightarrow> bytes \<Rightarrow> bytes" where
  "req_Get r k = hdr_Get (req_Header r) k"

subsection \<open>\<open>net.SplitHostPort\<close>\<close>

definition SplitHostPort :: "bytes \<Rightarrow> (bytes \<times> bytes) option" where
  "SplitHostPort hp =
     (case last_index hp '':'' of
        None \<Rightarrow> None
      | Some i \<Rightarrow>
         if take 1 hp = ''['' then
           (case str_index hp '']'' of
              None \<Rightarrow> None
            | Some e \<Rightarrow>
               if e + 1 \<noteq> i then None
               else if CHR ''['' \<in> set (drop 1 hp) \<or> CHR '']'' \<in> set (drop (e + 1) hp) then None
               else Some (take (e - 1) (drop 1 hp), drop (i + 1) hp))
         else if CHR '':'' \<in> set (take i hp) then None
         else if CHR ''['' \<in> set hp \<or> CHR '']'' \<in> set hp then None
         else Some (take i hp, drop (i + 1) hp))"

subsection \<open>Cookies\<close>

definition char_between :: "char \<Rightarrow> char \<Rightarrow> char \<Rightarrow> bool" where
  "char_between lo hi c \<longleftrightarrow> byte_val lo \<le> byte_val c \<and> byte_val c \<le> byte_val hi"

definition is_token_char :: "char \<Rightarrow> bool" where
  "is_token_char c \<longleftrightarrow>
     char_between CHR ''a'' CHR ''z'' c \<or> char_between CHR ''A'' CHR ''Z'' c \<or> is_digit c
     \<or> c \<in> set ''!#$%&*+-.^_|~'' \<or> c = CHR 0x27 \<or> c = CHR 0x60"

definition is_token :: "bytes \<Rightarrow> bool" where
  "is_token s \<longleftrightarrow> s \<noteq> [] \<and> list_all is_token_char s"

definition valid_cookie_byte :: "char \<Rightarrow> bool" where
  "valid_cookie_byte c \<longleftrightarrow>
     char_between CHR 0x20 CHR 0x7E c \<and> c \<noteq> CHR 0x22 \<and> c \<noteq> CHR '';'' \<and> c \<noteq> CHR 0x5C"

definition parse_cookie_value :: "bytes \<Rightarrow> bytes option" where
  "parse_cookie_value raw =
     (let v = (if 1 < length raw \<and> hd raw = CHR 0x22 \<and> last raw = CHR 0x22
               then butlast (tl raw) else raw)
      in if list_all valid_cookie_byte v then Some v else None)"

definition parse_cookie :: "bytes \<Rightarrow> (bytes \<times> bytes) option" where
  "parse_cookie part =
     (let p = trim_space part in
      if p = [] then None
      else
        (let (name, val, _) = cut CHR ''='' p; name = trim_space name in
         if \<not> is_token name then None
         else map_option (\<lambda>v. (name, v)) (parse_cookie_value val)))"

definition Cookies :: "header \<Rightarrow> (bytes \<times> bytes) list" where
  "Cookies h =
     concat (map (\<lambda>line. List.map_filter parse_cookie (split_on CHR '';'' line)) (hdr_Values h ''Cookie''))"

end
