(* ===== verification/Bypass.thy ===== *)
theory Bypass
  imports NetIP Http
begin

text \<open>
  Package \<open>internal/bypass\<close>: the exempted paths and address ranges, and who the client of a
  request is when trusted proxies sit in front of the gate.
\<close>

record matcher =
  m_paths :: "bytes list"
  m_cidrs :: "ip_prefix list"
  m_trusted :: "ip_prefix list"

datatype bypass_error =
    BypassManyStars bytes
  | BypassNoSlash bytes
  | BypassBadPrefix bytes
  | BypassRemoteAddr bytes

fun parsePrefixes :: "bytes list \<Rightarrow> bypass_error + ip_prefix list" where
  "parsePrefixes [] = Inr []"
| "parsePrefixes (s # ss) =
     (case (case ParsePrefix s of
              Some p \<Rightarrow> Some p
            | None \<Rightarrow> map_option (\<lambda>a. PrefixFrom a (addr_BitLen a)) (ParseAddr s)) of
        None \<Rightarrow> Inl (BypassBadPrefix s)
      | Some p \<Rightarrow>
         (case parsePrefixes ss of
            Inl e \<Rightarrow> Inl e
          | Inr ps \<Rightarrow> Inr (prefix_Masked p # ps)))"

fun check_patterns :: "bytes list \<Rightarrow> bypass_error option" where
  "check_patterns [] = None"
| "check_patterns (pat # ps) =
     (if 1 < count_char CHR ''*'' pat then Some (BypassManyStars pat)
      else if \<not> has_prefix pat ''/'' then Some (BypassNoSlash pat)
      else check_patterns ps)"

definition bypass_New :: "bytes list \<Rightarrow> bytes list \<Rightarrow> bytes list \<Rightarrow> bypass_error + matcher" where
  "bypass_New paths cidrs trustedProxies =
     (case check_patterns paths of
        Some e \<Rightarrow> Inl e
      | None \<Rightarrow>
         (case parsePrefixes cidrs of
            Inl e \<Rightarrow> Inl e
          | Inr cs \<Rightarrow>
             (case parsePrefixes trustedProxies of
                Inl e \<Rightarrow> Inl e
              | Inr ts \<Rightarrow> Inr \<lparr>m_paths = paths, m_cidrs = cs, m_trusted = ts\<rparr>)))"

definition matchGlob :: "bytes \<Rightarrow> bytes \<Rightarrow> bool" where
  "matchGlob pat s =
     (let (pre, post, ok) = cut CHR ''*'' pat in
      if \<not> ok then pat = s
      else length pre + length post \<le> length s \<and> has_prefix s pre \<and> has_suffix s post)"

definition match_Path :: "matcher \<Rightarrow> bytes \<Rightarrow> bool" where
  "match_Path m reqPath \<longleftrightarrow> list_ex (\<lambda>pat. matchGlob pat reqPath) (m_paths m)"

definition pfx_contains :: "ip_prefix list \<Rightarrow> addr \<Rightarrow> bool" where
  "pfx_contains ps a = (let a = addr_Unmap a in list_ex (\<lambda>p. prefix_Contains p a) ps)"

definition match_IP :: "matcher \<Rightarrow> addr \<Rightarrow> bool" where
  "match_IP m a = pfx_contains (m_cidrs m) a"

definition remote_host :: "request \<Rightarrow> bytes" where
  "remote_host r = (case SplitHostPort (req_RemoteAddr r) of None \<Rightarrow> req_RemoteAddr r | Some (h, _) \<Rightarrow> h)"

definition TrustedPeer :: "matcher \<Rightarrow> request \<Rightarrow> bool" where
  "TrustedPeer m r = (case ParseAddr (remote_host r) of None \<Rightarrow> False | Some a \<Rightarrow> pfx_contains (m_trusted m) a)"

definition splitXFF :: "bytes list \<Rightarrow> bytes list" where
  "splitXFF vs =
     concat (map (\<lambda>v. filter (\<lambda>s. s \<noteq> []) (map trim_space (split_on CHR '','' v))) vs)"

text \<open>The walk over the hops, nearest first.\<close>

fun xff_walk :: "ip_prefix list \<Rightarrow> addr \<Rightarrow> bytes list \<Rightarrow> addr" where
  "xff_walk ts peer [] = peer"
| "xff_walk ts peer (h # hs) =
     (case ParseAddr h of
        None \<Rightarrow> peer
      | Some a \<Rightarrow>
         (let a = addr_Unmap a in if \<not> pfx_contains ts a then a else xff_walk ts peer hs))"

definition ClientIP :: "matcher \<Rightarrow> request \<Rightarrow> bypass_error + addr" where
  "ClientIP m r =
     (case ParseAddr (remote_host r) of
        None \<Rightarrow> Inl (BypassRemoteAddr (req_RemoteAddr r))
      | Some peer \<Rightarrow>
         (let peer = addr_Unmap peer in
          if \<not> pfx_contains (m_trusted m) peer then Inr peer
          else Inr (xff_walk (m_trusted m) peer
                      (rev (splitXFF (hdr_Values (req_Header r) ''X-Forwarded-For''))))))"

subsection \<open>Glob patterns\<close>

lemma cut_not_found: "cut c s = (a, b, False) \<Longrightarrow> a = s \<and> c \<notin> set s"
  by (induction s arbitrary: a b) (auto split: if_splits prod.splits)

lemma cut_found: "cut c s = (a, b, True) \<Longrightarrow> s = a @ c # b \<and> c \<notin> set a"
  by (induction s arbitrary: a b) (auto split: if_splits prod.splits)

lemma matchGlob_star:
  assumes "CHR ''*'' \<notin> set pre"
  shows "matchGlob (pre @ CHR ''*'' # post) s \<longleftrightarrow> (\<exists>mid. s = pre @ mid @ post)"
proof -
  have "(\<exists>mid. s = pre @ mid @ post)"
    if l: "length pre + length post \<le> length s" and p: "has_prefix s pre" and q: "has_suffix s post"
  proof -
    obtain u where u: "s = pre @ u" using p by (auto simp: has_prefix_iff)
    obtain v where v: "s = v @ post" using q by (auto simp: has_suffix_iff)
    have "length pre \<le> length v" using l v by simp
    with u v obtain w where "v = pre @ w" by (metis append_eq_append_conv_if append_take_drop_id)
    with v show ?thesis by auto
  qed
  then show ?thesis using assms
    by (auto simp: matchGlob_def has_prefix_iff has_suffix_iff)
qed

lemma matchGlob_plain: "CHR ''*'' \<notin> set pat \<Longrightarrow> matchGlob pat s \<longleftrightarrow> pat = s"
  by (simp add: matchGlob_def)

subsection \<open>Client addresses\<close>

lemma pfx_contains_Unmap [simp]: "pfx_contains ps (addr_Unmap a) = pfx_contains ps a"
  by (simp add: pfx_contains_def)

text \<open>A hop that names a trusted proxy; the walk goes on past it, and past no other.\<close>

definition trusted_hop :: "matcher \<Rightarrow> bytes \<Rightarrow> bool" where
  "trusted_hop m h \<longleftrightarrow> (case ParseAddr h of Some a \<Rightarrow> pfx_contains (m_trusted m) a | None \<Rightarrow> False)"

lemma xff_walk_trusted_append:
  "(\<forall>h\<in>set hs. trusted_hop m h) \<Longrightarrow> xff_walk (m_trusted m) peer (hs @ rest) = xff_walk (m_trusted m) peer rest"
  by (induction hs) (auto simp: trusted_hop_def split: option.splits)

lemma xff_walk_stops:
  "\<not> trusted_hop m h \<Longrightarrow>
     xff_walk (m_trusted m) peer (h # hs) = (case ParseAddr h of Some a \<Rightarrow> addr_Unmap a | None \<Rightarrow> peer)"
  by (simp add: trusted_hop_def split: option.splits)

lemma xff_walk_result:
  "xff_walk ts peer hs = peer \<or> \<not> pfx_contains ts (xff_walk ts peer hs)"
  by (induction hs) (auto simp: Let_def split: option.split)

lemma xff_walk_Unmap: "addr_Unmap peer = peer \<Longrightarrow> addr_Unmap (xff_walk ts peer hs) = xff_walk ts peer hs"
  by (induction hs) (auto simp: Let_def split: option.split)

lemma ClientIP_Unmap: "ClientIP m r = Inr a \<Longrightarrow> addr_Unmap a = a"
  by (auto simp: ClientIP_def Let_def xff_walk_Unmap split: option.splits if_splits)

lemma cut_star_cases:
  obtains (plain) "CHR ''*'' \<notin> set pat"
    | (star) pre post where "pat = pre @ CHR ''*'' # post" "CHR ''*'' \<notin> set pre"
proof (cases "CHR ''*'' \<in> set pat")
  case True
  from split_list_first [OF this] show ?thesis by (elim exE conjE) (rule star)
qed (rule plain)

lemma first_star_unique:
  assumes "pre @ (c::char) # post = pre' @ c # post'" and "c \<notin> set pre" and "c \<notin> set pre'"
  shows "pre = pre' \<and> post = post'"
proof -
  have "cut c (pre @ c # post) = cut c (pre' @ c # post')" by (rule arg_cong [OF assms(1)])
  then show ?thesis unfolding cut_append [OF assms(2)] cut_append [OF assms(3)] by simp
qed

lemma remote_host_Header [simp]: "remote_host (r\<lparr>req_Header := h\<rparr>) = remote_host r"
  by (simp add: remote_host_def split: option.split prod.split)

lemma ClientIP_trusted:
  assumes "ParseAddr (remote_host r) = Some peer" "pfx_contains (m_trusted m) peer"
  shows "ClientIP m r = Inr (xff_walk (m_trusted m) (addr_Unmap peer)
    (rev (splitXFF (hdr_Values (req_Header r) ''X-Forwarded-For''))))"
  using assms by (simp add: ClientIP_def)

text \<open>A peer that is not a trusted proxy is the client, whatever headers it sends.\<close>

lemma ClientIP_untrusted_peer:
  assumes "ParseAddr (remote_host r) = Some peer" "\<not> pfx_contains (m_trusted m) peer"
  shows "ClientIP m (r\<lparr>req_Header := h\<rparr>) = Inr (addr_Unmap peer)"
  using assms by (simp add: ClientIP_def Let_def)

subsection \<open>Properties\<close>

text \<open>A pattern without \<open>*\<close> matches itself only; a pattern with one matches exactly the strings that
  begin with what is before it and continue, without overlap, to what is after it.\<close>

theorem matchGlob_iff:
  "matchGlob pat s \<longleftrightarrow>
     (if CHR ''*'' \<in> set pat
      then \<exists>pre mid post. pat = pre @ ''*'' @ post \<and> CHR ''*'' \<notin> set pre \<and> s = pre @ mid @ post
      else s = pat)"
proof (cases pat rule: cut_star_cases)
  case plain
  then show ?thesis by (auto simp: matchGlob_plain)
next
  case (star pre post)
  then show ?thesis
    by (auto simp: matchGlob_star dest!: first_star_unique)
qed

text \<open>C25: client addresses cannot be forged through \<open>X-Forwarded-For\<close>. A peer that is not a trusted proxy is the
  client itself, whatever headers it sends. Behind a trusted proxy the client is the nearest hop that is not a trusted proxy,
  whatever stands to the left of it; a hop that is no address ends the walk, and then, as when every hop
  is a trusted proxy, the client is the peer.\<close>

theorem ClientIP_nearest_untrusted_hop:
  assumes "ParseAddr (remote_host r) = Some peer"
  shows "(\<not> pfx_contains (m_trusted m) peer \<longrightarrow> (\<forall>h. ClientIP m (r\<lparr>req_Header := h\<rparr>) = Inr (addr_Unmap peer)))
    \<and> (pfx_contains (m_trusted m) peer \<longrightarrow>
         (\<forall>left h right. splitXFF (hdr_Values (req_Header r) ''X-Forwarded-For'') = left @ h # right \<longrightarrow>
            (\<forall>t\<in>set right. trusted_hop m t) \<longrightarrow> \<not> trusted_hop m h \<longrightarrow>
            ClientIP m r = Inr (case ParseAddr h of Some a \<Rightarrow> addr_Unmap a | None \<Rightarrow> addr_Unmap peer))
         \<and> ((\<forall>t\<in>set (splitXFF (hdr_Values (req_Header r) ''X-Forwarded-For'')). trusted_hop m t) \<longrightarrow>
            ClientIP m r = Inr (addr_Unmap peer)))"
proof (intro conjI impI allI)
  fix h assume "\<not> pfx_contains (m_trusted m) peer"
  then show "ClientIP m (r\<lparr>req_Header := h\<rparr>) = Inr (addr_Unmap peer)"
    by (rule ClientIP_untrusted_peer [OF assms])
next
  fix left h right
  assume "pfx_contains (m_trusted m) peer" "splitXFF (hdr_Values (req_Header r) ''X-Forwarded-For'') = left @ h # right"
    and "\<forall>t\<in>set right. trusted_hop m t" "\<not> trusted_hop m h"
  then show "ClientIP m r = Inr (case ParseAddr h of Some a \<Rightarrow> addr_Unmap a | None \<Rightarrow> addr_Unmap peer)"
    by (simp add: ClientIP_trusted [OF assms] xff_walk_trusted_append xff_walk_stops del: xff_walk.simps)
next
  assume "pfx_contains (m_trusted m) peer" "\<forall>t\<in>set (splitXFF (hdr_Values (req_Header r) ''X-Forwarded-For'')). trusted_hop m t"
  then show "ClientIP m r = Inr (addr_Unmap peer)"
    using xff_walk_trusted_append [of "rev (splitXFF (hdr_Values (req_Header r) ''X-Forwarded-For''))" m "addr_Unmap peer" "[]"]
    by (simp add: ClientIP_trusted [OF assms])
qed

definition demo_matcher :: matcher where
  "demo_matcher = \<lparr>m_paths = [''/public/*''], m_cidrs = [],
     m_trusted = [\<lparr>pfx_addr = AddrV4 0x0A000000, pfx_bits = 8\<rparr>]\<rparr>"

definition demo_request :: request where
  "demo_request = \<lparr>req_Method = ''GET'', req_Path = ''/'', req_EscapedPath = ''/'', req_RawQuery = [],
     req_Host = ''example.com'',
     req_Header = hdr_Set hdr_empty ''X-Forwarded-For'' ''1.1.1.1, 192.0.2.7, 10.0.0.2'',
     req_RemoteAddr = ''10.0.0.1:4711'', req_TLS = False, req_Body = []\<rparr>"

lemma ClientIP_nearest_untrusted_hop_witness:
  "ClientIP demo_matcher demo_request = Inr (addr_Unmap (AddrV4 0xC0000207))
   \<and> ClientIP demo_matcher (demo_request\<lparr>req_RemoteAddr := ''192.0.2.9:4711''\<rparr>) = Inr (addr_Unmap (AddrV4 0xC0000209))"
proof
  have p: "ParseAddr (remote_host demo_request) = Some (AddrV4 0x0A000001)" by code_simp
  have "pfx_contains (m_trusted demo_matcher) (AddrV4 0x0A000001)" by code_simp
  moreover have "splitXFF (hdr_Values (req_Header demo_request) ''X-Forwarded-For'') = [''1.1.1.1''] @ ''192.0.2.7'' # [''10.0.0.2'']"
    by code_simp
  moreover have "\<forall>t\<in>set [''10.0.0.2'']. trusted_hop demo_matcher t" by code_simp
  moreover have "\<not> trusted_hop demo_matcher ''192.0.2.7''" by code_simp
  ultimately have "ClientIP demo_matcher demo_request
      = Inr (case ParseAddr ''192.0.2.7'' of Some a \<Rightarrow> addr_Unmap a | None \<Rightarrow> addr_Unmap (AddrV4 0x0A000001))"
    using ClientIP_nearest_untrusted_hop [OF p, of demo_matcher] by blast
  moreover have "ParseAddr ''192.0.2.7'' = Some (AddrV4 0xC0000207)" by code_simp
  ultimately show "ClientIP demo_matcher demo_request = Inr (addr_Unmap (AddrV4 0xC0000207))" by simp
next
  let ?r = "demo_request\<lparr>req_RemoteAddr := ''192.0.2.9:4711''\<rparr>"
  have "ParseAddr (remote_host ?r) = Some (AddrV4 0xC0000209)" by code_simp
  moreover have "\<not> pfx_contains (m_trusted demo_matcher) (AddrV4 0xC0000209)" by code_simp
  ultimately have "\<forall>h. ClientIP demo_matcher (?r\<lparr>req_Header := h\<rparr>) = Inr (addr_Unmap (AddrV4 0xC0000209))"
    using ClientIP_nearest_untrusted_hop [of ?r "AddrV4 0xC0000209" demo_matcher] by blast
  from spec [OF this, of "req_Header ?r"]
  show "ClientIP demo_matcher ?r = Inr (addr_Unmap (AddrV4 0xC0000209))" by simp
qed

end
