(* ===== verification/Activity.thy ===== *)
theory Activity
  imports Prelude "HOL-Library.Char_ord" "HOL-Library.List_Lexorder"
    "HOL-Library.Product_Lexorder" "HOL-Library.Multiset"
begin

text \<open>
  Package \<open>internal/activity\<close>: the bounded per-address log. A Go map is an association list
  with distinct keys; its order stands for the order in which \<open>range\<close> visits the entries, about
  which the theorems assume nothing.
\<close>

record act_entry =
  e_firstSeen :: time
  e_lastSeen :: time
  e_failed :: "64 word"
  e_admits :: "64 word"
  e_renews :: "64 word"

record act_log =
  l_entries :: "(bytes \<times> act_entry) list"
  l_ttl :: duration
  l_cap :: nat

record act_row =
  row_IP :: bytes
  row_FirstSeen :: time
  row_LastSeen :: time
  row_Failed :: "64 word"
  row_SucceededAdmit :: "64 word"
  row_SucceededRenew :: "64 word"

definition activity_New :: "duration \<Rightarrow> int \<Rightarrow> act_log" where
  "activity_New ttl maxIPs =
     \<lparr>l_entries = [], l_ttl = (if ttl \<le> 0 then 10 * minute else ttl),
      l_cap = nat (if maxIPs \<le> 0 then 8192 else maxIPs)\<rparr>"

definition entry_expired :: "duration \<Rightarrow> time \<Rightarrow> act_entry \<Rightarrow> bool" where
  "entry_expired ttl now e \<longleftrightarrow> ttl < time_sub now (e_lastSeen e)"

text \<open>
  The pass of \<open>makeRoom\<close> over the map: the entries kept so far, the quietest of them (the
  empty string while there is none) and when it was last seen.
\<close>

fun makeRoom_scan ::
  "duration \<Rightarrow> time \<Rightarrow> (bytes \<times> act_entry) list \<Rightarrow> bytes \<Rightarrow> time \<Rightarrow> (bytes \<times> act_entry) list \<times> bytes" where
  "makeRoom_scan ttl now [] oldest oldestAt = ([], oldest)"
| "makeRoom_scan ttl now ((ip, e) # es) oldest oldestAt =
     (if entry_expired ttl now e then makeRoom_scan ttl now es oldest oldestAt
      else
        (let (kept, o') =
           (if oldest = [] \<or> e_lastSeen e < oldestAt then makeRoom_scan ttl now es ip (e_lastSeen e)
            else makeRoom_scan ttl now es oldest oldestAt)
         in ((ip, e) # kept, o')))"

definition makeRoom :: "act_log \<Rightarrow> time \<Rightarrow> act_log" where
  "makeRoom l now =
     (let (kept, oldest) = makeRoom_scan (l_ttl l) now (l_entries l) [] 0
      in l\<lparr>l_entries := (if l_cap l \<le> length kept \<and> oldest \<noteq> [] then AList.delete oldest kept else kept)\<rparr>)"

definition act_record :: "act_log \<Rightarrow> time \<Rightarrow> bytes \<Rightarrow> (act_entry \<Rightarrow> act_entry) \<Rightarrow> act_log" where
  "act_record l now ip bump =
     (case map_of (l_entries l) ip of
        Some e \<Rightarrow> l\<lparr>l_entries := AList.update ip (bump (e\<lparr>e_lastSeen := now\<rparr>)) (l_entries l)\<rparr>
      | None \<Rightarrow>
         (let l = (if l_cap l \<le> length (l_entries l) then makeRoom l now else l);
              e = \<lparr>e_firstSeen = now, e_lastSeen = now, e_failed = 0, e_admits = 0, e_renews = 0\<rparr>
          in l\<lparr>l_entries := AList.update ip (bump e) (l_entries l)\<rparr>))"

definition RecordFailure :: "act_log \<Rightarrow> time \<Rightarrow> bytes \<Rightarrow> act_log" where
  "RecordFailure l now ip = act_record l now ip (\<lambda>e. e\<lparr>e_failed := e_failed e + 1\<rparr>)"

definition RecordAdmit :: "act_log \<Rightarrow> time \<Rightarrow> bytes \<Rightarrow> act_log" where
  "RecordAdmit l now ip = act_record l now ip (\<lambda>e. e\<lparr>e_admits := e_admits e + 1\<rparr>)"

definition RecordRenew :: "act_log \<Rightarrow> time \<Rightarrow> bytes \<Rightarrow> act_log" where
  "RecordRenew l now ip = act_record l now ip (\<lambda>e. e\<lparr>e_renews := e_renews e + 1\<rparr>)"

definition act_prune :: "act_log \<Rightarrow> time \<Rightarrow> act_log" where
  "act_prune l now = l\<lparr>l_entries := filter (\<lambda>(_, e). \<not> entry_expired (l_ttl l) now e) (l_entries l)\<rparr>"

definition row_of :: "bytes \<times> act_entry \<Rightarrow> act_row" where
  "row_of = (\<lambda>(ip, e). \<lparr>row_IP = ip, row_FirstSeen = e_firstSeen e, row_LastSeen = e_lastSeen e,
     row_Failed = e_failed e, row_SucceededAdmit = e_admits e, row_SucceededRenew = e_renews e\<rparr>)"

definition Snapshot :: "act_log \<Rightarrow> time \<Rightarrow> act_row list \<times> act_log" where
  "Snapshot l now =
     (let l' = act_prune l now
      in (sort_key (\<lambda>r. (- row_LastSeen r, row_IP r)) (map row_of (l_entries l')), l'))"

definition Log_Len :: "act_log \<Rightarrow> time \<Rightarrow> nat \<times> act_log" where
  "Log_Len l now = (let l' = act_prune l now in (length (l_entries l'), l'))"

definition Log_TTL :: "act_log \<Rightarrow> duration" where
  "Log_TTL l = l_ttl l"

text \<open>A nil \<open>*Log\<close>, the state of a gate without the \<open>[activity]\<close> section, is inert.\<close>

definition opt_record :: "act_log option \<Rightarrow> (act_log \<Rightarrow> act_log) \<Rightarrow> act_log option" where
  "opt_record l f = map_option f l"

subsection \<open>The bound\<close>

definition log_ok :: "act_log \<Rightarrow> bool" where
  "log_ok l \<longleftrightarrow>
     distinct (map fst (l_entries l)) \<and> [] \<notin> fst ` set (l_entries l) \<and> length (l_entries l) \<le> l_cap l
     \<and> 0 < l_cap l"

lemma makeRoom_scan_kept:
  "fst (makeRoom_scan ttl now es o1 t) = filter (\<lambda>(_, e). \<not> entry_expired ttl now e) es"
  by (induction es arbitrary: o1 t) (auto simp: split_beta)

lemma makeRoom_scan_oldest:
  assumes "[] \<notin> fst ` set es" and "distinct (map fst es)"
  shows "let kept = filter (\<lambda>(_, e). \<not> entry_expired ttl now e) es; q = snd (makeRoom_scan ttl now es o1 t)
    in (q = o1 \<and> (o1 = [] \<longrightarrow> kept = []) \<and> (o1 \<noteq> [] \<longrightarrow> (\<forall>(_, e)\<in>set kept. t \<le> e_lastSeen e)))
       \<or> (\<exists>e. (q, e) \<in> set kept \<and> (o1 \<noteq> [] \<longrightarrow> e_lastSeen e < t) \<and> (\<forall>(_, e')\<in>set kept. e_lastSeen e \<le> e_lastSeen e'))"
  using assms
proof (induction es arbitrary: o1 t)
  case (Cons x es)
  obtain ip e where x: "x = (ip, e)" by (cases x)
  have ne: "ip \<noteq> []" and es: "[] \<notin> fst ` set es" "distinct (map fst es)"
    using Cons.prems by (auto simp: x)
  show ?case
  proof (cases "entry_expired ttl now e")
    case True
    with Cons.IH [OF es, of o1 t] show ?thesis by (simp add: x Let_def)
  next
    case False
    show ?thesis
    proof (cases "o1 = [] \<or> e_lastSeen e < t")
      case True
      with False Cons.IH [OF es, of ip "e_lastSeen e"] ne show ?thesis
        by (auto simp: x Let_def split_beta)
    next
      case nold: False
      with False Cons.IH [OF es, of o1 t] show ?thesis
        by (auto simp: x Let_def split_beta)
    qed
  qed
qed simp

lemma length_alist_delete:
  assumes "distinct (map fst al)" and "k \<in> fst ` set al"
  shows "Suc (length (AList.delete k al)) = length al"
proof -
  have "map fst (AList.delete k al) = remove1 k (map fst al)"
    using distinct_remove1_removeAll [OF assms(1), of k]
    by (simp add: AList.delete_keys removeAll_filter_not_eq)
  then have "length (map fst (AList.delete k al)) = length (remove1 k (map fst al))" by simp
  moreover have "0 < length al" using assms(2) by (cases al) auto
  ultimately show ?thesis using assms(2) by (simp add: length_remove1)
qed

lemma makeRoom_entries:
  assumes "log_ok l"
  shows "let kept = filter (\<lambda>(_, e). \<not> entry_expired (l_ttl l) now e) (l_entries l) in
    (length kept < l_cap l \<and> l_entries (makeRoom l now) = kept)
    \<or> (length kept = l_cap l \<and> (\<exists>q e. (q, e) \<in> set kept \<and> l_entries (makeRoom l now) = AList.delete q kept
          \<and> (\<forall>(_, e')\<in>set kept. e_lastSeen e \<le> e_lastSeen e')))"
proof -
  let ?kept = "filter (\<lambda>(_, e). \<not> entry_expired (l_ttl l) now e) (l_entries l)"
  let ?q = "snd (makeRoom_scan (l_ttl l) now (l_entries l) [] 0)"
  have ok: "distinct (map fst (l_entries l))" "[] \<notin> fst ` set (l_entries l)" "0 < l_cap l"
    "length (l_entries l) \<le> l_cap l"
    using assms by (simp_all add: log_ok_def)
  have le: "length ?kept \<le> l_cap l" using ok(4) length_filter_le order_trans by blast
  have mr: "l_entries (makeRoom l now)
      = (if l_cap l \<le> length ?kept \<and> ?q \<noteq> [] then AList.delete ?q ?kept else ?kept)"
    by (simp add: makeRoom_def split_beta makeRoom_scan_kept)
  show ?thesis
  proof (cases "l_cap l \<le> length ?kept")
    case False
    then show ?thesis using mr by (simp add: Let_def)
  next
    case True
    then have "?kept \<noteq> []" using ok(3) by (cases ?kept) auto
    then obtain e where e: "(?q, e) \<in> set ?kept" "\<forall>(_, e')\<in>set ?kept. e_lastSeen e \<le> e_lastSeen e'"
      using makeRoom_scan_oldest [OF ok(2,1), of "l_ttl l" now "[]" 0] by (auto simp: Let_def)
    have "?q \<noteq> []" using e(1) ok(2) by (metis filter_is_subset fst_conv image_eqI subsetD)
    then have "l_entries (makeRoom l now) = AList.delete ?q ?kept" using mr True by simp
    moreover have "length ?kept = l_cap l" using True le by simp
    ultimately show ?thesis using e by (auto simp: Let_def)
  qed
qed

lemma makeRoom_frame [frame]: "l_cap (makeRoom l now) = l_cap l" "l_ttl (makeRoom l now) = l_ttl l"
  by (simp_all add: makeRoom_def split_beta)

lemma makeRoom_frees:
  assumes "log_ok l"
  shows "log_ok (makeRoom l now) \<and> length (l_entries (makeRoom l now)) < l_cap l"
proof -
  let ?kept = "filter (\<lambda>(_, e). \<not> entry_expired (l_ttl l) now e) (l_entries l)"
  have ok: "distinct (map fst (l_entries l))" "[] \<notin> fst ` set (l_entries l)" "0 < l_cap l"
    using assms by (simp_all add: log_ok_def)
  have d: "distinct (map fst ?kept)" "[] \<notin> fst ` set ?kept"
    using ok(1) distinct_map_filter ok(2) by auto
  have q: "distinct (map fst (AList.delete q ?kept)) \<and> [] \<notin> fst ` set (AList.delete q ?kept)" for q
  proof
    show "distinct (map fst (AList.delete q ?kept))" using d(1) by (rule AList.distinct_delete)
    show "[] \<notin> fst ` set (AList.delete q ?kept)" using d(2) by (force simp: AList.delete_eq)
  qed
  from makeRoom_entries [OF assms, of now] show ?thesis
  proof (unfold Let_def, elim disjE conjE exE)
    assume "length ?kept < l_cap l" "l_entries (makeRoom l now) = ?kept"
    then show ?thesis using d ok(3) by (simp add: log_ok_def frame)
  next
    fix q e assume k: "length ?kept = l_cap l" "(q, e) \<in> set ?kept"
      and m: "l_entries (makeRoom l now) = AList.delete q ?kept"
    have "Suc (length (AList.delete q ?kept)) = length ?kept"
      using k(2) by (intro length_alist_delete d(1)) force
    then show ?thesis using q [of q] k(1) ok(3) by (simp add: log_ok_def frame m)
  qed
qed

lemma update_keys_ok:
  assumes "ip \<noteq> []" "[] \<notin> fst ` set es" "distinct (map fst es)"
  shows "[] \<notin> fst ` set (AList.update ip e es) \<and> distinct (map fst (AList.update ip e es))"
proof -
  have "fst ` set (AList.update ip e es) = insert ip (fst ` set es)"
    using dom_update [of ip e es] by (simp add: dom_map_of_conv_image_fst)
  then show ?thesis using assms by (auto simp: AList.distinct_update)
qed

lemma act_record_ok:
  assumes "log_ok l" and "ip \<noteq> []"
  shows "log_ok (act_record l now ip bump)"
proof (cases "map_of (l_entries l) ip")
  case None
  define l' where "l' = (if l_cap l \<le> length (l_entries l) then makeRoom l now else l)"
  have l': "log_ok l' \<and> length (l_entries l') < l_cap l' \<and> l_cap l' = l_cap l"
    using makeRoom_frees [OF assms(1), of now] assms(1) by (simp add: l'_def frame)
  let ?e = "bump \<lparr>e_firstSeen = now, e_lastSeen = now, e_failed = 0, e_admits = 0, e_renews = 0\<rparr>"
  have "act_record l now ip bump = l'\<lparr>l_entries := AList.update ip ?e (l_entries l')\<rparr>"
    by (simp add: act_record_def None l'_def Let_def)
  then show ?thesis using l' update_keys_ok [OF assms(2), of "l_entries l'" ?e]
    by (simp add: log_ok_def length_update)
next
  case (Some e)
  then have "ip \<in> fst ` set (l_entries l)" by (metis fst_conv image_eqI map_of_SomeD)
  with Some show ?thesis using assms update_keys_ok [OF assms(2), of "l_entries l"]
    by (simp add: act_record_def log_ok_def length_update)
qed

lemma act_prune_ok: "log_ok l \<Longrightarrow> log_ok (act_prune l now)"
  by (auto simp: log_ok_def act_prune_def distinct_map_filter intro: order_trans [OF length_filter_le])

text \<open>The states a log goes through, under any schedule of recordings and reads.\<close>

inductive log_reach :: "duration \<Rightarrow> int \<Rightarrow> act_log \<Rightarrow> bool" for ttl n where
  log_new: "log_reach ttl n (activity_New ttl n)"
| log_fail: "log_reach ttl n l \<Longrightarrow> ip \<noteq> [] \<Longrightarrow> log_reach ttl n (RecordFailure l now ip)"
| log_admit: "log_reach ttl n l \<Longrightarrow> ip \<noteq> [] \<Longrightarrow> log_reach ttl n (RecordAdmit l now ip)"
| log_renew: "log_reach ttl n l \<Longrightarrow> ip \<noteq> [] \<Longrightarrow> log_reach ttl n (RecordRenew l now ip)"
| log_snap: "log_reach ttl n l \<Longrightarrow> log_reach ttl n (snd (Snapshot l now))"
| log_len: "log_reach ttl n l \<Longrightarrow> log_reach ttl n (snd (Log_Len l now))"

lemma activity_New_ok: "log_ok (activity_New ttl n)"
  by (simp add: activity_New_def log_ok_def)

lemma act_record_cap [frame]: "l_cap (act_record l now ip bump) = l_cap l"
  by (simp add: act_record_def Let_def frame split: option.split)

lemma log_reach_ok: "log_reach ttl n l \<Longrightarrow> log_ok l \<and> l_cap l = nat (if n \<le> 0 then 8192 else n)"
  by (induction rule: log_reach.induct)
    (simp_all add: activity_New_ok act_record_ok act_prune_ok RecordFailure_def RecordAdmit_def
      RecordRenew_def Snapshot_def Log_Len_def Let_def frame, simp_all add: activity_New_def act_prune_def)

lemma live_survives_makeRoom:
  assumes ok: "log_ok l" and ke: "(k, e) \<in> set (l_entries l)" and live: "\<not> entry_expired (l_ttl l) now e"
  shows "(k, e) \<in> set (l_entries (makeRoom l now))
    \<or> (length (filter (\<lambda>(_, e). \<not> entry_expired (l_ttl l) now e) (l_entries l)) = l_cap l
        \<and> (\<forall>(_, e')\<in>set (l_entries l). \<not> entry_expired (l_ttl l) now e' \<longrightarrow> e_lastSeen e \<le> e_lastSeen e'))"
proof -
  let ?kept = "filter (\<lambda>(_, e). \<not> entry_expired (l_ttl l) now e) (l_entries l)"
  have k: "(k, e) \<in> set ?kept" using ke live by auto
  from makeRoom_entries [OF ok, of now] show ?thesis
  proof (unfold Let_def, elim disjE conjE exE)
    assume "l_entries (makeRoom l now) = ?kept"
    then show ?thesis using k by simp
  next
    fix q f assume full: "length ?kept = l_cap l" and q: "(q, f) \<in> set ?kept"
      and m: "l_entries (makeRoom l now) = AList.delete q ?kept"
      and least: "\<forall>(_, e')\<in>set ?kept. e_lastSeen f \<le> e_lastSeen e'"
    show ?thesis
    proof (cases "k = q")
      case True
      then have "e = f" using k q ok by (auto simp: log_ok_def dest: eq_key_imp_eq_value)
      then show ?thesis using full least by auto
    next
      case False
      then show ?thesis using k m by (auto simp: AList.delete_eq)
    qed
  qed
qed

lemma in_set_update_other: "k \<noteq> ip \<Longrightarrow> (k, e) \<in> set al \<Longrightarrow> (k, e) \<in> set (AList.update ip v al)"
  by (induction al) auto

subsection \<open>Properties\<close>

text \<open>The log never tracks more addresses than its configured bound (8192 when none is given), and
  never the same address twice, under every schedule of recordings, snapshots and counts and for
  every order in which the map is visited.\<close>

theorem activity_bounded:
  assumes "log_reach ttl n l"
  shows "length (l_entries l) \<le> nat (if n \<le> 0 then 8192 else n) \<and> distinct (map fst (l_entries l))"
  using log_reach_ok [OF assms] by (auto simp: log_ok_def)

lemma activity_bounded_witness:
  "length (l_entries (RecordFailure (RecordFailure (activity_New minute 1) 5 ''a'') 7 ''b'')) \<le> nat (if (1::int) \<le> 0 then 8192 else 1)
    \<and> distinct (map fst (l_entries (RecordFailure (RecordFailure (activity_New minute 1) 5 ''a'') 7 ''b'')))"
  by (rule activity_bounded [of minute]) (auto intro!: log_reach.intros)

text \<open>Recording one address never loses another whose entry is still live, unless the log is full of
  live entries and that one is the quietest of them: the row a poller most wants is never the one
  an address-spraying client pushes out.\<close>

theorem record_evicts_only_quietest:
  assumes "log_ok l" and "(k, e) \<in> set (l_entries l)" and "k \<noteq> ip"
    and "\<not> entry_expired (l_ttl l) now e"
  shows "(k, e) \<in> set (l_entries (RecordFailure l now ip))
    \<or> (length (filter (\<lambda>(_, e). \<not> entry_expired (l_ttl l) now e) (l_entries l)) = l_cap l
        \<and> (\<forall>(_, e')\<in>set (l_entries l). \<not> entry_expired (l_ttl l) now e' \<longrightarrow> e_lastSeen e \<le> e_lastSeen e'))"
proof (cases "map_of (l_entries l) ip")
  case None
  with live_survives_makeRoom [OF assms(1,2,4)] assms(2,3) show ?thesis
    by (auto simp: RecordFailure_def act_record_def Let_def in_set_update_other)
next
  case (Some f)
  with assms(2,3) show ?thesis
    by (simp add: RecordFailure_def act_record_def in_set_update_other)
qed

definition demo_log :: act_log where
  "demo_log = RecordFailure (RecordFailure (activity_New minute 2) 5 ''a'') 7 ''b''"

lemma demo_log: "demo_log = \<lparr>l_entries = [(''a'', \<lparr>e_firstSeen = 5, e_lastSeen = 5, e_failed = 1, e_admits = 0, e_renews = 0\<rparr>),
    (''b'', \<lparr>e_firstSeen = 7, e_lastSeen = 7, e_failed = 1, e_admits = 0, e_renews = 0\<rparr>)], l_ttl = minute, l_cap = 2\<rparr>"
  by (simp add: demo_log_def RecordFailure_def act_record_def activity_New_def minute_def)

lemma record_evicts_only_quietest_witness:
  "(''b'', \<lparr>e_firstSeen = 7, e_lastSeen = 7, e_failed = 1, e_admits = 0, e_renews = 0\<rparr>)
    \<in> set (l_entries (RecordFailure demo_log 9 ''c''))"
  using record_evicts_only_quietest [of demo_log "''b''"
      "\<lparr>e_firstSeen = 7, e_lastSeen = 7, e_failed = 1, e_admits = 0, e_renews = 0\<rparr>" "''c''" 9]
  by (simp add: demo_log log_ok_def entry_expired_def time_sub_def minute_def min_int64_def max_int64_def)

text \<open>A snapshot lists exactly the live entries, most recent first and ties by address, and does not
  depend on the order in which the map is visited.\<close>

theorem Snapshot_deterministic:
  assumes "mset (l_entries l) = mset (l_entries l')" and "l_ttl l = l_ttl l'"
    and "distinct (map fst (l_entries l))"
  shows "fst (Snapshot l now) = fst (Snapshot l' now)
    \<and> set (fst (Snapshot l now))
        = row_of ` {(ip, e) \<in> set (l_entries l). time_sub now (e_lastSeen e) \<le> l_ttl l}
    \<and> sorted (map (\<lambda>r. (- row_LastSeen r, row_IP r)) (fst (Snapshot l now)))"
proof -
  let ?k = "\<lambda>r. (- row_LastSeen r, row_IP r)"
  let ?rows = "\<lambda>l. map row_of (l_entries (act_prune l now))"
  have m: "mset (?rows l) = mset (?rows l')"
    using assms(1,2) by (simp add: act_prune_def mset_filter)
  have fstrow: "map row_IP (?rows l) = map fst (l_entries (act_prune l now))"
    by (simp add: row_of_def split_beta comp_def)
  have "distinct (map fst (l_entries (act_prune l now)))"
    using assms(3) by (simp add: act_prune_def distinct_map_filter)
  then have "inj_on row_IP (set (?rows l))" unfolding fstrow [symmetric] by (simp only: distinct_map)
  then have "inj_on ?k (set (?rows l))" by (auto simp: inj_on_def)
  then have "sort_key ?k (?rows l) = sort_key ?k (?rows l')"
    by (rule sort_key_inj_key_eq [rotated]) (simp_all only: m mset_sort sorted_sort_key)
  then have "fst (Snapshot l now) = fst (Snapshot l' now)" by (simp add: Snapshot_def Let_def)
  moreover have "set (fst (Snapshot l now))
      = row_of ` {(ip, e) \<in> set (l_entries l). time_sub now (e_lastSeen e) \<le> l_ttl l}"
    by (auto simp: Snapshot_def Let_def act_prune_def entry_expired_def not_less)
  moreover have "sorted (map ?k (fst (Snapshot l now)))" by (simp add: Snapshot_def Let_def)
  ultimately show ?thesis by blast
qed

lemma Snapshot_deterministic_witness:
  "fst (Snapshot demo_log 9) = fst (Snapshot (demo_log\<lparr>l_entries := rev (l_entries demo_log)\<rparr>) 9)"
  using Snapshot_deterministic [of demo_log "demo_log\<lparr>l_entries := rev (l_entries demo_log)\<rparr>" 9]
  by (simp add: demo_log)

end
