(* ===== verification/Crawler.thy ===== *)
theory Crawler
  imports Json Bypass
begin

text \<open>
  Packages \<open>internal/useragent\<close>, \<open>internal/hosted\<close> and \<open>internal/crawler\<close>: which machine identity
  a User-Agent claims, and whether the source address bears the claim out. DNS answers, the
  concurrency slot and the clock are inputs; the range files embedded at build time are
  parameters.
\<close>

subsection \<open>User-Agent product tokens\<close>

definition ua_separators :: bytes where
  "ua_separators = '' ('' @ [CHR 0x09] @ '';''"

text \<open>
  The search from one match to the next. \<open>prev\<close> is the character before \<open>s\<close>, if any. An
  empty product is found at the start.
\<close>

function product_loop :: "char option \<Rightarrow> bytes \<Rightarrow> bytes \<Rightarrow> bool" where
  "product_loop prev s product =
     (if product = [] then True
      else
        (case str_index s product of
           None \<Rightarrow> False
         | Some i \<Rightarrow>
            (case (if i = 0 then prev else Some (s ! (i - 1))) of
               None \<Rightarrow> True
             | Some c \<Rightarrow>
                if c \<in> set ua_separators then True
                else product_loop (Some (last product)) (drop (i + length product) s) product)))"
  by pat_completeness auto
termination
proof (relation "measure (\<lambda>(_, s, _). length s)", simp)
  fix prev s product i c
  assume p: "product \<noteq> []" and i: "str_index s product = Some i"
  from str_index_Some [OF i] p
  show "((Some (last product), drop (i + length product) s, product), prev, s, product)
      \<in> measure (\<lambda>(_, s, _). length s)"
    by (cases "length s") (auto simp: has_prefix_iff)
qed

declare product_loop.simps [simp del]

definition ContainsProduct :: "bytes \<Rightarrow> bytes \<Rightarrow> bool" where
  "ContainsProduct value product = product_loop None value product"

subsection \<open>Published ranges\<close>

datatype identity_error =
    RangeBadJson
  | RangeNoPrefixes
  | RangeBothFamilies
  | RangeBadPrefix bytes
  | RangeWrongFamily bytes
  | UnsupportedProvider bytes

fun range_item :: "json \<Rightarrow> (bytes \<times> bytes) option" where
  "range_item (JObj ms) =
     (case (dec_string [] (obj_values ''ipv4Prefix'' ms), dec_string [] (obj_values ''ipv6Prefix'' ms)) of
        (Some a, Some b) \<Rightarrow> Some (a, b) | _ \<Rightarrow> None)"
| "range_item JNull = Some ([], [])"
| "range_item _ = None"

fun range_items :: "json list \<Rightarrow> (bytes \<times> bytes) list option" where
  "range_items [] = Some []"
| "range_items (j # js) =
     (case (range_item j, range_items js) of (Some x, Some xs) \<Rightarrow> Some (x # xs) | _ \<Rightarrow> None)"

text \<open>The last value of the \<open>prefixes\<close> key that is not \<open>null\<close> gives the entries.\<close>

fun range_field :: "(bytes \<times> bytes) list \<Rightarrow> json list \<Rightarrow> (bytes \<times> bytes) list option" where
  "range_field acc [] = Some acc"
| "range_field acc (JNull # js) = range_field [] js"
| "range_field acc (JArr xs # js) =
     (case range_items xs of None \<Rightarrow> None | Some ys \<Rightarrow> range_field ys js)"
| "range_field acc (_ # js) = None"

definition range_document :: "bytes \<Rightarrow> (bytes \<times> bytes) list option" where
  "range_document raw =
     (case json_parse raw of
        Some (JObj ms) \<Rightarrow> range_field [] (obj_values ''prefixes'' ms)
      | Some JNull \<Rightarrow> Some []
      | _ \<Rightarrow> None)"

fun range_prefixes :: "(bytes \<times> bytes) list \<Rightarrow> identity_error + ip_prefix list" where
  "range_prefixes [] = Inr []"
| "range_prefixes ((v4, v6) # xs) =
     (if (v4 = []) = (v6 = []) then Inl RangeBothFamilies
      else
        (let rawPrefix = (if v4 = [] then v6 else v4) in
         (case ParsePrefix rawPrefix of
            None \<Rightarrow> Inl (RangeBadPrefix rawPrefix)
          | Some p \<Rightarrow>
             if (v4 \<noteq> []) \<noteq> addr_Is4 (pfx_addr p) then Inl (RangeWrongFamily rawPrefix)
             else (case range_prefixes xs of Inl e \<Rightarrow> Inl e | Inr ps \<Rightarrow> Inr (prefix_Masked p # ps)))))"

definition hosted_parsePrefixes :: "bytes \<Rightarrow> identity_error + ip_prefix list" where
  "hosted_parsePrefixes raw =
     (case range_document raw of
        None \<Rightarrow> Inl RangeBadJson
      | Some items \<Rightarrow> if items = [] then Inl RangeNoPrefixes else range_prefixes items)"

definition crawler_parsePrefixes :: "bytes \<Rightarrow> identity_error + ip_prefix list" where
  "crawler_parsePrefixes raw =
     (case range_document raw of
        None \<Rightarrow> Inl RangeBadJson
      | Some items \<Rightarrow> if items = [] then Inl RangeNoPrefixes else range_prefixes items)"

subsection \<open>Hosted fetchers\<close>

datatype hosted_provider = HostedNone | HostedClaude | HostedChatGPT | HostedGoogleAgent

fun hosted_String :: "hosted_provider \<Rightarrow> bytes" where
  "hosted_String HostedNone = []"
| "hosted_String HostedClaude = ''claude''"
| "hosted_String HostedChatGPT = ''chatgpt''"
| "hosted_String HostedGoogleAgent = ''google-agent''"

record hosted_definition =
  hd_provider :: hosted_provider
  hd_token :: bytes
  hd_sources :: nat  \<comment> \<open>how many embedded range files it has\<close>

definition hosted_definitions :: "hosted_definition list" where
  "hosted_definitions =
     [\<lparr>hd_provider = HostedClaude, hd_token = ''Claude-User/'', hd_sources = 2\<rparr>,
      \<lparr>hd_provider = HostedChatGPT, hd_token = ''ChatGPT-User/'', hd_sources = 1\<rparr>,
      \<lparr>hd_provider = HostedGoogleAgent, hd_token = ''Google-Agent;'', hd_sources = 1\<rparr>]"

fun hosted_claim_in :: "bytes \<Rightarrow> hosted_definition list \<Rightarrow> hosted_provider" where
  "hosted_claim_in ua [] = HostedNone"
| "hosted_claim_in ua (d # ds) =
     (if hd_provider d = HostedClaude \<and> contains_sub ua ''claude-code/'' then hosted_claim_in ua ds
      else if ContainsProduct ua (hd_token d) then hd_provider d
      else hosted_claim_in ua ds)"

definition hosted_Claim :: "bytes \<Rightarrow> hosted_provider" where
  "hosted_Claim ua = hosted_claim_in ua hosted_definitions"

type_synonym hosted_set = "hosted_provider \<Rightarrow> ip_prefix list"

fun collect_sources :: "bytes list \<Rightarrow> identity_error + ip_prefix list" where
  "collect_sources [] = Inr []"
| "collect_sources (raw # raws) =
     (case hosted_parsePrefixes raw of
        Inl e \<Rightarrow> Inl e
      | Inr ps \<Rightarrow> (case collect_sources raws of Inl e \<Rightarrow> Inl e | Inr qs \<Rightarrow> Inr (ps @ qs)))"

text \<open>\<open>files\<close> gives the embedded range files of each provider.\<close>

fun hosted_load ::
  "(hosted_provider \<Rightarrow> bytes list) \<Rightarrow> hosted_definition list \<Rightarrow> hosted_set \<Rightarrow> identity_error + hosted_set" where
  "hosted_load files [] s = Inr s"
| "hosted_load files (d # ds) s =
     (case collect_sources (files (hd_provider d)) of
        Inl e \<Rightarrow> Inl e
      | Inr ps \<Rightarrow> hosted_load files ds (s(hd_provider d := s (hd_provider d) @ ps)))"

definition hosted_New :: "(hosted_provider \<Rightarrow> bytes list) \<Rightarrow> identity_error + hosted_set" where
  "hosted_New files = hosted_load files hosted_definitions (\<lambda>_. [])"

definition hosted_Verify :: "hosted_set \<Rightarrow> hosted_provider \<Rightarrow> addr \<Rightarrow> bool" where
  "hosted_Verify s claim a =
     (if claim = HostedNone \<or> \<not> addr_IsValid a then False
      else (let a = addr_Unmap a in list_ex (\<lambda>p. prefix_Contains p a) (s claim)))"

subsection \<open>Search crawlers\<close>

datatype verdict = Unverified | Verified | Indeterminate

record provider =
  p_id :: nat
  p_name :: bytes
  p_uaProducts :: "bytes list"
  p_prefixes :: "ip_prefix list"
  p_ptrSuffixes :: "bytes list"
  p_rangeJSON :: bool  \<comment> \<open>whether a range file is embedded\<close>
  p_dnsIPv4Only :: bool

definition googlebot :: provider where
  "googlebot = \<lparr>p_id = 0, p_name = ''googlebot'',
     p_uaProducts = [''Googlebot/'', ''Googlebot-Image/'', ''Googlebot-Video/'', ''Google-InspectionTool/''],
     p_prefixes = [], p_ptrSuffixes = [''.googlebot.com'', ''.google.com''], p_rangeJSON = True,
     p_dnsIPv4Only = False\<rparr>"

definition bingbot :: provider where
  "bingbot = \<lparr>p_id = 0, p_name = ''bingbot'', p_uaProducts = [''bingbot/''], p_prefixes = [],
     p_ptrSuffixes = [''.search.msn.com''], p_rangeJSON = True, p_dnsIPv4Only = False\<rparr>"

definition yandexbot :: provider where
  "yandexbot = \<lparr>p_id = 0, p_name = ''yandexbot'',
     p_uaProducts = [''YandexBot/'', ''YandexImages/'', ''YandexVideo/'', ''YandexFavicons/'',
       ''YandexMobileBot/'', ''YandexRenderResourcesBot/'', ''YandexWebmaster/'', ''YandexPagechecker/''],
     p_prefixes = [], p_ptrSuffixes = [''.yandex.ru'', ''.yandex.net'', ''.yandex.com''],
     p_rangeJSON = False, p_dnsIPv4Only = False\<rparr>"

definition commonCrawl :: provider where
  "commonCrawl = \<lparr>p_id = 0, p_name = ''ccbot'', p_uaProducts = [''CCBot/''], p_prefixes = [],
     p_ptrSuffixes = [''.crawl.commoncrawl.org''], p_rangeJSON = True, p_dnsIPv4Only = True\<rparr>"

definition crawler_providers :: "provider list" where
  "crawler_providers = [googlebot, bingbot, yandexbot, commonCrawl]"

fun find_from :: "nat \<Rightarrow> bytes \<Rightarrow> provider list \<Rightarrow> provider option" where
  "find_from i name [] = None"
| "find_from i name (p # ps) =
     (if p_name p = name then Some (p\<lparr>p_id := i + 1\<rparr>) else find_from (i + 1) name ps)"

definition findProvider :: "bytes \<Rightarrow> provider option" where
  "findProvider name = find_from 0 name crawler_providers"

definition crawler_Supported :: "bytes \<Rightarrow> bool" where
  "crawler_Supported name \<longleftrightarrow> findProvider name \<noteq> None"

definition provider_claims :: "provider \<Rightarrow> bytes \<Rightarrow> bool" where
  "provider_claims p ua \<longleftrightarrow> list_ex (\<lambda>t. ContainsProduct ua t) (p_uaProducts p)"

record cacheKey =
  ck_addr :: addr
  ck_provider :: nat
  ck_negative :: bool

record cacheEntry =
  ce_expires :: int  \<comment> \<open>nanoseconds\<close>
  ce_verdict :: verdict

record crawler_set =
  cs_providers :: "provider list"
  cs_cache :: "(cacheKey \<times> cacheEntry) list"

definition maxCacheEntries :: nat where "maxCacheEntries = 8192"
definition dnsCacheTTL :: duration where "dnsCacheTTL = 4 * hour"

text \<open>\<open>ranges\<close> is the embedded file of a provider.\<close>

fun load_providers :: "(bytes \<Rightarrow> bytes) \<Rightarrow> bytes list \<Rightarrow> identity_error + provider list" where
  "load_providers ranges [] = Inr []"
| "load_providers ranges (name # names) =
     (case findProvider name of
        None \<Rightarrow> Inl (UnsupportedProvider name)
      | Some p \<Rightarrow>
         (case (if p_rangeJSON p
                then (case crawler_parsePrefixes (ranges name) of
                        Inl e \<Rightarrow> Inl e | Inr ps \<Rightarrow> Inr (p\<lparr>p_prefixes := ps\<rparr>))
                else Inr p) of
            Inl e \<Rightarrow> Inl e
          | Inr p \<Rightarrow>
             (case load_providers ranges names of Inl e \<Rightarrow> Inl e | Inr ps \<Rightarrow> Inr (p # ps))))"

definition crawler_New :: "(bytes \<Rightarrow> bytes) \<Rightarrow> bytes list \<Rightarrow> identity_error + crawler_set" where
  "crawler_New ranges names =
     (case load_providers ranges names of
        Inl e \<Rightarrow> Inl e
      | Inr ps \<Rightarrow> Inr \<lparr>cs_providers = ps, cs_cache = []\<rparr>)"

fun claim_in :: "bytes \<Rightarrow> provider list \<Rightarrow> bytes" where
  "claim_in ua [] = []"
| "claim_in ua (p # ps) = (if provider_claims p ua then p_name p else claim_in ua ps)"

definition crawler_Claim :: "crawler_set \<Rightarrow> bytes \<Rightarrow> bytes" where
  "crawler_Claim s ua = claim_in ua (cs_providers s)"

definition cacheStoreKey :: "provider \<Rightarrow> addr \<Rightarrow> verdict \<Rightarrow> cacheKey" where
  "cacheStoreKey p a v =
     (let neg = (v = Unverified) in
      \<lparr>ck_addr = (if neg \<and> addr_Is6 a then pfx_addr (prefix_Masked (PrefixFrom a 64)) else a),
       ck_provider = p_id p, ck_negative = neg\<rparr>)"

definition cacheLookupKeys :: "provider \<Rightarrow> addr \<Rightarrow> cacheKey list" where
  "cacheLookupKeys p a =
     [\<lparr>ck_addr = a, ck_provider = p_id p, ck_negative = False\<rparr>, cacheStoreKey p a Unverified]"

text \<open>A DNS failure is either a definite "not found" or anything else.\<close>

datatype dns_error = DnsNotFound | DnsOther

fun dnsErrorVerdict :: "dns_error \<Rightarrow> verdict" where
  "dnsErrorVerdict DnsNotFound = Unverified"
| "dnsErrorVerdict DnsOther = Indeterminate"

text \<open>
  What a lookup meets outside the package. The resolver: reverse lookups give names, forward
  lookups give addresses (\<open>None\<close> for an answer that is not an address). And the runtime's map
  iteration, which starts at an entry of its own choosing: \<open>FirstRanged\<close> is its position.
\<close>

record resolver =
  LookupAddr :: "bytes \<Rightarrow> dns_error + bytes list"
  LookupIPAddr :: "bytes \<Rightarrow> dns_error + addr option list"
  FirstRanged :: nat

definition hasDomainSuffix :: "bytes \<Rightarrow> bytes list \<Rightarrow> bool" where
  "hasDomainSuffix name suffixes \<longleftrightarrow> list_ex (\<lambda>s. has_suffix name s) suffixes"

fun dns_names :: "resolver \<Rightarrow> provider \<Rightarrow> addr \<Rightarrow> bool \<Rightarrow> bytes list \<Rightarrow> verdict" where
  "dns_names res p a indet [] = (if indet then Indeterminate else Unverified)"
| "dns_names res p a indet (raw # raws) =
     (let name = trim_suffix (to_lower raw) ''.'' in
      if \<not> hasDomainSuffix name (p_ptrSuffixes p) then dns_names res p a indet raws
      else
        (case LookupIPAddr res name of
           Inl e \<Rightarrow> dns_names res p a (indet \<or> dnsErrorVerdict e = Indeterminate) raws
         | Inr addrs \<Rightarrow>
            if list_ex (\<lambda>x. case x of None \<Rightarrow> False | Some b \<Rightarrow> addr_Unmap b = a) addrs then Verified
            else dns_names res p a indet raws))"

definition verifyDNS :: "resolver \<Rightarrow> provider \<Rightarrow> addr \<Rightarrow> verdict" where
  "verifyDNS res p a =
     (case LookupAddr res (addr_String a) of
        Inl e \<Rightarrow> dnsErrorVerdict e
      | Inr names \<Rightarrow> dns_names res p a False names)"

fun cache_find :: "(cacheKey \<times> cacheEntry) list \<Rightarrow> time \<Rightarrow> cacheKey list \<Rightarrow> verdict option" where
  "cache_find c now [] = None"
| "cache_find c now (k # ks) =
     (case map_of c k of
        Some e \<Rightarrow> if now < ce_expires e then Some (ce_verdict e) else cache_find c now ks
      | None \<Rightarrow> cache_find c now ks)"

text \<open>
  A full cache drops the one entry its \<open>range\<close> meets first, whichever that is, and, as in the
  code, even when the key is already present.
\<close>

definition cache_evict :: "nat \<Rightarrow> (cacheKey \<times> cacheEntry) list \<Rightarrow> (cacheKey \<times> cacheEntry) list" where
  "cache_evict n c = (let i = n mod length c in take i c @ drop (Suc i) c)"

definition cache_store ::
  "nat \<Rightarrow> (cacheKey \<times> cacheEntry) list \<Rightarrow> cacheKey \<Rightarrow> cacheEntry \<Rightarrow> (cacheKey \<times> cacheEntry) list" where
  "cache_store n c k e = AList.update k e (if maxCacheEntries \<le> length c then cache_evict n c else c)"

text \<open>\<open>slot\<close>: whether a concurrency slot was obtained before the lookup's deadline.\<close>

definition verifyProvider ::
  "crawler_set \<Rightarrow> resolver \<Rightarrow> bool \<Rightarrow> time \<Rightarrow> provider \<Rightarrow> addr \<Rightarrow> verdict \<times> crawler_set" where
  "verifyProvider s res slot now p a =
     (if list_ex (\<lambda>q. prefix_Contains q a) (p_prefixes p) then (Verified, s)
      else if p_dnsIPv4Only p \<and> \<not> addr_Is4 a then (Unverified, s)
      else
        (case cache_find (cs_cache s) now (cacheLookupKeys p a) of
           Some v \<Rightarrow> (v, s)
         | None \<Rightarrow>
            if \<not> slot then (Indeterminate, s)
            else
              (let v = verifyDNS res p a in
               if v = Indeterminate then (v, s)
               else (v, s\<lparr>cs_cache := cache_store (FirstRanged res) (cs_cache s) (cacheStoreKey p a v)
                               \<lparr>ce_expires = now + dnsCacheTTL, ce_verdict = v\<rparr>\<rparr>))))"

fun provider_named :: "bytes \<Rightarrow> provider list \<Rightarrow> provider option" where
  "provider_named claim [] = None"
| "provider_named claim (p # ps) = (if p_name p = claim then Some p else provider_named claim ps)"

definition crawler_Verify ::
  "crawler_set \<Rightarrow> resolver \<Rightarrow> bool \<Rightarrow> time \<Rightarrow> bytes \<Rightarrow> addr \<Rightarrow> verdict \<times> crawler_set" where
  "crawler_Verify s res slot now claim a =
     (case provider_named claim (cs_providers s) of
        None \<Rightarrow> (Unverified, s)
      | Some p \<Rightarrow> verifyProvider s res slot now p (addr_Unmap a))"

subsection \<open>Facts on product tokens\<close>

definition product_at :: "bytes \<Rightarrow> bytes \<Rightarrow> char option \<Rightarrow> bool" where
  "product_at s product prev \<longleftrightarrow>
     (\<exists>a b. s = a @ product @ b
        \<and> (case (if a = [] then prev else Some (last a)) of None \<Rightarrow> True | Some c \<Rightarrow> c \<in> set ua_separators))"

lemma product_atI:
  "s = a @ product @ b \<Longrightarrow> a \<noteq> [] \<Longrightarrow> last a \<in> set ua_separators \<Longrightarrow> product_at s product prev"
  unfolding product_at_def by (rule exI [of _ a], rule exI [of _ b]) simp

lemma str_index_split:
  assumes "str_index s p = Some i"
  shows "s = take i s @ p @ drop (i + length p) s" "i \<le> length s"
  using str_index_Some [OF assms] by (auto simp: has_prefix_iff) (metis append_take_drop_id drop_drop append_eq_conv_conj add.commute)

lemma product_loop_sound:
  "product_loop prev s product \<Longrightarrow> product \<noteq> [] \<Longrightarrow> product_at s product prev"
proof (induction prev s product rule: product_loop.induct)
  case (1 prev s product)
  show ?case
  proof (cases "str_index s product")
    case None
    then show ?thesis using 1(2,3) by (simp add: product_loop.simps)
  next
    case (Some i)
    note sp = str_index_split [OF Some]
    let ?a = "take i s" and ?r = "drop (i + length product) s"
    have la: "(if ?a = [] then prev else Some (last ?a)) = (if i = 0 then prev else Some (s ! (i - 1)))"
    proof (cases "i = 0 \<or> s = []")
      case False
      then show ?thesis using sp(2) by (simp add: last_conv_nth min_absorb2)
    qed (use sp 1(3) in auto)
    show ?thesis
    proof (cases "case (if i = 0 then prev else Some (s ! (i - 1))) of None \<Rightarrow> True | Some c \<Rightarrow> c \<in> set ua_separators")
      case True
      then show ?thesis unfolding product_at_def la [symmetric] using sp(1) by blast
    next
      case False
      then obtain c where c: "(if i = 0 then prev else Some (s ! (i - 1))) = Some c" "c \<notin> set ua_separators"
        by (auto split: option.splits)
      have "product_loop (Some (last product)) ?r product"
        using 1(2,3) c by (simp add: product_loop.simps [of prev s] Some)
      then have "product_at ?r product (Some (last product))"
        using 1(1) [OF 1(3) Some c] 1(3) by blast
      then obtain a b where r: "?r = a @ product @ b"
        "(if a = [] then last product else last a) \<in> set ua_separators"
        unfolding product_at_def by (elim exE conjE) (rule that, assumption, simp split: if_splits)
      have "s = (?a @ product @ a) @ product @ b" using sp(1) r(1) by simp
      moreover have "last (?a @ product @ a) \<in> set ua_separators" "?a @ product @ a \<noteq> []"
        using r(2) 1(3) by (auto split: if_splits)
      ultimately show ?thesis by (intro product_atI) auto
    qed
  qed
qed

text \<open>A token whose separators, if any, are at its end is never skipped by the search.\<close>

definition plain_product :: "bytes \<Rightarrow> bool" where
  "plain_product p \<longleftrightarrow> p \<noteq> [] \<and> set (butlast p) \<inter> set ua_separators = {}"

lemma overlap_last:
  assumes e: "a @ p @ b = x @ p @ y" and l: "length x < length a" "length a < length x + length p"
  shows "last a \<in> set (butlast p)"
proof -
  let ?k = "length a - 1 - length x"
  have k: "?k < length p - 1" "length a - 1 = length x + ?k" using l by auto
  have "last a = (a @ p @ b) ! (length a - 1)"
    using l(1) by (cases a rule: rev_cases) (simp_all add: nth_append)
  also have "\<dots> = (x @ p @ y) ! (length x + ?k)" by (simp only: e k(2) [symmetric])
  also have "\<dots> = (p @ y) ! ?k" by (rule nth_append_length_plus)
  also have "\<dots> = p ! ?k"
  proof -
    have "?k < length p" using k(1) by linarith
    then show ?thesis by (simp only: nth_append if_True)
  qed
  also have "\<dots> = butlast p ! ?k" using k(1) by (simp add: nth_butlast)
  finally show ?thesis using k(1) by simp
qed

lemma product_loop_hit:
  assumes "str_index s product = Some i"
    and "case (if i = 0 then prev else Some (s ! (i - 1))) of None \<Rightarrow> True | Some c \<Rightarrow> c \<in> set ua_separators"
  shows "product_loop prev s product"
  using assms by (subst product_loop.simps) (cases "if i = 0 then prev else Some (s ! (i - 1))"; simp)

lemma product_loop_complete:
  "product_at s product prev \<Longrightarrow> plain_product product \<Longrightarrow> product_loop prev s product"
proof (induction prev s product rule: product_loop.induct)
  case (1 prev s product)
  have ne: "product \<noteq> []" using 1(3) by (simp add: plain_product_def)
  obtain a b where ab: "s = a @ product @ b"
    and sep: "case (if a = [] then prev else Some (last a)) of None \<Rightarrow> True | Some c \<Rightarrow> c \<in> set ua_separators"
    using 1(2) by (auto simp: product_at_def)
  obtain i where i: "str_index s product = Some i"
    using ab str_index_None_iff [of s product] by (cases "str_index s product") auto
  note sp = str_index_split [OF i]
  have "has_prefix (drop (length a) s) product" by (simp add: ab)
  then have first: "i \<le> length a" using str_index_first [OF i, of "length a"] by (meson not_le_imp_less)
  show ?case
  proof (cases "i = length a")
    case True
    then have "(if i = 0 then prev else Some (s ! (i - 1))) = (if a = [] then prev else Some (last a))"
      using ab by (cases a rule: rev_cases) (auto simp: nth_append)
    with sep show ?thesis by (intro product_loop_hit [OF i]) (simp only:)
  next
    case False
    then have lt: "i < length a" using first by simp
    show ?thesis
    proof (cases "case (if i = 0 then prev else Some (s ! (i - 1))) of None \<Rightarrow> True | Some c \<Rightarrow> c \<in> set ua_separators")
      case True
      then show ?thesis by (rule product_loop_hit [OF i])
    next
      case nsep: False
      then obtain c where c: "(if i = 0 then prev else Some (s ! (i - 1))) = Some c" "c \<notin> set ua_separators"
        by (auto split: option.splits)
      have la: "last a \<in> set ua_separators" using sep lt by (cases "a = []") auto
      have ge: "i + length product \<le> length a"
      proof (rule ccontr)
        assume "\<not> i + length product \<le> length a"
        then have "last a \<in> set (butlast product)"
          using overlap_last [of a product b "take i s" "drop (i + length product) s"] ab sp lt by simp
        then show False using la 1(3) by (auto simp: plain_product_def)
      qed
      let ?a = "drop (i + length product) a"
      have r: "drop (i + length product) s = ?a @ product @ b" using ge ab by simp
      have "take (i + length product) a = take i s @ product"
      proof -
        have "take (i + length product) s = take (i + length product) a" using ge ab by simp
        moreover have "take (i + length product) s = take i s @ product"
          using sp by (metis append_assoc append_eq_conv_conj length_append length_take min.absorb2)
        ultimately show ?thesis by simp
      qed
      then have a: "a = (take i s @ product) @ ?a" by (metis append_take_drop_id)
      have "(if ?a = [] then last product else last ?a) = last a"
        using a ne by (metis append_Nil2 last_append last_appendR)
      then have "product_at (drop (i + length product) s) product (Some (last product))"
        unfolding product_at_def using r la by (intro exI [where x = ?a] exI [where x = b] conjI) (auto split: if_splits)
      then show ?thesis
        using 1(1) [OF ne i c] 1(3) c by (simp add: product_loop.simps [of prev s] i ne)
    qed
  qed
qed

subsection \<open>The cache of DNS verdicts\<close>

definition cache_ok :: "(cacheKey \<times> cacheEntry) list \<Rightarrow> bool" where
  "cache_ok c \<longleftrightarrow>
     distinct (map fst c) \<and> length c \<le> maxCacheEntries
     \<and> (\<forall>(k, e)\<in>set c. ce_verdict e = (if ck_negative k then Unverified else Verified))"

lemma cache_evict_ok:
  assumes "c \<noteq> []"
  shows "set (cache_evict n c) \<subseteq> set c" and "length (cache_evict n c) = length c - 1"
    and "distinct (map fst c) \<Longrightarrow> distinct (map fst (cache_evict n c))"
proof -
  define i where "i = n mod length c"
  have i: "i < length c" using assms by (simp add: i_def)
  have e: "cache_evict n c = take i c @ drop (Suc i) c" by (simp add: cache_evict_def Let_def i_def)
  show "set (cache_evict n c) \<subseteq> set c" by (auto simp: e dest: in_set_takeD in_set_dropD)
  show "length (cache_evict n c) = length c - 1" using i by (simp add: e)
  show "distinct (map fst c) \<Longrightarrow> distinct (map fst (cache_evict n c))"
    by (subst (asm) id_take_nth_drop [OF i]) (simp add: e)
qed

lemma cache_store_ok:
  assumes "cache_ok c" and "ce_verdict e = (if ck_negative k then Unverified else Verified)"
  shows "cache_ok (cache_store n c k e)"
proof -
  define c' where "c' = (if maxCacheEntries \<le> length c then cache_evict n c else c)"
  have ne: "maxCacheEntries \<le> length c \<Longrightarrow> c \<noteq> []" by (auto simp: maxCacheEntries_def)
  have sub: "set c' \<subseteq> set c" using cache_evict_ok(1) [OF ne] by (auto simp: c'_def split: if_splits)
  have c': "distinct (map fst c')" "length c' < maxCacheEntries"
    using assms(1) cache_evict_ok(2,3) [OF ne] by (auto simp: c'_def cache_ok_def maxCacheEntries_def)
  have c'v: "\<forall>(k, e)\<in>set c'. ce_verdict e = (if ck_negative k then Unverified else Verified)"
    using assms(1) sub by (auto simp: cache_ok_def)
  have "length (AList.update k e c') \<le> maxCacheEntries" using c'(2) by (simp add: length_update)
  moreover have "\<forall>(k, e)\<in>set (AList.update k e c'). ce_verdict e = (if ck_negative k then Unverified else Verified)"
    using c'v assms(2) by (induction c') (auto split: if_splits)
  ultimately show ?thesis using c'(1)
    by (simp add: cache_ok_def cache_store_def AList.distinct_update flip: c'_def)
qed

lemma cacheStoreKey_negative: "ck_negative (cacheStoreKey p a v) \<longleftrightarrow> v = Unverified"
  by (simp add: cacheStoreKey_def Let_def)

lemma verifyProvider_ok:
  assumes "cache_ok (cs_cache s)"
  shows "cache_ok (cs_cache (snd (verifyProvider s res slot now p a)))"
proof (cases "verifyDNS res p a")
  case Indeterminate
  then show ?thesis using assms by (simp add: verifyProvider_def Let_def split: option.split)
next
  case Verified
  then show ?thesis
    using assms cache_store_ok [OF assms, of "\<lparr>ce_expires = now + dnsCacheTTL, ce_verdict = Verified\<rparr>"]
    by (simp add: verifyProvider_def Let_def cacheStoreKey_negative split: option.split)
next
  case Unverified
  then show ?thesis
    using assms cache_store_ok [OF assms, of "\<lparr>ce_expires = now + dnsCacheTTL, ce_verdict = Unverified\<rparr>"]
    by (simp add: verifyProvider_def Let_def cacheStoreKey_negative split: option.split)
qed

lemma cache_find_Some:
  "cache_find c now ks = Some v \<Longrightarrow> \<exists>k\<in>set ks. \<exists>e. map_of c k = Some e \<and> now < ce_expires e \<and> ce_verdict e = v"
  by (induction ks) (auto split: option.splits if_splits)

text \<open>Forward-confirmed reverse DNS: a name of the provider's domain that resolves back.\<close>

definition forward_confirmed :: "resolver \<Rightarrow> provider \<Rightarrow> addr \<Rightarrow> bool" where
  "forward_confirmed res p a \<longleftrightarrow>
     (\<exists>raws raw addrs b. LookupAddr res (addr_String a) = Inr raws \<and> raw \<in> set raws
        \<and> hasDomainSuffix (trim_suffix (to_lower raw) ''.'') (p_ptrSuffixes p)
        \<and> LookupIPAddr res (trim_suffix (to_lower raw) ''.'') = Inr addrs
        \<and> Some b \<in> set addrs \<and> addr_Unmap b = a)"

lemma dns_names_Verified:
  "dns_names res p a indet raws = Verified \<Longrightarrow>
     \<exists>raw addrs b. raw \<in> set raws
        \<and> hasDomainSuffix (trim_suffix (to_lower raw) ''.'') (p_ptrSuffixes p)
        \<and> LookupIPAddr res (trim_suffix (to_lower raw) ''.'') = Inr addrs
        \<and> Some b \<in> set addrs \<and> addr_Unmap b = a"
proof (induction raws arbitrary: indet)
  case (Cons raw raws)
  let ?n = "trim_suffix (to_lower raw) ''.''"
  show ?case
  proof (cases "hasDomainSuffix ?n (p_ptrSuffixes p)")
    case False
    then have "dns_names res p a indet raws = Verified" using Cons.prems by (simp add: Let_def)
    from Cons.IH [OF this] show ?thesis by auto
  next
    case suf: True
    show ?thesis
    proof (cases "LookupIPAddr res ?n")
      case (Inl e)
      then have "dns_names res p a (indet \<or> dnsErrorVerdict e = Indeterminate) raws = Verified"
        using Cons.prems suf by (simp add: Let_def)
      from Cons.IH [OF this] show ?thesis by auto
    next
      case (Inr addrs)
      show ?thesis
      proof (cases "list_ex (\<lambda>x. case x of None \<Rightarrow> False | Some b \<Rightarrow> addr_Unmap b = a) addrs")
        case True
        then obtain b where "Some b \<in> set addrs" "addr_Unmap b = a"
          by (auto simp: list_ex_iff split: option.splits)
        then show ?thesis using suf Inr by (intro exI [of _ raw]) auto
      next
        case False
        then have "dns_names res p a indet raws = Verified" using Cons.prems suf Inr by (simp add: Let_def)
        from Cons.IH [OF this] show ?thesis by auto
      qed
    qed
  qed
qed (simp split: if_splits)

lemma dnsErrorVerdict_not_Verified: "dnsErrorVerdict e \<noteq> Verified"
  by (cases e) simp_all

lemma verifyDNS_Verified:
  assumes "verifyDNS res p a = Verified" shows "forward_confirmed res p a"
proof (cases "LookupAddr res (addr_String a)")
  case (Inl e)
  then show ?thesis using assms by (simp add: verifyDNS_def dnsErrorVerdict_not_Verified)
next
  case (Inr names)
  then have "dns_names res p a False names = Verified" using assms by (simp add: verifyDNS_def)
  from dns_names_Verified [OF this] Inr show ?thesis unfolding forward_confirmed_def by blast
qed

lemma provider_named_in: "provider_named n ps = Some p \<Longrightarrow> p \<in> set ps \<and> p_name p = n"
  by (induction ps) (auto split: if_splits)

inductive crawler_reach :: "crawler_set \<Rightarrow> crawler_set \<Rightarrow> bool" for s0 where
  crawler_start: "cs_cache s0 = [] \<Longrightarrow> crawler_reach s0 s0"
| crawler_step: "crawler_reach s0 s \<Longrightarrow> crawler_reach s0 (snd (crawler_Verify s res slot now claim a))"

lemma crawler_reach_ok: "crawler_reach s0 s \<Longrightarrow> cache_ok (cs_cache s)"
proof (induction rule: crawler_reach.induct)
  case crawler_start
  then show ?case by (simp add: cache_ok_def)
next
  case (crawler_step s res slot now claim a)
  then show ?case by (auto simp: crawler_Verify_def verifyProvider_ok split: option.split)
qed

subsection \<open>Properties\<close>

text \<open>A User-Agent carries a product token exactly when the token stands at its start or right after a
  space, tab, opening parenthesis or semicolon; being embedded in another word is not enough. The
  search that jumps from match to match misses none, for every token of the shipped tables.\<close>

theorem ContainsProduct_iff:
  assumes "plain_product product"
  shows "ContainsProduct ua product \<longleftrightarrow>
    (\<exists>a b. ua = a @ product @ b \<and> (a = [] \<or> last a \<in> set '' ('' \<or> last a = CHR 0x09 \<or> last a = CHR '';''))"
proof -
  have "product_at ua product None \<longleftrightarrow>
    (\<exists>a b. ua = a @ product @ b \<and> (a = [] \<or> last a \<in> set '' ('' \<or> last a = CHR 0x09 \<or> last a = CHR '';''))"
    unfolding product_at_def ua_separators_def by (intro arg_cong [where f = Ex] ext) auto
  then show ?thesis
    using product_loop_sound [of None ua product] product_loop_complete [of ua product None] assms
    by (auto simp: ContainsProduct_def plain_product_def)
qed

lemma ContainsProduct_iff_witness:
  "(\<exists>a b. ''x bingbot/2'' = a @ ''bingbot/'' @ b
     \<and> (a = [] \<or> last a \<in> set '' ('' \<or> last a = CHR 0x09 \<or> last a = CHR '';'')) \<and> ContainsProduct ''x bingbot/2'' ''bingbot/''"
proof -
  have p: "plain_product ''bingbot/''" by code_simp
  have e: "\<exists>a b. ''x bingbot/2'' = a @ ''bingbot/'' @ b
     \<and> (a = [] \<or> last a \<in> set '' ('' \<or> last a = CHR 0x09 \<or> last a = CHR '';'')"
    by (rule exI [of _ "''x ''"]) simp
  then show ?thesis using ContainsProduct_iff [OF p] by blast
qed

text \<open>C26: a crawler is let through only if its address is in the provider's published ranges, or was
  confirmed by DNS for exactly this address and provider: now, by a name of the provider's domain
  that resolves back to the address, or before, by a cache entry that has not expired. A saturated
  or failing resolver never admits.\<close>

theorem crawler_Verified_sound:
  assumes "crawler_reach s0 s" and "fst (crawler_Verify s res slot now claim a) = Verified"
  shows "\<exists>p\<in>set (cs_providers s). p_name p = claim
    \<and> ((\<exists>q\<in>set (p_prefixes p). prefix_Contains q (addr_Unmap a))
       \<or> (\<exists>e. map_of (cs_cache s) \<lparr>ck_addr = addr_Unmap a, ck_provider = p_id p, ck_negative = False\<rparr> = Some e
            \<and> now < ce_expires e)
       \<or> (slot \<and> forward_confirmed res p (addr_Unmap a)))"
proof -
  obtain p where p: "provider_named claim (cs_providers s) = Some p"
    and v: "fst (verifyProvider s res slot now p (addr_Unmap a)) = Verified"
    using assms(2) by (auto simp: crawler_Verify_def split: option.splits)
  have c: "cache_ok (cs_cache s)" using assms(1) by (rule crawler_reach_ok)
  consider (range) "list_ex (\<lambda>q. prefix_Contains q (addr_Unmap a)) (p_prefixes p)"
    | (cached) "cache_find (cs_cache s) now (cacheLookupKeys p (addr_Unmap a)) = Some Verified"
    | (dns) "slot" "verifyDNS res p (addr_Unmap a) = Verified"
    using v by (auto simp: verifyProvider_def Let_def split: if_splits option.splits)
  then have "(\<exists>q\<in>set (p_prefixes p). prefix_Contains q (addr_Unmap a))
       \<or> (\<exists>e. map_of (cs_cache s) \<lparr>ck_addr = addr_Unmap a, ck_provider = p_id p, ck_negative = False\<rparr> = Some e
            \<and> now < ce_expires e)
       \<or> (slot \<and> forward_confirmed res p (addr_Unmap a))"
  proof cases
    case range
    then show ?thesis by (auto simp: list_ex_iff)
  next
    case cached
    from cache_find_Some [OF this] obtain k e where k: "k \<in> set (cacheLookupKeys p (addr_Unmap a))"
      "map_of (cs_cache s) k = Some e" "now < ce_expires e" "ce_verdict e = Verified" by blast
    have "\<not> ck_negative k" using c k(2,4) by (auto simp: cache_ok_def dest!: map_of_SomeD)
    then have "k = \<lparr>ck_addr = addr_Unmap a, ck_provider = p_id p, ck_negative = False\<rparr>"
      using k(1) by (auto simp: cacheLookupKeys_def cacheStoreKey_def Let_def)
    then show ?thesis using k(2,3) by blast
  next
    case dns
    then show ?thesis using verifyDNS_Verified by blast
  qed
  then show ?thesis using provider_named_in [OF p] by blast
qed

definition demo_crawlers :: crawler_set where
  "demo_crawlers = \<lparr>cs_providers = [yandexbot\<lparr>p_id := 3\<rparr>], cs_cache = []\<rparr>"

definition demo_resolver :: resolver where
  "demo_resolver = \<lparr>LookupAddr = (\<lambda>_. Inr [''spider.yandex.com.'']), LookupIPAddr = (\<lambda>_. Inr [Some (AddrV4 7)]),
     FirstRanged = 0\<rparr>"

lemma crawler_Verified_sound_witness:
  "\<exists>p\<in>set (cs_providers demo_crawlers). p_name p = ''yandexbot''
    \<and> ((\<exists>q\<in>set (p_prefixes p). prefix_Contains q (addr_Unmap (AddrV4 7)))
       \<or> (\<exists>e. map_of (cs_cache demo_crawlers) \<lparr>ck_addr = addr_Unmap (AddrV4 7), ck_provider = p_id p, ck_negative = False\<rparr> = Some e
            \<and> 5 < ce_expires e)
       \<or> (True \<and> forward_confirmed demo_resolver p (addr_Unmap (AddrV4 7))))"
proof (rule crawler_Verified_sound)
  show "crawler_reach demo_crawlers demo_crawlers" by (rule crawler_start) (simp add: demo_crawlers_def)
  show "fst (crawler_Verify demo_crawlers demo_resolver True 5 ''yandexbot'' (AddrV4 7)) = Verified" by code_simp
qed

text \<open>C27: the verdict cache stays bounded, holds each key once, and holds only definite verdicts: a
  negative one only under a negative key, a positive one only under a positive key, so a
  temporary failure is never remembered and a neighbour's refusal never turns into an admission.\<close>

theorem crawler_cache_invariant:
  assumes "crawler_reach s0 s"
  shows "length (cs_cache s) \<le> 8192 \<and> distinct (map fst (cs_cache s))
    \<and> (\<forall>(k, e)\<in>set (cs_cache s). ce_verdict e = (if ck_negative k then Unverified else Verified))"
  using crawler_reach_ok [OF assms] by (simp add: cache_ok_def maxCacheEntries_def)

lemma crawler_cache_invariant_witness:
  "length (cs_cache (snd (crawler_Verify demo_crawlers demo_resolver True 5 ''yandexbot'' (AddrV4 7)))) \<le> 8192"
  by (rule crawler_cache_invariant [THEN conjunct1, of demo_crawlers])
    (auto intro!: crawler_reach.intros simp: demo_crawlers_def)

end
