(* ===== verification/Guards.thy ===== *)
theory Guards
  imports Prelude
begin

text \<open>
  \<open>internal/payment/guards.go\<close>: the per-client token bucket and the circuit breaker. Token
  counts and rates are rationals where the code has float64.
\<close>

subsection \<open>Limiter\<close>

record bucket =
  bk_tokens :: rat
  bk_last :: time

record limiter =
  lim_buckets :: "(bytes \<times> bucket) list"
  lim_rate :: rat
  lim_burst :: rat

definition NewLimiter :: "int \<Rightarrow> int \<Rightarrow> limiter" where
  "NewLimiter perMinute burst =
     (let perMinute = (if perMinute \<le> 0 then 6 else perMinute);
          burst = (if burst \<le> 0 then perMinute else burst)
      in \<lparr>lim_buckets = [], lim_rate = of_int perMinute / 60, lim_burst = of_int burst\<rparr>)"

definition Seconds :: "duration \<Rightarrow> rat" where
  "Seconds d = of_int d / of_int second"

definition Allow :: "limiter \<Rightarrow> time \<Rightarrow> bytes \<Rightarrow> bool \<times> limiter" where
  "Allow l now key =
     (case map_of (lim_buckets l) key of
        None \<Rightarrow>
          (let bs = (if 8192 < length (lim_buckets l) then [] else lim_buckets l)
           in (True, l\<lparr>lim_buckets := AList.update key \<lparr>bk_tokens = lim_burst l - 1, bk_last = now\<rparr> bs\<rparr>))
      | Some b \<Rightarrow>
          (let t = bk_tokens b + Seconds (time_sub now (bk_last b)) * lim_rate l;
               t = (if lim_burst l < t then lim_burst l else t)
           in if t < 1
              then (False, l\<lparr>lim_buckets := AList.update key \<lparr>bk_tokens = t, bk_last = now\<rparr> (lim_buckets l)\<rparr>)
              else (True, l\<lparr>lim_buckets := AList.update key \<lparr>bk_tokens = t - 1, bk_last = now\<rparr> (lim_buckets l)\<rparr>)))"

subsection \<open>Breaker\<close>

text \<open>\<open>time.Time{}\<close>, the zero instant, is the first of January of the year 1.\<close>

definition zero_time :: time where
  "zero_time = unix_time (- 62135596800)"

record breaker =
  br_failures :: "time list"
  br_openUntil :: time
  br_threshold :: nat
  br_window :: duration
  br_cooldown :: duration

definition NewBreaker :: "int \<Rightarrow> duration \<Rightarrow> duration \<Rightarrow> breaker" where
  "NewBreaker threshold window cooldown =
     \<lparr>br_failures = [], br_openUntil = zero_time,
      br_threshold = nat (if threshold \<le> 0 then 3 else threshold),
      br_window = (if window \<le> 0 then 30 * second else window),
      br_cooldown = (if cooldown \<le> 0 then 30 * second else cooldown)\<rparr>"

definition br_Open :: "breaker \<Rightarrow> time \<Rightarrow> bool" where
  "br_Open b now \<longleftrightarrow> now < br_openUntil b"

definition br_RetryAfter :: "breaker \<Rightarrow> time \<Rightarrow> duration" where
  "br_RetryAfter b now = (let d = time_sub (br_openUntil b) now in if 0 < d then d else 0)"

definition br_Fail :: "breaker \<Rightarrow> time \<Rightarrow> bool \<times> breaker" where
  "br_Fail b now =
     (if now < br_openUntil b then (False, b)
      else
        (let kept = filter (\<lambda>t. now - br_window b < t) (br_failures b) @ [now]
         in if br_threshold b \<le> length kept
            then (True, b\<lparr>br_openUntil := now + br_cooldown b, br_failures := []\<rparr>)
            else (False, b\<lparr>br_failures := kept\<rparr>)))"

definition br_Succeed :: "breaker \<Rightarrow> breaker" where
  "br_Succeed b = b\<lparr>br_failures := [], br_openUntil := zero_time\<rparr>"

subsection \<open>The limiter's rate\<close>

text \<open>
  A run of presentations: the clients and instants, in order; the result counts how often
  \<open>key\<close> was allowed.
\<close>

fun allow_run :: "limiter \<Rightarrow> bytes \<Rightarrow> (bytes \<times> time) list \<Rightarrow> nat \<times> limiter" where
  "allow_run l key [] = (0, l)"
| "allow_run l key ((k, now) # evs) =
     (let (ok, l') = Allow l now k; (n, l'') = allow_run l' key evs
      in ((if ok \<and> k = key then 1 else 0) + n, l''))"

text \<open>How often the run rebuilds the table: a client it does not know, when it holds more than 8192.\<close>

definition rebuilt :: "limiter \<Rightarrow> bytes \<Rightarrow> bool" where
  "rebuilt l k \<longleftrightarrow> map_of (lim_buckets l) k = None \<and> 8192 < length (lim_buckets l)"

fun rebuilds :: "limiter \<Rightarrow> (bytes \<times> time) list \<Rightarrow> nat" where
  "rebuilds l [] = 0"
| "rebuilds l ((k, now) # evs) = (if rebuilt l k then 1 else 0) + rebuilds (snd (Allow l now k)) evs"

definition known_keys :: "limiter \<Rightarrow> bytes set" where
  "known_keys l = fst ` set (lim_buckets l)"

text \<open>The tokens \<open>key\<close> could spend at \<open>now\<close>, before the cap of the burst is applied.\<close>

definition potential :: "limiter \<Rightarrow> bytes \<Rightarrow> time \<Rightarrow> rat" where
  "potential l key now =
     (case map_of (lim_buckets l) key of
        None \<Rightarrow> lim_burst l
      | Some b \<Rightarrow> bk_tokens b + Seconds (now - bk_last b) * lim_rate l)"

definition limiter_ok :: "limiter \<Rightarrow> bytes \<Rightarrow> time \<Rightarrow> bool" where
  "limiter_ok l key now \<longleftrightarrow>
     0 \<le> lim_rate l \<and> 1 \<le> lim_burst l \<and> distinct (map fst (lim_buckets l))
     \<and> (\<forall>b. map_of (lim_buckets l) key = Some b \<longrightarrow> bk_last b \<le> now \<and> 0 \<le> bk_tokens b)"

lemma Seconds_add: "Seconds (a + b) = Seconds a + Seconds b"
  by (simp add: Seconds_def add_divide_distrib)

lemma Seconds_mono: "a \<le> b \<Longrightarrow> Seconds a \<le> Seconds b"
  by (simp add: Seconds_def second_def divide_right_mono)

lemma time_sub_le: "u \<le> t \<Longrightarrow> time_sub t u \<le> t - u"
  by (simp add: time_sub_def min_def max_def min_int64_def)

lemma Allow_frame [frame]:
  "lim_rate (snd (Allow l now k)) = lim_rate l" "lim_burst (snd (Allow l now k)) = lim_burst l"
  by (simp_all add: Allow_def Let_def split: option.split)

lemma Allow_other:
  "k \<noteq> key \<Longrightarrow> map_of (lim_buckets (snd (Allow l now k))) key = (if rebuilt l k then None else map_of (lim_buckets l) key)"
  by (auto simp: Allow_def rebuilt_def Let_def map_of_update split: option.split)

lemma Allow_known:
  assumes "\<not> rebuilt l k" shows "known_keys (snd (Allow l now k)) = insert k (known_keys l)"
proof -
  have u: "fst ` set (AList.update k v (lim_buckets l)) = insert k (fst ` set (lim_buckets l))" for v
    using dom_update [of k v "lim_buckets l"] by (simp add: dom_map_of_conv_image_fst)
  show ?thesis using assms
    by (cases "map_of (lim_buckets l) k") (simp_all add: Allow_def rebuilt_def Let_def known_keys_def u)
qed

lemma Allow_distinct:
  "distinct (map fst (lim_buckets l)) \<Longrightarrow> distinct (map fst (lim_buckets (snd (Allow l now k))))"
  by (simp add: Allow_def Let_def AList.distinct_update split: option.split)

lemma potential_mono:
  assumes "0 \<le> lim_rate l" "t \<le> now"
  shows "potential l key now \<le> potential l key t + Seconds (now - t) * lim_rate l"
proof (cases "map_of (lim_buckets l) key")
  case None
  have "0 \<le> Seconds (now - t) * lim_rate l"
    using assms by (intro mult_nonneg_nonneg) (auto simp: Seconds_def second_def)
  then show ?thesis by (simp add: potential_def None)
next
  case (Some b)
  have "Seconds (now - bk_last b) = Seconds (t - bk_last b) + Seconds (now - t)"
    by (simp flip: Seconds_add)
  then show ?thesis by (simp add: potential_def Some distrib_right)
qed

lemma Allow_new:
  "map_of (lim_buckets l) key = None \<Longrightarrow>
     fst (Allow l now key) \<and> map_of (lim_buckets (snd (Allow l now key))) key
       = Some \<lparr>bk_tokens = lim_burst l - 1, bk_last = now\<rparr>"
  by (simp add: Allow_def Let_def map_of_update)

text \<open>What a known client has after the refill and before the presentation is charged.\<close>

definition refilled :: "limiter \<Rightarrow> time \<Rightarrow> bucket \<Rightarrow> rat" where
  "refilled l now b = min (lim_burst l) (bk_tokens b + Seconds (time_sub now (bk_last b)) * lim_rate l)"

lemma Allow_old:
  "map_of (lim_buckets l) key = Some b \<Longrightarrow>
     fst (Allow l now key) = (1 \<le> refilled l now b)
     \<and> map_of (lim_buckets (snd (Allow l now key))) key
       = Some \<lparr>bk_tokens = (if 1 \<le> refilled l now b then refilled l now b - 1 else refilled l now b), bk_last = now\<rparr>"
  by (simp add: Allow_def Let_def map_of_update refilled_def min_def)

lemma potential_now: "map_of (lim_buckets l) key = Some \<lparr>bk_tokens = t, bk_last = now\<rparr> \<Longrightarrow> potential l key now = t"
  by (simp add: potential_def Seconds_def)

lemma limiter_ok_bucket:
  "limiter_ok l key now \<Longrightarrow> map_of (lim_buckets l) key = Some b \<Longrightarrow> bk_last b \<le> now \<and> 0 \<le> bk_tokens b"
  by (simp only: limiter_ok_def)

lemma refilled_le:
  assumes "limiter_ok l key now" "map_of (lim_buckets l) key = Some b"
  shows "refilled l now b \<le> potential l key now"
proof -
  have "Seconds (time_sub now (bk_last b)) * lim_rate l \<le> Seconds (now - bk_last b) * lim_rate l"
    using limiter_ok_bucket [OF assms] assms(1)
    by (intro mult_right_mono Seconds_mono time_sub_le) (simp_all add: limiter_ok_def)
  then show ?thesis by (simp add: refilled_def potential_def assms(2))
qed

lemma Seconds_time_sub_nonneg: "u \<le> t \<Longrightarrow> 0 \<le> Seconds (time_sub t u)"
  by (simp add: Seconds_def second_def time_sub_def max_int64_def min_int64_def)

lemma refilled_nonneg:
  assumes "limiter_ok l key now" "map_of (lim_buckets l) key = Some b"
  shows "0 \<le> refilled l now b"
  using limiter_ok_bucket [OF assms] assms(1)
  by (simp add: refilled_def limiter_ok_def Seconds_time_sub_nonneg)

lemma Allow_spends:
  assumes ok: "limiter_ok l key now"
  shows "(if fst (Allow l now key) then 1 else 0) + potential (snd (Allow l now key)) key now
     \<le> potential l key now"
proof (cases "map_of (lim_buckets l) key")
  case None
  from potential_now [where now = now, OF conjunct2 [OF Allow_new [OF None]]]
    Allow_new [OF None, of now] show ?thesis
    by (simp add: potential_def None Seconds_def)
next
  case (Some b)
  from potential_now [where now = now, OF conjunct2 [OF Allow_old [OF Some]]]
    Allow_old [OF Some, of now] refilled_le [OF ok Some]
  show ?thesis by simp
qed

lemma Allow_limiter_ok_same:
  assumes ok: "limiter_ok l key now" shows "limiter_ok (snd (Allow l now key)) key now"
proof -
  have "\<exists>t. 0 \<le> t \<and> map_of (lim_buckets (snd (Allow l now key))) key = Some \<lparr>bk_tokens = t, bk_last = now\<rparr>"
  proof (cases "map_of (lim_buckets l) key")
    case None
    have "0 \<le> lim_burst l - 1" using ok by (simp add: limiter_ok_def)
    then show ?thesis using Allow_new [OF None] by blast
  next
    case (Some b)
    have "0 \<le> (if 1 \<le> refilled l now b then refilled l now b - 1 else refilled l now b)"
      using refilled_nonneg [OF ok Some] by simp
    then show ?thesis using Allow_old [OF Some] by blast
  qed
  moreover have "0 \<le> lim_rate l" "1 \<le> lim_burst l" "distinct (map fst (lim_buckets l))"
    using ok by (simp_all only: limiter_ok_def)
  ultimately show ?thesis unfolding limiter_ok_def frame using Allow_distinct [of l now key] by force
qed

lemma Allow_limiter_ok:
  assumes "limiter_ok l key now" shows "limiter_ok (snd (Allow l now k)) key now"
proof (cases "k = key")
  case False
  then show ?thesis
    using assms Allow_distinct [of l now k] unfolding limiter_ok_def frame Allow_other [OF False] by auto
qed (use Allow_limiter_ok_same [OF assms] in simp)

lemma limiter_ok_later: "limiter_ok l key t \<Longrightarrow> t \<le> now \<Longrightarrow> limiter_ok l key now"
  by (auto simp: limiter_ok_def)

lemma potential_nonneg: "limiter_ok l key now \<Longrightarrow> 0 \<le> potential l key now"
  by (auto simp: potential_def limiter_ok_def Seconds_def second_def split: option.split
      intro!: add_nonneg_nonneg mult_nonneg_nonneg)

text \<open>One presentation, of any client: what it spends, and what a rebuilt table gives back.\<close>

lemma Allow_step:
  assumes ok: "limiter_ok l key now"
  shows "(if fst (Allow l now k) \<and> k = key then 1 else 0) + potential (snd (Allow l now k)) key now
     \<le> potential l key now + (if rebuilt l k then lim_burst l else 0)"
proof (cases "k = key")
  case True
  moreover have "0 \<le> lim_burst l" using ok by (simp add: limiter_ok_def)
  ultimately show ?thesis using Allow_spends [OF ok] by auto
next
  case False
  then show ?thesis using Allow_other [OF False, of l now] potential_nonneg [OF ok]
    by (simp add: potential_def frame split: option.split)
qed

lemma allow_run_bound:
  assumes "limiter_ok l key t0" and "sorted (t0 # map snd evs @ [T])"
  shows "of_nat (fst (allow_run l key evs))
    \<le> potential l key t0 + Seconds (T - t0) * lim_rate l + of_nat (rebuilds l evs) * lim_burst l"
  using assms
proof (induction evs arbitrary: l t0)
  case Nil
  then have "0 \<le> potential l key T" by (intro potential_nonneg) (auto intro: limiter_ok_later)
  also have "\<dots> \<le> potential l key t0 + Seconds (T - t0) * lim_rate l"
    using Nil by (intro potential_mono) (auto simp: limiter_ok_def)
  finally show ?case by simp
next
  case (Cons ev evs)
  obtain k now where ev: "ev = (k, now)" by (cases ev)
  define l' where "l' = snd (Allow l now k)"
  have now: "t0 \<le> now" "sorted (now # map snd evs @ [T])" using Cons.prems(2) by (auto simp: ev)
  have ok: "limiter_ok l key now" using limiter_ok_later [OF Cons.prems(1) now(1)] .
  have ih: "of_nat (fst (allow_run l' key evs))
      \<le> potential l' key now + Seconds (T - now) * lim_rate l + of_nat (rebuilds l' evs) * lim_burst l"
    using Cons.IH [of l' now] Allow_limiter_ok [OF ok, of k] now(2) by (simp add: l'_def frame)
  have "potential l key now \<le> potential l key t0 + Seconds (now - t0) * lim_rate l"
    using ok now(1) by (intro potential_mono) (simp_all add: limiter_ok_def)
  moreover have "Seconds (T - t0) = Seconds (now - t0) + Seconds (T - now)" by (simp flip: Seconds_add)
  moreover have "of_nat (fst (allow_run l key (ev # evs)))
      = (if fst (Allow l now k) \<and> k = key then 1 else 0) + (of_nat (fst (allow_run l' key evs)) :: rat)"
    by (auto simp: ev l'_def split_beta Let_def)
  moreover have "of_nat (rebuilds l (ev # evs)) * lim_burst l
      = (if rebuilt l k then lim_burst l else 0) + of_nat (rebuilds l' evs) * lim_burst l"
    by (simp add: ev l'_def distrib_right)
  ultimately show ?case using ih Allow_step [OF ok, of k] by (simp add: l'_def algebra_simps)
qed

text \<open>The cap: however long a client has been silent, a presentation leaves it less than the burst.\<close>

lemma Allow_capped:
  assumes "limiter_ok l key now"
  shows "(if fst (Allow l now key) then 1 else 0) + potential (snd (Allow l now key)) key now \<le> lim_burst l"
proof (cases "map_of (lim_buckets l) key")
  case None
  from potential_now [where now = now, OF conjunct2 [OF Allow_new [OF None]]] Allow_new [OF None, of now]
  show ?thesis by simp
next
  case (Some b)
  have "refilled l now b \<le> lim_burst l" by (simp add: refilled_def)
  with potential_now [where now = now, OF conjunct2 [OF Allow_old [OF Some]]] Allow_old [OF Some, of now]
  show ?thesis by simp
qed

lemma allow_window_bound:
  assumes "limiter_ok l key t0" and "sorted (t0 # map snd evs @ [T])"
  shows "of_nat (fst (allow_run l key evs))
    \<le> lim_burst l + Seconds (T - t0) * lim_rate l + of_nat (rebuilds l evs) * lim_burst l"
  using assms
proof (induction evs arbitrary: l t0)
  case Nil
  then show ?case by (simp add: limiter_ok_def Seconds_def second_def)
next
  case (Cons ev evs)
  obtain k now where ev: "ev = (k, now)" by (cases ev)
  define l' where "l' = snd (Allow l now k)"
  have now: "t0 \<le> now" "sorted (now # map snd evs @ [T])" using Cons.prems(2) by (auto simp: ev)
  have ok: "limiter_ok l key now" "limiter_ok l' key now"
    using limiter_ok_later [OF Cons.prems(1) now(1)] Allow_limiter_ok by (auto simp: l'_def)
  have run: "of_nat (fst (allow_run l key (ev # evs)))
      = (if fst (Allow l now k) \<and> k = key then 1 else 0) + (of_nat (fst (allow_run l' key evs)) :: rat)"
    "(of_nat (rebuilds l' evs) :: rat) \<le> of_nat (rebuilds l (ev # evs))"
    by (auto simp: ev l'_def split_beta Let_def)
  have "of_nat (fst (allow_run l key (ev # evs)))
      \<le> lim_burst l + Seconds (T - now) * lim_rate l + of_nat (rebuilds l' evs) * lim_burst l"
  proof (cases "k = key")
    case True
    with allow_run_bound [OF ok(2) now(2)] Allow_capped [OF ok(1)] run(1) show ?thesis by (simp add: l'_def frame)
  next
    case False
    with Cons.IH [OF ok(2) now(2)] run(1) show ?thesis by (simp add: l'_def frame)
  qed
  moreover have "Seconds (T - now) * lim_rate l \<le> Seconds (T - t0) * lim_rate l"
    using now(1) ok(1) by (intro mult_right_mono Seconds_mono) (simp_all add: limiter_ok_def)
  moreover have "of_nat (rebuilds l' evs) * lim_burst l \<le> of_nat (rebuilds l (ev # evs)) * lim_burst l"
    using run(2) ok(1) by (intro mult_right_mono) (simp_all add: limiter_ok_def)
  ultimately show ?case by linarith
qed

text \<open>The state after a run is as good as a new one, and few clients never fill the table.\<close>

lemma allow_run_ok:
  "limiter_ok l key t0 \<Longrightarrow> sorted (t0 # map snd evs @ [T]) \<Longrightarrow>
     limiter_ok (snd (allow_run l key evs)) key T \<and> lim_rate (snd (allow_run l key evs)) = lim_rate l
     \<and> lim_burst (snd (allow_run l key evs)) = lim_burst l"
proof (induction evs arbitrary: l t0)
  case (Cons ev evs)
  obtain k now where ev: "ev = (k, now)" by (cases ev)
  with Cons.prems have "limiter_ok (snd (Allow l now k)) key now" by (auto intro: Allow_limiter_ok limiter_ok_later)
  from Cons.IH [OF this] Cons.prems ev show ?case by (simp add: split_beta Let_def frame)
qed (auto intro: limiter_ok_later)

lemma known_keys_length:
  "distinct (map fst (lim_buckets l)) \<Longrightarrow> card (known_keys l) = length (lim_buckets l)"
  using distinct_card [of "map fst (lim_buckets l)"] by (simp add: known_keys_def)

lemma few_not_rebuilt:
  assumes "distinct (map fst (lim_buckets l))" and "card (known_keys l \<union> K) \<le> 8193" and "finite K" and "k \<in> K"
  shows "\<not> rebuilt l k"
proof
  assume r: "rebuilt l k"
  then have "k \<notin> known_keys l" by (auto simp: rebuilt_def known_keys_def map_of_eq_None_iff)
  then have "card (insert k (known_keys l)) = Suc (length (lim_buckets l))"
    using known_keys_length [OF assms(1)] by (simp add: known_keys_def)
  moreover have "card (insert k (known_keys l)) \<le> card (known_keys l \<union> K)"
    using assms(3,4) by (intro card_mono) (auto simp: known_keys_def)
  ultimately show False using r assms(2) by (simp add: rebuilt_def)
qed

lemma few_rebuilds:
  assumes "distinct (map fst (lim_buckets l))" and "card (known_keys l \<union> fst ` set (past @ evs)) \<le> 8193"
  shows "rebuilds (snd (allow_run l key past)) evs = 0"
  using assms
proof (induction past arbitrary: l)
  case Nil
  then show ?case
  proof (induction evs arbitrary: l)
    case (Cons ev evs)
    obtain k now where ev: "ev = (k, now)" by (cases ev)
    have n: "\<not> rebuilt l k" using few_not_rebuilt [OF Cons.prems(1), of "fst ` set (ev # evs)" k] Cons.prems(2) by (simp add: ev)
    from Cons.IH [of "snd (Allow l now k)"] Cons.prems n show ?case
      by (simp add: ev Allow_known [OF n] Allow_distinct)
  qed simp
next
  case (Cons ev past)
  obtain k now where ev: "ev = (k, now)" by (cases ev)
  have n: "\<not> rebuilt l k" using few_not_rebuilt [OF Cons.prems(1), of "fst ` set ((ev # past) @ evs)" k] Cons.prems(2) by (simp add: ev)
  from Cons.IH [of "snd (Allow l now k)"] Cons.prems n show ?case
    by (simp add: ev Allow_known [OF n] Allow_distinct split_beta Let_def)
qed

lemma NewLimiter_ok: "limiter_ok (NewLimiter perMinute burst) key t"
  by (auto simp: NewLimiter_def limiter_ok_def Let_def)

subsection \<open>The breaker's invariant\<close>

text \<open>Open is bounded by the cooldown, and fewer than \<open>threshold\<close> failures are remembered.\<close>

definition breaker_ok :: "breaker \<Rightarrow> time \<Rightarrow> bool" where
  "breaker_ok b now \<longleftrightarrow>
     0 < br_threshold b \<and> 0 < br_window b \<and> 0 < br_cooldown b
     \<and> length (br_failures b) < br_threshold b
     \<and> br_openUntil b \<le> now + br_cooldown b"

datatype br_event = BrFail time | BrSucceed time

fun br_at :: "br_event \<Rightarrow> time" where
  "br_at (BrFail t) = t"
| "br_at (BrSucceed t) = t"

fun br_apply :: "breaker \<Rightarrow> br_event \<Rightarrow> breaker" where
  "br_apply b (BrFail t) = snd (br_Fail b t)"
| "br_apply b (BrSucceed t) = br_Succeed b"

lemma breaker_ok_later: "breaker_ok b t \<Longrightarrow> t \<le> now \<Longrightarrow> breaker_ok b now"
  by (simp add: breaker_ok_def)

lemma br_Fail_ok:
  assumes "breaker_ok b now" shows "breaker_ok (snd (br_Fail b now)) now"
  using assms by (simp add: br_Fail_def breaker_ok_def Let_def)

lemma br_apply_ok:
  assumes "breaker_ok b (br_at ev)" and "zero_time \<le> br_at ev"
  shows "breaker_ok (br_apply b ev) (br_at ev)"
  using assms by (cases ev) (auto simp: br_Fail_ok, auto simp: breaker_ok_def br_Succeed_def)

lemma NewBreaker_ok: "zero_time \<le> t \<Longrightarrow> breaker_ok (NewBreaker n w c) t"
  by (auto simp: NewBreaker_def breaker_ok_def second_def)

lemma br_frame [frame]:
  "br_cooldown (br_apply b ev) = br_cooldown b" "br_threshold (br_apply b ev) = br_threshold b"
  "br_window (br_apply b ev) = br_window b"
  by (cases ev; simp add: br_Fail_def br_Succeed_def Let_def)+

lemma foldl_br_apply_frame [frame]: "br_cooldown (foldl br_apply b evs) = br_cooldown b"
  by (induction evs arbitrary: b) (simp_all add: frame)

lemma foldl_br_apply_ok:
  "breaker_ok b t \<Longrightarrow> sorted (t # map br_at evs @ [now]) \<Longrightarrow> zero_time \<le> t \<Longrightarrow>
     breaker_ok (foldl br_apply b evs) now"
proof (induction evs arbitrary: b t)
  case (Cons ev evs)
  then have "breaker_ok (br_apply b ev) (br_at ev)"
    by (intro br_apply_ok breaker_ok_later [of b t "br_at ev"]) auto
  with Cons.IH [of "br_apply b ev" "br_at ev"] Cons.prems show ?case by auto
qed (auto intro: breaker_ok_later)

subsection \<open>Properties\<close>

text \<open>C29: a client's presentations are rate limited in every window. After any past, with a clock that does not go
  back, the number allowed to one client in a window of presentations by any clients is at most the burst, plus the
  sustained rate times the length of the window, plus one burst for each time the window rebuilds the table of buckets;
  and it is not rebuilt while no more than 8193 clients have been seen.\<close>

theorem Allow_rate:
  assumes "sorted (map snd past @ t0 # map snd evs @ [T])" and "0 < perMinute" and "0 < burst"
    and "l = snd (allow_run (NewLimiter perMinute burst) key past)"
  shows "of_nat (fst (allow_run l key evs))
      \<le> of_int burst + Seconds (T - t0) * of_int perMinute / 60 + of_nat (rebuilds l evs) * (of_int burst :: rat)
    \<and> (card (fst ` set (past @ evs)) \<le> 8193 \<longrightarrow> rebuilds l evs = 0)"
proof -
  have fields: "lim_rate (NewLimiter perMinute burst) = of_int perMinute / 60" "lim_burst (NewLimiter perMinute burst) = of_int burst"
    "lim_buckets (NewLimiter perMinute burst) = []"
    using assms(2,3) by (simp_all add: NewLimiter_def)
  define t where "t = (case past of [] \<Rightarrow> t0 | ev # _ \<Rightarrow> snd ev)"
  have "sorted (t # map snd past @ [t0])" "sorted (t0 # map snd evs @ [T])"
    using assms(1) by (cases past; force simp: t_def sorted_append)+
  then have "limiter_ok l key t0" "lim_rate l = of_int perMinute / 60" "lim_burst l = of_int burst"
    using allow_run_ok [OF NewLimiter_ok, of t past t0 perMinute burst key] fields(1,2) by (simp_all only: assms(4))
  with allow_window_bound [of l key t0 evs T] \<open>sorted (t0 # map snd evs @ [T])\<close>
  have "of_nat (fst (allow_run l key evs))
      \<le> of_int burst + Seconds (T - t0) * of_int perMinute / 60 + of_nat (rebuilds l evs) * (of_int burst :: rat)"
    by (simp only: times_divide_eq_right)
  moreover have "card (fst ` set (past @ evs)) \<le> 8193 \<longrightarrow> rebuilds l evs = 0"
    using few_rebuilds [of "NewLimiter perMinute burst" past evs key] by (simp add: assms(4) fields known_keys_def)
  ultimately show ?thesis by simp
qed

text \<open>An hour of silence buys no more than the burst: two presentations at the same instant, where the burst is one.\<close>

lemma Allow_rate_witness:
  "of_nat (fst (allow_run (snd (allow_run (NewLimiter 6 1) ''k'' [(''k'', 0)])) ''k''
      [(''k'', 3600 * second), (''k'', 3600 * second)])) \<le> (1 :: rat)"
proof -
  let ?l = "snd (allow_run (NewLimiter 6 1) ''k'' [(''k'', 0)])"
  let ?w = "[(''k'', 3600 * second), (''k'', 3600 * second)]"
  have "sorted (map snd [(''k'', 0)] @ 3600 * second # map snd ?w @ [3600 * second])" by (simp add: second_def)
  from Allow_rate [OF this, of 6 1 ?l "''k''"]
  have "of_nat (fst (allow_run ?l ''k'' ?w)) \<le> 1 + Seconds 0 * 6 / 60 + of_nat (rebuilds ?l ?w) * (1 :: rat) \<and> rebuilds ?l ?w = 0"
    by simp
  then show ?thesis by (simp add: Seconds_def)
qed

text \<open>The breaker opens on exactly the failure that is the \<open>threshold\<close>-th within the window, and on no
  failure while it is open already.\<close>

theorem br_Fail_opens_iff:
  "fst (br_Fail b now) \<longleftrightarrow>
     br_openUntil b \<le> now
     \<and> br_threshold b \<le> Suc (length (filter (\<lambda>t. now - br_window b < t) (br_failures b)))"
  by (simp add: br_Fail_def Let_def not_less)

text \<open>A facilitator outage never closes the pay door for longer than one cooldown: after any run of
  failures and successes, the time until egress is attempted again is at most the cooldown, and a
  success ends it at once.\<close>

theorem breaker_cooldown_bounded:
  assumes "sorted (t # map br_at evs @ [now])" and "zero_time \<le> t"
  shows "br_RetryAfter (foldl br_apply (NewBreaker n w c) evs) now \<le> (if c \<le> 0 then 30 * second else c)
    \<and> \<not> br_Open (br_Succeed (foldl br_apply (NewBreaker n w c) evs)) now"
proof -
  let ?b = "foldl br_apply (NewBreaker n w c) evs"
  have ok: "breaker_ok ?b now"
    using foldl_br_apply_ok [OF NewBreaker_ok [OF assms(2)] assms(1) assms(2)] .
  have c: "br_cooldown ?b = (if c \<le> 0 then 30 * second else c)" by (simp add: frame NewBreaker_def)
  have d: "br_openUntil ?b - now \<le> br_cooldown ?b" "0 < br_cooldown ?b"
    using ok by (simp_all add: breaker_ok_def)
  then have "br_RetryAfter ?b now \<le> br_cooldown ?b"
    by (auto simp: br_RetryAfter_def Let_def time_sub_def min_int64_def)
  moreover have "zero_time \<le> now" using assms by auto
  ultimately show ?thesis by (simp add: c br_Open_def br_Succeed_def)
qed

lemma breaker_cooldown_bounded_witness:
  "br_RetryAfter (foldl br_apply (NewBreaker 1 0 0) [BrFail 5]) 6 \<le> (if (0::int) \<le> 0 then 30 * second else 0)
    \<and> \<not> br_Open (br_Succeed (foldl br_apply (NewBreaker 1 0 0) [BrFail 5])) 6"
  by (rule breaker_cooldown_bounded [of 0]) (simp_all add: zero_time_def unix_time_def second_def)

end
