(* ===== verification/Wire.thy ===== *)
theory Wire
  imports Json Base64 Challenge
begin

text \<open>
  \<open>internal/payment/wire.go\<close> and \<open>verifier.go\<close>: the payment documents, the decoder of a
  presented payment, the identity of the authorization it spends, and the match against the
  offered rails. The JSON value of a \<open>json.RawMessage\<close> stands for its bytes, which the code only
  ever parses again or forwards. A number in a free-form \<open>extra\<close> keeps its literal text, where
  the code has a float64.
\<close>

definition payment_Version :: int where "payment_Version = 2"

definition HeaderRequired :: bytes where "HeaderRequired = ''Payment-Required''"
definition HeaderSignature :: bytes where "HeaderSignature = ''Payment-Signature''"
definition HeaderResponse :: bytes where "HeaderResponse = ''Payment-Response''"

type_synonym extra = "(bytes \<times> json) list option"

record requirements =
  rq_Scheme :: bytes
  rq_Network :: bytes
  rq_Asset :: bytes
  rq_Amount :: bytes
  rq_PayTo :: bytes
  rq_MaxTimeoutSeconds :: int
  rq_Extra :: extra

definition extra_lookup :: "extra \<Rightarrow> bytes \<Rightarrow> json option" where
  "extra_lookup x k = (case x of None \<Rightarrow> None | Some ms \<Rightarrow> obj_lookup k ms)"

definition TransferMethod :: "requirements \<Rightarrow> bytes" where
  "TransferMethod r =
     (case extra_lookup (rq_Extra r) ''assetTransferMethod'' of
        Some (JStr m) \<Rightarrow> if m \<noteq> [] then m else ''eip3009''
      | _ \<Rightarrow> ''eip3009'')"

record resource =
  rs_URL :: bytes
  rs_Description :: bytes

record required =
  rd_X402Version :: int
  rd_Error :: bytes
  rd_Resource :: resource
  rd_Accepts :: "requirements list"
  rd_Extensions :: "(bytes \<times> json) list"

definition json_str_opt :: "bytes \<Rightarrow> bytes \<Rightarrow> (bytes \<times> json) list" where
  "json_str_opt k v = (if v = [] then [] else [(k, JStr v)])"

definition extra_json :: "extra \<Rightarrow> json" where
  "extra_json x = (case x of None \<Rightarrow> JNull | Some ms \<Rightarrow> JObj ms)"

definition requirements_json :: "requirements \<Rightarrow> json" where
  "requirements_json r = JObj
     [(''scheme'', JStr (rq_Scheme r)), (''network'', JStr (rq_Network r)), (''asset'', JStr (rq_Asset r)),
      (''amount'', JStr (rq_Amount r)), (''payTo'', JStr (rq_PayTo r)),
      (''maxTimeoutSeconds'', JNum (show_int (rq_MaxTimeoutSeconds r))), (''extra'', extra_json (rq_Extra r))]"

definition required_json :: "required \<Rightarrow> json" where
  "required_json d = JObj
     ([(''x402Version'', JNum (show_int (rd_X402Version d)))]
      @ json_str_opt ''error'' (rd_Error d)
      @ [(''resource'', JObj ([(''url'', JStr (rs_URL (rd_Resource d)))]
            @ json_str_opt ''description'' (rs_Description (rd_Resource d)))),
         (''accepts'', JArr (map requirements_json (rd_Accepts d)))]
      @ (if rd_Extensions d = [] then [] else [(''extensions'', JObj (rd_Extensions d))]))"

definition required_Encode :: "required \<Rightarrow> bytes" where
  "required_Encode d = b64_encode StdEncoding (json_print (required_json d))"

record verify_response =
  vr_IsValid :: bool
  vr_InvalidReason :: bytes
  vr_Payer :: bytes

record settle_response =
  sr_Success :: bool
  sr_ErrorReason :: bytes
  sr_Payer :: bytes
  sr_Transaction :: bytes
  sr_Network :: bytes
  sr_Amount :: bytes

record payload =
  pl_X402Version :: int
  pl_Payload :: "json option"
  pl_Accepted :: requirements
  pl_raw :: bytes

record facilitator_request =
  fr_X402Version :: int
  fr_PaymentPayload :: bytes
  fr_PaymentRequirements :: requirements

definition payload_Scheme :: "payload \<Rightarrow> bytes" where "payload_Scheme p = rq_Scheme (pl_Accepted p)"
definition payload_Network :: "payload \<Rightarrow> bytes" where "payload_Network p = rq_Network (pl_Accepted p)"

datatype payment_error =
    ErrMalformedPayload
  | ErrUnidentifiedPayment
  | ErrRequirementsMismatch

definition maxPayloadBytes :: nat where "maxPayloadBytes = 8192"

subsection \<open>Decoding a presented payment\<close>

fun dec_extra :: "extra \<Rightarrow> json list \<Rightarrow> extra option" where
  "dec_extra x [] = Some x"
| "dec_extra x (JNull # js) = dec_extra None js"
| "dec_extra x (JObj ms # js) = dec_extra (Some ((case x of None \<Rightarrow> [] | Some old \<Rightarrow> old) @ ms)) js"
| "dec_extra x (_ # js) = None"

definition zero_requirements :: requirements where
  "zero_requirements = \<lparr>rq_Scheme = [], rq_Network = [], rq_Asset = [], rq_Amount = [], rq_PayTo = [],
     rq_MaxTimeoutSeconds = 0, rq_Extra = None\<rparr>"

definition dec_requirements_obj :: "requirements \<Rightarrow> (bytes \<times> json) list \<Rightarrow> requirements option" where
  "dec_requirements_obj r ms =
     (case (dec_string (rq_Scheme r) (obj_values ''scheme'' ms), dec_string (rq_Network r) (obj_values ''network'' ms),
            dec_string (rq_Asset r) (obj_values ''asset'' ms), dec_string (rq_Amount r) (obj_values ''amount'' ms),
            dec_string (rq_PayTo r) (obj_values ''payTo'' ms),
            dec_int64 (rq_MaxTimeoutSeconds r) (obj_values ''maxTimeoutSeconds'' ms),
            dec_extra (rq_Extra r) (obj_values ''extra'' ms)) of
        (Some s, Some n, Some a, Some m, Some p, Some t, Some x) \<Rightarrow>
          Some \<lparr>rq_Scheme = s, rq_Network = n, rq_Asset = a, rq_Amount = m, rq_PayTo = p,
                rq_MaxTimeoutSeconds = t, rq_Extra = x\<rparr>
      | _ \<Rightarrow> None)"

fun dec_requirements :: "requirements \<Rightarrow> json list \<Rightarrow> requirements option" where
  "dec_requirements r [] = Some r"
| "dec_requirements r (JNull # js) = dec_requirements r js"
| "dec_requirements r (JObj ms # js) =
     (case dec_requirements_obj r ms of None \<Rightarrow> None | Some r' \<Rightarrow> dec_requirements r' js)"
| "dec_requirements r (_ # js) = None"

text \<open>\<open>json.Unmarshal\<close> of the decoded header into the zero \<open>Payload\<close>.\<close>

definition dec_payload :: "bytes \<Rightarrow> payload option" where
  "dec_payload raw =
     (case json_parse raw of
        Some JNull \<Rightarrow> Some \<lparr>pl_X402Version = 0, pl_Payload = None, pl_Accepted = zero_requirements, pl_raw = []\<rparr>
      | Some (JObj ms) \<Rightarrow>
         (case (dec_int64 0 (obj_values ''x402Version'' ms),
                dec_requirements zero_requirements (obj_values ''accepted'' ms)) of
            (Some v, Some acc) \<Rightarrow>
              Some \<lparr>pl_X402Version = v,
                    pl_Payload = (case rev (obj_values ''payload'' ms) of [] \<Rightarrow> None | j # _ \<Rightarrow> Some j),
                    pl_Accepted = acc, pl_raw = []\<rparr>
          | _ \<Rightarrow> None)
      | _ \<Rightarrow> None)"

fun try_encodings :: "b64_encoding list \<Rightarrow> bytes \<Rightarrow> bytes option" where
  "try_encodings [] s = None"
| "try_encodings (e # es) s = (case b64_decode e s of Some raw \<Rightarrow> Some raw | None \<Rightarrow> try_encodings es s)"

definition payload_encodings :: "b64_encoding list" where
  "payload_encodings = [StdEncoding, RawStdEncoding, URLEncoding, RawURLEncoding]"

definition DecodePayload :: "bytes \<Rightarrow> payment_error + payload" where
  "DecodePayload header =
     (if header = [] then Inl ErrMalformedPayload
      else if maxPayloadBytes < length header then Inl ErrMalformedPayload
      else
        (case try_encodings payload_encodings header of
           None \<Rightarrow> Inl ErrMalformedPayload
         | Some raw \<Rightarrow>
            if maxPayloadBytes < length raw then Inl ErrMalformedPayload
            else
              (case dec_payload raw of
                 None \<Rightarrow> Inl ErrMalformedPayload
               | Some p \<Rightarrow>
                  if rq_Scheme (pl_Accepted p) = [] \<or> rq_Network (pl_Accepted p) = [] then Inl ErrMalformedPayload
                  else if pl_Payload p = None then Inl ErrMalformedPayload
                  else if pl_X402Version p \<noteq> payment_Version then Inl ErrMalformedPayload
                  else Inr (p\<lparr>pl_raw := raw\<rparr>))))"

subsection \<open>The identity of an authorization\<close>

text \<open>\<open>big.Int.SetString\<close> in base 10 or 16: an optional sign, then digits.\<close>

definition big_digits :: "nat \<Rightarrow> bytes \<Rightarrow> nat option" where
  "big_digits base s =
     (if s = [] then None
      else if base = 16 then hex_val 0 s
      else if all_digits s then Some (dec_val s) else None)"

definition big_SetString :: "nat \<Rightarrow> bytes \<Rightarrow> int option" where
  "big_SetString base s =
     (case s of
        c # r \<Rightarrow>
          if c = CHR ''-'' then map_option (\<lambda>n. - int n) (big_digits base r)
          else if c = CHR ''+'' then map_option int (big_digits base r)
          else map_option int (big_digits base s)
      | [] \<Rightarrow> None)"

definition canonicalInteger :: "bytes \<Rightarrow> bytes option" where
  "canonicalInteger s =
     (let t = trim_space s;
          hex = 2 < length t \<and> t ! 0 = CHR ''0'' \<and> (t ! 1 = CHR ''x'' \<or> t ! 1 = CHR ''X'')
      in (case big_SetString (if hex then 16 else 10) (if hex then drop 2 t else t) of
            None \<Rightarrow> None
          | Some n \<Rightarrow> if n < 0 \<or> 2 ^ 256 \<le> n then None else Some (show_nat (nat n))))"

record auth_identity =
  au_method :: bytes
  au_from :: bytes
  au_nonce :: bytes

definition authKeys :: "bytes list" where
  "authKeys = [''permit2Authorization'', ''authorization'']"

definition authKeyFor :: "bytes \<Rightarrow> bytes" where
  "authKeyFor method =
     (if method = ''permit2'' then ''permit2Authorization''
      else if method = ''eip3009'' then ''authorization''
      else [])"

text \<open>The \<open>scalar\<close> type: a JSON string or number, as its text.\<close>

fun dec_scalar :: "bytes \<Rightarrow> json list \<Rightarrow> bytes option" where
  "dec_scalar v [] = Some v"
| "dec_scalar v (JStr s # js) = dec_scalar s js"
| "dec_scalar v (JNum n # js) = dec_scalar n js"
| "dec_scalar v (_ # js) = None"

definition dec_from_nonce :: "json \<Rightarrow> (bytes \<times> bytes) option" where
  "dec_from_nonce j =
     (case j of
        JObj ms \<Rightarrow>
         (case (dec_scalar [] (obj_values ''from'' ms), dec_scalar [] (obj_values ''nonce'' ms)) of
            (Some f, Some n) \<Rightarrow> Some (f, n) | _ \<Rightarrow> None)
      | JNull \<Rightarrow> Some ([], [])
      | _ \<Rightarrow> None)"

definition payload_object :: "json option \<Rightarrow> (bytes \<times> json) list option" where
  "payload_object p =
     (case p of Some (JObj ms) \<Rightarrow> Some ms | Some JNull \<Rightarrow> Some [] | _ \<Rightarrow> None)"

text \<open>\<open>Inr None\<close> is the \<open>(nil, nil)\<close> result.\<close>

definition authorization :: "json option \<Rightarrow> bytes \<Rightarrow> payment_error + auth_identity option" where
  "authorization schemePayload method =
     (case payload_object schemePayload of
        None \<Rightarrow> Inr None
      | Some obj \<Rightarrow>
         if 1 < length (filter (\<lambda>k. obj_lookup k obj \<noteq> None) authKeys) then Inl ErrUnidentifiedPayment
         else
           (case filter (\<lambda>k. k = authKeyFor method \<and> obj_lookup k obj \<noteq> None) authKeys of
              [] \<Rightarrow> Inr None
            | key # _ \<Rightarrow>
               (case dec_from_nonce (the (obj_lookup key obj)) of
                  None \<Rightarrow> Inl ErrUnidentifiedPayment
                | Some (from, nonce) \<Rightarrow>
                   if from = [] \<or> nonce = [] then Inl ErrUnidentifiedPayment
                   else
                     (case canonicalInteger nonce of
                        None \<Rightarrow> Inl ErrUnidentifiedPayment
                      | Some n \<Rightarrow>
                         Inr (Some \<lparr>au_method = key, au_from = to_lower from, au_nonce = n\<rparr>)))))"

definition id_preimage :: "requirements \<Rightarrow> auth_identity \<Rightarrow> bytes" where
  "id_preimage req auth =
     json_print (JArr (map JStr
       [''anteroom/x402-payment/v1'', rq_Scheme req, rq_Network req, to_lower (rq_Asset req),
        au_method auth, au_from auth, au_nonce auth])) @ [CHR 0x0A]"

definition payment_ID :: "(bytes \<Rightarrow> bytes) \<Rightarrow> payload \<Rightarrow> requirements \<Rightarrow> payment_error + bytes" where
  "payment_ID sha p req =
     (let method = TransferMethod req in
      if rq_Scheme req \<noteq> ''exact'' \<or> (method \<noteq> ''eip3009'' \<and> method \<noteq> ''permit2'')
      then Inl ErrUnidentifiedPayment
      else
        (case authorization (pl_Payload p) method of
           Inl e \<Rightarrow> Inl e
         | Inr None \<Rightarrow> Inl ErrUnidentifiedPayment
         | Inr (Some auth) \<Rightarrow> Inr (hex_encode (sha (id_preimage req auth)))))"

subsection \<open>Matching a rail\<close>

fun MatchRail :: "payload \<Rightarrow> requirements list \<Rightarrow> payment_error + requirements" where
  "MatchRail p [] = Inl ErrRequirementsMismatch"
| "MatchRail p (r # rs) =
     (if rq_Network r \<noteq> rq_Network (pl_Accepted p) \<or> rq_Scheme r \<noteq> rq_Scheme (pl_Accepted p)
      then MatchRail p rs
      else if \<not> equal_fold (rq_Asset r) (rq_Asset (pl_Accepted p)) then Inl ErrRequirementsMismatch
      else if rq_Amount r \<noteq> rq_Amount (pl_Accepted p) then Inl ErrRequirementsMismatch
      else if \<not> equal_fold (rq_PayTo r) (rq_PayTo (pl_Accepted p)) then Inl ErrRequirementsMismatch
      else Inr r)"

subsection \<open>Facts\<close>

lemma try_encodings_any:
  "e \<in> set es \<Longrightarrow> try_encodings es (b64_encode e raw) = Some raw"
proof (induction es)
  case (Cons d es)
  then show ?case using b64_decode_cross [of d e raw] by (cases "d = e") auto
qed simp

lemma authorization_Some:
  assumes "authorization sp method = Inr (Some a)"
  obtains obj f n where "payload_object sp = Some obj"
    "obj_lookup (authKeyFor method) obj \<noteq> None" "au_method a = authKeyFor method"
    "dec_from_nonce (the (obj_lookup (authKeyFor method) obj)) = Some (f, n)"
    "f \<noteq> []" "au_from a = to_lower f" "canonicalInteger n = Some (au_nonce a)"
proof -
  obtain obj where obj: "payload_object sp = Some obj"
    using assms by (cases "payload_object sp") (auto simp: authorization_def)
  let ?ks = "filter (\<lambda>k. k = authKeyFor method \<and> obj_lookup k obj \<noteq> None) authKeys"
  obtain key ks where ks: "?ks = key # ks"
    using assms obj by (cases ?ks) (auto simp: authorization_def split: if_splits)
  have key: "key = authKeyFor method" "obj_lookup key obj \<noteq> None"
    using ks by (metis (mono_tags, lifting) filter_eq_ConsD)+
  obtain f n where fn: "dec_from_nonce (the (obj_lookup key obj)) = Some (f, n)"
    using assms obj ks by (cases "dec_from_nonce (the (obj_lookup key obj))") (auto simp: authorization_def split: if_splits)
  show thesis
    using assms obj ks key fn
    by (intro that [of obj f n]) (auto simp: authorization_def split: if_splits option.splits)
qed

text \<open>Every spelling of a number in range has one canonical form, its plain decimal digits.\<close>

lemma canonicalInteger_value:
  "canonicalInteger s = Some t \<Longrightarrow> \<exists>n. n < 2 ^ 256 \<and> t = show_nat n"
proof -
  have key: "(case r of None \<Rightarrow> None | Some n \<Rightarrow> if n < 0 \<or> 2 ^ 256 \<le> n then None else Some (show_nat (nat n))) = Some t
      \<Longrightarrow> \<exists>n. n < 2 ^ 256 \<and> t = show_nat n" for r :: "int option"
  proof (cases r)
    case (Some n)
    assume "(case r of None \<Rightarrow> None | Some n \<Rightarrow> if n < 0 \<or> 2 ^ 256 \<le> n then None else Some (show_nat (nat n))) = Some t"
    then have "\<not> (n < 0 \<or> 2 ^ 256 \<le> n) \<and> show_nat (nat n) = t"
      unfolding Some option.case by (simp only: guard_Some option.inject simp_thms)
    then show ?thesis by (intro exI [of _ "nat n"]) (simp add: not_le not_less nat_less_iff)
  qed simp
  assume "canonicalInteger s = Some t"
  then show ?thesis unfolding canonicalInteger_def Let_def by (rule key)
qed

lemma trim_space_id:
  assumes "s \<noteq> []" "\<not> is_space (hd s)" "\<not> is_space (last s)"
  shows "trim_space s = s"
proof -
  have "dropWhile is_space s = s" using assms(1,2) by (cases s) auto
  moreover have "dropWhile is_space (rev s) = rev s"
    using assms(1,3) by (cases s rule: rev_cases) auto
  ultimately show ?thesis by (simp add: trim_space_def trim_left_while_def trim_right_while_def)
qed

lemma digit_not_space: "is_digit c \<Longrightarrow> \<not> is_space c"
  by (auto simp: is_digit_def is_space_def byte_val_def)

lemma digit_not_sign: "is_digit c \<Longrightarrow> c \<noteq> CHR ''-'' \<and> c \<noteq> CHR ''+'' \<and> c \<noteq> CHR ''x'' \<and> c \<noteq> CHR ''X''"
  by (auto simp: is_digit_def byte_val_def)

lemma canonicalInteger_digits:
  assumes "all_digits s" "dec_val s < 2 ^ 256"
  shows "canonicalInteger s = Some (show_nat (dec_val s))"
proof -
  have d: "s \<noteq> []" "\<And>c. c \<in> set s \<Longrightarrow> is_digit c" using assms(1) by (auto simp: all_digits_def list_all_iff)
  have t: "trim_space s = s"
    by (rule trim_space_id [OF d(1) digit_not_space [OF d(2) [OF hd_in_set [OF d(1)]]]
          digit_not_space [OF d(2) [OF last_in_set [OF d(1)]]]])
  have nx: "\<not> (2 < length s \<and> s ! 0 = CHR ''0'' \<and> (s ! 1 = CHR ''x'' \<or> s ! 1 = CHR ''X''))"
    using digit_not_sign [OF d(2) [of "s ! 1"]] by auto
  obtain c r where s: "s = c # r" using d(1) by (cases s) auto
  have "c \<noteq> CHR ''-''" "c \<noteq> CHR ''+''" using digit_not_sign [OF d(2) [of c]] s by auto
  then have b: "big_SetString 10 s = Some (int (dec_val s))"
    using assms(1) by (simp add: s big_SetString_def big_digits_def)
  have lt: "int (dec_val s) < 2 ^ 256"
    using assms(2) by (metis of_nat_less_iff of_nat_numeral of_nat_power)
  show ?thesis
    unfolding canonicalInteger_def Let_def t using nx b lt by (simp only: if_False option.case) simp
qed

lemma canonicalInteger_show_nat: "n < 2 ^ 256 \<Longrightarrow> canonicalInteger (show_nat n) = Some (show_nat n)"
  using canonicalInteger_digits [of "show_nat n"] by (simp add: show_nat_digits)

lemma canonicalInteger_idem: "canonicalInteger s = Some t \<Longrightarrow> canonicalInteger t = Some t"
  using canonicalInteger_value [of s t] canonicalInteger_show_nat by auto

lemma hex_val_nonempty: "hex_val 0 (c # h) = Some n \<Longrightarrow> big_digits 16 (c # h) = Some n"
  by (simp add: big_digits_def)

lemma hex_digit_plain: "hex_digit_val c = Some d \<Longrightarrow> \<not> is_space c \<and> c \<noteq> CHR ''-'' \<and> c \<noteq> CHR ''+''"
  by (auto simp: hex_digit_val_def is_space_def byte_val_def split: if_splits)

lemma hex_val_chars: "hex_val a h = Some n \<Longrightarrow> c \<in> set h \<Longrightarrow> \<exists>d. hex_digit_val c = Some d"
  by (induction h arbitrary: a) (auto split: option.splits)

lemma canonicalInteger_hex:
  assumes h: "hex_val 0 h = Some n" "h \<noteq> []" "n < 2 ^ 256"
  shows "canonicalInteger (''0x'' @ h) = Some (show_nat n)"
proof -
  have pl: "\<not> is_space c \<and> c \<noteq> CHR ''-'' \<and> c \<noteq> CHR ''+''" if "c \<in> set h" for c
    using hex_val_chars [OF h(1) that] hex_digit_plain by blast
  have t: "trim_space (''0x'' @ h) = ''0x'' @ h"
    using pl [OF last_in_set [OF h(2)]] h(2) by (intro trim_space_id) (simp_all add: is_space_def byte_val_def)
  obtain c r where c: "h = c # r" using h(2) by (cases h) auto
  have "big_SetString 16 h = Some (int n)"
    using pl [of c] h(1) by (simp add: c big_SetString_def big_digits_def)
  moreover have "int n < 2 ^ 256" using h(3) by (metis of_nat_less_iff of_nat_numeral of_nat_power)
  ultimately show ?thesis unfolding canonicalInteger_def Let_def t by (simp add: c)
qed

lemma id_preimage_parse:
  assumes "ascii_string (rq_Scheme req)" "ascii_string (rq_Network req)" "ascii_string (rq_Asset req)"
    and "ascii_string (au_method a)" "ascii_string (au_from a)" "ascii_string (au_nonce a)"
  shows "json_parse (butlast (id_preimage req a)) = Some (JArr (map JStr
    [''anteroom/x402-payment/v1'', rq_Scheme req, rq_Network req, to_lower (rq_Asset req),
     au_method a, au_from a, au_nonce a]))"
proof -
  have low: "ascii_string (to_lower s)" if "ascii_string s" for s
    using that by (auto simp: ascii_string_def ascii_char_def to_lower_def lower_char_def list_all_iff)
  have "ascii_string ''anteroom/x402-payment/v1''" by code_simp
  then show ?thesis
    unfolding id_preimage_def butlast_snoc
    by (intro json_parse_print) (simp_all add: assms low)
qed

definition auth_ascii :: "requirements \<Rightarrow> auth_identity \<Rightarrow> bool" where
  "auth_ascii req a \<longleftrightarrow>
     ascii_string (rq_Scheme req) \<and> ascii_string (rq_Network req) \<and> ascii_string (rq_Asset req)
     \<and> ascii_string (au_method a) \<and> ascii_string (au_from a) \<and> ascii_string (au_nonce a)"

lemma MatchRail_cases:
  "MatchRail p rs = Inr r \<Longrightarrow>
     \<exists>xs ys. rs = xs @ r # ys
       \<and> (\<forall>x\<in>set xs. rq_Network x \<noteq> rq_Network (pl_Accepted p) \<or> rq_Scheme x \<noteq> rq_Scheme (pl_Accepted p))
       \<and> rq_Network r = rq_Network (pl_Accepted p) \<and> rq_Scheme r = rq_Scheme (pl_Accepted p)
       \<and> equal_fold (rq_Asset r) (rq_Asset (pl_Accepted p)) \<and> rq_Amount r = rq_Amount (pl_Accepted p)
       \<and> equal_fold (rq_PayTo r) (rq_PayTo (pl_Accepted p))"
proof (induction rs)
  case (Cons x rs)
  show ?case
  proof (cases "rq_Network x \<noteq> rq_Network (pl_Accepted p) \<or> rq_Scheme x \<noteq> rq_Scheme (pl_Accepted p)")
    case True
    with Cons obtain xs ys where "rs = xs @ r # ys \<and>
       (\<forall>x\<in>set xs. rq_Network x \<noteq> rq_Network (pl_Accepted p) \<or> rq_Scheme x \<noteq> rq_Scheme (pl_Accepted p))
       \<and> rq_Network r = rq_Network (pl_Accepted p) \<and> rq_Scheme r = rq_Scheme (pl_Accepted p)
       \<and> equal_fold (rq_Asset r) (rq_Asset (pl_Accepted p)) \<and> rq_Amount r = rq_Amount (pl_Accepted p)
       \<and> equal_fold (rq_PayTo r) (rq_PayTo (pl_Accepted p))" by auto
    then show ?thesis using True by (intro exI [of _ "x # xs"] exI [of _ ys]) simp
  next
    case False
    then show ?thesis using Cons.prems by (intro exI [of _ "[]"] exI [of _ rs]) auto
  qed
qed simp

lemma DecodePayload_ok:
  "DecodePayload h = Inr p \<Longrightarrow>
     rq_Scheme (pl_Accepted p) \<noteq> [] \<and> rq_Network (pl_Accepted p) \<noteq> [] \<and> pl_Payload p \<noteq> None
     \<and> pl_X402Version p = payment_Version \<and> length (pl_raw p) \<le> maxPayloadBytes"
  by (auto simp: DecodePayload_def not_less)

subsection \<open>Properties\<close>

text \<open>Clients may use any of the four base64 spellings: a payment document of acceptable size decodes
  to the same payment under each, so no client is refused, or charged differently, for its
  encoder.\<close>

theorem DecodePayload_any_encoding:
  assumes "e \<in> set payload_encodings" and "e' \<in> set payload_encodings" and "raw \<noteq> []"
    and "length (b64_encode e raw) \<le> maxPayloadBytes" and "length (b64_encode e' raw) \<le> maxPayloadBytes"
  shows "DecodePayload (b64_encode e raw) = DecodePayload (b64_encode e' raw)"
proof -
  have "b64_encode x raw \<noteq> []" for x using b64_encode_inject [of x raw "[]"] assms(3) by (auto simp: b64_encode_def)
  then show ?thesis using assms try_encodings_any [of _ payload_encodings raw]
    by (simp add: DecodePayload_def not_less [symmetric])
qed

lemma DecodePayload_any_encoding_witness:
  "DecodePayload (b64_encode StdEncoding ''{}'') = DecodePayload (b64_encode RawURLEncoding ''{}'')"
  by (rule DecodePayload_any_encoding)
    (simp add: payload_encodings_def, simp add: payload_encodings_def, simp, code_simp, code_simp)

text \<open>One authorization has one identity however it is spelled: two presentations whose authorization
  objects name the same payer up to letter case and the same nonce, as decimal or as hexadecimal,
  quoted or not, get the same payment ID on a rail.\<close>

theorem payment_ID_respelling:
  assumes "payment_ID sha p req = Inr i" and "payment_ID sha p' req = Inr i'"
    and "payload_object (pl_Payload p) = Some obj" and "payload_object (pl_Payload p') = Some obj'"
    and "k = authKeyFor (TransferMethod req)"
    and "obj_lookup k obj = Some (JObj [(''from'', JStr f), (''nonce'', JNum d)])"
    and "obj_lookup k obj' = Some (JObj [(''from'', JStr f'), (''nonce'', JStr (''0x'' @ h))])"
    and "to_lower f = to_lower f'" and "all_digits d" and "hex_val 0 h = Some (dec_val d)" and "h \<noteq> []"
    and "dec_val d < 2 ^ 256"
  shows "i = i'"
proof -
  have fn: "to_lower ''from'' = ''from''" "to_lower ''nonce'' = ''nonce''" by code_simp+
  obtain a where a: "authorization (pl_Payload p) (TransferMethod req) = Inr (Some a)"
    and i: "i = hex_encode (sha (id_preimage req a))"
    using assms(1) by (auto simp: payment_ID_def Let_def split: sum.splits option.splits if_splits)
  obtain a' where a': "authorization (pl_Payload p') (TransferMethod req) = Inr (Some a')"
    and i': "i' = hex_encode (sha (id_preimage req a'))"
    using assms(2) by (auto simp: payment_ID_def Let_def split: sum.splits option.splits if_splits)
  have "a = \<lparr>au_method = k, au_from = to_lower f, au_nonce = show_nat (dec_val d)\<rparr>"
    by (rule authorization_Some [OF a], insert assms(3,5,6) canonicalInteger_digits [OF assms(9,12)])
      (simp add: dec_from_nonce_def equal_fold_def fn)
  moreover have "a' = \<lparr>au_method = k, au_from = to_lower f', au_nonce = show_nat (dec_val d)\<rparr>"
    by (rule authorization_Some [OF a'], insert assms(4,5,7) canonicalInteger_hex [OF assms(10,11,12)])
      (simp add: dec_from_nonce_def equal_fold_def fn)
  ultimately show ?thesis using i i' assms(8) by simp
qed

definition demo_rail :: requirements where
  "demo_rail = \<lparr>rq_Scheme = ''exact'', rq_Network = ''eip155:1'', rq_Asset = ''0xAb'', rq_Amount = ''100'',
     rq_PayTo = ''0xCd'', rq_MaxTimeoutSeconds = 60, rq_Extra = Some []\<rparr>"

definition demo_payload :: "json \<Rightarrow> json \<Rightarrow> payload" where
  "demo_payload f n = \<lparr>pl_X402Version = 2,
     pl_Payload = Some (JObj [(''authorization'', JObj [(''from'', f), (''nonce'', n)])]),
     pl_Accepted = demo_rail, pl_raw = []\<rparr>"

definition demo_id :: bytes where
  "demo_id = ''68''"

lemma demo_ids:
  "payment_ID (\<lambda>_. ''h'') (demo_payload (JStr ''0xA'') (JNum ''17'')) demo_rail = Inr demo_id"
  "payment_ID (\<lambda>_. ''h'') (demo_payload (JStr ''0xa'') (JStr ''0x11'')) demo_rail = Inr demo_id"
  by code_simp+

lemma payment_ID_respelling_witness: "demo_id = demo_id \<and> to_lower ''0xA'' = to_lower ''0xa''"
proof -
  have m: "k = authKeyFor (TransferMethod demo_rail)" if "k = ''authorization''" for k
    unfolding that by code_simp
  have l: "to_lower ''0xA'' = to_lower ''0xa''" by code_simp
  have d: "all_digits ''17''" "hex_val 0 ''11'' = Some 17" "dec_val ''17'' = 17" by code_simp+
  have "demo_id = demo_id"
    by (rule payment_ID_respelling [OF demo_ids, of
          "[(''authorization'', JObj [(''from'', JStr ''0xA''), (''nonce'', JNum ''17'')])]"
          "[(''authorization'', JObj [(''from'', JStr ''0xa''), (''nonce'', JStr (''0x'' @ ''11''))])]"
          "''authorization''" "''0xA''" "''17''" "''0xa''" "''11''"])
      (simp_all add: demo_payload_def payload_object_def m obj_lookup_def l d del: hex_val.simps)
  with l show ?thesis by simp
qed

text \<open>Distinct authorizations have distinct identities, up to a collision of SHA-256: the text that is
  hashed determines the scheme, the network, the token up to case, the transfer method, the payer
  and the nonce.\<close>

theorem id_preimage_inject:
  assumes "auth_ascii req a" and "auth_ascii req' a'"
  shows "id_preimage req a = id_preimage req' a' \<longleftrightarrow>
    rq_Scheme req = rq_Scheme req' \<and> rq_Network req = rq_Network req'
    \<and> equal_fold (rq_Asset req) (rq_Asset req') \<and> a = a'"
proof
  assume "id_preimage req a = id_preimage req' a'"
  then have "json_parse (butlast (id_preimage req a)) = json_parse (butlast (id_preimage req' a'))" by simp
  then show "rq_Scheme req = rq_Scheme req' \<and> rq_Network req = rq_Network req'
    \<and> equal_fold (rq_Asset req) (rq_Asset req') \<and> a = a'"
    using assms by (simp add: auth_ascii_def id_preimage_parse equal_fold_def)
qed (simp add: id_preimage_def equal_fold_def)

definition demo_auth :: auth_identity where
  "demo_auth = \<lparr>au_method = ''authorization'', au_from = ''0xa'', au_nonce = ''17''\<rparr>"

lemma id_preimage_inject_witness:
  "id_preimage demo_rail demo_auth = id_preimage demo_rail (demo_auth\<lparr>au_nonce := ''18''\<rparr>) \<longleftrightarrow>
    rq_Scheme demo_rail = rq_Scheme demo_rail \<and> rq_Network demo_rail = rq_Network demo_rail
    \<and> equal_fold (rq_Asset demo_rail) (rq_Asset demo_rail) \<and> demo_auth = demo_auth\<lparr>au_nonce := ''18''\<rparr>"
  by (rule id_preimage_inject) code_simp+

text \<open>C28: the terms that are settled are the gate's. A matched rail is one of the offered ones, the first
  with the scheme and network the client chose, and it agrees with the client's echo in amount and,
  up to letter case, in token and recipient; the client's echo itself is never returned.\<close>

theorem MatchRail_sound:
  assumes "MatchRail p accepts = Inr r"
  shows "\<exists>before after. accepts = before @ r # after
    \<and> (\<forall>x\<in>set before. rq_Network x \<noteq> payload_Network p \<or> rq_Scheme x \<noteq> payload_Scheme p)
    \<and> rq_Network r = payload_Network p \<and> rq_Scheme r = payload_Scheme p
    \<and> equal_fold (rq_Asset r) (rq_Asset (pl_Accepted p)) \<and> rq_Amount r = rq_Amount (pl_Accepted p)
    \<and> equal_fold (rq_PayTo r) (rq_PayTo (pl_Accepted p))"
  using MatchRail_cases [OF assms] by (simp add: payload_Network_def payload_Scheme_def)

lemma MatchRail_sound_witness:
  "\<exists>before after. [demo_rail\<lparr>rq_Network := ''eip155:2''\<rparr>, demo_rail] = before @ demo_rail # after"
proof -
  have "MatchRail (demo_payload JNull JNull) [demo_rail\<lparr>rq_Network := ''eip155:2''\<rparr>, demo_rail] = Inr demo_rail"
    by (simp add: demo_payload_def demo_rail_def)
  from MatchRail_sound [OF this] show ?thesis by blast
qed

end
