(* ===== verification/Callback.thy ===== *)
theory Callback
  imports Prelude GoStrings Json Http Guards Wire
begin

text \<open>
  \<open>internal/payment/callback.go\<close> with the verdicts of \<open>verifier.go\<close>: one presented payment is
  verified and then settled at the operator's facilitator, and every outcome is classified.

  The facilitator, the network, the clock and the other requests of the process are an
  environment \<open>fac_env\<close>: the answer to each HTTP attempt, the clock at each reading, and what the
  other requests did to the shared breaker and slot count before this request touches them.
\<close>

subsection \<open>Verdicts\<close>

datatype pay_verdict = PayValid | PayInvalid | PayIndeterminate | PayAmbiguous | PayPending

fun pay_verdict_String :: "pay_verdict \<Rightarrow> bytes" where
  "pay_verdict_String PayValid = ''valid''"
| "pay_verdict_String PayInvalid = ''invalid''"
| "pay_verdict_String PayIndeterminate = ''indeterminate''"
| "pay_verdict_String PayAmbiguous = ''ambiguous''"
| "pay_verdict_String PayPending = ''pending''"

text \<open>An \<open>http.Client\<close> error as \<open>retryable\<close> sees it: is it a timeout, and is it an operation error.\<close>

record transport_error =
  te_Timeout :: bool
  te_Op :: "bytes option"

datatype call_error =
    CallEncoding
  | CallRequest
  | CallTransport transport_error
  | CallRedirected bytes
  | CallRateLimited
  | CallServerError int
  | CallReadBody
  | CallMalformed
  | CallNoReason int
  | CallNotTried

datatype fac_error =
    FacBreakerOpen
  | FacSaturated
  | FacCall call_error
  | FacPendingIncomplete
  | FacPendingNetwork bytes bytes
  | FacNoTransaction
  | FacNetwork bytes bytes
  | FacPayer bytes bytes
  | FacAmount bytes bytes

record pay_result =
  res_Verdict :: pay_verdict
  res_Reason :: bytes
  res_Payer :: bytes
  res_Tx :: bytes
  res_Amount :: bytes
  res_Network :: bytes
  res_Err :: "fac_error option"
  res_RetryAfter :: duration

definition zero_result :: "pay_verdict \<Rightarrow> bytes \<Rightarrow> pay_result" where
  "zero_result v reason = \<lparr>res_Verdict = v, res_Reason = reason, res_Payer = [], res_Tx = [],
     res_Amount = [], res_Network = [], res_Err = None, res_RetryAfter = 0\<rparr>"

subsection \<open>Constants\<close>

definition verifyBudget :: duration where "verifyBudget = 2 * second"
definition verifyAttempts :: nat where "verifyAttempts = 2"
definition settleBudget :: duration where "settleBudget = 10 * second"
definition pathBudget :: duration where "pathBudget = 15 * second"
definition maxInFlight :: nat where "maxInFlight = 16"
definition ErrorSettlementPending :: bytes where "ErrorSettlementPending = ''settlement_pending''"
definition pendingRetryAfter :: duration where "pendingRetryAfter = 15 * second"

definition em_dash :: bytes where "em_dash = [CHR 0xE2, CHR 0x80, CHR 0x94]"

definition infraReason :: bytes where
  "infraReason = ''temporarily unable to process payments '' @ em_dash
     @ '' you were not charged, retry with the same payload''"

definition pendingReason :: bytes where
  "pendingReason = ''settlement was broadcast but is not yet confirmed '' @ em_dash
     @ '' do NOT sign a new payment. Check the transaction below, then re-present the SAME PAYMENT-SIGNATURE; ''
     @ ''the authorization cannot transfer its token amount twice, but x402 does not guarantee ''
     @ ''that every facilitator caches settlement results.''"

definition ambiguousReason :: bytes where
  "ambiguousReason = ''settlement outcome unknown '' @ em_dash @ '' you may have been charged. ''
     @ ''Retry with the SAME PAYMENT-SIGNATURE inside its validity window; ''
     @ ''do not sign a replacement until you reconcile the original transaction.''"

subsection \<open>The verifier and its environment\<close>

record callback_verifier =
  cv_base :: bytes
  cv_headers :: header
  cv_verifyBudget :: duration
  cv_settleBudget :: duration
  cv_pathBudget :: duration

text \<open>What a verifier shares between requests: the breaker and the slots in use of \<open>egress\<close>.\<close>

record fac_state =
  fs_breaker :: breaker
  fs_inflight :: nat

definition NewCallbackVerifier :: "bytes \<Rightarrow> header \<Rightarrow> breaker option \<Rightarrow> callback_verifier \<times> fac_state" where
  "NewCallbackVerifier base headers br =
     (\<lparr>cv_base = trim_suffix base ''/'', cv_headers = headers, cv_verifyBudget = verifyBudget,
       cv_settleBudget = settleBudget, cv_pathBudget = pathBudget\<rparr>,
      \<lparr>fs_breaker = (case br of None \<Rightarrow> NewBreaker 3 (30 * second) (30 * second) | Some b \<Rightarrow> b),
       fs_inflight = 0\<rparr>)"

record http_answer =
  ha_Status :: int
  ha_Location :: bytes
  ha_Body :: bytes
  ha_ReadErr :: bool

datatype attempt =
    NotBuilt
  | Failed transport_error
  | Answered http_answer

text \<open>A request that left the gate: its URL, its headers, its body and its time budget.\<close>

record fac_call =
  fc_URL :: bytes
  fc_Header :: header
  fc_Body :: bytes
  fc_Budget :: duration

datatype reading =
    AtOpen | AtOpenRetry | AtSlot | AtVerifyFail | AtVerifyRetry | AtVerifyOk
  | AtSettleFail | AtSettleRetry | AtSettleOk

record fac_env =
  ev_clock :: "reading \<Rightarrow> time"
  ev_others :: "reading \<Rightarrow> fac_state \<Rightarrow> fac_state"
  ev_verify :: "nat \<Rightarrow> attempt"
  ev_settle :: "nat \<Rightarrow> attempt"

subsection \<open>One endpoint round trip\<close>

definition retryable :: "transport_error \<Rightarrow> bool" where
  "retryable e = (if te_Timeout e then False else te_Op e = Some ''dial'')"

definition applyHeaders :: "header \<Rightarrow> header \<Rightarrow> header" where
  "applyHeaders extra h = (\<lambda>k. if extra k = [] then h k else [last (extra k)])"

text \<open>
  \<open>json.Marshal\<close> writes a \<open>RawMessage\<close> compacted: white space outside strings goes, and the
  characters that are unsafe in HTML are escaped.
\<close>

fun json_compact :: "bool \<Rightarrow> bytes \<Rightarrow> bytes" where
  "json_compact q [] = []"
| "json_compact q (c # s) =
     (if \<not> q \<and> json_space c then json_compact q s
      else if c = CHR ''<'' \<or> c = CHR ''>'' \<or> c = CHR ''&'' then [CHR 0x5C, CHR ''u''] @ hex4 (byte_val c) @ json_compact q s
      else if c = CHR 0x22 then c # json_compact (\<not> q) s
      else if c = CHR 0x5C then (case s of [] \<Rightarrow> [c] | d # t \<Rightarrow> c # d # json_compact q t)
      else (case s of
              d # e # t \<Rightarrow>
                if c = CHR 0xE2 \<and> d = CHR 0x80 \<and> (e = CHR 0xA8 \<or> e = CHR 0xA9)
                then [CHR 0x5C, CHR ''u''] @ hex4 (8232 + (byte_val e - 168)) @ json_compact q t
                else c # json_compact q s
            | _ \<Rightarrow> c # json_compact q s))"

definition marshal_raw :: "bytes \<Rightarrow> bytes option" where
  "marshal_raw raw =
     (if raw = [] then Some ''null''
      else if json_parse raw = None then None else Some (json_compact False raw))"

text \<open>The body of both requests; the raw document of the client is spliced in.\<close>

definition facilitator_body :: "facilitator_request \<Rightarrow> bytes option" where
  "facilitator_body f =
     (case marshal_raw (fr_PaymentPayload f) of
        None \<Rightarrow> None
      | Some raw \<Rightarrow>
          Some (''{\"x402Version\":'' @ show_int (fr_X402Version f) @ '',\"paymentPayload\":'' @ raw
                @ '',\"paymentRequirements\":'' @ json_print (requirements_json (fr_PaymentRequirements f)) @ ''}''))"

text \<open>\<open>json.Unmarshal\<close> of the two answers; only the kind of the extension objects matters here.\<close>

definition dec_verify_response :: "bytes \<Rightarrow> verify_response option" where
  "dec_verify_response raw =
     (case json_parse raw of
        Some JNull \<Rightarrow> Some \<lparr>vr_IsValid = False, vr_InvalidReason = [], vr_Payer = []\<rparr>
      | Some (JObj ms) \<Rightarrow>
         (case (dec_bool False (obj_values ''isValid'' ms), dec_string [] (obj_values ''invalidReason'' ms),
                dec_string [] (obj_values ''payer'' ms), dec_extra None (obj_values ''extra'' ms)) of
            (Some v, Some r, Some p, Some _) \<Rightarrow> Some \<lparr>vr_IsValid = v, vr_InvalidReason = r, vr_Payer = p\<rparr>
          | _ \<Rightarrow> None)
      | _ \<Rightarrow> None)"

definition dec_settle_response :: "bytes \<Rightarrow> settle_response option" where
  "dec_settle_response raw =
     (case json_parse raw of
        Some JNull \<Rightarrow> Some \<lparr>sr_Success = False, sr_ErrorReason = [], sr_Payer = [], sr_Transaction = [],
                             sr_Network = [], sr_Amount = []\<rparr>
      | Some (JObj ms) \<Rightarrow>
         (case (dec_bool False (obj_values ''success'' ms), dec_string [] (obj_values ''errorReason'' ms),
                dec_string [] (obj_values ''payer'' ms), dec_string [] (obj_values ''transaction'' ms),
                dec_string [] (obj_values ''network'' ms), dec_string [] (obj_values ''amount'' ms),
                dec_extra None (obj_values ''extensions'' ms)) of
            (Some b, Some r, Some p, Some t, Some n, Some a, Some _) \<Rightarrow>
              Some \<lparr>sr_Success = b, sr_ErrorReason = r, sr_Payer = p, sr_Transaction = t, sr_Network = n,
                    sr_Amount = a\<rparr>
          | _ \<Rightarrow> None)
      | _ \<Rightarrow> None)"

text \<open>\<open>hasReason\<close> on the two documents a call can decode.\<close>

definition verify_hasReason :: "verify_response \<Rightarrow> bool" where
  "verify_hasReason v \<longleftrightarrow> vr_InvalidReason v \<noteq> []"

definition settle_hasReason :: "settle_response \<Rightarrow> bool" where
  "settle_hasReason v \<longleftrightarrow> sr_ErrorReason v \<noteq> []"

definition maxAnswerBytes :: nat where "maxAnswerBytes = 65536"

text \<open>The flag of a result says whether a failure was one of transport, which the breaker counts.\<close>

definition decode_answer ::
  "(bytes \<Rightarrow> 'd option) \<Rightarrow> ('d \<Rightarrow> bool) \<Rightarrow> http_answer \<Rightarrow> bool \<times> (call_error + 'd)" where
  "decode_answer unmarshal hasReason resp =
     (let raw = take maxAnswerBytes (ha_Body resp); st = ha_Status resp in
      if 300 \<le> st \<and> st < 400 then (True, Inl (CallRedirected (ha_Location resp)))
      else if st = 429 then (True, Inl CallRateLimited)
      else if 500 \<le> st then (True, Inl (CallServerError st))
      else if ha_ReadErr resp then (True, Inl CallReadBody)
      else
        (case unmarshal raw of
           None \<Rightarrow> (False, Inl CallMalformed)
         | Some d \<Rightarrow>
            if 400 \<le> st then (if hasReason d then (False, Inr d) else (False, Inl (CallNoReason st)))
            else (False, Inr d)))"

text \<open>
  The attempts of one call: \<open>n\<close> is the number of the next attempt and \<open>left\<close> how many remain.
  The third component lists the requests that were handed to the network.
\<close>

fun call_attempts ::
  "(nat \<Rightarrow> attempt) \<Rightarrow> (http_answer \<Rightarrow> bool \<times> (call_error + 'd)) \<Rightarrow> fac_call \<Rightarrow> nat \<Rightarrow> nat \<Rightarrow> call_error
     \<Rightarrow> bool \<times> (call_error + 'd) \<times> fac_call list" where
  "call_attempts out dec rq n 0 lst = (True, Inl lst, [])"
| "call_attempts out dec rq n (Suc left) lst =
     (case out n of
        NotBuilt \<Rightarrow> (False, Inl CallRequest, [])
      | Failed e \<Rightarrow>
          if 0 < left \<and> retryable e
          then (let (t, r, sent) = call_attempts out dec rq (n + 1) left (CallTransport e) in (t, r, rq # sent))
          else (True, Inl (CallTransport e), [rq])
      | Answered resp \<Rightarrow> (let (t, r) = dec resp in (t, r, [rq])))"

definition callback_call ::
  "callback_verifier \<Rightarrow> bytes \<Rightarrow> payload \<Rightarrow> requirements \<Rightarrow> duration \<Rightarrow> nat \<Rightarrow> (nat \<Rightarrow> attempt)
     \<Rightarrow> (http_answer \<Rightarrow> bool \<times> (call_error + 'd)) \<Rightarrow> bool \<times> (call_error + 'd) \<times> fac_call list" where
  "callback_call c path p req budget attempts out dec =
     (case facilitator_body \<lparr>fr_X402Version = payment_Version, fr_PaymentPayload = pl_raw p,
                             fr_PaymentRequirements = req\<rparr> of
        None \<Rightarrow> (False, Inl CallEncoding, [])
      | Some body \<Rightarrow>
          call_attempts out dec
            \<lparr>fc_URL = cv_base c @ path,
             fc_Header = hdr_Set (hdr_Set (applyHeaders (cv_headers c) hdr_empty)
                            ''Content-Type'' ''application/json'') ''Accept'' ''application/json'',
             fc_Body = body, fc_Budget = budget\<rparr>
            1 attempts CallNotTried)"

subsection \<open>The breaker and the slots\<close>

definition fac_fail :: "bool \<Rightarrow> time \<Rightarrow> fac_state \<Rightarrow> fac_state" where
  "fac_fail transport now s = (if transport then s\<lparr>fs_breaker := snd (br_Fail (fs_breaker s) now)\<rparr> else s)"

definition fac_succeed :: "fac_state \<Rightarrow> fac_state" where
  "fac_succeed s = s\<lparr>fs_breaker := br_Succeed (fs_breaker s)\<rparr>"

definition fac_acquire :: "fac_state \<Rightarrow> fac_state" where
  "fac_acquire s = s\<lparr>fs_inflight := fs_inflight s + 1\<rparr>"

definition fac_release :: "fac_state \<Rightarrow> fac_state" where
  "fac_release s = s\<lparr>fs_inflight := fs_inflight s - 1\<rparr>"

subsection \<open>Verify\<close>

text \<open>The classification of a decoded answer to \<open>/settle\<close>.\<close>

definition settled_result :: "requirements \<Rightarrow> auth_identity \<Rightarrow> settle_response \<Rightarrow> pay_result" where
  "settled_result req auth sr =
     (if \<not> sr_Success sr then
        (if sr_ErrorReason sr = ErrorSettlementPending then
           (if sr_Transaction sr = [] \<or> sr_Network sr = [] then
              (zero_result PayAmbiguous ambiguousReason)\<lparr>res_Err := Some FacPendingIncomplete\<rparr>
            else if sr_Network sr \<noteq> rq_Network req then
              (zero_result PayAmbiguous ambiguousReason)
                \<lparr>res_Err := Some (FacPendingNetwork (sr_Network sr) (rq_Network req))\<rparr>
            else (zero_result PayPending pendingReason)
                   \<lparr>res_Payer := sr_Payer sr, res_Tx := sr_Transaction sr, res_Network := sr_Network sr,
                    res_RetryAfter := pendingRetryAfter\<rparr>)
         else (zero_result PayInvalid (sr_ErrorReason sr))\<lparr>res_Payer := sr_Payer sr\<rparr>)
      else if sr_Transaction sr = [] then
        (zero_result PayAmbiguous ambiguousReason)\<lparr>res_Err := Some FacNoTransaction\<rparr>
      else if sr_Network sr = [] \<or> sr_Network sr \<noteq> rq_Network req then
        (zero_result PayAmbiguous ambiguousReason)\<lparr>res_Err := Some (FacNetwork (sr_Network sr) (rq_Network req))\<rparr>
      else if sr_Payer sr \<noteq> [] \<and> \<not> equal_fold (sr_Payer sr) (au_from auth) then
        (zero_result PayAmbiguous ambiguousReason)\<lparr>res_Err := Some (FacPayer (sr_Payer sr) (au_from auth))\<rparr>
      else if sr_Amount sr \<noteq> [] \<and> (canonicalInteger (sr_Amount sr) = None
                \<or> canonicalInteger (rq_Amount req) = None
                \<or> canonicalInteger (sr_Amount sr) \<noteq> canonicalInteger (rq_Amount req)) then
        (zero_result PayAmbiguous ambiguousReason)\<lparr>res_Err := Some (FacAmount (sr_Amount sr) (rq_Amount req))\<rparr>
      else
        (zero_result PayValid [])
          \<lparr>res_Payer := sr_Payer sr, res_Tx := sr_Transaction sr,
           res_Amount := (if sr_Amount sr = [] then [] else the (canonicalInteger (sr_Amount sr))),
           res_Network := sr_Network sr\<rparr>)"

definition settle_step ::
  "callback_verifier \<Rightarrow> fac_env \<Rightarrow> payload \<Rightarrow> requirements \<Rightarrow> auth_identity \<Rightarrow> fac_state
     \<Rightarrow> pay_result \<times> fac_state \<times> fac_call list" where
  "settle_step c ev p req auth s =
     (case callback_call c ''/settle'' p req (cv_settleBudget c) 1 (ev_settle ev)
             (decode_answer dec_settle_response settle_hasReason) of
        (transport, Inl e, sent) \<Rightarrow>
          (let s = fac_fail transport (ev_clock ev AtSettleFail) (ev_others ev AtSettleFail s);
               s = ev_others ev AtSettleRetry s
           in ((zero_result PayAmbiguous ambiguousReason)
                 \<lparr>res_Err := Some (FacCall e),
                  res_RetryAfter := br_RetryAfter (fs_breaker s) (ev_clock ev AtSettleRetry)\<rparr>, s, sent))
      | (transport, Inr sr, sent) \<Rightarrow>
          (settled_result req auth sr, fac_succeed (ev_others ev AtSettleOk s), sent))"

definition verify_step ::
  "callback_verifier \<Rightarrow> fac_env \<Rightarrow> payload \<Rightarrow> requirements \<Rightarrow> auth_identity \<Rightarrow> fac_state
     \<Rightarrow> pay_result \<times> fac_state \<times> fac_call list \<times> fac_call list" where
  "verify_step c ev p req auth s =
     (case callback_call c ''/verify'' p req (cv_verifyBudget c) verifyAttempts (ev_verify ev)
             (decode_answer dec_verify_response verify_hasReason) of
        (transport, Inl e, sent) \<Rightarrow>
          (let s = fac_fail transport (ev_clock ev AtVerifyFail) (ev_others ev AtVerifyFail s);
               s = ev_others ev AtVerifyRetry s
           in ((zero_result PayIndeterminate infraReason)
                 \<lparr>res_Err := Some (FacCall e),
                  res_RetryAfter := br_RetryAfter (fs_breaker s) (ev_clock ev AtVerifyRetry)\<rparr>, s, sent, []))
      | (transport, Inr vr, sent) \<Rightarrow>
          if \<not> vr_IsValid vr then
            ((zero_result PayInvalid (vr_InvalidReason vr))\<lparr>res_Payer := vr_Payer vr\<rparr>,
             fac_succeed (ev_others ev AtVerifyOk s), sent, [])
          else (let (r, s', settles) = settle_step c ev p req auth s in (r, s', sent, settles)))"

text \<open>
  The result, the shared state afterwards, and the requests sent to \<open>/verify\<close> and to \<open>/settle\<close>.
\<close>

definition callback_Verify ::
  "callback_verifier \<Rightarrow> fac_env \<Rightarrow> payload \<Rightarrow> requirements \<Rightarrow> fac_state
     \<Rightarrow> pay_result \<times> fac_state \<times> fac_call list \<times> fac_call list" where
  "callback_Verify c ev p req s =
     (case authorization (pl_Payload p) (TransferMethod req) of
        Inr (Some auth) \<Rightarrow>
          (let s = ev_others ev AtOpen s in
           if br_Open (fs_breaker s) (ev_clock ev AtOpen) then
             (let s = ev_others ev AtOpenRetry s in
              ((zero_result PayIndeterminate ''payments are temporarily unavailable; you were not charged'')
                 \<lparr>res_Err := Some FacBreakerOpen,
                  res_RetryAfter := br_RetryAfter (fs_breaker s) (ev_clock ev AtOpenRetry)\<rparr>, s, [], []))
           else
             (let s = ev_others ev AtSlot s in
              if maxInFlight \<le> fs_inflight s then
                ((zero_result PayIndeterminate infraReason)
                   \<lparr>res_Err := Some FacSaturated, res_RetryAfter := 2 * second\<rparr>, s, [], [])
              else
                (let (r, s', verifies, settles) = verify_step c ev p req auth (fac_acquire s)
                 in (r, fac_release s', verifies, settles))))
      | _ \<Rightarrow> (zero_result PayInvalid ''payment has no valid selected authorization'', s, [], []))"

subsection \<open>What leaves the gate\<close>

lemma call_attempts_sent:
  "call_attempts out dec rq n left lst = (t, r, sent) \<Longrightarrow> length sent \<le> left \<and> set sent \<subseteq> {rq}"
proof (induction out dec rq n left lst arbitrary: t r sent rule: call_attempts.induct)
  case (2 out dec rq n left lst)
  then show ?case
    by (cases "out n") (fastforce split: if_splits prod.splits)+
qed simp

lemma call_attempts_answered:
  "call_attempts out dec rq n left lst = (t, Inr d, sent) \<Longrightarrow>
     \<exists>m resp. out m = Answered resp \<and> n \<le> m \<and> m < n + left \<and> snd (dec resp) = Inr d \<and> sent \<noteq> []"
proof (induction out dec rq n left lst arbitrary: t d sent rule: call_attempts.induct)
  case (2 out dec rq n left lst)
  show ?case
  proof (cases "out n")
    case (Failed e)
    with "2.prems" obtain sent' where c: "0 < left" "retryable e"
      and a: "call_attempts out dec rq (n + 1) left (CallTransport e) = (t, Inr d, sent')" "sent = rq # sent'"
      by (auto split: if_splits prod.splits)
    from "2.IH" [OF Failed _ a(1)] c a(2) show ?thesis by fastforce
  next
    case (Answered resp)
    with "2.prems" show ?thesis by (intro exI [of _ n] exI [of _ resp]) (auto split: prod.splits)
  qed (use "2.prems" in auto)
qed simp

text \<open>A second attempt follows only a failure to connect that was no timeout.\<close>

lemma call_attempts_retry:
  assumes "call_attempts out dec rq n 2 lst = (t, r, sent)" and "1 < length sent"
  shows "\<exists>e. out n = Failed e \<and> \<not> te_Timeout e \<and> te_Op e = Some ''dial''"
  using assms by (cases "out n") (auto simp: numeral_2_eq_2 retryable_def split: if_splits prod.splits)

definition call_of :: "callback_verifier \<Rightarrow> bytes \<Rightarrow> payload \<Rightarrow> requirements \<Rightarrow> fac_call \<Rightarrow> bool" where
  "call_of c path p req q \<longleftrightarrow> fc_URL q = cv_base c @ path
     \<and> facilitator_body \<lparr>fr_X402Version = payment_Version, fr_PaymentPayload = pl_raw p,
                         fr_PaymentRequirements = req\<rparr> = Some (fc_Body q)"

lemma callback_call_sent:
  assumes "callback_call c path p req b n out dec = (t, r, sent)"
  shows "length sent \<le> n \<and> (\<forall>q\<in>set sent. call_of c path p req q)"
  using assms call_attempts_sent
  by (fastforce simp: callback_call_def call_of_def split: option.splits)

lemma callback_call_answered:
  assumes "callback_call c path p req b n out dec = (t, Inr d, sent)"
  shows "\<exists>m resp. out m = Answered resp \<and> 1 \<le> m \<and> m \<le> n \<and> snd (dec resp) = Inr d \<and> sent \<noteq> []"
proof -
  from assms obtain rq where "call_attempts out dec rq 1 n CallNotTried = (t, Inr d, sent)"
    by (auto simp: callback_call_def split: option.splits)
  from call_attempts_answered [OF this] show ?thesis by (auto simp: less_Suc_eq_le)
qed

lemma callback_call_retry:
  assumes "callback_call c path p req b 2 out dec = (t, r, sent)" and "1 < length sent"
  shows "\<exists>e. out 1 = Failed e \<and> \<not> te_Timeout e \<and> te_Op e = Some ''dial''"
proof -
  from assms obtain rq where "call_attempts out dec rq 1 2 CallNotTried = (t, r, sent)"
    by (auto simp: callback_call_def split: option.splits)
  from call_attempts_retry [OF this assms(2)] show ?thesis .
qed

subsection \<open>The outcomes of a presentation\<close>

lemma decode_answer_Inr:
  "snd (decode_answer um hr resp) = Inr d \<Longrightarrow> um (take maxAnswerBytes (ha_Body resp)) = Some d \<and> \<not> ha_ReadErr resp"
  by (auto simp: decode_answer_def Let_def split: if_splits option.splits)

text \<open>What a facilitator said that makes a settlement count.\<close>

definition settled_for :: "requirements \<Rightarrow> auth_identity \<Rightarrow> settle_response \<Rightarrow> bool" where
  "settled_for req auth sr \<longleftrightarrow> sr_Success sr \<and> sr_Transaction sr \<noteq> [] \<and> sr_Network sr \<noteq> []
     \<and> sr_Network sr = rq_Network req
     \<and> (sr_Payer sr = [] \<or> equal_fold (sr_Payer sr) (au_from auth))
     \<and> (sr_Amount sr = [] \<or> (\<exists>n. canonicalInteger (sr_Amount sr) = Some n \<and> canonicalInteger (rq_Amount req) = Some n))"

lemma zero_result_Verdict [simp]: "res_Verdict (zero_result v x) = v" "res_Tx (zero_result v x) = []"
  "res_Network (zero_result v x) = []" "res_Payer (zero_result v x) = []" "res_Amount (zero_result v x) = []"
  by (simp_all add: zero_result_def)

lemma settled_result_Valid:
  "res_Verdict (settled_result req auth sr) = PayValid \<longleftrightarrow> settled_for req auth sr"
  by (auto simp: settled_result_def settled_for_def)

lemma settled_result_Valid_fields:
  "settled_for req auth sr \<Longrightarrow> res_Tx (settled_result req auth sr) = sr_Transaction sr
     \<and> res_Network (settled_result req auth sr) = sr_Network sr \<and> res_Payer (settled_result req auth sr) = sr_Payer sr"
  by (auto simp: settled_result_def settled_for_def)

lemma settled_result_not_Indeterminate: "res_Verdict (settled_result req auth sr) \<noteq> PayIndeterminate"
  by (simp add: settled_result_def)

definition settle_answered :: "fac_env \<Rightarrow> settle_response \<Rightarrow> bool" where
  "settle_answered ev sr \<longleftrightarrow> (\<exists>resp. ev_settle ev 1 = Answered resp \<and> \<not> ha_ReadErr resp
     \<and> dec_settle_response (take maxAnswerBytes (ha_Body resp)) = Some sr)"

definition verify_answered :: "fac_env \<Rightarrow> verify_response \<Rightarrow> bool" where
  "verify_answered ev vr \<longleftrightarrow> (\<exists>m resp. ev_verify ev m = Answered resp \<and> 1 \<le> m \<and> m \<le> 2 \<and> \<not> ha_ReadErr resp
     \<and> dec_verify_response (take maxAnswerBytes (ha_Body resp)) = Some vr)"

lemma settle_step_outcome:
  assumes "settle_step c ev p req auth s = (r, s', sent)"
  shows "length sent \<le> 1 \<and> (\<forall>q\<in>set sent. call_of c ''/settle'' p req q) \<and> res_Verdict r \<noteq> PayIndeterminate
    \<and> (res_Verdict r = PayAmbiguous
       \<or> (\<exists>sr. settle_answered ev sr \<and> r = settled_result req auth sr \<and> sent \<noteq> []))"
proof -
  obtain t d where call: "callback_call c ''/settle'' p req (cv_settleBudget c) 1 (ev_settle ev)
      (decode_answer dec_settle_response settle_hasReason) = (t, d, sent)"
    using assms by (auto simp: settle_step_def Let_def split: prod.splits sum.splits)
  note sent = callback_call_sent [OF call]
  show ?thesis
  proof (cases d)
    case (Inl e)
    with assms call sent show ?thesis by (auto simp: settle_step_def Let_def)
  next
    case (Inr sr)
    from callback_call_answered [OF call [unfolded Inr]] decode_answer_Inr
    have "settle_answered ev sr" "sent \<noteq> []" by (fastforce simp: settle_answered_def)+
    moreover have "r = settled_result req auth sr" using assms call Inr by (simp add: settle_step_def)
    ultimately show ?thesis using sent settled_result_not_Indeterminate by blast
  qed
qed

lemma verify_step_outcome:
  assumes "verify_step c ev p req auth s = (r, s', vs, ss)"
  shows "length vs \<le> 2 \<and> (\<forall>q\<in>set vs. call_of c ''/verify'' p req q)
    \<and> (1 < length vs \<longrightarrow> (\<exists>e. ev_verify ev 1 = Failed e \<and> \<not> te_Timeout e \<and> te_Op e = Some ''dial''))
    \<and> (ss = [] \<and> (res_Verdict r = PayIndeterminate \<or> res_Verdict r = PayInvalid)
       \<or> (\<exists>vr s1. verify_answered ev vr \<and> vr_IsValid vr \<and> vs \<noteq> [] \<and> settle_step c ev p req auth s1 = (r, s', ss)))"
proof -
  obtain t d where call: "callback_call c ''/verify'' p req (cv_verifyBudget c) verifyAttempts (ev_verify ev)
      (decode_answer dec_verify_response verify_hasReason) = (t, d, vs)"
    using assms by (auto simp: verify_step_def Let_def split: prod.splits sum.splits if_splits)
  note sent = callback_call_sent [OF call] and retry = callback_call_retry [OF call [unfolded verifyAttempts_def]]
  show ?thesis
  proof (cases d)
    case (Inl e)
    with assms call sent retry show ?thesis by (auto simp: verify_step_def Let_def verifyAttempts_def)
  next
    case (Inr vr)
    from callback_call_answered [OF call [unfolded Inr]] decode_answer_Inr
    have va: "verify_answered ev vr" "vs \<noteq> []" by (fastforce simp: verify_answered_def verifyAttempts_def)+
    from assms call Inr have "ss = [] \<and> res_Verdict r = PayInvalid
       \<or> vr_IsValid vr \<and> settle_step c ev p req auth s = (r, s', ss)"
      by (auto simp: verify_step_def split: if_splits prod.splits)
    with va sent retry show ?thesis unfolding verifyAttempts_def by blast
  qed
qed

text \<open>Every path of \<open>Verify\<close> either stops before any request or runs the two steps for the authorization.\<close>

lemma callback_Verify_cases:
  assumes "callback_Verify c ev p req s = (r, s', vs, ss)"
  shows "vs = [] \<and> ss = [] \<and> (res_Verdict r = PayIndeterminate \<or> res_Verdict r = PayInvalid)
    \<or> (\<exists>auth s1 s2. authorization (pl_Payload p) (TransferMethod req) = Inr (Some auth)
        \<and> verify_step c ev p req auth s1 = (r, s2, vs, ss) \<and> s' = fac_release s2)"
  using assms by (auto simp: callback_Verify_def Let_def split: sum.splits option.splits if_splits prod.splits)

text \<open>The evidence behind a \<open>Valid\<close> verdict.\<close>

definition settlement_evidence ::
  "callback_verifier \<Rightarrow> fac_env \<Rightarrow> payload \<Rightarrow> requirements \<Rightarrow> fac_call list \<Rightarrow> pay_result \<Rightarrow> bool" where
  "settlement_evidence c ev p req ss r \<longleftrightarrow>
     (\<exists>auth vr sr. authorization (pl_Payload p) (TransferMethod req) = Inr (Some auth)
        \<and> verify_answered ev vr \<and> vr_IsValid vr
        \<and> settle_answered ev sr \<and> settled_for req auth sr
        \<and> length ss = 1 \<and> (\<forall>q\<in>set ss. call_of c ''/settle'' p req q)
        \<and> res_Tx r = sr_Transaction sr \<and> res_Network r = rq_Network req)"

lemma callback_Valid_evidence:
  assumes "callback_Verify c ev p req s = (r, s', vs, ss)" and "res_Verdict r = PayValid"
  shows "settlement_evidence c ev p req ss r"
proof -
  from callback_Verify_cases [OF assms(1)] assms(2) obtain auth s1 s2 where
    a: "authorization (pl_Payload p) (TransferMethod req) = Inr (Some auth)"
    and v: "verify_step c ev p req auth s1 = (r, s2, vs, ss)" by auto
  from verify_step_outcome [OF v] assms(2) obtain vr s3 where vr: "verify_answered ev vr" "vr_IsValid vr"
    and st: "settle_step c ev p req auth s3 = (r, s2, ss)" by auto
  from settle_step_outcome [OF st] assms(2) obtain sr where sr: "settle_answered ev sr"
    "r = settled_result req auth sr" "ss \<noteq> []" "length ss \<le> 1" "\<forall>q\<in>set ss. call_of c ''/settle'' p req q" by auto
  from assms(2) sr(2) have f: "settled_for req auth sr" by (simp add: settled_result_Valid)
  have "length ss = 1" using sr(3,4) by (cases ss) auto
  with a vr sr f settled_result_Valid_fields [OF f] show ?thesis
    unfolding settlement_evidence_def by (auto simp: settled_for_def)
qed

text \<open>C10: content is served only against settlement evidence. A \<open>Valid\<close> verdict means the client's own
  authorization was verified, exactly one settle request left the gate, carrying the client's document
  and the gate's terms, and the facilitator answered it with a success that names a transaction on the
  priced network, the authorization's payer if any payer, and the priced amount if any amount.\<close>

theorem callback_Valid_sound:
  assumes "callback_Verify c ev p req s = (r, s', vs, ss)" and "res_Verdict r = PayValid"
  shows "\<exists>auth vr sr. authorization (pl_Payload p) (TransferMethod req) = Inr (Some auth)
    \<and> verify_answered ev vr \<and> vr_IsValid vr
    \<and> settle_answered ev sr \<and> settled_for req auth sr
    \<and> length ss = 1 \<and> (\<forall>q\<in>set ss. call_of c ''/settle'' p req q)
    \<and> res_Tx r = sr_Transaction sr \<and> res_Network r = rq_Network req"
  using callback_Valid_evidence [OF assms] unfolding settlement_evidence_def .

definition demo_verifier :: callback_verifier where
  "demo_verifier = fst (NewCallbackVerifier ''http://f/'' hdr_empty None)"

definition demo_fac :: fac_state where
  "demo_fac = snd (NewCallbackVerifier ''http://f/'' hdr_empty None)"

definition demo_answer :: "bytes \<Rightarrow> attempt" where
  "demo_answer body = Answered \<lparr>ha_Status = 200, ha_Location = [], ha_Body = body, ha_ReadErr = False\<rparr>"

definition demo_verified :: bytes where
  "demo_verified = ''{\"isValid\":true}''"

definition demo_env :: "bytes \<Rightarrow> fac_env" where
  "demo_env settle = \<lparr>ev_clock = (\<lambda>_. 1000), ev_others = (\<lambda>_ s. s),
     ev_verify = (\<lambda>_. demo_answer demo_verified), ev_settle = (\<lambda>_. demo_answer settle)\<rparr>"

definition demo_paid :: payload where
  "demo_paid = (demo_payload (JStr ''0xa'') (JNum ''17''))\<lparr>pl_raw := ''{}''\<rparr>"

definition demo_settled :: bytes where
  "demo_settled = ''{\"success\":true,\"transaction\":\"0x1\",\"network\":\"eip155:1\"}''"

lemma demo_small: "take maxAnswerBytes demo_verified = demo_verified"
  "take maxAnswerBytes demo_settled = demo_settled"
  by (simp_all add: maxAnswerBytes_def demo_settled_def demo_verified_def)

lemma demo_network: "rq_Network demo_rail = ''eip155:1''"
  by code_simp

lemma demo_decoded:
  "dec_verify_response demo_verified = Some \<lparr>vr_IsValid = True, vr_InvalidReason = [], vr_Payer = []\<rparr>"
  "dec_settle_response demo_settled = Some \<lparr>sr_Success = True, sr_ErrorReason = [], sr_Payer = [],
     sr_Transaction = ''0x1'', sr_Network = ''eip155:1'', sr_Amount = []\<rparr>"
  "authorization (pl_Payload demo_paid) (TransferMethod demo_rail)
     = Inr (Some \<lparr>au_method = ''authorization'', au_from = ''0xa'', au_nonce = ''17''\<rparr>)"
  "\<exists>b. facilitator_body \<lparr>fr_X402Version = payment_Version, fr_PaymentPayload = pl_raw demo_paid,
      fr_PaymentRequirements = demo_rail\<rparr> = Some b"
  "br_Open (fs_breaker demo_fac) 1000 = False" "fs_inflight demo_fac = 0"
proof -
  show "\<exists>b. facilitator_body \<lparr>fr_X402Version = payment_Version, fr_PaymentPayload = pl_raw demo_paid,
      fr_PaymentRequirements = demo_rail\<rparr> = Some b"
  proof (rule exI)
    show "facilitator_body \<lparr>fr_X402Version = payment_Version, fr_PaymentPayload = pl_raw demo_paid,
      fr_PaymentRequirements = demo_rail\<rparr> = Some (''{\"x402Version\":2,\"paymentPayload\":{},\"paymentRequirements\":''
        @ json_print (requirements_json demo_rail) @ ''}'')"
      by code_simp
  qed
qed code_simp+

lemma demo_callback_Verify:
  "\<exists>s' vs ss. callback_Verify demo_verifier (demo_env demo_settled) demo_paid demo_rail demo_fac
     = ((zero_result PayValid [])\<lparr>res_Tx := ''0x1'', res_Network := ''eip155:1''\<rparr>, s', vs, ss)"
proof -
  from demo_decoded(4) obtain b where b: "facilitator_body \<lparr>fr_X402Version = payment_Version,
      fr_PaymentPayload = pl_raw demo_paid, fr_PaymentRequirements = demo_rail\<rparr> = Some b" ..
  show ?thesis
    by (simp add: callback_Verify_def demo_decoded b demo_env_def Let_def maxInFlight_def verify_step_def
        settle_step_def callback_call_def verifyAttempts_def numeral_2_eq_2 demo_answer_def decode_answer_def demo_small
        settled_result_def demo_network)
qed

lemma callback_Valid_sound_witness:
  "\<exists>sr. settle_answered (demo_env demo_settled) sr
     \<and> settled_for demo_rail \<lparr>au_method = ''authorization'', au_from = ''0xa'', au_nonce = ''17''\<rparr> sr"
proof -
  from demo_callback_Verify obtain s' vs ss where
    d: "callback_Verify demo_verifier (demo_env demo_settled) demo_paid demo_rail demo_fac
      = ((zero_result PayValid [])\<lparr>res_Tx := ''0x1'', res_Network := ''eip155:1''\<rparr>, s', vs, ss)" by blast
  from callback_Valid_sound [OF d] show ?thesis by (auto simp: demo_decoded)
qed

text \<open>C9: a payer's exposure is bounded. One presentation sends at most one settle request, and none before
  the facilitator called the authorization valid; \<open>/verify\<close> is tried a second time only when the first
  try failed to connect; and a verdict that promises the payer was not charged (\<open>Indeterminate\<close>) means
  that no settle request left the gate.\<close>

theorem callback_exposure:
  assumes "callback_Verify c ev p req s = (r, s', vs, ss)"
  shows "length ss \<le> 1 \<and> length vs \<le> 2
    \<and> (ss \<noteq> [] \<longrightarrow> (\<exists>vr. verify_answered ev vr \<and> vr_IsValid vr))
    \<and> (1 < length vs \<longrightarrow> (\<exists>e. ev_verify ev 1 = Failed e \<and> \<not> te_Timeout e \<and> te_Op e = Some ''dial''))
    \<and> (res_Verdict r = PayIndeterminate \<longrightarrow> ss = [])"
proof (cases "vs = [] \<and> ss = []")
  case False
  with callback_Verify_cases [OF assms] obtain auth s1 s2 where
    v: "verify_step c ev p req auth s1 = (r, s2, vs, ss)" by auto
  note vo = verify_step_outcome [OF v]
  show ?thesis
  proof (cases "ss = []")
    case True
    with vo show ?thesis by auto
  next
    case False
    with vo obtain vr s3 where "verify_answered ev vr" "vr_IsValid vr"
      and st: "settle_step c ev p req auth s3 = (r, s2, ss)" by auto
    with vo settle_step_outcome [OF st] show ?thesis by blast
  qed
qed simp

lemma callback_exposure_witness:
  "length (snd (snd (snd (callback_Verify demo_verifier (demo_env demo_settled) demo_paid demo_rail demo_fac)))) \<le> 1"
proof -
  obtain r s' vs ss where
    d: "callback_Verify demo_verifier (demo_env demo_settled) demo_paid demo_rail demo_fac = (r, s', vs, ss)"
    by (metis prod.exhaust)
  from callback_exposure [OF d] d show ?thesis by simp
qed

text \<open>Every path gives its slot back, if the other requests keep the books of theirs.\<close>

lemma settle_step_inflight:
  assumes "\<And>x t. fs_inflight (ev_others ev x t) = fs_inflight t"
  shows "fs_inflight (fst (snd (settle_step c ev p req auth s))) = fs_inflight s"
  using assms by (auto simp: settle_step_def Let_def fac_fail_def fac_succeed_def split: prod.splits sum.splits)

lemma verify_step_inflight:
  assumes "\<And>x t. fs_inflight (ev_others ev x t) = fs_inflight t"
  shows "fs_inflight (fst (snd (verify_step c ev p req auth s))) = fs_inflight s"
  using assms settle_step_inflight [where ev = ev and c = c and p = p and req = req and auth = auth and s = s]
  by (auto simp: verify_step_def Let_def fac_fail_def fac_succeed_def split: prod.splits sum.splits)

lemma callback_Verify_inflight:
  assumes "\<And>x t. fs_inflight (ev_others ev x t) = fs_inflight t"
  shows "fs_inflight (fst (snd (callback_Verify c ev p req s))) = fs_inflight s"
  using assms verify_step_inflight [where ev = ev and c = c and p = p and req = req]
  by (auto simp: callback_Verify_def Let_def fac_acquire_def fac_release_def split: sum.splits option.splits prod.splits)
    (metis One_nat_def Suc_eq_plus1 diff_Suc_1 fac_acquire_def fac_state.select_convs(2) fac_state.surjective
      fac_state.update_convs(2) fst_conv snd_conv)

end
