(* ===== verification/Request.thy ===== *)
theory Request
  imports Prelude GoStrings Base64 Http NetIP Bypass Crawler
begin

text \<open>
  What the gate reads off a request before it decides anything: \<open>internal/gate/request.go\<close> (the
  header-derived facts and the navigation classifier) and the pure request helpers of
  \<open>internal/gate/gate.go\<close> (canonical paths, the audience, upgrade and preflight detection, the
  scheme, and the removal of the pass cookie).
\<close>

subsection \<open>\<open>strconv.ParseFloat\<close>\<close>

text \<open>
  A \<open>float64\<close> is a rational number, an infinity or NaN; rounding to 53 bits is not modelled.
  Hexadecimal literals and underscores are read as syntax errors.
\<close>

datatype go_float = FNum rat | FInf | FNegInf | FNaN

fun float_less :: "go_float \<Rightarrow> go_float \<Rightarrow> bool" where
  "float_less (FNum a) (FNum b) \<longleftrightarrow> a < b"
| "float_less (FNum _) FInf \<longleftrightarrow> True"
| "float_less FNegInf (FNum _) \<longleftrightarrow> True"
| "float_less FNegInf FInf \<longleftrightarrow> True"
| "float_less _ _ \<longleftrightarrow> False"

fun float_eq :: "go_float \<Rightarrow> go_float \<Rightarrow> bool" where
  "float_eq (FNum a) (FNum b) \<longleftrightarrow> a = b"
| "float_eq FInf FInf \<longleftrightarrow> True"
| "float_eq FNegInf FNegInf \<longleftrightarrow> True"
| "float_eq _ _ \<longleftrightarrow> False"

definition float_max :: rat where
  "float_max = 2 ^ 1024"

text \<open>An optional decimal exponent; a huge one is as good as the largest that matters.\<close>

definition parse_exponent :: "bytes \<Rightarrow> int option" where
  "parse_exponent s =
     (case s of
        [] \<Rightarrow> Some 0
      | c # t \<Rightarrow>
          if lower_char c \<noteq> CHR ''e'' then None
          else
            (let (neg, d) = (case t of [] \<Rightarrow> (False, [])
                                   | g # u \<Rightarrow> if g = CHR ''-'' then (True, u) else if g = CHR ''+'' then (False, u) else (False, t))
             in if d = [] \<or> \<not> all_digits d then None
                else Some ((if neg then - 1 else 1) * min 10000 (int (dec_val d)))))"

definition parse_decimal :: "bytes \<Rightarrow> rat option" where
  "parse_decimal s =
     (let ip = takeWhile is_digit s; r = dropWhile is_digit s;
          (fp, e) = (case r of c # t \<Rightarrow> if c = CHR ''.'' then (takeWhile is_digit t, dropWhile is_digit t) else ([], r)
                             | [] \<Rightarrow> ([], []))
      in if ip = [] \<and> fp = [] then None
         else
           (case parse_exponent e of
              None \<Rightarrow> None
            | Some x \<Rightarrow>
               (let m = of_nat (dec_val (ip @ fp)); k = x - int (length fp)
                in Some (if 0 \<le> k then m * 10 ^ nat k else m / 10 ^ nat (- k)))))"

definition ParseFloat :: "bytes \<Rightarrow> go_float option" where
  "ParseFloat s =
     (let (neg, u) = (case s of [] \<Rightarrow> (False, [])
                            | g # t \<Rightarrow> if g = CHR ''-'' then (True, t) else if g = CHR ''+'' then (False, t) else (False, s));
          l = to_lower u
      in if l = ''inf'' \<or> l = ''infinity'' then Some (if neg then FNegInf else FInf)
         else if to_lower s = ''nan'' then Some FNaN
         else
           (case parse_decimal u of
              None \<Rightarrow> None
            | Some v \<Rightarrow> if float_max \<le> v then None else Some (FNum (if neg then - v else v))))"

subsection \<open>The \<open>Accept\<close> header\<close>

record media_preference =
  mp_q :: go_float
  mp_order :: nat
  mp_offered :: bool

record accept_preferences =
  ap_html :: media_preference
  ap_markdown :: media_preference

definition no_preference :: media_preference where
  "no_preference = \<lparr>mp_q = FNum 0, mp_order = 0, mp_offered = False\<rparr>"

definition q_param :: "go_float \<Rightarrow> bytes \<Rightarrow> go_float" where
  "q_param q param =
     (let (key, raw, ok) = cut CHR ''='' (trim_space param) in
      if \<not> ok \<or> \<not> equal_fold (trim_space key) ''q'' then q
      else (case ParseFloat (trim_space raw) of Some p \<Rightarrow> p | None \<Rightarrow> q))"

definition better_preference :: "media_preference \<Rightarrow> go_float \<Rightarrow> nat \<Rightarrow> media_preference" where
  "better_preference dst q i =
     (if \<not> mp_offered dst \<or> float_less (mp_q dst) q then \<lparr>mp_q = q, mp_order = i, mp_offered = True\<rparr> else dst)"

fun accept_parts :: "nat \<Rightarrow> bytes list \<Rightarrow> accept_preferences \<Rightarrow> accept_preferences" where
  "accept_parts i [] a = a"
| "accept_parts i (part # ps) a =
     (let (media, params, _) = cut CHR '';'' (trim_space part);
          media = to_lower (trim_space media);
          q = foldl q_param (FNum 1) (split_on CHR '';'' params)
      in accept_parts (i + 1) ps
           (if media = ''text/html'' then a\<lparr>ap_html := better_preference (ap_html a) q i\<rparr>
            else if media = ''text/markdown'' then a\<lparr>ap_markdown := better_preference (ap_markdown a) q i\<rparr>
            else a))"

definition parseAccept :: "bytes \<Rightarrow> accept_preferences" where
  "parseAccept v = accept_parts 0 (split_on CHR '','' v) \<lparr>ap_html = no_preference, ap_markdown = no_preference\<rparr>"

definition offersHTML :: "accept_preferences \<Rightarrow> bool" where
  "offersHTML a \<longleftrightarrow> mp_offered (ap_html a) \<and> float_less (FNum 0) (mp_q (ap_html a))"

definition float_le_zero :: "go_float \<Rightarrow> bool" where
  "float_le_zero q \<longleftrightarrow> float_less q (FNum 0) \<or> float_eq q (FNum 0)"

definition prefersMarkdown :: "accept_preferences \<Rightarrow> bool" where
  "prefersMarkdown a =
     (if \<not> mp_offered (ap_markdown a) \<or> float_le_zero (mp_q (ap_markdown a)) then False
      else if \<not> mp_offered (ap_html a) \<or> float_le_zero (mp_q (ap_html a)) then True
      else if \<not> float_eq (mp_q (ap_markdown a)) (mp_q (ap_html a))
        then float_less (mp_q (ap_html a)) (mp_q (ap_markdown a))
      else mp_order (ap_markdown a) < mp_order (ap_html a))"

subsection \<open>Facts of a request\<close>

definition isCORSPreflight :: "request \<Rightarrow> bool" where
  "isCORSPreflight r \<longleftrightarrow> req_Method r = ''OPTIONS'' \<and> req_Get r ''Origin'' \<noteq> []
     \<and> req_Get r ''Access-Control-Request-Method'' \<noteq> []"

definition isUpgradeRequest :: "request \<Rightarrow> bool" where
  "isUpgradeRequest r =
     (if req_Get r ''Upgrade'' = [] then False
      else list_ex (\<lambda>field. equal_fold (trim_space field) ''upgrade'') (split_on CHR '','' (req_Get r ''Connection'')))"

definition isFragmentRequest :: "request \<Rightarrow> bool" where
  "isFragmentRequest r =
     (if req_Get r ''Hx-Request'' \<noteq> [] \<or> req_Get r ''Turbo-Frame'' \<noteq> [] \<or> req_Get r ''Turbo-Request-Id'' \<noteq> []
      then True
      else equal_fold (trim_space (req_Get r ''X-Requested-With'')) ''XMLHttpRequest'')"

record request_facts =
  fa_userAgent :: bytes
  fa_navigation :: bool
  fa_preflight :: bool
  fa_crawlerClaim :: bytes
  fa_hostedClaim :: hosted_provider

definition classifyNavigation :: "request \<Rightarrow> request_facts \<Rightarrow> accept_preferences \<Rightarrow> bool \<Rightarrow> bool" where
  "classifyNavigation r facts accept fragment =
     (if req_Method r \<noteq> ''GET'' \<and> req_Method r \<noteq> ''HEAD'' then False
      else if fa_crawlerClaim facts \<noteq> [] \<or> fragment \<or> prefersMarkdown accept then False
      else
        (let dest = req_Get r ''Sec-Fetch-Dest''; mode = req_Get r ''Sec-Fetch-Mode'' in
         if dest \<noteq> [] \<and> dest \<noteq> ''document'' \<and> dest \<noteq> ''empty'' then False
         else if mode = ''navigate'' then True
         else if mode = [] \<or> mode = ''same-origin''
           then offersHTML accept \<and> contains_sub (fa_userAgent facts) ''Mozilla''
         else False))"

definition inspectRequest :: "request \<Rightarrow> bytes \<Rightarrow> request_facts" where
  "inspectRequest r crawlerClaim =
     (let accept = parseAccept (req_Get r ''Accept'');
          facts = \<lparr>fa_userAgent = req_Get r ''User-Agent'', fa_navigation = False,
                   fa_preflight = isCORSPreflight r, fa_crawlerClaim = crawlerClaim,
                   fa_hostedClaim = hosted_Claim (req_Get r ''User-Agent'')\<rparr>
      in facts\<lparr>fa_navigation := classifyNavigation r facts accept (isFragmentRequest r)\<rparr>)"

subsection \<open>Authority and scheme\<close>

definition normalizeAuthority :: "bytes \<Rightarrow> bytes" where
  "normalizeAuthority v =
     (let authority = to_lower (trim_space v) in
      case SplitHostPort authority of
        Some (host, port) \<Rightarrow> trim_suffix host ''.'' @ '':'' @ port
      | None \<Rightarrow> trim_suffix authority ''.'')"

definition requestAudience :: "request \<Rightarrow> bytes" where
  "requestAudience r = normalizeAuthority (req_Host r)"

definition requestIsTLS :: "matcher \<Rightarrow> request \<Rightarrow> bool" where
  "requestIsTLS m r =
     (if req_TLS r then True
      else if \<not> TrustedPeer m r then False
      else equal_fold (req_Get r ''X-Forwarded-Proto'') ''https'')"

subsection \<open>Canonical paths\<close>

text \<open>
  \<open>path.Clean\<close> on the elements of a path: empty elements and \<open>.\<close> go, \<open>..\<close> takes the element before
  it away, and at the root it goes too. The list is the output so far, last element first.
\<close>

fun clean_elems :: "bool \<Rightarrow> bytes list \<Rightarrow> bytes list \<Rightarrow> bytes list" where
  "clean_elems rooted out [] = rev out"
| "clean_elems rooted out (e # es) =
     (if e = [] \<or> e = ''.'' then clean_elems rooted out es
      else if e = ''..'' then
        (case out of
           [] \<Rightarrow> if rooted then clean_elems rooted [] es else clean_elems rooted [''..''] es
         | o1 # os \<Rightarrow> if o1 = ''..'' then clean_elems rooted (''..'' # out) es else clean_elems rooted os es)
      else clean_elems rooted (e # out) es)"

definition path_Clean :: "bytes \<Rightarrow> bytes" where
  "path_Clean p =
     (if p = [] then ''.''
      else
        (let rooted = (take 1 p = ''/'');
             s = join ''/'' (clean_elems rooted [] (split_on CHR ''/'' p))
         in if rooted then ''/'' @ s else if s = [] then ''.'' else s))"

definition cleanPath :: "bytes \<Rightarrow> bytes" where
  "cleanPath p =
     (if p = [] then ''/''
      else
        (let c = path_Clean p in
         if has_suffix p ''/'' \<and> c \<noteq> ''/'' then c @ ''/'' else c))"

subsection \<open>The pass cookie\<close>

definition cookieName :: bytes where "cookieName = ''anteroom_pass''"

definition trim_left_ws :: "bytes \<Rightarrow> bytes" where
  "trim_left_ws = trim_left_while (\<lambda>c. c = CHR '' '' \<or> c = CHR 0x09)"

definition pair_name :: "bytes \<Rightarrow> bytes" where
  "pair_name pair = fst (cut CHR ''='' (trim_left_ws pair))"

text \<open>The pairs of one header line that are kept.\<close>

definition kept_pairs :: "bytes \<Rightarrow> bytes list" where
  "kept_pairs v = map trim_left_ws (filter (\<lambda>pair. pair_name pair \<noteq> cookieName) (split_on CHR '';'' v))"

definition strip_changes :: "bytes \<Rightarrow> bool" where
  "strip_changes v \<longleftrightarrow> list_ex (\<lambda>pair. pair_name pair = cookieName) (split_on CHR '';'' v)"

definition strip_lines :: "bytes list \<Rightarrow> bytes list" where
  "strip_lines vals = map (\<lambda>v. join ''; '' (kept_pairs v)) (filter (\<lambda>v. kept_pairs v \<noteq> []) vals)"

definition stripPassCookie :: "header \<Rightarrow> header" where
  "stripPassCookie h =
     (let vals = hdr_Values h ''Cookie'' in
      if vals = [] then h
      else if \<not> list_ex strip_changes vals then h
      else hdr_Set_list h ''Cookie'' (strip_lines vals))"

subsection \<open>Facts on canonical paths\<close>

definition proper_elem :: "bytes \<Rightarrow> bool" where
  "proper_elem e \<longleftrightarrow> e \<noteq> [] \<and> e \<noteq> ''.'' \<and> e \<noteq> ''..'' \<and> CHR ''/'' \<notin> set e"

lemma clean_elems_proper:
  "list_all proper_elem out \<Longrightarrow> \<forall>e\<in>set es. CHR ''/'' \<notin> set e \<Longrightarrow> list_all proper_elem (clean_elems True out es)"
proof (induction "True" out es rule: clean_elems.induct)
  case (2 out e es)
  show ?case
  proof (cases "e = [] \<or> e = ''.'' \<or> e = ''..''")
    case True
    with 2 show ?thesis by (auto simp: proper_elem_def split: list.splits)
  next
    case False
    with 2 show ?thesis by (simp add: proper_elem_def)
  qed
qed (simp add: list_all_iff)

lemma clean_elems_id: "list_all proper_elem es \<Longrightarrow> clean_elems r out es = rev out @ es"
  by (induction r out es rule: clean_elems.induct) (auto simp: proper_elem_def)

lemma clean_elems_snoc_Nil: "clean_elems r out (es @ [[]]) = clean_elems r out es"
  by (induction r out es rule: clean_elems.induct) (auto split: list.splits)

lemma join_snoc: "join sep (xs @ [l]) = (if xs = [] then l else join sep xs @ sep @ l)"
  by (induction xs rule: induct_list012) (auto simp: join_Cons)

lemma has_suffix_char: "has_suffix s [c] \<longleftrightarrow> s \<noteq> [] \<and> last s = c"
  by (cases s rule: rev_cases) (auto simp: has_suffix_iff)

lemma join_last_proper:
  assumes "list_all proper_elem es" and "es \<noteq> []"
  shows "\<not> has_suffix (join ''/'' es) ''/''"
proof -
  from assms(2) obtain xs l where es: "es = xs @ [l]" by (cases es rule: rev_cases) auto
  with assms(1) have l: "l \<noteq> []" "CHR ''/'' \<notin> set l" by (auto simp: proper_elem_def)
  then have "last l \<noteq> CHR ''/''" by (metis last_in_set)
  with l(1) show ?thesis by (simp add: es join_snoc has_suffix_char)
qed

lemma join_proper_Nil: "list_all proper_elem es \<Longrightarrow> join sep es = [] \<longleftrightarrow> es = []"
  by (cases es rule: rev_cases) (auto simp: join_snoc proper_elem_def)

lemma split_rooted:
  assumes "list_all proper_elem es"
  shows "split_on CHR ''/'' (join ''/'' es) = (if es = [] then [[]] else es)"
  using assms split_on_join [of es "CHR ''/''"] by (auto simp: list_all_iff proper_elem_def)

text \<open>The form of the paths that \<open>cleanPath\<close> leaves alone.\<close>

definition canonical_path :: "bytes \<Rightarrow> bool" where
  "canonical_path p \<longleftrightarrow> (\<exists>es. list_all proper_elem es
     \<and> (p = ''/'' @ join ''/'' es \<or> es \<noteq> [] \<and> p = ''/'' @ join ''/'' es @ ''/''))"

lemma cleanPath_rooted:
  assumes "take 1 p = ''/''"
  shows "canonical_path (cleanPath p)"
proof -
  define es where "es = clean_elems True [] (split_on CHR ''/'' p)"
  have pr: "list_all proper_elem es"
    unfolding es_def by (rule clean_elems_proper) (auto dest: split_on_elems)
  have "cleanPath p = ''/'' @ join ''/'' es \<or> es \<noteq> [] \<and> cleanPath p = ''/'' @ join ''/'' es @ ''/''"
    using assms join_proper_Nil [OF pr, of "''/''"] by (auto simp: cleanPath_def path_Clean_def Let_def es_def)
  with pr show ?thesis unfolding canonical_path_def by blast
qed

lemma cleanPath_canonical:
  assumes "canonical_path p"
  shows "take 1 p = ''/'' \<and> cleanPath p = p"
proof -
  from assms obtain es where pr: "list_all proper_elem es"
    and p: "p = ''/'' @ join ''/'' es \<or> es \<noteq> [] \<and> p = ''/'' @ join ''/'' es @ ''/''"
    unfolding canonical_path_def by blast
  have sl: "\<forall>w\<in>set es. CHR ''/'' \<notin> set w" using pr by (auto simp: list_all_iff proper_elem_def)
  show ?thesis
  proof (cases "p = ''/'' @ join ''/'' es")
    case True
    have "clean_elems True [] (split_on CHR ''/'' p) = es"
      using pr by (simp add: True split_rooted clean_elems_id)
    then show ?thesis using True join_last_proper [OF pr] join_proper_Nil [OF pr, of "''/''"]
      by (auto simp: cleanPath_def path_Clean_def Let_def has_suffix_char)
  next
    case False
    with p have ne: "es \<noteq> []" and p': "p = ''/'' @ join ''/'' es @ ''/''" by auto
    have "join ''/'' es @ ''/'' = join ''/'' (es @ [[]])" using ne by (simp add: join_snoc)
    with sl have "split_on CHR ''/'' (join ''/'' es @ ''/'') = es @ [[]]"
      by (simp add: split_on_join [of _ "CHR ''/''"] ball_Un)
    then have "clean_elems True [] (split_on CHR ''/'' p) = es"
      using pr by (simp add: p' clean_elems_snoc_Nil clean_elems_id)
    then show ?thesis using ne p' join_proper_Nil [OF pr, of "''/''"]
      by (simp add: cleanPath_def path_Clean_def Let_def has_suffix_char)
  qed
qed

text \<open>The path check lets through exactly the canonical paths. A rooted path is its own \<open>cleanPath\<close> just
  when it is the root, or non-empty elements other than \<open>.\<close> and \<open>..\<close> separated by single slashes with at
  most one slash at the end: no dot segment an upstream could resolve differently gets past it.\<close>

theorem cleanPath_fixed_iff:
  "cleanPath p = p \<and> take 1 p = ''/'' \<longleftrightarrow> canonical_path p"
  using cleanPath_rooted cleanPath_canonical by metis

subsection \<open>Facts on the pass cookie\<close>

lemma trim_left_ws_idem [simp]: "trim_left_ws (trim_left_ws s) = trim_left_ws s"
  by (simp add: trim_left_ws_def trim_left_while_def dropWhile_idem)

lemma trim_left_ws_space [simp]: "trim_left_ws (CHR '' '' # s) = trim_left_ws s"
  by (simp add: trim_left_ws_def trim_left_while_def)

lemma pair_name_trim [simp]: "pair_name (trim_left_ws s) = pair_name s"
  by (simp add: pair_name_def)

lemma set_trim_left_ws: "set (trim_left_ws s) \<subseteq> set s"
  by (auto simp: trim_left_ws_def trim_left_while_def dest: set_dropWhileD)

text \<open>The pairs of a header line and of the whole Cookie header, with their leading blanks off.\<close>

definition line_pairs :: "bytes \<Rightarrow> bytes list" where
  "line_pairs v = map trim_left_ws (split_on CHR '';'' v)"

definition cookie_pairs :: "header \<Rightarrow> bytes list" where
  "cookie_pairs h = concat (map line_pairs (hdr_Values h ''Cookie''))"

lemma kept_pairs_line: "kept_pairs v = filter (\<lambda>x. pair_name x \<noteq> cookieName) (line_pairs v)"
  by (simp add: kept_pairs_def line_pairs_def filter_map o_def)

lemma line_pairs_elems: "x \<in> set (line_pairs v) \<Longrightarrow> CHR '';'' \<notin> set x \<and> trim_left_ws x = x"
  using set_trim_left_ws by (fastforce simp: line_pairs_def dest: split_on_elems)

lemma line_pairs_join:
  assumes "ps \<noteq> []" and "\<forall>x\<in>set ps. CHR '';'' \<notin> set x \<and> trim_left_ws x = x"
  shows "line_pairs (join ''; '' ps) = ps"
  using assms
proof (induction ps rule: induct_list012)
  case (2 x)
  then show ?case by (simp add: line_pairs_def split_on_no_sep)
next
  case (3 x y zs)
  then have "line_pairs (join ''; '' (y # zs)) = y # zs" by simp
  moreover have "split_on CHR '';'' (join ''; '' (x # y # zs))
      = x # split_on CHR '';'' (CHR '' '' # join ''; '' (y # zs))"
    using 3 by (simp add: split_on_append)
  ultimately show ?case using 3
    by (cases "split_on CHR '';'' (join ''; '' (y # zs))") (auto simp: line_pairs_def)
qed simp

lemma strip_lines_pairs:
  "concat (map line_pairs (strip_lines vals))
     = filter (\<lambda>x. pair_name x \<noteq> cookieName) (concat (map line_pairs vals))"
proof (induction vals)
  case (Cons v vals)
  have "line_pairs (join ''; '' (kept_pairs v)) = kept_pairs v" if "kept_pairs v \<noteq> []"
    using that by (intro line_pairs_join) (auto simp: kept_pairs_line dest: line_pairs_elems)
  with Cons show ?case by (simp add: strip_lines_def kept_pairs_line [symmetric])
qed (simp add: strip_lines_def)

lemma strip_changes_pairs: "strip_changes v \<longleftrightarrow> list_ex (\<lambda>x. pair_name x = cookieName) (line_pairs v)"
  by (simp add: strip_changes_def line_pairs_def list_ex_iff)

lemma stripPassCookie_cases:
  obtains "stripPassCookie h = h" "\<not> list_ex (\<lambda>x. pair_name x = cookieName) (cookie_pairs h)"
  | "stripPassCookie h = hdr_Set_list h ''Cookie'' (strip_lines (hdr_Values h ''Cookie''))"
proof (cases "hdr_Values h ''Cookie'' = [] \<or> \<not> list_ex strip_changes (hdr_Values h ''Cookie'')")
  case True
  then show thesis
    by (intro that(1)) (auto simp: stripPassCookie_def Let_def cookie_pairs_def strip_changes_pairs list_ex_iff)
qed (rule that(2), auto simp: stripPassCookie_def Let_def)

lemma stripPassCookie_pairs:
  "cookie_pairs (stripPassCookie h) = filter (\<lambda>x. pair_name x \<noteq> cookieName) (cookie_pairs h)"
proof (cases rule: stripPassCookie_cases [of h])
  case 1
  then show ?thesis by (auto simp: list_ex_iff intro!: filter_True [symmetric])
qed (simp add: cookie_pairs_def strip_lines_pairs)

lemma stripPassCookie_frame: "k \<noteq> ''Cookie'' \<Longrightarrow> hdr_Values (stripPassCookie h) k = hdr_Values h k"
  by (cases rule: stripPassCookie_cases [of h]) simp_all

text \<open>C38: the pass is taken out of the forwarded request and nothing else is: the pairs of the Cookie header
  come through in order and byte for byte, except those named like the pass, and no other header changes.\<close>

theorem stripPassCookie_exact:
  "cookie_pairs (stripPassCookie h) = filter (\<lambda>x. pair_name x \<noteq> cookieName) (cookie_pairs h)
     \<and> hdr_Del (stripPassCookie h) ''Cookie'' = hdr_Del h ''Cookie''"
  using stripPassCookie_pairs by (auto simp: stripPassCookie_frame intro!: hdr_eqI)

text \<open>
  \<open>Cookies\<close> trims a cookie's name on both sides, \<open>stripPassCookie\<close> only on the left: a pass sent
  as \<open>anteroom_pass =v\<close> is read as a pass and forwarded with the request.
\<close>

lemma padded_pass_is_forwarded:
  "Cookies (stripPassCookie (hdr_Add hdr_empty ''Cookie'' ''anteroom_pass =v'')) = [(cookieName, ''v'')]"
  by code_simp

subsection \<open>Facts on the client class\<close>

text \<open>What a request must show to be handed the wait page.\<close>

lemma navigation_only:
  assumes "fa_navigation (inspectRequest r claim)"
  shows "(req_Method r = ''GET'' \<or> req_Method r = ''HEAD'') \<and> claim = [] \<and> \<not> isFragmentRequest r
    \<and> \<not> prefersMarkdown (parseAccept (req_Get r ''Accept''))
    \<and> (req_Get r ''Sec-Fetch-Mode'' = ''navigate''
       \<or> offersHTML (parseAccept (req_Get r ''Accept'')) \<and> contains_sub (req_Get r ''User-Agent'') ''Mozilla'')"
  using assms by (auto simp: inspectRequest_def classifyNavigation_def Let_def split: if_splits)

end
