(* ===== verification/Config.thy ===== *)
theory Config
  imports Prelude GoStrings Base64 Http NetIP Bypass Crawler Token Wire Request
begin

text \<open>
  \<open>internal/config\<close>: the configuration record, its defaults, the environment overrides, and
  \<open>validate\<close> with everything it calls. Decoding TOML and reading files are outside: the decoded
  record is the input, and \<open>host_env\<close> holds what the code asks the operating system and
  \<open>net/url\<close>. An error keeps its sentinel and the key its message names.
\<close>

subsection \<open>The record\<close>

record rail =
  rl_Network :: bytes
  rl_Asset :: bytes
  rl_Decimals :: int
  rl_AssetName :: bytes
  rl_AssetVersion :: bytes
  rl_AssetTransferMethod :: bytes
  rl_PayTo :: bytes
  rl_RPCURL :: bytes
  rl_Facilitator :: bytes
  rl_FacilitatorHeaders :: "bytes list"
  rl_FacilitatorHeader :: header

record rule =
  ru_Name :: bytes
  ru_Paths :: "bytes list"
  ru_Price :: bytes
  ru_PaidTTL :: duration
  ru_PriceAtomic :: "(bytes \<times> int) list"

record payments =
  py_PayTo :: bytes
  py_Facilitator :: bytes
  py_StateFile :: bytes
  py_FacilitatorHeaders :: "bytes list"
  py_MaxTimeoutSeconds :: int
  py_ResourceDescription :: bytes
  py_Rails :: "rail list"
  py_Rules :: "rule list"

record bypass_cfg =
  bc_Paths :: "bytes list"
  bc_CIDRs :: "bytes list"
  bc_VerifiedCrawlers :: "bytes list"

record activity_cfg =
  ac_TTL :: duration
  ac_MaxIPs :: int

record triage =
  tr_JSONAccept :: bool
  tr_OKBodyAgents :: "bytes list"
  tr_AllowHostedFetchers :: bool

record key_cfg =
  kc_Kid :: bytes
  kc_Key :: bytes

record config =
  c_Listen :: bytes
  c_AdminListen :: bytes
  c_Upstream :: bytes
  c_PassTTL :: duration
  c_MaxSession :: duration
  c_ShutdownGrace :: duration
  c_Difficulty :: go_float
  c_RenewDifficulty :: go_float
  c_Pages :: bytes
  c_Inject :: bool
  c_AllowInsecureContext :: bool
  c_PublicHosts :: "bytes list"
  c_TrustedProxies :: "bytes list"
  c_HMACKeys :: "key_cfg list"
  c_Payments :: "payments option"
  c_Activity :: "activity_cfg option"
  c_Bypass :: bypass_cfg
  c_Triage :: triage
  c_KeyAutoGenerated :: bool

datatype config_error =
    ErrNoUpstream
  | ErrNoPayTo
  | ErrNoRules
  | ErrBadPrice bytes
  | ErrBadKey bytes
  | ErrBadDifficulty bytes
  | ErrBadTTL bytes
  | ErrBypass bypass_error
  | ErrConfig bytes

record parsed_url =
  u_Scheme :: bytes
  u_Host :: bytes
  u_Hostname :: bytes
  u_User :: bool

record host_env =
  he_Getenv :: "bytes \<Rightarrow> bytes"
  he_ParseURL :: "bytes \<Rightarrow> parsed_url option"
  he_Stat :: "bytes \<Rightarrow> bool"
  he_Rand :: "bytes option"

definition minDifficulty :: rat where "minDifficulty = 4"

definition defaults :: config where
  "defaults =
     \<lparr>c_Listen = '':8080'', c_AdminListen = [], c_Upstream = [], c_PassTTL = 60 * second,
      c_MaxSession = 30 * minute, c_ShutdownGrace = 5 * second, c_Difficulty = FNum 14,
      c_RenewDifficulty = FNum 6, c_Pages = [], c_Inject = True, c_AllowInsecureContext = False,
      c_PublicHosts = [], c_TrustedProxies = [], c_HMACKeys = [], c_Payments = None, c_Activity = None,
      c_Bypass = \<lparr>bc_Paths = [], bc_CIDRs = [], bc_VerifiedCrawlers = []\<rparr>,
      c_Triage = \<lparr>tr_JSONAccept = True, tr_OKBodyAgents = [''claude-user''], tr_AllowHostedFetchers = True\<rparr>,
      c_KeyAutoGenerated = False\<rparr>"

definition override :: "bytes \<Rightarrow> bytes \<Rightarrow> bytes" where
  "override v old = (if v \<noteq> [] then v else old)"

definition applyEnv :: "host_env \<Rightarrow> config \<Rightarrow> config" where
  "applyEnv he c =
     (let c = c\<lparr>c_Listen := override (he_Getenv he ''ANTEROOM_LISTEN'') (c_Listen c),
                c_AdminListen := override (he_Getenv he ''ANTEROOM_ADMIN_LISTEN'') (c_AdminListen c),
                c_Upstream := override (he_Getenv he ''ANTEROOM_UPSTREAM'') (c_Upstream c),
                c_Pages := override (he_Getenv he ''ANTEROOM_PAGES'') (c_Pages c)\<rparr>;
          k = he_Getenv he ''ANTEROOM_HMAC_KEY''
      in if k \<noteq> [] then c\<lparr>c_HMACKeys := [\<lparr>kc_Kid = ''env'', kc_Key = k\<rparr>]\<rparr> else c)"

subsection \<open>Keys of the file\<close>

text \<open>The schema that the struct tags spell: a scalar, or the named fields of a table.\<close>

datatype schema = SLeaf | STable "(bytes \<times> schema) list"

definition config_schema :: schema where
  "config_schema = STable
     [(''listen'', SLeaf), (''admin_listen'', SLeaf), (''upstream'', SLeaf), (''pass_ttl'', SLeaf),
      (''max_session'', SLeaf), (''shutdown_grace'', SLeaf), (''difficulty'', SLeaf),
      (''renew_difficulty'', SLeaf), (''pages'', SLeaf), (''inject'', SLeaf),
      (''allow_insecure_context'', SLeaf), (''public_hosts'', SLeaf), (''trusted_proxies'', SLeaf),
      (''hmac_keys'', STable [(''kid'', SLeaf), (''key'', SLeaf)]),
      (''payments'', STable
         [(''pay_to'', SLeaf), (''facilitator'', SLeaf), (''state_file'', SLeaf),
          (''facilitator_headers'', SLeaf), (''max_timeout_seconds'', SLeaf), (''resource_description'', SLeaf),
          (''rails'', STable
             [(''network'', SLeaf), (''asset'', SLeaf), (''decimals'', SLeaf), (''asset_name'', SLeaf),
              (''asset_version'', SLeaf), (''asset_transfer_method'', SLeaf), (''pay_to'', SLeaf),
              (''rpc_url'', SLeaf), (''facilitator'', SLeaf), (''facilitator_headers'', SLeaf)]),
          (''rules'', STable [(''name'', SLeaf), (''paths'', SLeaf), (''price'', SLeaf), (''paid_ttl'', SLeaf)])]),
      (''activity'', STable [(''ttl'', SLeaf), (''max_ips'', SLeaf)]),
      (''bypass'', STable [(''paths'', SLeaf), (''cidrs'', SLeaf), (''verified_crawlers'', SLeaf)]),
      (''triage'', STable [(''json_accept'', SLeaf), (''ok_body_agents'', SLeaf), (''allow_hosted_fetchers'', SLeaf)])]"

fun canonical_key :: "schema \<Rightarrow> bytes list \<Rightarrow> bytes list option" where
  "canonical_key t [] = Some []"
| "canonical_key SLeaf (part # ps) = None"
| "canonical_key (STable fs) (part # ps) =
     (case find (\<lambda>(name, _). equal_fold name part) fs of
        None \<Rightarrow> None
      | Some (name, t) \<Rightarrow> map_option (\<lambda>c. name # c) (canonical_key t ps))"

definition canonicalConfigKey :: "bytes list \<Rightarrow> bytes list option" where
  "canonicalConfigKey key = canonical_key config_schema key"

text \<open>\<open>key_String\<close> is \<open>toml.Key.String\<close>. The result lists the rejected paths.\<close>

fun key_problems :: "(bytes list \<Rightarrow> bytes) \<Rightarrow> bytes list \<Rightarrow> bytes list list \<Rightarrow> bytes list" where
  "key_problems key_String seen [] = []"
| "key_problems key_String seen (key # ks) =
     (let path = key_String key in
      if (case canonicalConfigKey key of None \<Rightarrow> False | Some c \<Rightarrow> key_String c = path)
      then key_problems key_String seen ks
      else if path \<in> set seen then key_problems key_String seen ks
      else path # key_problems key_String (path # seen) ks)"

definition validateConfigKeys :: "(bytes list \<Rightarrow> bytes) \<Rightarrow> bytes list list \<Rightarrow> config_error option" where
  "validateConfigKeys key_String ks =
     (let problems = key_problems key_String [] ks in
      if problems \<noteq> [] then Some (ErrConfig (join ''; '' problems)) else None)"

subsection \<open>Prices\<close>

definition parsePrice :: "bytes \<Rightarrow> int \<Rightarrow> config_error + int" where
  "parsePrice price decimals =
     (if decimals < 0 \<or> 36 < decimals then Inl (ErrBadPrice ''decimals'')
      else
        (let s = trim_space (trim_prefix (trim_space price) ''$'') in
         if s = [] then Inl (ErrBadPrice ''empty'')
         else
           (let (whole, frac, _) = cut CHR ''.'' s in
            if whole = [] \<and> frac = [] then Inl (ErrBadPrice ''no digits'')
            else
              (let whole = (if whole = [] then ''0'' else whole) in
               if \<not> list_all is_digit (whole @ frac) then Inl (ErrBadPrice ''unexpected character'')
               else if decimals < int (length frac) then Inl (ErrBadPrice ''fractional digits'')
               else
                 (let n = int (dec_val (whole @ frac @ replicate (nat decimals - length frac) (CHR ''0''))) in
                  if n = 0 then Inl (ErrBadPrice ''zero'') else Inr n)))))"

subsection \<open>Facilitator credentials\<close>

definition canonical_char :: "bool \<Rightarrow> char \<Rightarrow> char" where
  "canonical_char upper c =
     (if upper \<and> char_between CHR ''a'' CHR ''z'' c then val_byte (byte_val c - 32)
      else if \<not> upper then lower_char c else c)"

fun canonical_chars :: "bool \<Rightarrow> bytes \<Rightarrow> bytes" where
  "canonical_chars upper [] = []"
| "canonical_chars upper (c # s) =
     (let d = canonical_char upper c in d # canonical_chars (d = CHR ''-'') s)"

definition CanonicalHeaderKey :: "bytes \<Rightarrow> bytes" where
  "CanonicalHeaderKey s = (if list_all is_token_char s then canonical_chars True s else s)"

definition facilitatorReservedHeaders :: "bytes list" where
  "facilitatorReservedHeaders =
     [''Content-Type'', ''Accept'', ''Content-Length'', ''Host'', ''Transfer-Encoding'', ''Connection'']"

text \<open>\<open>os.Expand\<close>: the name after a dollar sign and how many bytes it takes.\<close>

definition shell_special :: "char \<Rightarrow> bool" where
  "shell_special c \<longleftrightarrow> c \<in> set ''*#$@!?-'' \<or> is_digit c"

definition shell_alnum :: "char \<Rightarrow> bool" where
  "shell_alnum c \<longleftrightarrow> c = CHR ''_'' \<or> is_digit c \<or> char_between CHR ''a'' CHR ''z'' c \<or> char_between CHR ''A'' CHR ''Z'' c"

definition shell_name :: "bytes \<Rightarrow> bytes \<times> nat" where
  "shell_name s =
     (case s of
        [] \<Rightarrow> ([], 0)
      | c # t \<Rightarrow>
          if c = CHR ''{'' then
            (case str_index t ''}'' of
               None \<Rightarrow> ([], 1)
             | Some i \<Rightarrow>
                 if i = 0 then ([], 2) else (take i t, i + 2))
          else if shell_special c then ([c], 1)
          else (takeWhile shell_alnum s, length (takeWhile shell_alnum s)))"

text \<open>The expanded text and the variables that were not set, in order.\<close>

function os_Expand :: "(bytes \<Rightarrow> bytes) \<Rightarrow> bytes \<Rightarrow> bytes \<times> bytes list" where
  "os_Expand env [] = ([], [])"
| "os_Expand env (c # s) =
     (if c = CHR ''$'' \<and> s \<noteq> [] then
        (let (name, w) = shell_name s; (r, un) = os_Expand env (drop w s) in
         if name = [] \<and> 0 < w then (r, un)
         else if name = [] then (c # r, un)
         else (env name @ r, if env name = [] then name # un else un))
      else (let (r, un) = os_Expand env s in (c # r, un)))"
  by pat_completeness auto
termination by (relation "measure (\<lambda>(_, s). length s)") auto

fun parse_headers :: "host_env \<Rightarrow> bytes list \<Rightarrow> bytes \<Rightarrow> header \<Rightarrow> config_error + header" where
  "parse_headers he [] key h = Inr h"
| "parse_headers he (entry # es) key h =
     (let (expanded, unset) = os_Expand (he_Getenv he) entry in
      if unset \<noteq> [] then Inl (ErrConfig key)
      else
        (let (name, v, ok) = cut CHR '':'' expanded; name = trim_space name; v = trim_space v in
         if \<not> ok \<or> name = [] \<or> v = [] then Inl (ErrConfig key)
         else if \<not> is_token name then Inl (ErrConfig key)
         else if CanonicalHeaderKey name \<in> set facilitatorReservedHeaders then Inl (ErrConfig key)
         else parse_headers he es key (hdr_Set h (CanonicalHeaderKey name) v)))"

definition parseHeaderList :: "host_env \<Rightarrow> bytes list \<Rightarrow> bytes \<Rightarrow> config_error + header" where
  "parseHeaderList he entries key = (if entries = [] then Inr hdr_empty else parse_headers he entries key hdr_empty)"

definition is_loopback :: "addr \<Rightarrow> bool" where
  "is_loopback a =
     (case addr_Unmap a of
        AddrV4 w \<Rightarrow> drop_bit 24 w = 127
      | AddrV6 w z \<Rightarrow> w = 1
      | AddrInvalid \<Rightarrow> False)"

definition isLoopbackHost :: "bytes \<Rightarrow> bool" where
  "isLoopbackHost h =
     (if h = ''localhost'' then True
      else (case ParseAddr h of None \<Rightarrow> False | Some a \<Rightarrow> \<not> addr_hasZone a \<and> is_loopback a))"

definition checkFacilitatorURL :: "host_env \<Rightarrow> bytes \<Rightarrow> bytes \<Rightarrow> config_error option" where
  "checkFacilitatorURL he raw key =
     (case he_ParseURL he raw of
        None \<Rightarrow> Some (ErrConfig key)
      | Some u \<Rightarrow>
          if u_Host u = [] \<or> u_Scheme u \<noteq> ''https'' \<and> u_Scheme u \<noteq> ''http'' then Some (ErrConfig key)
          else if u_Scheme u = ''http'' \<and> \<not> isLoopbackHost (u_Hostname u) then Some (ErrConfig key)
          else if u_User u then Some (ErrConfig key)
          else None)"

definition evm_address :: "bytes \<Rightarrow> bool" where
  "evm_address s \<longleftrightarrow> length s = 42 \<and> take 2 s = ''0x'' \<and> list_all (\<lambda>c. hex_digit_val c \<noteq> None) (drop 2 s)"

definition checkPayTo :: "bytes \<Rightarrow> rail list \<Rightarrow> bytes \<Rightarrow> config_error option" where
  "checkPayTo addr rails key =
     (if addr = [] then None
      else if list_ex (\<lambda>r. has_prefix (rl_Network r) ''eip155:'') rails \<and> \<not> evm_address addr
        then Some (ErrConfig key)
      else None)"

subsection \<open>Validation\<close>

definition transferMethods :: "bytes list" where
  "transferMethods = [''eip3009'', ''permit2'']"

text \<open>
  One pass of the loop over the rails: the checks in order, with the defaults filled in as the
  code fills them between the checks. \<open>globalHdr\<close> are the parsed headers of the default facilitator.
\<close>

definition rail_defaults :: "rail \<Rightarrow> rail" where
  "rail_defaults r =
     r\<lparr>rl_Decimals := if rl_Decimals r = 0 then 6 else rl_Decimals r,
       rl_AssetTransferMethod := if rl_AssetTransferMethod r = [] then ''eip3009'' else rl_AssetTransferMethod r\<rparr>"

definition bad_rpc_url :: "host_env \<Rightarrow> bytes \<Rightarrow> bool" where
  "bad_rpc_url he raw \<longleftrightarrow> raw \<noteq> [] \<and> (case he_ParseURL he raw of None \<Rightarrow> True
     | Some u \<Rightarrow> u_Host u = [] \<or> u_Scheme u \<noteq> ''https'' \<and> u_Scheme u \<noteq> ''http'')"

definition rail_facilitator :: "host_env \<Rightarrow> rail \<Rightarrow> config_error + rail" where
  "rail_facilitator he r =
     (if rl_Facilitator r \<noteq> [] then
        (case checkFacilitatorURL he (rl_Facilitator r) ''facilitator'' of
           Some e \<Rightarrow> Inl e
         | None \<Rightarrow>
             (case parseHeaderList he (rl_FacilitatorHeaders r) ''facilitator_headers'' of
                Inl e \<Rightarrow> Inl e
              | Inr h \<Rightarrow> Inr (r\<lparr>rl_FacilitatorHeader := h\<rparr>)))
      else if rl_FacilitatorHeaders r \<noteq> [] then Inl (ErrConfig ''facilitator_headers'')
      else Inr r)"

definition rail_inherit :: "payments \<Rightarrow> header \<Rightarrow> rail \<Rightarrow> rail" where
  "rail_inherit p globalHdr r0 =
     (let r = r0\<lparr>rl_PayTo := if rl_PayTo r0 = [] then py_PayTo p else rl_PayTo r0\<rparr> in
      if rl_Facilitator r = [] then r\<lparr>rl_Facilitator := py_Facilitator p, rl_FacilitatorHeader := globalHdr\<rparr>
      else r)"

definition rail_pay_to_error :: "rail \<Rightarrow> config_error option" where
  "rail_pay_to_error r = (if rl_PayTo r \<noteq> [] then checkPayTo (rl_PayTo r) [r] ''pay_to'' else None)"

definition validate_rail :: "host_env \<Rightarrow> payments \<Rightarrow> header \<Rightarrow> bytes list \<Rightarrow> rail \<Rightarrow> config_error + rail" where
  "validate_rail he p globalHdr seen r0 =
     (let r = rail_defaults r0 in
      if rl_Network r = [] then Inl (ErrConfig ''network'')
      else if CHR '':'' \<notin> set (rl_Network r) then Inl (ErrConfig ''network'')
      else if rl_Network r \<in> set seen then Inl (ErrConfig ''network'')
      else if rl_Asset r = [] then Inl (ErrConfig ''asset'')
      else if rl_Decimals r < 0 \<or> 36 < rl_Decimals r then Inl (ErrConfig ''decimals'')
      else if bad_rpc_url he (rl_RPCURL r) then Inl (ErrConfig ''rpc_url'')
      else
        (case rail_pay_to_error r of
           Some e \<Rightarrow> Inl e
         | None \<Rightarrow>
            (case rail_facilitator he r of
               Inl e \<Rightarrow> Inl e
             | Inr r \<Rightarrow>
                if rl_AssetTransferMethod r \<notin> set transferMethods then Inl (ErrConfig ''asset_transfer_method'')
                else if rl_AssetName r = [] \<or> rl_AssetVersion r = [] then Inl (ErrConfig ''asset_name'')
                else Inr (rail_inherit p globalHdr r))))"

fun validate_rails ::
  "host_env \<Rightarrow> payments \<Rightarrow> header \<Rightarrow> bytes list \<Rightarrow> rail list \<Rightarrow> config_error + rail list" where
  "validate_rails he p globalHdr seen [] = Inr []"
| "validate_rails he p globalHdr seen (r # rs) =
     (case validate_rail he p globalHdr seen r of
        Inl e \<Rightarrow> Inl e
      | Inr r' \<Rightarrow>
          (case validate_rails he p globalHdr (rl_Network r # seen) rs of
             Inl e \<Rightarrow> Inl e
           | Inr rs' \<Rightarrow> Inr (r' # rs')))"

fun rule_prices :: "bytes \<Rightarrow> rail list \<Rightarrow> config_error + (bytes \<times> int) list" where
  "rule_prices price [] = Inr []"
| "rule_prices price (r # rs) =
     (case parsePrice price (rl_Decimals r) of
        Inl e \<Rightarrow> Inl e
      | Inr n \<Rightarrow>
          (case rule_prices price rs of Inl e \<Rightarrow> Inl e | Inr m \<Rightarrow> Inr ((rl_Network r, n) # m)))"

definition validate_rule :: "rail list \<Rightarrow> bytes list \<Rightarrow> rule \<Rightarrow> config_error + rule" where
  "validate_rule rails seen r =
     (if ru_Name r = [] then Inl (ErrConfig ''name'')
      else if ru_Name r = ScopeAll then Inl (ErrConfig ''name'')
      else if ru_Name r \<in> set seen then Inl (ErrConfig ''name'')
      else if ru_Paths r = [] then Inl (ErrConfig ''paths'')
      else
        (case bypass_New (ru_Paths r) [] [] of
           Inl e \<Rightarrow> Inl (ErrBypass e)
         | Inr _ \<Rightarrow>
            (case rule_prices (ru_Price r) rails of
               Inl e \<Rightarrow> Inl e
             | Inr m \<Rightarrow>
                if ru_PaidTTL r < second then Inl (ErrBadTTL ''paid_ttl'')
                else Inr (r\<lparr>ru_PriceAtomic := m\<rparr>))))"

fun validate_rules :: "rail list \<Rightarrow> bytes list \<Rightarrow> rule list \<Rightarrow> config_error + rule list" where
  "validate_rules rails seen [] = Inr []"
| "validate_rules rails seen (r # rs) =
     (case validate_rule rails seen r of
        Inl e \<Rightarrow> Inl e
      | Inr r' \<Rightarrow>
          (case validate_rules rails (ru_Name r # seen) rs of
             Inl e \<Rightarrow> Inl e
           | Inr rs' \<Rightarrow> Inr (r' # rs')))"

definition payments_validate :: "host_env \<Rightarrow> payments \<Rightarrow> config_error + payments" where
  "payments_validate he p =
     (if py_PayTo p = [] then Inl ErrNoPayTo
      else if py_Facilitator p = [] then Inl (ErrConfig ''facilitator'')
      else
        (case checkFacilitatorURL he (py_Facilitator p) ''facilitator'' of
           Some e \<Rightarrow> Inl e
         | None \<Rightarrow>
            (case parseHeaderList he (py_FacilitatorHeaders p) ''facilitator_headers'' of
               Inl e \<Rightarrow> Inl e
             | Inr globalHdr \<Rightarrow>
                (case checkPayTo (py_PayTo p) (py_Rails p) ''pay_to'' of
                   Some e \<Rightarrow> Inl e
                 | None \<Rightarrow>
                    if py_Rails p = [] then Inl (ErrConfig ''rails'')
                    else
                      (case validate_rails he p globalHdr [] (py_Rails p) of
                         Inl e \<Rightarrow> Inl e
                       | Inr rails \<Rightarrow>
                          (let t = (if py_MaxTimeoutSeconds p = 0 then 300 else py_MaxTimeoutSeconds p) in
                           if t < 1 \<or> 3600 < t then Inl (ErrConfig ''max_timeout_seconds'')
                           else if py_Rules p = [] then Inl ErrNoRules
                           else
                             (case validate_rules rails [] (py_Rules p) of
                                Inl e \<Rightarrow> Inl e
                              | Inr rules \<Rightarrow>
                                  Inr (p\<lparr>py_Rails := rails, py_MaxTimeoutSeconds := t, py_Rules := rules\<rparr>))))))))"

definition activity_validate :: "activity_cfg \<Rightarrow> config_error + activity_cfg" where
  "activity_validate a =
     (let ttl = (if ac_TTL a = 0 then 10 * minute else ac_TTL a);
          n = (if ac_MaxIPs a = 0 then 8192 else ac_MaxIPs a)
      in if ttl < 10 * second \<or> 24 * hour < ttl then Inl (ErrConfig ''activity.ttl'')
         else if n < 16 \<or> 1000000 < n then Inl (ErrConfig ''activity.max_ips'')
         else Inr \<lparr>ac_TTL = ttl, ac_MaxIPs = n\<rparr>)"

definition UpstreamSocket :: "config \<Rightarrow> bytes" where
  "UpstreamSocket c =
     (case cut_prefix (c_Upstream c) ''unix:'' of
        None \<Rightarrow> []
      | Some rest \<Rightarrow>
          (let rest = trim_prefix rest ''//'' in if rest = [] \<or> \<not> has_prefix rest ''/'' then [] else rest))"

definition UpstreamURL :: "host_env \<Rightarrow> config \<Rightarrow> config_error + parsed_url" where
  "UpstreamURL he c =
     (if UpstreamSocket c \<noteq> [] then
        Inr \<lparr>u_Scheme = ''http'', u_Host = ''unix'', u_Hostname = ''unix'', u_User = False\<rparr>
      else
        (let s = (if \<not> contains_sub (c_Upstream c) ''://'' then ''http://'' @ c_Upstream c else c_Upstream c) in
         case he_ParseURL he s of
           None \<Rightarrow> Inl (ErrConfig ''upstream'')
         | Some u \<Rightarrow>
             if u_Host u = [] \<or> u_Scheme u \<noteq> ''http'' \<and> u_Scheme u \<noteq> ''https'' then Inl (ErrConfig ''upstream'')
             else Inr u))"

fun decode_first :: "b64_encoding list \<Rightarrow> bytes \<Rightarrow> bytes option" where
  "decode_first [] s = None"
| "decode_first (e # es) s = (case b64_decode e s of Some b \<Rightarrow> Some b | None \<Rightarrow> decode_first es s)"

definition decodeB64 :: "bytes \<Rightarrow> bytes option" where
  "decodeB64 s = decode_first [StdEncoding, RawStdEncoding, URLEncoding, RawURLEncoding] s"

fun config_Keys :: "key_cfg list \<Rightarrow> config_error + hmac_key list" where
  "config_Keys [] = Inr []"
| "config_Keys (k # ks) =
     (case decodeB64 (kc_Key k) of
        None \<Rightarrow> Inl (ErrBadKey (kc_Kid k))
      | Some raw \<Rightarrow>
          (case config_Keys ks of Inl e \<Rightarrow> Inl e | Inr r \<Rightarrow> Inr (\<lparr>Kid = kc_Kid k, KeyBytes = raw\<rparr> # r)))"

definition bad_authority :: "bytes \<Rightarrow> bool" where
  "bad_authority a \<longleftrightarrow> a = [] \<or> a \<noteq> trim_space a \<or> list_ex (\<lambda>c. c \<in> set ''/?#@'') a \<or> CHR ''*'' \<in> set a"

fun crawler_names_error :: "bytes list \<Rightarrow> bytes list \<Rightarrow> config_error option" where
  "crawler_names_error seen [] = None"
| "crawler_names_error seen (n # ns) =
     (if \<not> crawler_Supported n then Some (ErrConfig ''verified_crawlers'')
      else if n \<in> set seen then Some (ErrConfig ''verified_crawlers'')
      else crawler_names_error (n # seen) ns)"

fun keys_error :: "key_cfg list \<Rightarrow> config_error option" where
  "keys_error [] = None"
| "keys_error (k # ks) =
     (if kc_Kid k = [] then Some (ErrBadKey [])
      else
        (case decodeB64 (kc_Key k) of
           None \<Rightarrow> Some (ErrBadKey (kc_Kid k))
         | Some raw \<Rightarrow> if length raw < 16 then Some (ErrBadKey (kc_Kid k)) else keys_error ks))"

definition difficulty_error :: "config \<Rightarrow> config_error option" where
  "difficulty_error c =
     (let d = c_Difficulty c; r = c_RenewDifficulty c in
      if d = FNaN \<or> float_less d (FNum minDifficulty) \<or> float_less (FNum 255) d then Some (ErrBadDifficulty ''difficulty'')
      else if r = FNaN \<or> float_less r (FNum 0) \<or> float_less (FNum 255) r then Some (ErrBadDifficulty ''renew_difficulty'')
      else if float_less d r then Some (ErrBadDifficulty ''renew_difficulty'')
      else None)"

text \<open>The checks before the first change of the record, in order.\<close>

definition config_checks :: "host_env \<Rightarrow> config \<Rightarrow> config_error option" where
  "config_checks he c =
     (if c_AdminListen c \<noteq> [] \<and> SplitHostPort (c_AdminListen c) = None then Some (ErrConfig ''admin_listen'')
      else if c_AdminListen c \<noteq> [] \<and> c_AdminListen c = c_Listen c then Some (ErrConfig ''admin_listen'')
      else if c_Upstream c = [] then Some ErrNoUpstream
      else
        (case UpstreamURL he c of
           Inl e \<Rightarrow> Some e
         | Inr _ \<Rightarrow>
            if c_PassTTL c < second then Some (ErrBadTTL ''pass_ttl'')
            else if c_MaxSession c < c_PassTTL c then Some (ErrBadTTL ''max_session'')
            else if c_ShutdownGrace c < second \<or> hour < c_ShutdownGrace c then Some (ErrConfig ''shutdown_grace'')
            else if list_ex bad_authority (c_PublicHosts c) then Some (ErrConfig ''public_hosts'')
            else
              (case difficulty_error c of
                 Some e \<Rightarrow> Some e
               | None \<Rightarrow>
                  if c_Pages c \<noteq> [] \<and> list_ex (\<lambda>f. \<not> he_Stat he (c_Pages c @ ''/'' @ f)) [''header.html'', ''footer.html'']
                  then Some (ErrConfig ''pages'')
                  else
                    (case bypass_New (bc_Paths (c_Bypass c)) (bc_CIDRs (c_Bypass c)) (c_TrustedProxies c) of
                       Inl e \<Rightarrow> Some (ErrBypass e)
                     | Inr _ \<Rightarrow>
                        (case crawler_names_error [] (bc_VerifiedCrawlers (c_Bypass c)) of
                           Some e \<Rightarrow> Some e
                         | None \<Rightarrow> keys_error (c_HMACKeys c))))))"

definition auto_key :: "host_env \<Rightarrow> config \<Rightarrow> config_error + config" where
  "auto_key he c =
     (if c_HMACKeys c = [] then
        (case he_Rand he of
           None \<Rightarrow> Inl (ErrConfig ''generating hmac key'')
         | Some raw \<Rightarrow>
             Inr (c\<lparr>c_HMACKeys := [\<lparr>kc_Kid = ''auto'', kc_Key = b64_encode StdEncoding raw\<rparr>],
                    c_KeyAutoGenerated := True\<rparr>))
      else Inr c)"

definition config_validate :: "host_env \<Rightarrow> config \<Rightarrow> config_error + config" where
  "config_validate he c =
     (case config_checks he c of
        Some e \<Rightarrow> Inl e
      | None \<Rightarrow>
         (case auto_key he c of
            Inl e \<Rightarrow> Inl e
          | Inr c \<Rightarrow>
             (case (case c_Payments c of
                      None \<Rightarrow> Inr c
                    | Some p \<Rightarrow>
                        (case payments_validate he p of Inl e \<Rightarrow> Inl e | Inr p' \<Rightarrow> Inr (c\<lparr>c_Payments := Some p'\<rparr>))) of
                Inl e \<Rightarrow> Inl e
              | Inr c \<Rightarrow>
                 (case c_Activity c of
                    None \<Rightarrow> Inr c
                  | Some a \<Rightarrow>
                      (case activity_validate a of Inl e \<Rightarrow> Inl e | Inr a' \<Rightarrow> Inr (c\<lparr>c_Activity := Some a'\<rparr>))))))"

subsection \<open>Facts on prices\<close>

lemma dec_val_append_zeros: "dec_val (s @ replicate k (CHR ''0'')) = dec_val s * 10 ^ k"
proof (induction k arbitrary: s)
  case (Suc k)
  have "replicate (Suc k) (CHR ''0'') = replicate k (CHR ''0'') @ [CHR ''0'']"
    by (simp add: replicate_append_same)
  then have "dec_val (s @ replicate (Suc k) (CHR ''0'')) = dec_val ((s @ replicate k (CHR ''0'')) @ [CHR ''0''])" by simp
  also have "\<dots> = dec_val (s @ replicate k (CHR ''0'')) * 10" by (simp only: dec_val_snoc) (simp add: byte_val_def)
  finally show ?case using Suc by simp
qed simp

lemma dec_val_zero_first: "dec_val (CHR ''0'' # s) = dec_val s"
  by (simp add: dec_val_def byte_val_def)

lemma parsePrice_pos: "parsePrice price decimals = Inr n \<Longrightarrow> 0 < n"
  by (auto simp: parsePrice_def Let_def split: prod.splits)

text \<open>The text of a price without its dollar sign.\<close>

definition price_text :: "bytes \<Rightarrow> bytes" where
  "price_text price = trim_space (trim_prefix (trim_space price) ''$'')"

lemma cut_append_eq: "cut c s = (a, b, ok) \<Longrightarrow> s = a \<and> b = [] \<and> \<not> ok \<or> s = a @ c # b \<and> ok"
  using cut_simps [of c s a b] by (cases ok) auto

text \<open>C34: a price is resolved exactly. When \<open>parsePrice\<close> accepts a display price, the price is a decimal
  number \<open>w\<close> or \<open>w.f\<close>, and the result is positive and is that number times \<open>10 ^ decimals\<close>, with nothing
  rounded; a price with more fractional digits than the asset has is refused, never truncated.\<close>

theorem parsePrice_exact:
  assumes "parsePrice price decimals = Inr n"
  shows "\<exists>w f. (price_text price = w \<and> f = [] \<or> price_text price = w @ CHR ''.'' # f)
    \<and> list_all is_digit (w @ f) \<and> 0 < n \<and> int (length f) \<le> decimals \<and> decimals \<le> 36
    \<and> n * 10 ^ length f = int (dec_val (w @ f)) * 10 ^ nat decimals"
proof -
  obtain w f ok where c: "cut CHR ''.'' (price_text price) = (w, f, ok)" by (metis prod.exhaust)
  define w' where "w' = (if w = [] then ''0'' else w)"
  from assms c have d: "0 \<le> decimals" "decimals \<le> 36" "list_all is_digit (w' @ f)" "int (length f) \<le> decimals"
    and n: "n = int (dec_val (w' @ f @ replicate (nat decimals - length f) (CHR ''0'')))" "n \<noteq> 0"
    by (auto simp: parsePrice_def price_text_def Let_def w'_def split: if_splits)
  have w: "dec_val (w' @ f) = dec_val (w @ f)" "list_all is_digit (w @ f)"
    using d(3) by (cases "w = []"; simp add: w'_def dec_val_zero_first)+
  from n(1) have "n = int (dec_val (w @ f)) * 10 ^ (nat decimals - length f)"
    using dec_val_append_zeros [of "w' @ f"] w(1) by simp
  then have "n * 10 ^ length f = int (dec_val (w @ f)) * 10 ^ (nat decimals - length f + length f)"
    by (simp add: power_add)
  also have "nat decimals - length f + length f = nat decimals" using d(4) by simp
  finally have "n * 10 ^ length f = int (dec_val (w @ f)) * 10 ^ nat decimals" .
  moreover have "0 < n" using n by simp
  moreover from cut_append_eq [OF c] have "price_text price = w \<and> f = [] \<or> price_text price = w @ CHR ''.'' # f" by auto
  ultimately show ?thesis using d w by blast
qed

lemma parsePrice_exact_witness:
  "\<exists>w f. (price_text '' $0.002'' = w \<and> f = [] \<or> price_text '' $0.002'' = w @ CHR ''.'' # f)
    \<and> (2000 :: int) * 10 ^ length f = int (dec_val (w @ f)) * 10 ^ nat 6"
proof -
  have "parsePrice '' $0.002'' 6 = Inr 2000" by code_simp
  from parsePrice_exact [OF this] show ?thesis by blast
qed

subsection \<open>Facts on payment rails and rules\<close>

text \<open>A rail's credential belongs to the facilitator the rail names, or both are the default ones.\<close>

definition rail_credential_ok :: "host_env \<Rightarrow> payments \<Rightarrow> rail \<Rightarrow> rail \<Rightarrow> bool" where
  "rail_credential_ok he p r r' \<longleftrightarrow>
     (rl_Facilitator r = [] \<and> rl_Facilitator r' = py_Facilitator p
        \<and> parseHeaderList he (py_FacilitatorHeaders p) ''facilitator_headers'' = Inr (rl_FacilitatorHeader r'))
     \<or> (rl_Facilitator r \<noteq> [] \<and> rl_Facilitator r' = rl_Facilitator r
        \<and> checkFacilitatorURL he (rl_Facilitator r) ''facilitator'' = None
        \<and> parseHeaderList he (rl_FacilitatorHeaders r) ''facilitator_headers'' = Inr (rl_FacilitatorHeader r'))"

lemma rail_defaults_simps [simp]:
  "rl_Network (rail_defaults r) = rl_Network r" "rl_Facilitator (rail_defaults r) = rl_Facilitator r"
  "rl_FacilitatorHeaders (rail_defaults r) = rl_FacilitatorHeaders r"
  by (simp_all add: rail_defaults_def)

lemma rail_inherit_simps [simp]:
  "rl_Network (rail_inherit p g r) = rl_Network r" "rl_Decimals (rail_inherit p g r) = rl_Decimals r"
  "rl_AssetTransferMethod (rail_inherit p g r) = rl_AssetTransferMethod r"
  "rl_PayTo (rail_inherit p g r) = (if rl_PayTo r = [] then py_PayTo p else rl_PayTo r)"
  "rl_Facilitator (rail_inherit p g r) = (if rl_Facilitator r = [] then py_Facilitator p else rl_Facilitator r)"
  "rl_FacilitatorHeader (rail_inherit p g r) = (if rl_Facilitator r = [] then g else rl_FacilitatorHeader r)"
  by (simp_all add: rail_inherit_def Let_def)

lemma rail_facilitator_Inr:
  assumes "rail_facilitator he r = Inr r'"
  shows "(rl_Facilitator r = [] \<and> r' = r) \<or> (rl_Facilitator r \<noteq> []
     \<and> checkFacilitatorURL he (rl_Facilitator r) ''facilitator'' = None
     \<and> (\<exists>h. parseHeaderList he (rl_FacilitatorHeaders r) ''facilitator_headers'' = Inr h
           \<and> r' = r\<lparr>rl_FacilitatorHeader := h\<rparr>))"
  using assms by (cases "rl_Facilitator r = []") (auto simp: rail_facilitator_def)

lemma validate_rail_Inr:
  assumes "validate_rail he p g seen r = Inr r'"
  shows "\<exists>r1. rail_facilitator he (rail_defaults r) = Inr r1 \<and> r' = rail_inherit p g r1
    \<and> rl_Network r \<notin> set seen \<and> 0 \<le> rl_Decimals (rail_defaults r) \<and> rl_Decimals (rail_defaults r) \<le> 36
    \<and> rl_AssetTransferMethod r1 \<in> set transferMethods"
  using assms unfolding validate_rail_def Let_def by (auto simp: not_less)

lemma validate_rail_facts:
  assumes "validate_rail he p g seen r = Inr r'" and "py_PayTo p \<noteq> []"
    and "parseHeaderList he (py_FacilitatorHeaders p) ''facilitator_headers'' = Inr g"
  shows "rl_Network r' = rl_Network r \<and> rl_Network r \<notin> set seen \<and> rl_PayTo r' \<noteq> []
    \<and> rl_AssetTransferMethod r' \<in> set transferMethods \<and> 0 < rl_Decimals r' \<and> rl_Decimals r' \<le> 36
    \<and> rail_credential_ok he p r r'"
proof -
  from validate_rail_Inr [OF assms(1)] obtain r1 where f: "rail_facilitator he (rail_defaults r) = Inr r1"
    and r': "r' = rail_inherit p g r1" "rl_Network r \<notin> set seen" "rl_AssetTransferMethod r1 \<in> set transferMethods"
    and d: "0 \<le> rl_Decimals (rail_defaults r)" "rl_Decimals (rail_defaults r) \<le> 36" by blast
  have "rl_Decimals (rail_defaults r) \<noteq> 0" by (simp add: rail_defaults_def)
  with d have d': "0 < rl_Decimals (rail_defaults r)" by linarith
  from rail_facilitator_Inr [OF f] d d' r' assms(2,3) show ?thesis
    by (elim disjE conjE exE) (simp_all add: rail_credential_ok_def)
qed

definition rail_valid :: "host_env \<Rightarrow> payments \<Rightarrow> rail \<Rightarrow> rail \<Rightarrow> bool" where
  "rail_valid he p r r' \<longleftrightarrow> rl_Network r' = rl_Network r \<and> rl_PayTo r' \<noteq> []
     \<and> rl_AssetTransferMethod r' \<in> set transferMethods \<and> 0 < rl_Decimals r' \<and> rl_Decimals r' \<le> 36
     \<and> rail_credential_ok he p r r'"

lemma validate_rails_facts:
  assumes "validate_rails he p g seen rs = Inr rs'" and "py_PayTo p \<noteq> []"
    and "parseHeaderList he (py_FacilitatorHeaders p) ''facilitator_headers'' = Inr g"
  shows "list_all2 (rail_valid he p) rs rs' \<and> distinct (map rl_Network rs)
    \<and> set (map rl_Network rs) \<inter> set seen = {}"
  using assms(1)
proof (induction rs arbitrary: seen rs')
  case (Cons r rs)
  from Cons.prems obtain r' rs1 where r: "validate_rail he p g seen r = Inr r'"
    and rs: "validate_rails he p g (rl_Network r # seen) rs = Inr rs1" and rs': "rs' = r' # rs1"
    by auto
  from Cons.IH [OF rs] validate_rail_facts [OF r assms(2,3)] show ?case
    by (auto simp: rs' rail_valid_def)
qed simp

lemma rule_prices_facts:
  assumes "rule_prices price rails = Inr m" and "distinct (map rl_Network rails)" and "r \<in> set rails"
  shows "\<exists>n. map_of m (rl_Network r) = Some n \<and> parsePrice price (rl_Decimals r) = Inr n"
  using assms
proof (induction rails arbitrary: m)
  case (Cons a rails)
  from Cons.prems(1) obtain n m1 where n: "parsePrice price (rl_Decimals a) = Inr n"
    and m1: "rule_prices price rails = Inr m1" "m = (rl_Network a, n) # m1" by auto
  show ?case
  proof (cases "r = a")
    case False
    with Cons.prems(2,3) have "r \<in> set rails" "rl_Network r \<noteq> rl_Network a" by (auto simp: image_iff)
    with Cons.IH [OF m1(1)] Cons.prems(2) m1(2) show ?thesis by auto
  qed (use n m1 in simp)
qed simp

definition rule_valid :: "rail list \<Rightarrow> rule \<Rightarrow> rule \<Rightarrow> bool" where
  "rule_valid rails r r' \<longleftrightarrow> ru_Name r' = ru_Name r \<and> ru_Name r' \<noteq> ScopeAll \<and> ru_Paths r' = ru_Paths r
     \<and> ru_Price r' = ru_Price r \<and> ru_PaidTTL r' = ru_PaidTTL r \<and> second \<le> ru_PaidTTL r'
     \<and> (\<exists>m. bypass_New (ru_Paths r') [] [] = Inr m)
     \<and> rule_prices (ru_Price r') rails = Inr (ru_PriceAtomic r')"

lemma validate_rule_facts:
  "validate_rule rails seen r = Inr r' \<Longrightarrow> rule_valid rails r r' \<and> ru_Name r \<notin> set seen"
  by (auto simp: validate_rule_def rule_valid_def)

lemma validate_rules_facts:
  "validate_rules rails seen rs = Inr rs' \<Longrightarrow>
     list_all2 (rule_valid rails) rs rs' \<and> distinct (map ru_Name rs) \<and> set (map ru_Name rs) \<inter> set seen = {}"
proof (induction rs arbitrary: seen rs')
  case (Cons r rs)
  from Cons.prems obtain r' rs1 where r: "validate_rule rails seen r = Inr r'"
    and rs: "validate_rules rails (ru_Name r # seen) rs = Inr rs1" and rs': "rs' = r' # rs1"
    by auto
  from Cons.IH [OF rs] validate_rule_facts [OF r] show ?case by (auto simp: rs')
qed simp

lemma payments_validate_Inr:
  assumes "payments_validate he p = Inr p'"
  shows "\<exists>g rails rules. parseHeaderList he (py_FacilitatorHeaders p) ''facilitator_headers'' = Inr g
    \<and> py_PayTo p \<noteq> [] \<and> checkFacilitatorURL he (py_Facilitator p) ''facilitator'' = None
    \<and> checkPayTo (py_PayTo p) (py_Rails p) ''pay_to'' = None
    \<and> validate_rails he p g [] (py_Rails p) = Inr rails \<and> validate_rules rails [] (py_Rules p) = Inr rules
    \<and> py_Rails p' = rails \<and> py_Rules p' = rules \<and> rules \<noteq> [] \<and> rails \<noteq> []
    \<and> py_PayTo p' = py_PayTo p \<and> py_Facilitator p' = py_Facilitator p"
proof -
  from assms obtain g rails rules where h: "parseHeaderList he (py_FacilitatorHeaders p) ''facilitator_headers'' = Inr g"
    "py_PayTo p \<noteq> []" "checkFacilitatorURL he (py_Facilitator p) ''facilitator'' = None"
    "checkPayTo (py_PayTo p) (py_Rails p) ''pay_to'' = None" "py_Rails p \<noteq> []" "py_Rules p \<noteq> []"
    and v: "validate_rails he p g [] (py_Rails p) = Inr rails" "validate_rules rails [] (py_Rules p) = Inr rules"
    and p': "p' = p\<lparr>py_Rails := rails, py_MaxTimeoutSeconds := (if py_MaxTimeoutSeconds p = 0 then 300
        else py_MaxTimeoutSeconds p), py_Rules := rules\<rparr>"
    unfolding payments_validate_def Let_def guard_Inr case_sum_Inr case_option_error_Inr by blast
  from validate_rails_facts [OF v(1) h(2) h(1)] validate_rules_facts [OF v(2)] h(5,6)
  have "rails \<noteq> []" "rules \<noteq> []" by auto
  with h v p' show ?thesis by simp
qed

text \<open>C33: a payment section that passes validation can be sold. Its rails are on different networks, each has
  a recipient, a transfer method that clients can sign, and the credential of the very facilitator it
  settles through; and every rule has, on every rail, the positive atomic price its display price means
  there, a name that is not the wildcard scope, and a grant of at least a second.\<close>

theorem payments_validate_sound:
  assumes "payments_validate he p = Inr p'"
  shows "distinct (map rl_Network (py_Rails p')) \<and> list_all2 (rail_valid he p) (py_Rails p) (py_Rails p')
    \<and> list_all2 (rule_valid (py_Rails p')) (py_Rules p) (py_Rules p')
    \<and> (\<forall>u\<in>set (py_Rules p'). \<forall>r\<in>set (py_Rails p'). \<exists>n. map_of (ru_PriceAtomic u) (rl_Network r) = Some n
         \<and> parsePrice (ru_Price u) (rl_Decimals r) = Inr n \<and> 0 < n)"
proof -
  from payments_validate_Inr [OF assms] obtain g where
    g: "parseHeaderList he (py_FacilitatorHeaders p) ''facilitator_headers'' = Inr g" "py_PayTo p \<noteq> []"
    and v: "validate_rails he p g [] (py_Rails p) = Inr (py_Rails p')"
    "validate_rules (py_Rails p') [] (py_Rules p) = Inr (py_Rules p')" by blast
  note ra = validate_rails_facts [OF v(1) g(2) g(1)] and ru = validate_rules_facts [OF v(2)]
  have "map rl_Network (py_Rails p') = map rl_Network (py_Rails p)"
    using ra by (intro nth_equalityI) (auto simp: list_all2_conv_all_nth rail_valid_def)
  then have d: "distinct (map rl_Network (py_Rails p'))" using ra by simp
  have "rule_prices (ru_Price u) (py_Rails p') = Inr (ru_PriceAtomic u)" if "u \<in> set (py_Rules p')" for u
    using ru that by (auto simp: list_all2_conv_all_nth in_set_conv_nth rule_valid_def)
  then have "\<forall>u\<in>set (py_Rules p'). \<forall>r\<in>set (py_Rails p'). \<exists>n. map_of (ru_PriceAtomic u) (rl_Network r) = Some n
      \<and> parsePrice (ru_Price u) (rl_Decimals r) = Inr n \<and> 0 < n"
    using rule_prices_facts [OF _ d] parsePrice_pos by blast
  with d ra ru show ?thesis by blast
qed

definition demo_host :: host_env where
  "demo_host = \<lparr>he_Getenv = (\<lambda>v. if v = ''KEY'' then ''k'' else []),
     he_ParseURL = (\<lambda>_. Some \<lparr>u_Scheme = ''https'', u_Host = ''f'', u_Hostname = ''f'', u_User = False\<rparr>),
     he_Stat = (\<lambda>_. True), he_Rand = Some (replicate 32 (CHR ''r''))\<rparr>"

definition demo_rail_cfg :: rail where
  "demo_rail_cfg = \<lparr>rl_Network = ''eip155:1'', rl_Asset = ''0xAb'', rl_Decimals = 0, rl_AssetName = ''USD Coin'',
     rl_AssetVersion = ''2'', rl_AssetTransferMethod = [], rl_PayTo = [], rl_RPCURL = [], rl_Facilitator = [],
     rl_FacilitatorHeaders = [], rl_FacilitatorHeader = hdr_empty\<rparr>"

definition demo_payments :: payments where
  "demo_payments = \<lparr>py_PayTo = ''0x'' @ replicate 40 (CHR ''a''), py_Facilitator = ''https://f'', py_StateFile = [],
     py_FacilitatorHeaders = [''Authorization: Bearer ${KEY}''], py_MaxTimeoutSeconds = 0,
     py_ResourceDescription = [], py_Rails = [demo_rail_cfg],
     py_Rules = [\<lparr>ru_Name = ''site'', ru_Paths = [''/*''], ru_Price = ''$0.01'', ru_PaidTTL = hour, ru_PriceAtomic = []\<rparr>]\<rparr>"

lemma demo_payments_ok: "\<exists>p'. payments_validate demo_host demo_payments = Inr p'"
proof -
  have "is_ok (payments_validate demo_host demo_payments)" by code_simp
  then show ?thesis by (simp add: is_ok_iff)
qed

lemma payments_validate_sound_witness:
  "\<exists>p'. payments_validate demo_host demo_payments = Inr p' \<and> distinct (map rl_Network (py_Rails p'))
     \<and> list_all2 (rail_valid demo_host demo_payments) (py_Rails demo_payments) (py_Rails p')"
proof -
  from demo_payments_ok obtain p' where "payments_validate demo_host demo_payments = Inr p'" ..
  from payments_validate_sound [OF this] this show ?thesis by blast
qed

text \<open>
  The comment on \<open>parseHeaderList\<close> says that a bare dollar sign may appear in a credential; the
  code expands it like the braced form, so such a credential is refused as an unset variable.
\<close>

lemma bare_dollar_is_expanded:
  "\<not> is_ok (parseHeaderList demo_host [''Authorization: pa$word''] ''h'')"
  "os_Expand (he_Getenv demo_host) ''a$KEY'' = (''ak'', [])"
  by code_simp+

subsection \<open>Facts on the whole configuration\<close>

lemma difficulty_checked:
  "difficulty_error c = None \<Longrightarrow> \<exists>d r. c_Difficulty c = FNum d \<and> c_RenewDifficulty c = FNum r
     \<and> minDifficulty \<le> d \<and> d \<le> 255 \<and> 0 \<le> r \<and> r \<le> d"
  by (cases "c_Difficulty c"; cases "c_RenewDifficulty c")
    (auto simp: difficulty_error_def Let_def minDifficulty_def split: if_splits)

text \<open>What a running gate may rely on: validation cannot accept a gate that gates nothing.\<close>

lemma config_validate_bounds:
  assumes "config_validate he c = Inr c'"
  shows "\<exists>d r. c_Difficulty c' = FNum d \<and> c_RenewDifficulty c' = FNum r \<and> 4 \<le> d \<and> d \<le> 255 \<and> 0 \<le> r \<and> r \<le> d
    \<and> second \<le> c_PassTTL c' \<and> c_PassTTL c' \<le> c_MaxSession c' \<and> c_HMACKeys c' \<noteq> []"
proof -
  from assms obtain c1 where k: "config_checks he c = None" "auto_key he c = Inr c1"
    and c': "c_Difficulty c' = c_Difficulty c1" "c_RenewDifficulty c' = c_RenewDifficulty c1"
      "c_PassTTL c' = c_PassTTL c1" "c_MaxSession c' = c_MaxSession c1" "c_HMACKeys c' = c_HMACKeys c1"
    by (auto simp: config_validate_def split: option.splits sum.splits)
  from k(2) have e: "c_Difficulty c1 = c_Difficulty c" "c_RenewDifficulty c1 = c_RenewDifficulty c"
    "c_PassTTL c1 = c_PassTTL c" "c_MaxSession c1 = c_MaxSession c" "c_HMACKeys c1 \<noteq> []"
    by (auto simp: auto_key_def split: if_splits option.splits)
  from k(1) have "difficulty_error c = None" "second \<le> c_PassTTL c" "c_PassTTL c \<le> c_MaxSession c"
    by (auto simp: config_checks_def split: if_splits sum.splits option.splits)
  with difficulty_checked [of c] c' e show ?thesis by (auto simp: minDifficulty_def)
qed

end
