(* ===== verification/Passes.thy ===== *)
theory Passes
  imports Token Challenge Bypass Activity Crawler Callback Request Config
begin

text \<open>
  The gate of \<open>internal/gate/gate.go\<close> as built from a configuration, and what it decides about passes:
  which cookie counts, what a pass opens, when a pass may be renewed, and the cookie that carries a
  new pass. HMAC-SHA256 and SHA-256 are the fields \<open>g_hm\<close> and \<open>g_sha\<close>.
\<close>

subsection \<open>The gate\<close>

record paid_route =
  pr_rule :: rule
  pr_matcher :: matcher
  pr_scope :: bytes

record gate =
  g_cfg :: config
  g_hm :: mac_fun
  g_sha :: "bytes \<Rightarrow> bytes"
  g_keyring :: keyring
  g_issuer :: issuer
  g_admit :: profile
  g_renew :: profile
  g_match :: matcher
  g_publicHosts :: "bytes list"
  g_routes :: "paid_route list"
  g_hosted :: hosted_set
  g_verifiers :: "(bytes \<times> bytes \<times> callback_verifier) list"
    \<comment> \<open>network, facilitator identity and verifier\<close>
  g_solverJS :: bytes
  g_solverURL :: bytes

subsection \<open>Paid routes\<close>

definition scope_preimage :: "bytes list \<Rightarrow> bytes" where
  "scope_preimage paths = ''anteroom-paid-scope-v1'' @ [CHR 0x00] @ json_print (JArr (map JStr (sort paths)))"

fun compile_routes :: "(bytes \<Rightarrow> bytes) \<Rightarrow> rule list \<Rightarrow> bypass_error + paid_route list" where
  "compile_routes sha [] = Inr []"
| "compile_routes sha (r # rs) =
     (case bypass_New (ru_Paths r) [] [] of
        Inl e \<Rightarrow> Inl e
      | Inr m \<Rightarrow>
          (case compile_routes sha rs of
             Inl e \<Rightarrow> Inl e
           | Inr routes \<Rightarrow>
               Inr (\<lparr>pr_rule = r, pr_matcher = m,
                     pr_scope = b64_encode RawURLEncoding (sha (scope_preimage (ru_Paths r)))\<rparr> # routes)))"

definition compilePaidRoutes :: "(bytes \<Rightarrow> bytes) \<Rightarrow> payments option \<Rightarrow> bypass_error + paid_route list" where
  "compilePaidRoutes sha p = (case p of None \<Rightarrow> Inr [] | Some p \<Rightarrow> compile_routes sha (py_Rules p))"

definition matchRoute :: "gate \<Rightarrow> bytes \<Rightarrow> paid_route option" where
  "matchRoute g path = find (\<lambda>r. match_Path (pr_matcher r) path) (g_routes g)"

definition scopeCovers :: "gate \<Rightarrow> pass \<Rightarrow> bytes \<Rightarrow> bool" where
  "scopeCovers g p path =
     (if pass_Kind p \<noteq> KindPaid then pass_Scope p = ScopeAll
      else (case matchRoute g path of None \<Rightarrow> False | Some r \<Rightarrow> pr_scope r = pass_Scope p))"

text \<open>
  The key under which rails share a verifier. \<open>names\<close> are the keys of the header map.
\<close>

definition nul :: bytes where "nul = [CHR 0x00]"

definition facilitatorIdentity :: "bytes \<Rightarrow> bytes list \<Rightarrow> header \<Rightarrow> bytes" where
  "facilitatorIdentity base names h =
     trim_suffix base ''/''
     @ concat (map (\<lambda>k. concat (map (\<lambda>v. nul @ k @ nul @ v) (hdr_Values h k))) (sort names))"

subsection \<open>What binds a pass to a client\<close>

definition passPrefixBits4 :: nat where "passPrefixBits4 = 24"
definition passPrefixBits6 :: nat where "passPrefixBits6 = 48"

definition uaHash :: "(bytes \<Rightarrow> bytes) \<Rightarrow> bytes \<Rightarrow> bytes" where
  "uaHash sha ua = b64_encode RawURLEncoding (take 9 (sha (''anteroom-ua-v0.'' @ ua)))"

definition clientPrefix :: "gate \<Rightarrow> request \<Rightarrow> bytes" where
  "clientPrefix g r =
     (case ClientIP (g_match g) r of
        Inl e \<Rightarrow> []
      | Inr ip \<Rightarrow>
          (case addr_Prefix ip (if addr_Is6 ip then passPrefixBits6 else passPrefixBits4) of
             None \<Rightarrow> []
           | Some p \<Rightarrow> prefix_String p))"

subsection \<open>Finding a pass\<close>

fun scan_passes ::
  "gate \<Rightarrow> request \<Rightarrow> time \<Rightarrow> pass option \<Rightarrow> (bytes \<times> bytes) list \<Rightarrow> pass option" where
  "scan_passes g r tm fallback [] = fallback"
| "scan_passes g r tm fallback ((name, v) # cs) =
     (if name \<noteq> cookieName \<or> v = [] then scan_passes g r tm fallback cs
      else
        (case token_Verify (g_hm g) (g_keyring g) v tm of
           Inl e \<Rightarrow> scan_passes g r tm fallback cs
         | Inr p \<Rightarrow>
            if pass_Aud p \<noteq> requestAudience r then scan_passes g r tm fallback cs
            else if pass_Kind p = KindPoW \<and> pass_IPP p \<noteq> clientPrefix g r then scan_passes g r tm fallback cs
            else if pass_Kind p = KindPoW \<or> scopeCovers g p (req_Path r) then Some p
            else scan_passes g r tm (if fallback = None then Some p else fallback) cs))"

definition validPassAt :: "gate \<Rightarrow> request \<Rightarrow> time \<Rightarrow> pass option" where
  "validPassAt g r tm = scan_passes g r tm None (Cookies (req_Header r))"

text \<open>
  \<open>mayRenew\<close>: the root admission a renewal carries on, when the request is entitled to one at the
  instant given.
\<close>

definition mayRenew :: "gate \<Rightarrow> request \<Rightarrow> time \<Rightarrow> time option" where
  "mayRenew g r tm =
     (case validPassAt g r tm of
        None \<Rightarrow> None
      | Some p \<Rightarrow>
          if pass_Kind p \<noteq> KindPoW \<or> pass_Scope p \<noteq> ScopeAll then None
          else if c_MaxSession (g_cfg g) \<le> time_sub tm (RootAt p) then None
          else Some (RootAt p))"

subsection \<open>The cookie\<close>

record set_cookie =
  sc_Name :: bytes
  sc_Value :: bytes
  sc_Path :: bytes
  sc_HttpOnly :: bool
  sc_SameSiteLax :: bool
  sc_Secure :: bool
  sc_MaxAge :: int

text \<open>\<open>Cookie.String\<close>, for the fields the gate sets; a pass has only bytes that are legal in a cookie.\<close>

definition cookie_String :: "set_cookie \<Rightarrow> bytes" where
  "cookie_String c = sc_Name c @ ''='' @ filter valid_cookie_byte (sc_Value c) @ ''; Path='' @ sc_Path c
     @ (if 0 < sc_MaxAge c then ''; Max-Age='' @ show_int (sc_MaxAge c) else [])
     @ (if sc_HttpOnly c then ''; HttpOnly'' else []) @ (if sc_Secure c then ''; Secure'' else [])
     @ (if sc_SameSiteLax c then ''; SameSite=Lax'' else [])"

definition passCookieGrace :: duration where "passCookieGrace = 30 * second"

text \<open>What the gate signs: \<open>rootAt\<close> is \<open>None\<close> for the zero time, a fresh admission.\<close>

definition stamped_pass :: "gate \<Rightarrow> request \<Rightarrow> time \<Rightarrow> pass \<Rightarrow> time \<Rightarrow> time option \<Rightarrow> pass" where
  "stamped_pass g r now p0 ex rootAt =
     (let p = p0\<lparr>pass_Aud := requestAudience r, pass_Iat := time_unix now, pass_Exp := time_unix ex\<rparr>;
          p = (if pass_Kind p = KindPoW
               then p\<lparr>pass_IPP := clientPrefix g r, pass_UAH := uaHash (g_sha g) (req_Get r ''User-Agent'')\<rparr>
               else p)
      in case rootAt of None \<Rightarrow> p | Some t \<Rightarrow> p\<lparr>pass_Rt := time_unix t\<rparr>)"

definition cookie_MaxAge :: "time \<Rightarrow> time \<Rightarrow> int" where
  "cookie_MaxAge now ex =
     (let n = go_div (time_sub ex now + second - nanosecond) second + go_div passCookieGrace second
      in if n < 1 then 1 else n)"

definition setPassCookie ::
  "gate \<Rightarrow> request \<Rightarrow> time \<Rightarrow> pass \<Rightarrow> time \<Rightarrow> time option \<Rightarrow> token_error + set_cookie" where
  "setPassCookie g r now p0 ex rootAt =
     (case Mint (g_hm g) (g_keyring g) (stamped_pass g r now p0 ex rootAt) of
        Inl e \<Rightarrow> Inl e
      | Inr s \<Rightarrow>
          Inr \<lparr>sc_Name = cookieName, sc_Value = s, sc_Path = ''/'', sc_HttpOnly = True, sc_SameSiteLax = True,
               sc_Secure = requestIsTLS (g_match g) r, sc_MaxAge = cookie_MaxAge now ex\<rparr>)"

subsection \<open>Facts on passes\<close>

text \<open>A cookie that counts: signed, for this authority, and for this network when it was earned by work.\<close>

definition usable_pass :: "gate \<Rightarrow> request \<Rightarrow> time \<Rightarrow> bytes \<Rightarrow> pass \<Rightarrow> bool" where
  "usable_pass g r tm v p \<longleftrightarrow> v \<noteq> [] \<and> token_Verify (g_hm g) (g_keyring g) v tm = Inr p
     \<and> pass_Aud p = requestAudience r \<and> (pass_Kind p = KindPoW \<longrightarrow> pass_IPP p = clientPrefix g r)"

lemma verified_kind:
  assumes "token_Verify hm kr s now = Inr p"
  shows "pass_Kind p = KindPoW \<and> pass_Scope p = ScopeAll \<or> pass_Kind p = KindPaid \<and> pass_Scope p \<noteq> ScopeAll"
  using assms by (auto simp: token_Verify_Inr_iff pass_validate_def split: if_splits)

lemma usable_pass_covers:
  "usable_pass g r tm v p \<Longrightarrow> pass_Kind p = KindPoW \<Longrightarrow> scopeCovers g p path"
  using verified_kind by (fastforce simp: usable_pass_def scopeCovers_def KindPoW_def KindPaid_def)

lemma scan_skip:
  "name \<noteq> cookieName \<or> (\<nexists>p. usable_pass g r tm v p) \<Longrightarrow>
     scan_passes g r tm fb ((name, v) # cs) = scan_passes g r tm fb cs"
  by (cases "token_Verify (g_hm g) (g_keyring g) v tm") (auto simp: usable_pass_def)

lemma scan_usable:
  assumes "usable_pass g r tm v p"
  shows "scan_passes g r tm fb ((cookieName, v) # cs) =
     (if scopeCovers g p (req_Path r) then Some p
      else scan_passes g r tm (if fb = None then Some p else fb) cs)"
  using assms usable_pass_covers [OF assms] by (auto simp: usable_pass_def)

text \<open>What the scan returns: a usable cookie that opens the path if there is one, else the fallback.\<close>

lemma scan_passes_cases:
  assumes "\<forall>p. fb = Some p \<longrightarrow> \<not> scopeCovers g p (req_Path r)"
  shows "(case scan_passes g r tm fb cs of
       None \<Rightarrow> fb = None \<and> (\<forall>v p. (cookieName, v) \<in> set cs \<longrightarrow> \<not> usable_pass g r tm v p)
     | Some q \<Rightarrow> (scopeCovers g q (req_Path r) \<longleftrightarrow>
           (\<exists>v p. (cookieName, v) \<in> set cs \<and> usable_pass g r tm v p \<and> scopeCovers g p (req_Path r)))
         \<and> (fb = Some q \<or> (\<exists>v. (cookieName, v) \<in> set cs \<and> usable_pass g r tm v q)))"
  using assms
proof (induction cs arbitrary: fb)
  case Nil
  then show ?case by (cases fb) auto
next
  case (Cons c cs)
  obtain name v where c: "c = (name, v)" by force
  show ?case
  proof (cases "name = cookieName \<and> (\<exists>p. usable_pass g r tm v p)")
    case False
    then have "scan_passes g r tm fb (c # cs) = scan_passes g r tm fb cs" unfolding c by (intro scan_skip) auto
    moreover from False have "(cookieName, v') \<in> set (c # cs) \<and> usable_pass g r tm v' p
        \<longleftrightarrow> (cookieName, v') \<in> set cs \<and> usable_pass g r tm v' p" for v' p by (auto simp: c)
    ultimately show ?thesis using Cons.IH [OF Cons.prems] by (auto split: option.splits)
  next
    case True
    then obtain p where n: "name = cookieName" and p: "usable_pass g r tm v p" by blast
    have uniq: "usable_pass g r tm v q \<longleftrightarrow> q = p" for q using p by (auto simp: usable_pass_def)
    show ?thesis
    proof (cases "scopeCovers g p (req_Path r)")
      case True
      with p show ?thesis unfolding c n scan_usable [OF p] by auto
    next
      case False
      let ?fb = "if fb = None then Some p else fb"
      from Cons.prems False have "\<forall>q. ?fb = Some q \<longrightarrow> \<not> scopeCovers g q (req_Path r)" by auto
      note IH = Cons.IH [OF this]
      have sc: "scan_passes g r tm fb (c # cs) = scan_passes g r tm ?fb cs"
        using False unfolding c n scan_usable [OF p] by simp
      have Q: "(\<exists>v p. (cookieName, v) \<in> set (c # cs) \<and> usable_pass g r tm v p \<and> scopeCovers g p (req_Path r))
          \<longleftrightarrow> (\<exists>v p. (cookieName, v) \<in> set cs \<and> usable_pass g r tm v p \<and> scopeCovers g p (req_Path r))"
        using False uniq by (auto simp: c n)
      show ?thesis
      proof (cases "scan_passes g r tm ?fb cs")
        case None
        with IH show ?thesis by (simp split: if_splits)
      next
        case (Some q)
        with IH have "?fb = Some q \<or> (\<exists>v. (cookieName, v) \<in> set cs \<and> usable_pass g r tm v q)" by simp
        then have "fb = Some q \<or> (\<exists>v. (cookieName, v) \<in> set (c # cs) \<and> usable_pass g r tm v q)"
          using p by (auto simp: c n split: if_splits)
        with IH Some show ?thesis unfolding sc Q by simp
      qed
    qed
  qed
qed

text \<open>C18: a usable pass is never shadowed. Whatever other cookies of that name a client or another path of the
  site has set, in any order, the gate finds a pass that opens the requested path exactly when one of the
  request's cookies is signed under the keyring, live, for this authority, bound to this network if it was
  earned by work, and of a scope that covers the path.\<close>

theorem validPass_opens_iff:
  "(\<exists>p. validPassAt g r tm = Some p \<and> scopeCovers g p (req_Path r))
     \<longleftrightarrow> (\<exists>v p. (cookieName, v) \<in> set (Cookies (req_Header r)) \<and> usable_pass g r tm v p \<and> scopeCovers g p (req_Path r))"
  using scan_passes_cases [where fb = None and g = g and r = r and tm = tm and cs = "Cookies (req_Header r)"]
  by (auto simp: validPassAt_def split: option.splits)

lemma validPassAt_usable:
  "validPassAt g r tm = Some p \<Longrightarrow> \<exists>v. (cookieName, v) \<in> set (Cookies (req_Header r)) \<and> usable_pass g r tm v p"
  using scan_passes_cases [where fb = None and g = g and r = r and tm = tm and cs = "Cookies (req_Header r)"]
  by (auto simp: validPassAt_def)

subsection \<open>Facts on paid scopes\<close>

lemma compile_routes_facts:
  "compile_routes sha rs = Inr routes \<Longrightarrow>
     map pr_rule routes = rs
     \<and> (\<forall>rt\<in>set routes. pr_scope rt = b64_encode RawURLEncoding (sha (scope_preimage (ru_Paths (pr_rule rt))))
          \<and> bypass_New (ru_Paths (pr_rule rt)) [] [] = Inr (pr_matcher rt))"
  by (induction rs arbitrary: routes) auto

lemma json_ok_strings: "json_ok_elems (map JStr xs) \<longleftrightarrow> (\<forall>x\<in>set xs. ascii_string x)"
  by (induction xs) auto

lemma scope_preimage_inject:
  assumes "list_all ascii_string ps" and "list_all ascii_string qs" and "scope_preimage ps = scope_preimage qs"
  shows "sort ps = sort qs"
proof -
  have ok: "json_ok (JArr (map JStr (sort xs)))" if "list_all ascii_string xs" for xs
    using that by (simp add: json_ok_strings list_all_iff)
  have flat: "json_depth (JArr (map JStr (sort xs))) \<le> maxNestingDepth" for xs by simp
  from assms(3) have "json_print (JArr (map JStr (sort ps))) = json_print (JArr (map JStr (sort qs)))"
    by (simp add: scope_preimage_def)
  then have "json_parse (json_print (JArr (map JStr (sort ps)))) = json_parse (json_print (JArr (map JStr (sort qs))))"
    by simp
  then have "map JStr (sort ps) = map JStr (sort qs)"
    using json_parse_print [OF ok [OF assms(1)] flat] json_parse_print [OF ok [OF assms(2)] flat] by simp
  then show ?thesis by (metis (mono_tags) inj_map_eq_map injI json.inject(3))
qed

lemma sort_eq_mset: "sort (ps :: bytes list) = sort qs \<Longrightarrow> mset ps = mset qs"
  by (metis mset_sort)

lemma scope_preimage_cong: "mset ps = mset qs \<Longrightarrow> scope_preimage ps = scope_preimage qs"
  using sorted_list_of_multiset_mset [of ps] sorted_list_of_multiset_mset [of qs] by (simp add: scope_preimage_def)

lemma matchRoute_first:
  "matchRoute g path = Some rt \<longleftrightarrow>
     (\<exists>before after. g_routes g = before @ rt # after \<and> match_Path (pr_matcher rt) path
        \<and> (\<forall>x\<in>set before. \<not> match_Path (pr_matcher x) path))"
proof
  have "find P xs = Some x \<Longrightarrow> \<exists>ys zs. xs = ys @ x # zs \<and> P x \<and> (\<forall>y\<in>set ys. \<not> P y)" for P and xs :: "paid_route list" and x
  proof (induction xs)
    case (Cons a xs)
    show ?case
    proof (cases "P a")
      case True
      then have "a # xs = [] @ x # xs \<and> P x" using Cons.prems by simp
      then show ?thesis by (metis empty_iff empty_set)
    next
      case False
      then obtain ys zs where "xs = ys @ x # zs \<and> P x \<and> (\<forall>y\<in>set ys. \<not> P y)" using Cons by auto
      then have "a # xs = (a # ys) @ x # zs \<and> P x \<and> (\<forall>y\<in>set (a # ys). \<not> P y)" using False by simp
      then show ?thesis by blast
    qed
  qed simp
  then show "matchRoute g path = Some rt \<Longrightarrow> \<exists>before after. g_routes g = before @ rt # after \<and> match_Path (pr_matcher rt) path
      \<and> (\<forall>x\<in>set before. \<not> match_Path (pr_matcher x) path)"
    unfolding matchRoute_def by blast
next
  have "\<forall>y\<in>set ys. \<not> P y \<Longrightarrow> P x \<Longrightarrow> find P (ys @ x # zs) = Some x" for P ys zs and x :: paid_route
    by (induction ys) auto
  then show "\<exists>before after. g_routes g = before @ rt # after \<and> match_Path (pr_matcher rt) path
      \<and> (\<forall>x\<in>set before. \<not> match_Path (pr_matcher x) path) \<Longrightarrow> matchRoute g path = Some rt"
    unfolding matchRoute_def by auto
qed

text \<open>C19: what was bought is decided the way the price was. With rules whose paths are ASCII, a paid pass minted under one opens a
  path exactly when the first rule that matches the path sells exactly the same set of paths, so a pass for a
  cheap broad rule does not open what an expensive rule above it prices. The one alternative is named: the
  texts that these two rules are hashed from differ and have one SHA-256 digest.\<close>

theorem paid_scope_first_match:
  assumes "compilePaidRoutes (g_sha g) (Some p) = Inr (g_routes g)"
    and "\<forall>u\<in>set (py_Rules p). list_all ascii_string (ru_Paths u)"
    and "bought \<in> set (g_routes g)" and "pass_Kind q = KindPaid" and "pass_Scope q = pr_scope bought"
  shows "scopeCovers g q path \<longleftrightarrow>
    (\<exists>before rt after. g_routes g = before @ rt # after \<and> match_Path (pr_matcher rt) path
       \<and> (\<forall>x\<in>set before. \<not> match_Path (pr_matcher x) path)
       \<and> (mset (ru_Paths (pr_rule rt)) = mset (ru_Paths (pr_rule bought))
          \<or> scope_preimage (ru_Paths (pr_rule rt)) \<noteq> scope_preimage (ru_Paths (pr_rule bought))
            \<and> g_sha g (scope_preimage (ru_Paths (pr_rule rt))) = g_sha g (scope_preimage (ru_Paths (pr_rule bought)))))"
proof -
  let ?pre = "\<lambda>x. scope_preimage (ru_Paths (pr_rule x))"
  have c: "compile_routes (g_sha g) (py_Rules p) = Inr (g_routes g)" using assms(1) by (simp add: compilePaidRoutes_def)
  note f = compile_routes_facts [OF c]
  have sc: "pr_scope x = b64_encode RawURLEncoding (g_sha g (?pre x))" "list_all ascii_string (ru_Paths (pr_rule x))"
    if "x \<in> set (g_routes g)" for x
  proof -
    have "pr_rule x \<in> set (py_Rules p)" using that conjunct1 [OF f] by (metis image_eqI set_map)
    then show "list_all ascii_string (ru_Paths (pr_rule x))" using assms(2) by blast
    show "pr_scope x = b64_encode RawURLEncoding (g_sha g (?pre x))" using that conjunct2 [OF f] by blast
  qed
  have same: "pr_scope rt = pr_scope bought \<longleftrightarrow>
      mset (ru_Paths (pr_rule rt)) = mset (ru_Paths (pr_rule bought)) \<or> ?pre rt \<noteq> ?pre bought \<and> g_sha g (?pre rt) = g_sha g (?pre bought)"
    if rt: "rt \<in> set (g_routes g)" for rt
  proof -
    have "?pre rt = ?pre bought \<longleftrightarrow> mset (ru_Paths (pr_rule rt)) = mset (ru_Paths (pr_rule bought))"
    proof
      assume "?pre rt = ?pre bought"
      from scope_preimage_inject [OF sc(2) [OF rt] sc(2) [OF assms(3)] this] show "mset (ru_Paths (pr_rule rt)) = mset (ru_Paths (pr_rule bought))"
        by (rule sort_eq_mset)
    qed (rule scope_preimage_cong)
    moreover have "pr_scope rt = pr_scope bought \<longleftrightarrow> g_sha g (?pre rt) = g_sha g (?pre bought)"
      unfolding sc(1) [OF rt] sc(1) [OF assms(3)] b64_encode_inject ..
    ultimately show ?thesis by metis
  qed
  have "scopeCovers g q path \<longleftrightarrow> (\<exists>rt. matchRoute g path = Some rt \<and> pr_scope rt = pr_scope bought)"
    using assms(4,5) by (auto simp: scopeCovers_def split: option.splits)
  then show ?thesis unfolding matchRoute_first using same by (auto simp: in_set_conv_decomp; blast)
qed

text \<open>A gate that sells reports above the rest of the site; its digest is the identity.\<close>

definition demo_rules :: "rule list" where
  "demo_rules =
     [\<lparr>ru_Name = ''reports'', ru_Paths = [''/r/*''], ru_Price = ''5'', ru_PaidTTL = hour, ru_PriceAtomic = []\<rparr>,
      \<lparr>ru_Name = ''site'', ru_Paths = [''/*''], ru_Price = ''1'', ru_PaidTTL = hour, ru_PriceAtomic = []\<rparr>]"

definition demo_routes :: "paid_route list" where
  "demo_routes = map (\<lambda>r. \<lparr>pr_rule = r, pr_matcher = \<lparr>m_paths = ru_Paths r, m_cidrs = [], m_trusted = []\<rparr>,
     pr_scope = b64_encode RawURLEncoding (scope_preimage (ru_Paths r))\<rparr>) demo_rules"

definition demo_gate :: gate where
  "demo_gate =
     \<lparr>g_cfg = defaults\<lparr>c_Payments := Some (demo_payments\<lparr>py_Rules := demo_rules\<rparr>)\<rparr>, g_hm = const_mac,
      g_sha = (\<lambda>b. b), g_keyring = demo_keyring, g_issuer = [demo_key], g_admit = demo_profile,
      g_renew = demo_profile\<lparr>prof_Kind := KindRenew\<rparr>, g_match = demo_matcher, g_publicHosts = [],
      g_routes = demo_routes, g_hosted = (\<lambda>_. []), g_verifiers = [], g_solverJS = [],
      g_solverURL = ''/.anteroom/solver.x.js''\<rparr>"

lemma demo_gate_fields [simp]: "g_routes demo_gate = demo_routes" "g_sha demo_gate = (\<lambda>b. b)"
  by (simp_all add: demo_gate_def)

lemma demo_compiled: "compilePaidRoutes (g_sha demo_gate) (Some (demo_payments\<lparr>py_Rules := demo_rules\<rparr>)) = Inr (g_routes demo_gate)"
proof -
  have "bypass_New p [] [] = Inr \<lparr>m_paths = p, m_cidrs = [], m_trusted = []\<rparr>" if "p = [''/r/*''] \<or> p = [''/*'']" for p
    using that by (elim disjE; hypsubst) code_simp+
  then show ?thesis by (simp add: compilePaidRoutes_def demo_routes_def demo_rules_def)
qed

lemma demo_match:
  "match_Path (pr_matcher (hd demo_routes)) ''/r/1''" "\<not> match_Path (pr_matcher (hd demo_routes)) ''/x''"
  "match_Path (pr_matcher (last demo_routes)) ''/x''"
  unfolding demo_routes_def demo_rules_def by (simp; code_simp)+

lemma demo_route_list: "demo_routes = [hd demo_routes, last demo_routes]"
  by (simp add: demo_routes_def demo_rules_def)

lemma demo_first_match: "matchRoute demo_gate ''/r/1'' = Some (hd demo_routes)" "matchRoute demo_gate ''/x'' = Some (last demo_routes)"
  unfolding matchRoute_def demo_gate_fields by (subst demo_route_list, simp add: demo_match)+

lemma paid_scope_first_match_witness:
  "\<not> scopeCovers demo_gate (zero_pass\<lparr>pass_Kind := KindPaid, pass_Scope := pr_scope (last demo_routes)\<rparr>) ''/r/1''"
proof -
  let ?q = "zero_pass\<lparr>pass_Kind := KindPaid, pass_Scope := pr_scope (last demo_routes)\<rparr>"
  have a: "\<forall>u\<in>set (py_Rules (demo_payments\<lparr>py_Rules := demo_rules\<rparr>)). list_all ascii_string (ru_Paths u)"
    by (simp add: demo_rules_def ascii_string_def) code_simp
  have "last demo_routes \<in> set (g_routes demo_gate)" "pass_Kind ?q = KindPaid" "pass_Scope ?q = pr_scope (last demo_routes)"
    by (simp_all add: demo_routes_def demo_rules_def)
  note iff = paid_scope_first_match [OF demo_compiled a this, of "''/r/1''"]
  have "rt = hd demo_routes" if "g_routes demo_gate = before @ rt # after" "\<forall>x\<in>set before. \<not> match_Path (pr_matcher x) ''/r/1''"
    for before rt after
    using that demo_match(1) by (cases before) (auto simp: demo_routes_def demo_rules_def)
  moreover have "mset (ru_Paths (pr_rule (hd demo_routes))) \<noteq> mset (ru_Paths (pr_rule (last demo_routes)))"
    by (simp add: demo_routes_def demo_rules_def)
  ultimately show ?thesis unfolding iff by auto
qed

text \<open>A paid pass bought under the cheap rule does not open what the rule above it prices.\<close>

lemma cheap_pass_stays_out:
  defines "q \<equiv> zero_pass\<lparr>pass_Kind := KindPaid, pass_Scope := pr_scope (last demo_routes)\<rparr>"
  shows "\<not> scopeCovers demo_gate q ''/r/1'' \<and> scopeCovers demo_gate q ''/x''"
proof -
  have "list_all ascii_string [''/r/*'']" "list_all ascii_string [''/*'']" by code_simp+
  then have "scope_preimage [''/r/*''] \<noteq> scope_preimage [''/*'']"
    using scope_preimage_inject by fastforce
  then have "pr_scope (hd demo_routes) \<noteq> pr_scope (last demo_routes)"
    by (simp add: demo_routes_def demo_rules_def b64_encode_inject)
  then show ?thesis by (simp add: q_def scopeCovers_def demo_first_match)
qed

subsection \<open>Facts on renewal and on minted passes\<close>

lemma mayRenew_Some:
  "mayRenew g r tm = Some rt \<Longrightarrow> \<exists>v p. (cookieName, v) \<in> set (Cookies (req_Header r)) \<and> usable_pass g r tm v p
     \<and> pass_Kind p = KindPoW \<and> pass_Scope p = ScopeAll \<and> rt = RootAt p
     \<and> time_sub tm rt < c_MaxSession (g_cfg g)"
  using validPassAt_usable by (fastforce simp: mayRenew_def split: option.splits if_splits)

lemma stamped_pass_fields [simp]:
  "pass_Kind (stamped_pass g r now p0 ex rootAt) = pass_Kind p0"
  "pass_Scope (stamped_pass g r now p0 ex rootAt) = pass_Scope p0"
  "pass_Aud (stamped_pass g r now p0 ex rootAt) = requestAudience r"
  "pass_Iat (stamped_pass g r now p0 ex rootAt) = time_unix now"
  "pass_Exp (stamped_pass g r now p0 ex rootAt) = time_unix ex"
  "pass_Payer (stamped_pass g r now p0 ex rootAt) = pass_Payer p0"
  "pass_Tx (stamped_pass g r now p0 ex rootAt) = pass_Tx p0"
  by (simp_all add: stamped_pass_def Let_def split: option.splits)

lemma stamped_pass_PoW:
  "pass_Kind p0 = KindPoW \<Longrightarrow> pass_IPP (stamped_pass g r now p0 ex rootAt) = clientPrefix g r"
  "pass_Kind p0 = KindPoW \<Longrightarrow> pass_UAH (stamped_pass g r now p0 ex rootAt) = uaHash (g_sha g) (req_Get r ''User-Agent'')"
  by (simp_all add: stamped_pass_def Let_def split: option.splits)

lemma stamped_pass_Rt:
  "pass_Rt (stamped_pass g r now p0 ex rootAt) = (case rootAt of None \<Rightarrow> pass_Rt p0 | Some t \<Rightarrow> time_unix t)"
  by (simp add: stamped_pass_def Let_def split: option.splits)

lemma setPassCookie_Inr:
  "setPassCookie g r now p0 ex rootAt = Inr c \<longleftrightarrow>
     Mint (g_hm g) (g_keyring g) (stamped_pass g r now p0 ex rootAt) = Inr (sc_Value c)
     \<and> c = \<lparr>sc_Name = cookieName, sc_Value = sc_Value c, sc_Path = ''/'', sc_HttpOnly = True,
            sc_SameSiteLax = True, sc_Secure = requestIsTLS (g_match g) r, sc_MaxAge = cookie_MaxAge now ex\<rparr>"
  by (auto simp: setPassCookie_def split: sum.splits)

text \<open>The browser keeps the cookie at least until the pass has expired.\<close>

lemma cookie_outlives_pass:
  assumes "in_int64 (ex - now + second)" and "in_int64 (ex - now)" and "now \<le> ex"
  shows "ex \<le> now + cookie_MaxAge now ex * second"
  using assms
  by (simp add: cookie_MaxAge_def Let_def time_sub_exact go_div_def passCookieGrace_def second_def nanosecond_def)
    arith

end
