(* ===== verification/Writer.thy ===== *)
theory Writer
  imports Wire Request
begin

text \<open>
  What a handler writes to: \<open>net/http\<close>'s response writer, the gate's \<open>recorder\<close> around it
  (\<open>internal/gate/gate.go\<close>) and the \<open>paidWriter\<close> around that (\<open>internal/gate/pay.go\<close>); and what the
  reverse proxy of \<open>net/http/httputil\<close> writes for the answer of the upstream. A writer is the record
  of its operations, as an interface value is; the locale \<open>response_writer\<close> states what the code
  relies on. The body is what the handler writes: for \<open>HEAD\<close> the server drops it later.
\<close>

subsection \<open>The response of the server\<close>

record response =
  rp_Header :: header
  rp_Sent :: "(int \<times> header) option"
  rp_Interim :: "(int \<times> header) list"
  rp_Body :: bytes

definition new_response :: response where
  "new_response = \<lparr>rp_Header = hdr_empty, rp_Sent = None, rp_Interim = [], rp_Body = []\<rparr>"

definition is_interim :: "int \<Rightarrow> bool" where
  "is_interim status \<longleftrightarrow> 100 \<le> status \<and> status < 200 \<and> status \<noteq> 101"

definition net_WriteHeader :: "int \<Rightarrow> response \<Rightarrow> response" where
  "net_WriteHeader status w =
     (if rp_Sent w \<noteq> None then w
      else if is_interim status then w\<lparr>rp_Interim := rp_Interim w @ [(status, rp_Header w)]\<rparr>
      else w\<lparr>rp_Sent := Some (status, rp_Header w)\<rparr>)"

definition net_Write :: "bytes \<Rightarrow> response \<Rightarrow> response" where
  "net_Write b w = (let w = net_WriteHeader 200 w in w\<lparr>rp_Body := rp_Body w @ b\<rparr>)"

subsection \<open>The recorder\<close>

record recorder =
  rec_w :: response
  rec_status :: int
  rec_n :: nat
  rec_wrote :: bool

definition new_recorder :: recorder where
  "new_recorder = \<lparr>rec_w = new_response, rec_status = 200, rec_n = 0, rec_wrote = False\<rparr>"

definition rec_WriteHeader :: "int \<Rightarrow> recorder \<Rightarrow> recorder" where
  "rec_WriteHeader status rec =
     (if is_interim status then rec\<lparr>rec_w := net_WriteHeader status (rec_w rec)\<rparr>
      else
        (let rec = (if rec_wrote rec then rec else rec\<lparr>rec_status := status, rec_wrote := True\<rparr>)
         in rec\<lparr>rec_w := net_WriteHeader status (rec_w rec)\<rparr>))"

definition rec_Write :: "bytes \<Rightarrow> recorder \<Rightarrow> recorder" where
  "rec_Write b rec =
     rec\<lparr>rec_wrote := True, rec_w := net_Write b (rec_w rec), rec_n := rec_n rec + length b\<rparr>"

definition rec_Header :: "recorder \<Rightarrow> header" where
  "rec_Header rec = rp_Header (rec_w rec)"

definition rec_SetHeader :: "header \<Rightarrow> recorder \<Rightarrow> recorder" where
  "rec_SetHeader h rec = rec\<lparr>rec_w := (rec_w rec)\<lparr>rp_Header := h\<rparr>\<rparr>"

definition w_Set :: "bytes \<Rightarrow> bytes \<Rightarrow> recorder \<Rightarrow> recorder" where
  "w_Set k v rec = rec_SetHeader (hdr_Set (rec_Header rec) k v) rec"

definition w_Add :: "bytes \<Rightarrow> bytes \<Rightarrow> recorder \<Rightarrow> recorder" where
  "w_Add k v rec = rec_SetHeader (hdr_Add (rec_Header rec) k v) rec"

subsection \<open>The interface\<close>

record 'w writer =
  wr_Header :: "'w \<Rightarrow> header"
  wr_SetHeader :: "header \<Rightarrow> 'w \<Rightarrow> 'w"
  wr_WriteHeader :: "int \<Rightarrow> 'w \<Rightarrow> 'w"
  wr_Write :: "bytes \<Rightarrow> 'w \<Rightarrow> 'w"

definition recorder_writer :: "recorder writer" where
  "recorder_writer = \<lparr>wr_Header = rec_Header, wr_SetHeader = rec_SetHeader,
     wr_WriteHeader = rec_WriteHeader, wr_Write = rec_Write\<rparr>"

definition text_plain :: bytes where "text_plain = ''text/plain; charset=utf-8''"

text \<open>\<open>http.Error\<close>.\<close>

definition error_header :: "header \<Rightarrow> header" where
  "error_header h = hdr_Set (hdr_Set (hdr_Del h ''Content-Length'') ''Content-Type'' text_plain) ''X-Content-Type-Options'' ''nosniff''"

definition http_Error :: "'w writer \<Rightarrow> bytes \<Rightarrow> int \<Rightarrow> 'w \<Rightarrow> 'w" where
  "http_Error ops msg code w =
     (let w = wr_SetHeader ops (error_header (wr_Header ops w)) w
      in wr_Write ops (msg @ [CHR 0x0A]) (wr_WriteHeader ops code w))"


subsection \<open>The gate's own markings\<close>

definition noStore :: "recorder \<Rightarrow> recorder" where
  "noStore w =
     (let w = w_Set ''Cache-Control'' ''no-store, no-cache, must-revalidate, max-age=0, private'' w;
          w = w_Set ''Pragma'' ''no-cache'' w
      in w_Set ''Vary'' ''Cookie, Accept, Sec-Fetch-Mode, User-Agent'' w)"

definition actionHeader :: bytes where "actionHeader = ''X-Anteroom-Action''"

definition challengeRequired :: "recorder \<Rightarrow> recorder" where
  "challengeRequired w = w_Set actionHeader ''challenge'' (noStore w)"

definition serveCrawlerVerificationUnavailable :: "recorder \<Rightarrow> recorder" where
  "serveCrawlerVerificationUnavailable w =
     (let w = w_Set actionHeader ''crawler-verification-unavailable'' (noStore w);
          w = w_Set ''Retry-After'' ''60'' w
      in http_Error recorder_writer ''temporarily unable to verify crawler identity'' 503 w)"

subsection \<open>The writer of paid responses\<close>

record paid_writer =
  pw_w :: recorder
  pw_settle :: bytes
  pw_sealed :: bool
  pw_passCookies :: "bytes list"

definition new_paid_writer :: "bytes \<Rightarrow> recorder \<Rightarrow> paid_writer" where
  "new_paid_writer settle w = \<lparr>pw_w = w, pw_settle = settle, pw_sealed = False, pw_passCookies = []\<rparr>"

definition pw_Header :: "paid_writer \<Rightarrow> header" where
  "pw_Header p = rec_Header (pw_w p)"

definition pw_SetHeader :: "header \<Rightarrow> paid_writer \<Rightarrow> paid_writer" where
  "pw_SetHeader h p = p\<lparr>pw_w := rec_SetHeader h (pw_w p)\<rparr>"

definition seal_header :: "paid_writer \<Rightarrow> header" where
  "seal_header p =
     (let h = foldl (\<lambda>h c. hdr_Add h ''Set-Cookie'' c) (pw_Header p) (pw_passCookies p);
          h = hdr_Set h ''Cache-Control'' ''no-store, private'';
          h = hdr_Set h ''Pragma'' ''no-cache'';
          h = hdr_Del h ''Expires'';
          h = (if pw_settle p \<noteq> [] then hdr_Set h HeaderResponse (pw_settle p) else hdr_Del h HeaderResponse)
      in hdr_Del h HeaderRequired)"

definition pw_seal :: "paid_writer \<Rightarrow> paid_writer" where
  "pw_seal p = (if pw_sealed p then p else pw_SetHeader (seal_header p) (p\<lparr>pw_sealed := True\<rparr>))"

definition is_pass_cookie :: "bytes \<Rightarrow> bool" where
  "is_pass_cookie v = (let (name, _, ok) = cut CHR ''='' v in ok \<and> trim_space name = cookieName)"

definition pw_holdPassCookies :: "paid_writer \<Rightarrow> paid_writer" where
  "pw_holdPassCookies p =
     (let h = pw_Header p; values = hdr_Values h ''Set-Cookie'' in
      if values = [] then p
      else
        (pw_SetHeader (hdr_Set_list h ''Set-Cookie'' (filter (\<lambda>v. \<not> is_pass_cookie v) values)) p)
          \<lparr>pw_passCookies := pw_passCookies p @ filter is_pass_cookie values\<rparr>)"

definition pw_WriteHeader :: "int \<Rightarrow> paid_writer \<Rightarrow> paid_writer" where
  "pw_WriteHeader status p =
     (let p = (if is_interim status then pw_holdPassCookies p else pw_seal p)
      in p\<lparr>pw_w := rec_WriteHeader status (pw_w p)\<rparr>)"

definition pw_Write :: "bytes \<Rightarrow> paid_writer \<Rightarrow> paid_writer" where
  "pw_Write b p = (let p = pw_seal p in p\<lparr>pw_w := rec_Write b (pw_w p)\<rparr>)"

definition paid_writer_ops :: "paid_writer writer" where
  "paid_writer_ops = \<lparr>wr_Header = pw_Header, wr_SetHeader = pw_SetHeader,
     wr_WriteHeader = pw_WriteHeader, wr_Write = pw_Write\<rparr>"

subsection \<open>What the reverse proxy writes\<close>

text \<open>
  The upstream's interim responses and its final one, hop-by-hop headers removed; \<open>None\<close> is a
  failed round trip. The proxy merges a header into the writer's and clears it after each interim response.
\<close>

record upstream_answer =
  up_Interim :: "(int \<times> header) list"
  up_Final :: "(int \<times> header \<times> bytes list) option"

definition hdr_merge :: "header \<Rightarrow> header \<Rightarrow> header" where
  "hdr_merge h h' = (\<lambda>k. h k @ h' k)"

definition proxy_interim :: "'w writer \<Rightarrow> 'w \<Rightarrow> int \<times> header \<Rightarrow> 'w" where
  "proxy_interim ops w sh =
     wr_SetHeader ops hdr_empty
       (wr_WriteHeader ops (fst sh) (wr_SetHeader ops (hdr_merge (wr_Header ops w) (snd sh)) w))"

text \<open>\<open>ModifyResponse\<close>.\<close>

definition modify_response :: "header \<Rightarrow> header" where
  "modify_response h = hdr_Del h actionHeader"

definition proxy_serve :: "'w writer \<Rightarrow> upstream_answer \<Rightarrow> 'w \<Rightarrow> 'w" where
  "proxy_serve ops a w =
     (let w = foldl (proxy_interim ops) w (up_Interim a) in
      case up_Final a of
        None \<Rightarrow> http_Error ops ''upstream unreachable'' 502 w
      | Some (status, h, chunks) \<Rightarrow>
         (let w = wr_SetHeader ops (hdr_merge (wr_Header ops w) (modify_response h)) w;
              w = wr_WriteHeader ops status w
          in foldl (\<lambda>w b. wr_Write ops b w) w chunks))"


subsection \<open>What the proxy relies on\<close>

locale response_writer =
  fixes ops :: "'w writer"
    and sent :: "'w \<Rightarrow> (int \<times> header) option"
    and written :: "'w \<Rightarrow> bytes"
  assumes header_set: "wr_Header ops (wr_SetHeader ops h w) = h"
    and set_sent: "sent (wr_SetHeader ops h w) = sent w"
    and set_written: "written (wr_SetHeader ops h w) = written w"
    and first_status: "sent w = None \<Longrightarrow> \<not> is_interim status \<Longrightarrow>
      \<exists>h. sent (wr_WriteHeader ops status w) = Some (status, h)"
    and interim_status: "sent w = None \<Longrightarrow> is_interim status \<Longrightarrow> sent (wr_WriteHeader ops status w) = None"
    and later_status: "sent w \<noteq> None \<Longrightarrow> sent (wr_WriteHeader ops status w) = sent w"
    and status_written: "written (wr_WriteHeader ops status w) = written w"
    and write_sent: "sent (wr_Write ops b w) = sent (wr_WriteHeader ops 200 w)"
    and write_written: "written (wr_Write ops b w) = written w @ b"
begin

lemma interims_sent:
  "sent w = None \<Longrightarrow> \<forall>(st, h)\<in>set xs. is_interim st \<Longrightarrow>
     sent (foldl (proxy_interim ops) w xs) = None \<and> written (foldl (proxy_interim ops) w xs) = written w"
  by (induction xs arbitrary: w)
    (auto simp: proxy_interim_def set_sent set_written interim_status status_written)

lemma writes:
  "sent w \<noteq> None \<Longrightarrow> sent (foldl (\<lambda>w b. wr_Write ops b w) w bs) = sent w
     \<and> written (foldl (\<lambda>w b. wr_Write ops b w) w bs) = written w @ concat bs"
  by (induction bs arbitrary: w) (auto simp: write_sent write_written later_status)

lemma http_Error_sends:
  assumes "sent w = None" and "\<not> is_interim code"
  shows "(\<exists>h. sent (http_Error ops msg code w) = Some (code, h)) \<and> written (http_Error ops msg code w) = written w @ msg @ [CHR 0x0A]"
proof -
  let ?w = "wr_SetHeader ops (error_header (wr_Header ops w)) w"
  obtain h where "sent (wr_WriteHeader ops code ?w) = Some (code, h)"
    using first_status [of ?w code] assms by (auto simp: set_sent)
  then show ?thesis
    by (auto simp: http_Error_def Let_def write_sent write_written later_status status_written set_written)
qed

lemma proxy_delivers:
  assumes "sent w = None" and "\<forall>(st, h)\<in>set (up_Interim a). is_interim st"
    and "up_Final a = Some (status, h, chunks)" and "\<not> is_interim status"
  shows "(\<exists>H. sent (proxy_serve ops a w) = Some (status, H)) \<and> written (proxy_serve ops a w) = written w @ concat chunks"
proof -
  define w1 where "w1 = foldl (proxy_interim ops) w (up_Interim a)"
  define w2 where "w2 = wr_SetHeader ops (hdr_merge (wr_Header ops w1) (modify_response h)) w1"
  have w2: "sent w2 = None" "written w2 = written w"
    using interims_sent [OF assms(1,2)] by (auto simp: w2_def w1_def set_sent set_written)
  obtain H where H: "sent (wr_WriteHeader ops status w2) = Some (status, H)" using first_status [OF w2(1) assms(4)] ..
  have "proxy_serve ops a w = foldl (\<lambda>w b. wr_Write ops b w) (wr_WriteHeader ops status w2) chunks"
    by (simp add: proxy_serve_def assms(3) w2_def w1_def Let_def)
  with writes [of "wr_WriteHeader ops status w2" chunks] H w2(2) show ?thesis by (simp add: status_written)
qed

end

definition rec_sent :: "recorder \<Rightarrow> (int \<times> header) option" where
  "rec_sent w = rp_Sent (rec_w w)"

definition rec_body :: "recorder \<Rightarrow> bytes" where
  "rec_body w = rp_Body (rec_w w)"

definition pw_sent :: "paid_writer \<Rightarrow> (int \<times> header) option" where
  "pw_sent p = rec_sent (pw_w p)"

definition pw_body :: "paid_writer \<Rightarrow> bytes" where
  "pw_body p = rec_body (pw_w p)"

lemma is_interim_200 [simp]: "\<not> is_interim 200" by (simp add: is_interim_def)

lemma rec_sent_simps [simp]:
  "rec_Header (rec_SetHeader h w) = h" "rec_sent (rec_SetHeader h w) = rec_sent w"
  "rec_body (rec_SetHeader h w) = rec_body w"
  "rec_body (rec_WriteHeader st w) = rec_body w" "rec_body (rec_Write b w) = rec_body w @ b"
  "rec_Header (rec_WriteHeader st w) = rec_Header w" "rec_Header (rec_Write b w) = rec_Header w"
  "rec_sent (rec_Write b w) = rec_sent (rec_WriteHeader 200 w)"
  by (simp_all add: rec_Header_def rec_SetHeader_def rec_sent_def rec_body_def rec_WriteHeader_def rec_Write_def
      net_WriteHeader_def net_Write_def Let_def)

lemma rec_WriteHeader_sent:
  "rec_sent (rec_WriteHeader st w) =
     (if rec_sent w \<noteq> None \<or> is_interim st then rec_sent w else Some (st, rec_Header w))"
  by (cases "rp_Sent (rec_w w)") (auto simp: rec_sent_def rec_Header_def rec_WriteHeader_def net_WriteHeader_def Let_def)

interpretation rec_wr: response_writer recorder_writer rec_sent rec_body
  by unfold_locales (simp_all add: recorder_writer_def rec_WriteHeader_sent)

lemma pw_seal_sent [simp]: "pw_sent (pw_seal p) = pw_sent p" "pw_body (pw_seal p) = pw_body p"
  "pw_settle (pw_seal p) = pw_settle p" "pw_passCookies (pw_seal p) = pw_passCookies p" "pw_sealed (pw_seal p)"
  by (simp_all add: pw_seal_def pw_sent_def pw_body_def pw_SetHeader_def)

lemma pw_hold_sent [simp]: "pw_sent (pw_holdPassCookies p) = pw_sent p" "pw_body (pw_holdPassCookies p) = pw_body p"
  by (simp_all add: pw_holdPassCookies_def pw_sent_def pw_body_def pw_SetHeader_def Let_def)

interpretation paid_wr: response_writer paid_writer_ops pw_sent pw_body
proof unfold_locales
  show "\<exists>h. pw_sent (wr_WriteHeader paid_writer_ops st w) = Some (st, h)"
    if "pw_sent w = None" "\<not> is_interim st" for w st
    using that pw_seal_sent(1) [of w]
    by (auto simp: paid_writer_ops_def pw_WriteHeader_def pw_sent_def rec_WriteHeader_sent Let_def)
  show "pw_sent (wr_WriteHeader paid_writer_ops st w) = pw_sent w" if "pw_sent w \<noteq> None" for w st
    using that pw_seal_sent(1) [of w] pw_hold_sent(1) [of w]
    by (auto simp: paid_writer_ops_def pw_WriteHeader_def pw_sent_def rec_WriteHeader_sent Let_def)
  show "pw_sent (wr_WriteHeader paid_writer_ops st w) = None" if "pw_sent w = None" "is_interim st" for w st
    using that pw_hold_sent(1) [of w]
    by (auto simp: paid_writer_ops_def pw_WriteHeader_def pw_sent_def rec_WriteHeader_sent Let_def)
  show "pw_body (wr_WriteHeader paid_writer_ops st w) = pw_body w" for st w
    using pw_seal_sent(2) [of w] pw_hold_sent(2) [of w]
    by (auto simp: paid_writer_ops_def pw_WriteHeader_def pw_body_def Let_def)
  show "pw_body (wr_Write paid_writer_ops b w) = pw_body w @ b" for b w
    using pw_seal_sent(2) [of w] by (simp add: paid_writer_ops_def pw_Write_def pw_body_def Let_def)
qed (simp_all add: paid_writer_ops_def pw_Header_def pw_SetHeader_def pw_sent_def pw_body_def pw_Write_def
      pw_WriteHeader_def Let_def)

subsection \<open>The seal on paid responses\<close>

lemma writer_ops_sel [simp]:
  "wr_Header paid_writer_ops = pw_Header" "wr_SetHeader paid_writer_ops = pw_SetHeader"
  "wr_WriteHeader paid_writer_ops = pw_WriteHeader" "wr_Write paid_writer_ops = pw_Write"
  "wr_Header recorder_writer = rec_Header" "wr_SetHeader recorder_writer = rec_SetHeader"
  "wr_WriteHeader recorder_writer = rec_WriteHeader" "wr_Write recorder_writer = rec_Write"
  by (simp_all add: paid_writer_ops_def recorder_writer_def)

lemma foldl_hdr_Add: "foldl (\<lambda>h c. hdr_Add h k c) h cs = hdr_Set_list h k (hdr_Values h k @ cs)"
  by (rule hdr_eqI) (simp add: hdr_Values_foldl_Add)

lemma seal_header_values:
  "hdr_Values (seal_header p) ''Cache-Control'' = [''no-store, private'']"
  "hdr_Values (seal_header p) ''Pragma'' = [''no-cache'']"
  "hdr_Values (seal_header p) ''Expires'' = []"
  "hdr_Values (seal_header p) HeaderResponse = (if pw_settle p = [] then [] else [pw_settle p])"
  "hdr_Values (seal_header p) HeaderRequired = []"
  "hdr_Values (seal_header p) ''Set-Cookie'' = hdr_Values (pw_Header p) ''Set-Cookie'' @ pw_passCookies p"
  by (simp_all add: seal_header_def Let_def HeaderResponse_def HeaderRequired_def foldl_hdr_Add)

text \<open>A paid response on its way: nothing final sent, not sealed, and the pass cookie kept somewhere.\<close>

definition pw_open :: "bytes \<Rightarrow> bytes list \<Rightarrow> paid_writer \<Rightarrow> bool" where
  "pw_open settle cs p \<longleftrightarrow> pw_sent p = None \<and> \<not> pw_sealed p \<and> pw_settle p = settle
     \<and> set cs \<subseteq> set (pw_passCookies p) \<union> set (hdr_Values (pw_Header p) ''Set-Cookie'')"

definition clean_interims :: "paid_writer \<Rightarrow> bool" where
  "clean_interims p \<longleftrightarrow>
     (\<forall>(st, h)\<in>set (rp_Interim (rec_w (pw_w p))). \<forall>v\<in>set (hdr_Values h ''Set-Cookie''). \<not> is_pass_cookie v)"

lemma pw_hold_facts:
  "pw_sealed (pw_holdPassCookies p) = pw_sealed p" "pw_settle (pw_holdPassCookies p) = pw_settle p"
  "set (pw_passCookies p) \<union> {v \<in> set (hdr_Values (pw_Header p) ''Set-Cookie''). is_pass_cookie v}
     = set (pw_passCookies (pw_holdPassCookies p))"
  "v \<in> set (hdr_Values (pw_Header (pw_holdPassCookies p)) ''Set-Cookie'') \<Longrightarrow> \<not> is_pass_cookie v"
  "rp_Interim (rec_w (pw_w (pw_holdPassCookies p))) = rp_Interim (rec_w (pw_w p))"
  by (auto simp: pw_holdPassCookies_def pw_SetHeader_def pw_Header_def rec_SetHeader_def rec_Header_def Let_def
      split: if_splits)

lemma paid_interim_step:
  assumes "pw_open settle cs p" and "clean_interims p" and "is_interim st" and "\<forall>c\<in>set cs. is_pass_cookie c"
  shows "pw_open settle cs (proxy_interim paid_writer_ops p (st, h)) \<and> clean_interims (proxy_interim paid_writer_ops p (st, h))"
proof -
  define q where "q = pw_SetHeader (hdr_merge (pw_Header p) h) p"
  define r where "r = pw_holdPassCookies q"
  have q: "pw_passCookies q = pw_passCookies p" "pw_sealed q = pw_sealed p" "pw_settle q = pw_settle p"
    "hdr_Values (pw_Header q) ''Set-Cookie'' = hdr_Values (pw_Header p) ''Set-Cookie'' @ hdr_Values h ''Set-Cookie''"
    "pw_sent q = pw_sent p" "rp_Interim (rec_w (pw_w q)) = rp_Interim (rec_w (pw_w p))"
    by (simp_all add: q_def pw_SetHeader_def pw_Header_def hdr_merge_def hdr_Values_def pw_sent_def rec_SetHeader_def
        rec_Header_def rec_sent_def)
  have e: "proxy_interim paid_writer_ops p (st, h) = pw_SetHeader hdr_empty (r\<lparr>pw_w := rec_WriteHeader st (pw_w r)\<rparr>)"
    by (simp add: proxy_interim_def paid_writer_ops_def pw_WriteHeader_def assms(3) q_def r_def Let_def)
  have sent: "pw_sent r = None" using assms(1) by (simp add: r_def q pw_open_def)
  have "pw_open settle cs (proxy_interim paid_writer_ops p (st, h))"
    using assms(1,3,4) sent pw_hold_facts(1-3) [of q] unfolding e pw_open_def
    by (auto simp: pw_SetHeader_def pw_sent_def rec_WriteHeader_sent r_def q)
  moreover have "rp_Interim (rec_w (pw_w (proxy_interim paid_writer_ops p (st, h))))
      = rp_Interim (rec_w (pw_w p)) @ [(st, pw_Header r)]"
    using sent assms(3) unfolding e
    by (simp add: pw_SetHeader_def rec_SetHeader_def rec_WriteHeader_def net_WriteHeader_def pw_Header_def rec_Header_def
        pw_sent_def rec_sent_def r_def pw_hold_facts(5) q(6))
  ultimately show ?thesis
    using assms(2) pw_hold_facts(4) [of _ q] by (auto simp: clean_interims_def r_def)
qed

lemma paid_interims:
  "pw_open settle cs p \<Longrightarrow> clean_interims p \<Longrightarrow> \<forall>(st, h)\<in>set xs. is_interim st \<Longrightarrow> \<forall>c\<in>set cs. is_pass_cookie c \<Longrightarrow>
     pw_open settle cs (foldl (proxy_interim paid_writer_ops) p xs)
     \<and> clean_interims (foldl (proxy_interim paid_writer_ops) p xs)"
proof (induction xs arbitrary: p)
  case (Cons x xs)
  then show ?case using paid_interim_step [of settle cs p "fst x" "snd x"] by auto
qed simp

definition sealed :: "bytes \<Rightarrow> bytes list \<Rightarrow> header \<Rightarrow> bool" where
  "sealed settle cs H \<longleftrightarrow> hdr_Values H ''Cache-Control'' = [''no-store, private''] \<and> hdr_Values H ''Pragma'' = [''no-cache'']
     \<and> hdr_Values H ''Expires'' = [] \<and> hdr_Values H HeaderRequired = []
     \<and> hdr_Values H HeaderResponse = (if settle = [] then [] else [settle])
     \<and> set cs \<subseteq> set (hdr_Values H ''Set-Cookie'')"

lemma pw_open_finish:
  assumes "pw_open settle cs p" and "\<not> is_interim st"
  shows "\<exists>H. pw_sent (pw_WriteHeader st p) = Some (st, H) \<and> sealed settle cs H
     \<and> rp_Interim (rec_w (pw_w (pw_WriteHeader st p))) = rp_Interim (rec_w (pw_w p))"
proof -
  have h: "rec_Header (pw_w (pw_seal p)) = seal_header p" "rec_sent (pw_w (pw_seal p)) = None"
    using assms(1) pw_seal_sent(1) [of p] by (auto simp: pw_seal_def pw_open_def pw_SetHeader_def pw_sent_def)
  have "pw_sent (pw_WriteHeader st p) = Some (st, seal_header p)"
    using assms(2) h by (simp add: pw_WriteHeader_def pw_sent_def rec_WriteHeader_sent Let_def)
  moreover have "sealed settle cs (seal_header p)"
    using assms(1) by (auto simp: sealed_def seal_header_values pw_open_def)
  moreover have "rp_Interim (rec_w (pw_w (pw_WriteHeader st p))) = rp_Interim (rec_w (pw_w p))"
    using assms(2) by (simp add: pw_WriteHeader_def pw_seal_def pw_SetHeader_def rec_SetHeader_def
        rec_WriteHeader_def net_WriteHeader_def Let_def)
  ultimately show ?thesis by blast
qed


lemma later_writes_keep:
  "pw_sealed p \<Longrightarrow> pw_sent p \<noteq> None \<Longrightarrow> pw_sealed (foldl (\<lambda>w b. pw_Write b w) p bs)
     \<and> pw_sent (foldl (\<lambda>w b. pw_Write b w) p bs) = pw_sent p
     \<and> rp_Interim (rec_w (pw_w (foldl (\<lambda>w b. pw_Write b w) p bs))) = rp_Interim (rec_w (pw_w p))"
proof (induction bs arbitrary: p)
  case (Cons b bs)
  have "pw_sealed (pw_Write b p)" "pw_sent (pw_Write b p) = pw_sent p"
    "rp_Interim (rec_w (pw_w (pw_Write b p))) = rp_Interim (rec_w (pw_w p))"
    using Cons.prems
    by (auto simp: pw_Write_def pw_seal_def pw_sent_def rec_WriteHeader_sent rec_sent_def rec_Write_def net_Write_def
        net_WriteHeader_def Let_def)
  with Cons.IH [of "pw_Write b p"] Cons.prems show ?case by simp
qed simp

lemma pw_open_SetHeader:
  "pw_open settle cs p \<Longrightarrow> set (hdr_Values (pw_Header p) ''Set-Cookie'') \<subseteq> set (hdr_Values h ''Set-Cookie'') \<Longrightarrow>
     pw_open settle cs (pw_SetHeader h p)"
  by (auto simp: pw_open_def pw_SetHeader_def pw_Header_def pw_sent_def)

text \<open>C11: whatever the upstream answers to a paid request, the response is sealed. After any interim
  responses, and also when the upstream cannot be reached, the final header forbids caching, carries the
  gate's receipt and no other, carries no offer, and still sets the pass; no interim response leaks the pass.\<close>

theorem paid_response_sealed:
  assumes "rec_sent w = None" and "rp_Interim (rec_w w) = []"
    and "\<forall>(st, h)\<in>set (up_Interim a). is_interim st" and "\<forall>st h bs. up_Final a = Some (st, h, bs) \<longrightarrow> \<not> is_interim st"
    and "c \<in> set (hdr_Values (rec_Header w) ''Set-Cookie'')" and "is_pass_cookie c"
  shows "\<exists>st H. pw_sent (proxy_serve paid_writer_ops a (new_paid_writer settle w)) = Some (st, H) \<and> sealed settle [c] H
    \<and> clean_interims (proxy_serve paid_writer_ops a (new_paid_writer settle w))"
proof -
  define p where "p = foldl (proxy_interim paid_writer_ops) (new_paid_writer settle w) (up_Interim a)"
  have "pw_open settle [c] (new_paid_writer settle w)" "clean_interims (new_paid_writer settle w)"
    using assms(1,2,5) by (auto simp: pw_open_def clean_interims_def new_paid_writer_def pw_sent_def pw_Header_def)
  from paid_interims [OF this assms(3)] assms(6)
  have p: "pw_open settle [c] p" "clean_interims p" by (auto simp: p_def)
  obtain st h bs where e: "proxy_serve paid_writer_ops a (new_paid_writer settle w)
      = foldl (\<lambda>w b. pw_Write b w) (pw_WriteHeader st (pw_SetHeader h p)) bs"
    and st: "\<not> is_interim st" and h: "set (hdr_Values (pw_Header p) ''Set-Cookie'') \<subseteq> set (hdr_Values h ''Set-Cookie'')"
  proof (cases "up_Final a")
    case None
    let ?h = "error_header (pw_Header p)"
    show ?thesis
      by (rule that [of 502 ?h "[''upstream unreachable'' @ [CHR 0x0A]]"])
        (simp_all add: proxy_serve_def None p_def [symmetric] http_Error_def error_header_def Let_def is_interim_def)
  next
    case (Some x)
    then obtain st h bs where f: "up_Final a = Some (st, h, bs)" by (cases x) auto
    show ?thesis
      by (rule that [of st "hdr_merge (pw_Header p) (modify_response h)" bs])
        (use assms(4) f in \<open>auto simp: proxy_serve_def p_def [symmetric] Let_def hdr_merge_def hdr_Values_def\<close>)
  qed
  have i: "clean_interims (pw_SetHeader h p)"
    using p(2) by (simp add: clean_interims_def pw_SetHeader_def rec_SetHeader_def)
  from pw_open_finish [OF pw_open_SetHeader [OF p(1) h] st] obtain H where
    H: "pw_sent (pw_WriteHeader st (pw_SetHeader h p)) = Some (st, H)" "sealed settle [c] H"
      "rp_Interim (rec_w (pw_w (pw_WriteHeader st (pw_SetHeader h p)))) = rp_Interim (rec_w (pw_w (pw_SetHeader h p)))" by blast
  have "pw_sealed (pw_WriteHeader st (pw_SetHeader h p))" using st by (simp add: pw_WriteHeader_def Let_def)
  from later_writes_keep [OF this, of bs] H i show ?thesis unfolding e by (auto simp: clean_interims_def)
qed

definition demo_answer_up :: upstream_answer where
  "demo_answer_up = \<lparr>up_Interim = [(103, hdr_Set hdr_empty ''Link'' ''</a.css>'')],
     up_Final = Some (200, hdr_Set (hdr_Set hdr_empty ''Cache-Control'' ''public'') HeaderRequired ''forged'', [''report''])\<rparr>"

lemma paid_response_sealed_witness:
  "\<exists>st H. pw_sent (proxy_serve paid_writer_ops demo_answer_up
       (new_paid_writer ''receipt'' (w_Set ''Set-Cookie'' ''anteroom_pass=p'' new_recorder))) = Some (st, H)
     \<and> sealed ''receipt'' [''anteroom_pass=p''] H
     \<and> clean_interims (proxy_serve paid_writer_ops demo_answer_up
         (new_paid_writer ''receipt'' (w_Set ''Set-Cookie'' ''anteroom_pass=p'' new_recorder)))"
proof (rule paid_response_sealed)
  show "rec_sent (w_Set ''Set-Cookie'' ''anteroom_pass=p'' new_recorder) = None"
    "rp_Interim (rec_w (w_Set ''Set-Cookie'' ''anteroom_pass=p'' new_recorder)) = []"
    "''anteroom_pass=p'' \<in> set (hdr_Values (rec_Header (w_Set ''Set-Cookie'' ''anteroom_pass=p'' new_recorder)) ''Set-Cookie'')"
    by (simp_all add: w_Set_def rec_SetHeader_def new_recorder_def new_response_def rec_sent_def rec_Header_def)
  show "is_pass_cookie ''anteroom_pass=p''" by code_simp
qed (simp_all add: demo_answer_up_def is_interim_def)

end
