(* ===== verification/Pages.thy ===== *)
theory Pages
  imports Passes Writer
begin

text \<open>
  What the gate says to a client it does not admit (\<open>internal/gate/waitpage.go\<close>) and the static
  endpoints of \<open>internal/gate/endpoints.go\<close>. The embedded files are the fields of \<open>assets\<close>, the
  operator's directory of pages is a \<open>page_dir\<close>.
\<close>

subsection \<open>Addresses\<close>

definition gate_prefix :: bytes where "gate_prefix = ''/.anteroom/''"
definition HealthPath :: bytes where "HealthPath = gate_prefix @ ''healthz''"
definition pathChallenge :: bytes where "pathChallenge = gate_prefix @ ''challenge''"
definition pathAnswer :: bytes where "pathAnswer = gate_prefix @ ''answer''"
definition pathSW :: bytes where "pathSW = gate_prefix @ ''sw.js''"
definition pathSolverPrefix :: bytes where "pathSolverPrefix = gate_prefix @ ''solver.''"
definition pathRenew :: bytes where "pathRenew = gate_prefix @ ''renew.js''"
definition pathUninstall :: bytes where "pathUninstall = gate_prefix @ ''uninstall''"
definition pathInstructions :: bytes where "pathInstructions = gate_prefix @ ''instructions.md''"
definition pathSchema :: bytes where "pathSchema = gate_prefix @ ''x402-schema.json''"

definition unlines :: "bytes list \<Rightarrow> bytes" where
  "unlines ls = concat (map (\<lambda>l. l @ [CHR 0x0A]) ls)"

text \<open>The verb \<open>%q\<close>, for the plain text the gate quotes.\<close>

definition go_quote :: "bytes \<Rightarrow> bytes" where
  "go_quote s = [CHR 0x22] @ s @ [CHR 0x22]"

text \<open>\<open>json.NewEncoder(w).Encode\<close>.\<close>

definition json_Encode :: "json \<Rightarrow> bytes" where
  "json_Encode j = json_print j @ [CHR 0x0A]"

subsection \<open>Embedded files and the wait page's parts\<close>

record assets =
  as_header :: bytes
  as_footer :: bytes
  as_core :: bytes
  as_page :: bytes
  as_swShell :: bytes
  as_sha256Vendor :: bytes
  as_sha256 :: bytes
  as_renew :: bytes
  as_uninstall :: bytes

definition swJS :: "assets \<Rightarrow> bytes" where "swJS a = as_core a @ as_swShell a"

definition buildSolver :: "(bytes \<Rightarrow> bytes) \<Rightarrow> assets \<Rightarrow> bool \<Rightarrow> bytes \<times> bytes" where
  "buildSolver sha a allowInsecure =
     (let body = (if allowInsecure then as_sha256Vendor a @ [CHR 0x0A] @ as_sha256 a @ [CHR 0x0A] else [])
                 @ as_core a @ as_page a
      in (body, pathSolverPrefix @ hex_encode (take 16 (sha body)) @ ''.js''))"

definition maxPageBytes :: int where "maxPageBytes = 1048576"

record file_info =
  fi_IsDir :: bool
  fi_Size :: int
  fi_ModTime :: time

text \<open>\<open>os.Stat\<close> and \<open>os.ReadFile\<close> of the operator's directory, by the name of the file.\<close>

record page_dir =
  pd_Stat :: "bytes \<Rightarrow> file_info option"
  pd_ReadFile :: "bytes \<Rightarrow> bytes option"

record cached_page =
  cp_body :: bytes
  cp_modTime :: time
  cp_size :: int

type_synonym page_cache = "bytes \<rightharpoonup> cached_page"

definition page_load :: "page_dir \<Rightarrow> bytes \<Rightarrow> bytes \<Rightarrow> file_info \<Rightarrow> page_cache \<Rightarrow> bytes \<times> page_cache" where
  "page_load pd name fallback fi cache =
     (case pd_ReadFile pd name of
        None \<Rightarrow> (fallback, cache)
      | Some b \<Rightarrow> (b, cache(name \<mapsto> \<lparr>cp_body = b, cp_modTime = fi_ModTime fi, cp_size = fi_Size fi\<rparr>)))"

definition page_read :: "bytes \<Rightarrow> page_dir \<Rightarrow> bytes \<Rightarrow> bytes \<Rightarrow> page_cache \<Rightarrow> bytes \<times> page_cache" where
  "page_read dir pd name fallback cache =
     (if dir = [] then (fallback, cache)
      else
        (case pd_Stat pd name of
           None \<Rightarrow> (fallback, cache)
         | Some fi \<Rightarrow>
            if fi_IsDir fi then (fallback, cache)
            else if maxPageBytes < fi_Size fi then (fallback, cache)
            else
              (case cache name of
                 Some c \<Rightarrow>
                   if cp_modTime c = fi_ModTime fi \<and> cp_size c = fi_Size fi then (cp_body c, cache)
                   else page_load pd name fallback fi cache
               | None \<Rightarrow> page_load pd name fallback fi cache)))"

subsection \<open>Instructions\<close>

definition instructionsMarkdown :: bytes where
  "instructionsMarkdown =
     unlines [''# Pass required'',
     [],
     ''This site is protected by Anteroom, a self-hosted bot gate. No account is'',
     ''needed; access is earned, not registered.'',
     [],
     ''## If you are automating'',
     [],
     ''Solve the free proof-of-work challenge:'',
     [],
     ''1. `GET '' @ pathChallenge @ ''` '' @ [CHR 0xE2, CHR 0x86, CHR 0x92] @ '' JSON `{challenge, threshold, pass_ttl_ms, deadline_unix_ms}`.'',
     ''2. Find a nonce such that the SHA-256 digest of `challenge + nonce`, compared'',
     ''   as bytes, sorts strictly below `threshold` (64 hex characters).'',
     ''3. `POST '' @ pathAnswer @ ''` with JSON `{\"challenge\": ..., \"nonce\": ...}`.'',
     ''4. Retry your request with the `'' @ cookieName @ ''` cookie the answer sets.'',
     [],
     ''The pass is short-lived; re-solve when it lapses. Redeem promptly '' @ [CHR 0xE2, CHR 0x80, CHR 0x94] @ '' a pass'',
     ''expires a fixed time after its challenge was *issued*, so a stale solve is'',
     ''worthless (`deadline_unix_ms` tells you when to abandon and refetch).'',
     [],
     ''## If a human sent you'',
     [],
     ''Tell them to open the URL in a normal browser. The check runs automatically, is'',
     ''free, and takes about a second.'',
     [],
     ''## Notes'',
     [],
     ''- Nothing here requires payment, an account, or an API key.'',
     ''- This document is served at '' @ pathInstructions @ '' and does not change per'',
     ''  request; fetch it any time.'']"

definition wantsJSON :: "request \<Rightarrow> bool" where
  "wantsJSON r \<longleftrightarrow> (let accept = req_Get r ''Accept'' in
     contains_sub accept ''application/json'' \<and> \<not> contains_sub accept ''text/html'')"

definition okBodyAgent :: "gate \<Rightarrow> request \<Rightarrow> bool" where
  "okBodyAgent g r =
     (let ua = req_Get r ''User-Agent'' in
      if ua = [] then False
      else if req_Get r HeaderSignature \<noteq> [] \<or> req_Get r ''X-Payment'' \<noteq> [] then False
      else if wantsJSON r then False
      else list_ex (\<lambda>a. a \<noteq> [] \<and> contains_sub (to_lower ua) (to_lower a)) (tr_OKBodyAgents (c_Triage (g_cfg g))))"

subsection \<open>Refusals\<close>

definition refusal_json :: json where
  "refusal_json = JObj
     [(''error'', JStr ''a pass is required''),
      (''free_challenge'', JObj
         [(''answer_url'', JStr pathAnswer), (''challenge_url'', JStr pathChallenge),
          (''how'', JStr (''GET challenge_url '' @ [CHR 0xE2, CHR 0x86, CHR 0x92] @ '' {challenge, threshold}; find nonce where sha256(challenge+nonce) < threshold (hex compare); POST {challenge, nonce} to answer_url; retry with the '' @ cookieName @ '' cookie''))]),
      (''human'', JStr (''open this URL in a browser '' @ [CHR 0xE2, CHR 0x80, CHR 0x94] @ '' the check is free and takes about a second''))]"

definition renderRefusal :: "gate \<Rightarrow> request \<Rightarrow> int \<Rightarrow> recorder \<Rightarrow> recorder" where
  "renderRefusal g r status w =
     (let w = challengeRequired w in
      if tr_JSONAccept (c_Triage (g_cfg g)) \<and> wantsJSON r
      then rec_Write (json_Encode refusal_json) (rec_WriteHeader status (w_Set ''Content-Type'' ''application/json'' w))
      else rec_Write instructionsMarkdown
             (rec_WriteHeader status (w_Set ''Content-Type'' ''text/markdown; charset=utf-8'' w)))"

definition serveRefusal :: "gate \<Rightarrow> request \<Rightarrow> recorder \<Rightarrow> recorder" where
  "serveRefusal g r w = renderRefusal g r (if okBodyAgent g r then 200 else 403) w"

definition serveStrictRefusal :: "gate \<Rightarrow> request \<Rightarrow> recorder \<Rightarrow> recorder" where
  "serveStrictRefusal g r w = renderRefusal g r 403 w"

subsection \<open>The wait page\<close>

definition wait_config :: bytes where
  "wait_config = json_print (JObj
     [(''answerURL'', JStr pathAnswer), (''challengeURL'', JStr pathChallenge), (''swURL'', JStr pathSW)])"

definition wait_body :: "gate \<Rightarrow> bytes \<Rightarrow> bytes \<Rightarrow> bytes" where
  "wait_body g header_html footer_html =
     header_html @ [CHR 0x0A] @ ''<link rel=\"alternate\" type=\"text/markdown\" href='' @ go_quote pathInstructions @ '' title=\"How to pass this gate without a browser\">'' @ [CHR 0x0A]
     @ unlines [''<p class=\"anteroom-agent-note\" style=\"font-size:.78rem;color:#9aa3af;margin-top:1.2rem\">'',
     ''Automated client? This page runs a browser check you cannot complete.'',
     ''Fetch <a href='' @ go_quote pathInstructions @ ''>'' @ pathInstructions @ ''</a> for machine-readable instructions instead.</p>'',
     ''<noscript><p>This page needs JavaScript to complete an automatic check.'',
     ''Machine-readable instructions: <a href='' @ go_quote pathInstructions @ ''>'' @ pathInstructions @ ''</a></p></noscript>'']
     @ unlines [''<script>window.__ANTEROOM__ = '' @ wait_config @ '';</script>'', ''<script src='' @ go_quote (g_solverURL g) @ '' defer></script>''] @ footer_html"

definition wait_headers :: "recorder \<Rightarrow> recorder" where
  "wait_headers w =
     (let w = w_Set ''Content-Type'' ''text/html; charset=utf-8'' (challengeRequired w);
          w = w_Set ''X-Robots-Tag'' ''noindex, nofollow'' w;
          w = w_Set ''Referrer-Policy'' ''same-origin'' w
      in w_Add ''Link'' (''<'' @ pathInstructions @ ''>; rel=\"alternate\"; type=\"text/markdown\"'') w)"

definition serveWaitPage :: "gate \<Rightarrow> assets \<Rightarrow> page_dir \<Rightarrow> request \<Rightarrow> page_cache \<Rightarrow> recorder \<Rightarrow> recorder \<times> page_cache" where
  "serveWaitPage g a pd r cache w =
     (let w = rec_WriteHeader 403 (wait_headers w) in
      if req_Method r = ''HEAD'' then (w, cache)
      else
        (let (header_html, cache) = page_read (c_Pages (g_cfg g)) pd ''header.html'' (as_header a) cache;
             (footer_html, cache) = page_read (c_Pages (g_cfg g)) pd ''footer.html'' (as_footer a) cache
         in (rec_Write (wait_body g header_html footer_html) w, cache)))"

subsection \<open>Static endpoints\<close>

definition get_or_head :: "request \<Rightarrow> bool" where
  "get_or_head r \<longleftrightarrow> req_Method r = ''GET'' \<or> req_Method r = ''HEAD''"

definition get_only :: "recorder \<Rightarrow> recorder" where
  "get_only w = http_Error recorder_writer ''GET only'' 405 w"

definition serveHealthz :: "request \<Rightarrow> recorder \<Rightarrow> recorder" where
  "serveHealthz r w =
     (if \<not> get_or_head r then get_only w
      else rec_Write (''ok'' @ [CHR 0x0A]) (w_Set ''Content-Type'' text_plain (noStore w)))"

definition serveSW :: "assets \<Rightarrow> request \<Rightarrow> recorder \<Rightarrow> recorder" where
  "serveSW a r w =
     (if \<not> get_or_head r then get_only w
      else rec_Write (swJS a) (w_Set ''Cache-Control'' ''max-age=60''
             (w_Set ''Content-Type'' ''text/javascript; charset=utf-8'' w)))"

definition serveSolver :: "gate \<Rightarrow> request \<Rightarrow> recorder \<Rightarrow> recorder" where
  "serveSolver g r w =
     (if \<not> get_or_head r then get_only w
      else
        (let w = w_Set ''Content-Type'' ''text/javascript; charset=utf-8'' w;
             w = (if req_Path r = g_solverURL g \<and> req_RawQuery r = []
                  then w_Set ''Cache-Control'' ''public, max-age=31536000, immutable'' w else noStore w)
         in rec_Write (g_solverJS g) w))"

definition serveRenew :: "assets \<Rightarrow> request \<Rightarrow> recorder \<Rightarrow> recorder" where
  "serveRenew a r w =
     (if \<not> get_or_head r then get_only w
      else rec_Write (as_renew a) (w_Set ''Cache-Control'' ''max-age=300''
             (w_Set ''Content-Type'' ''text/javascript; charset=utf-8'' w)))"

definition serveUninstall :: "assets \<Rightarrow> request \<Rightarrow> recorder \<Rightarrow> recorder" where
  "serveUninstall a r w =
     (if \<not> get_or_head r then get_only (noStore w)
      else rec_Write (as_uninstall a) (w_Set ''X-Robots-Tag'' ''noindex''
             (w_Set ''Content-Type'' ''text/html; charset=utf-8'' (noStore w))))"

definition serveInstructions :: "request \<Rightarrow> recorder \<Rightarrow> recorder" where
  "serveInstructions r w =
     (if \<not> get_or_head r then get_only w
      else rec_Write instructionsMarkdown (w_Set ''X-Robots-Tag'' ''noindex'' (w_Set ''Cache-Control'' ''max-age=300''
             (w_Set ''Content-Type'' ''text/markdown; charset=utf-8'' w))))"

text \<open>The JSON Schema of the offer extension; the keys of a Go map are printed in order.\<close>

definition j_type :: "bytes \<Rightarrow> json" where "j_type t = JObj [(''type'', JStr t)]"

definition extensionSchema :: json where
  "extensionSchema = JObj
     [(''properties'', JObj
        [(''freeAlternative'', JObj
           [(''description'', JStr ''the way in that costs nothing''),
            (''properties'', JObj [(''answerUrl'', j_type ''string''), (''challengeUrl'', j_type ''string''),
                                 (''instructions'', j_type ''string''), (''kind'', j_type ''string'')]),
            (''type'', JStr ''object'')]),
         (''paidTtlSeconds'', JObj
           [(''description'', JStr ''how long that admission pass lives (at least one second)''), (''type'', JStr ''integer'')]),
         (''prerequisites'', JObj
           [(''description'', JStr ''one-time on-chain steps a payer must complete first''),
            (''items'', j_type ''object''), (''type'', JStr ''array'')]),
         (''presentation'', JObj
           [(''description'', JStr ''non-standard admission-capability contract: present on GET/HEAD, then retry the original operation with the cookie''),
            (''properties'', JObj
               [(''methods'', JObj [(''items'', j_type ''string''), (''type'', JStr ''array'')]),
                (''result'', j_type ''string''), (''retryOriginal'', j_type ''boolean'')]),
            (''type'', JStr ''object'')]),
         (''price'', JObj [(''description'', JStr ''display price, e.g. $0.01''), (''type'', JStr ''string'')]),
         (''rails'', JObj
           [(''description'', JStr ''display data the protocol object omits: decimals, RPC endpoint''),
            (''items'', j_type ''object''), (''type'', JStr ''array'')]),
         (''scope'', JObj
           [(''description'', JStr ''display name of the matched pricing rule; the server binds the pass to its compiled path scope''),
            (''type'', JStr ''string'')])]),
      (''required'', JArr (map JStr [''price'', ''scope'', ''paidTtlSeconds'', ''presentation'', ''freeAlternative''])),
      (''type'', JStr ''object'')]"

definition serveSchema :: "request \<Rightarrow> recorder \<Rightarrow> recorder" where
  "serveSchema r w =
     (if \<not> get_or_head r then get_only w
      else rec_Write (json_Encode extensionSchema) (w_Set ''X-Robots-Tag'' ''noindex''
             (w_Set ''Cache-Control'' ''public, max-age=3600'' (w_Set ''Content-Type'' ''application/schema+json'' w))))"

end
