(* ===== verification/Metrics.thy ===== *)
theory Metrics
  imports Prelude GoStrings
begin

text \<open>
  \<open>internal/metrics\<close>: counters, gauges, fixed-bucket histograms, one-label vectors, the registry
  and the Prometheus exposition. A counter is an atomic \<open>uint64\<close>, so \<open>Add\<close> wraps; a \<open>float64\<close> sum is
  kept as a rational. \<open>formatFloat\<close> is a parameter of the writer.
\<close>

subsection \<open>Counters and gauges\<close>

type_synonym counter = "64 word"
type_synonym gauge = "64 word"

definition counter_Add :: "counter \<Rightarrow> 64 word \<Rightarrow> counter" where
  "counter_Add c n = c + n"

definition counter_Inc :: "counter \<Rightarrow> counter" where
  "counter_Inc c = c + 1"

definition gauge_Inc :: "gauge \<Rightarrow> gauge" where
  "gauge_Inc g = g + 1"

definition gauge_Dec :: "gauge \<Rightarrow> gauge" where
  "gauge_Dec g = g - 1"

definition gauge_Value :: "gauge \<Rightarrow> int" where
  "gauge_Value g = sint g"

subsection \<open>Histograms\<close>

record histogram =
  h_bounds :: "rat list"
  h_counts :: "64 word list"
  h_sum :: rat
  h_count :: "64 word"

definition newHistogram :: "rat list \<Rightarrow> histogram" where
  "newHistogram buckets =
     \<lparr>h_bounds = sort buckets, h_counts = replicate (length buckets + 1) 0, h_sum = 0, h_count = 0\<rparr>"

text \<open>\<open>sort.SearchFloat64s\<close>: the first index whose bound is at least \<open>v\<close>.\<close>

definition search_bounds :: "rat list \<Rightarrow> rat \<Rightarrow> nat" where
  "search_bounds bs v = length (takeWhile (\<lambda>b. b < v) bs)"

definition Observe :: "histogram \<Rightarrow> rat \<Rightarrow> histogram" where
  "Observe h v =
     (let i = search_bounds (h_bounds h) v in
      h\<lparr>h_counts := (h_counts h)[i := h_counts h ! i + 1], h_sum := h_sum h + v, h_count := h_count h + 1\<rparr>)"

fun running :: "64 word \<Rightarrow> 64 word list \<Rightarrow> 64 word list" where
  "running acc [] = []"
| "running acc (c # cs) = (acc + c) # running (acc + c) cs"

definition snapshot :: "histogram \<Rightarrow> 64 word list \<times> 64 word \<times> rat" where
  "snapshot h = (running 0 (h_counts h), h_count h, h_sum h)"

subsection \<open>Vectors\<close>

definition unknownLabel :: bytes where "unknownLabel = ''unknown''"

record 'a vec =
  v_label :: bytes
  v_order :: "bytes list"
  v_children :: "(bytes \<times> 'a) list"
  v_unknown :: 'a

definition new_vec :: "'a \<Rightarrow> bytes \<Rightarrow> bytes list \<Rightarrow> 'a vec" where
  "new_vec zero label values =
     \<lparr>v_label = label, v_order = values, v_children = map (\<lambda>v. (v, zero)) values, v_unknown = zero\<rparr>"

text \<open>\<open>With\<close> gives the child that is then updated: here the update is passed in.\<close>

definition vec_With :: "'a vec \<Rightarrow> bytes \<Rightarrow> 'a" where
  "vec_With v x = (case map_of (v_children v) x of Some c \<Rightarrow> c | None \<Rightarrow> v_unknown v)"

definition vec_update :: "'a vec \<Rightarrow> bytes \<Rightarrow> ('a \<Rightarrow> 'a) \<Rightarrow> 'a vec" where
  "vec_update v x f =
     (case map_of (v_children v) x of
        Some c \<Rightarrow> v\<lparr>v_children := AList.update x (f c) (v_children v)\<rparr>
      | None \<Rightarrow> v\<lparr>v_unknown := f (v_unknown v)\<rparr>)"

subsection \<open>The registry and its exposition\<close>

datatype metric =
    MCounter counter
  | MGauge gauge
  | MGaugeFn rat
  | MConst bytes rat
  | MCounterVec "counter vec"
  | MHistogram histogram
  | MHistVec "histogram vec"

record family =
  f_name :: bytes
  f_typ :: bytes
  f_help :: bytes
  f_metric :: metric

type_synonym registry = "family list"

text \<open>Registering a name twice panics: \<open>None\<close>.\<close>

definition registry_add :: "registry \<Rightarrow> family \<Rightarrow> registry option" where
  "registry_add r f = (if f_name f \<in> set (map f_name r) then None else Some (r @ [f]))"

fun escape_label_char :: "char \<Rightarrow> bytes" where
  "escape_label_char c =
     (if c = CHR 0x5C then [CHR 0x5C, CHR 0x5C]
      else if c = CHR 0x22 then [CHR 0x5C, CHR 0x22]
      else if c = CHR 0x0A then [CHR 0x5C, CHR ''n'']
      else [c])"

definition EscapeLabel :: "bytes \<Rightarrow> bytes" where
  "EscapeLabel s = concat (map escape_label_char s)"

definition escapeHelp :: "bytes \<Rightarrow> bytes" where
  "escapeHelp s = concat (map (\<lambda>c. if c = CHR 0x22 then [c] else escape_label_char c) s)"

definition show_uint :: "64 word \<Rightarrow> bytes" where
  "show_uint w = show_nat (unat w)"

definition nl :: bytes where "nl = [CHR 0x0A]"

definition label_pair :: "bytes \<Rightarrow> bytes \<Rightarrow> bytes" where
  "label_pair k v = k @ ''=\"'' @ v @ ''\"''"

fun bucket_lines :: "(rat \<Rightarrow> bytes) \<Rightarrow> bytes \<Rightarrow> bytes \<Rightarrow> rat list \<Rightarrow> 64 word list \<Rightarrow> bytes" where
  "bucket_lines fmt name pre (b # bs) (c # cs) =
     name @ ''_bucket{'' @ pre @ label_pair ''le'' (fmt b) @ ''} '' @ show_uint c @ nl @ bucket_lines fmt name pre bs cs"
| "bucket_lines fmt name pre _ _ = []"

definition writeHistogram :: "(rat \<Rightarrow> bytes) \<Rightarrow> bytes \<Rightarrow> bytes \<Rightarrow> histogram \<Rightarrow> bytes" where
  "writeHistogram fmt name pre h =
     (let (cum, count, s) = snapshot h; lbls = trim_suffix pre '','';
          braced = (if lbls \<noteq> [] then ''{'' @ lbls @ ''}'' else [])
      in bucket_lines fmt name pre (h_bounds h) cum
         @ name @ ''_bucket{'' @ pre @ ''le=\"+Inf\"} '' @ show_uint count @ nl
         @ name @ ''_sum'' @ braced @ '' '' @ fmt s @ nl
         @ name @ ''_count'' @ braced @ '' '' @ show_uint count @ nl)"

definition child :: "'a vec \<Rightarrow> bytes \<Rightarrow> 'a" where
  "child v x = the (map_of (v_children v) x)"

definition family_write :: "(rat \<Rightarrow> bytes) \<Rightarrow> family \<Rightarrow> bytes" where
  "family_write fmt f =
     (let name = f_name f in
      case f_metric f of
        MCounter c \<Rightarrow> name @ '' '' @ show_uint c @ nl
      | MGauge g \<Rightarrow> name @ '' '' @ show_int (gauge_Value g) @ nl
      | MGaugeFn v \<Rightarrow> name @ '' '' @ fmt v @ nl
      | MConst lbls v \<Rightarrow> (if lbls \<noteq> [] then name @ ''{'' @ lbls @ ''} '' @ fmt v @ nl else name @ '' '' @ fmt v @ nl)
      | MCounterVec v \<Rightarrow>
          concat (map (\<lambda>x. name @ ''{'' @ label_pair (v_label v) (EscapeLabel x) @ ''} '' @ show_uint (child v x) @ nl) (v_order v))
          @ (if 0 < v_unknown v
             then name @ ''{'' @ label_pair (v_label v) unknownLabel @ ''} '' @ show_uint (v_unknown v) @ nl else [])
      | MHistogram h \<Rightarrow> writeHistogram fmt name [] h
      | MHistVec v \<Rightarrow>
          concat (map (\<lambda>x. writeHistogram fmt name (label_pair (v_label v) (EscapeLabel x) @ '','') (child v x)) (v_order v))
          @ (if 0 < h_count (v_unknown v)
             then writeHistogram fmt name (label_pair (v_label v) unknownLabel @ '','') (v_unknown v) else []))"

definition WritePrometheus :: "(rat \<Rightarrow> bytes) \<Rightarrow> registry \<Rightarrow> bytes" where
  "WritePrometheus fmt r =
     concat (map (\<lambda>f. ''# HELP '' @ f_name f @ '' '' @ escapeHelp (f_help f) @ nl
                      @ ''# TYPE '' @ f_name f @ '' '' @ f_typ f @ nl @ family_write fmt f) r)"

subsection \<open>Facts on histograms\<close>

definition at_most :: "rat list \<Rightarrow> rat \<Rightarrow> nat" where
  "at_most vs b = length (filter (\<lambda>v. v \<le> b) vs)"

text \<open>What the buckets mean after a sequence of observations.\<close>

definition bucket_meaning :: "rat list \<Rightarrow> histogram \<Rightarrow> bool" where
  "bucket_meaning vs h \<longleftrightarrow> sorted (h_bounds h) \<and> length (h_counts h) = length (h_bounds h) + 1
     \<and> (\<forall>i < length (h_counts h). h_counts h ! i
          = of_nat (length (filter (\<lambda>v. search_bounds (h_bounds h) v = i) vs)))
     \<and> h_count h = of_nat (length vs) \<and> h_sum h = sum_list vs"

lemma search_bounds_le: "search_bounds bs v \<le> length bs"
  by (simp add: search_bounds_def length_takeWhile_le)

lemma search_bounds_less_iff:
  assumes "sorted bs" and "i < length bs"
  shows "search_bounds bs v \<le> i \<longleftrightarrow> v \<le> bs ! i"
proof
  assume "search_bounds bs v \<le> i"
  with assms(2) have j: "search_bounds bs v < length bs" by simp
  then have "\<not> bs ! search_bounds bs v < v"
    unfolding search_bounds_def using nth_length_takeWhile [of "\<lambda>b. b < v" bs] by simp
  with \<open>search_bounds bs v \<le> i\<close> assms show "v \<le> bs ! i"
    by (meson dual_order.trans not_less sorted_nth_mono)
next
  assume v: "v \<le> bs ! i"
  show "search_bounds bs v \<le> i"
  proof (rule ccontr)
    assume "\<not> search_bounds bs v \<le> i"
    then have "i < length (takeWhile (\<lambda>b. b < v) bs)" by (simp add: search_bounds_def)
    then have "bs ! i < v" using nth_mem takeWhile_nth set_takeWhileD by metis
    with v show False by simp
  qed
qed

lemma bucket_meaning_new: "bucket_meaning [] (newHistogram bs)"
  by (simp add: bucket_meaning_def newHistogram_def del: replicate_Suc)

lemma bucket_meaning_Observe:
  assumes "bucket_meaning vs h"
  shows "bucket_meaning (v # vs) (Observe h v)"
  using assms search_bounds_le [of "h_bounds h" v]
  by (auto simp: bucket_meaning_def Observe_def Let_def nth_list_update)

lemma running_nth: "i < length cs \<Longrightarrow> running acc cs ! i = acc + sum_list (take (Suc i) cs)"
  by (induction acc cs arbitrary: i rule: running.induct) (auto simp: nth_Cons' take_Cons' add.assoc)

lemma length_running [simp]: "length (running acc cs) = length cs"
  by (induction acc cs rule: running.induct) auto

text \<open>Counting by index and summing up gives counting up to the index.\<close>

lemma sum_index_counts:
  fixes f :: "'a \<Rightarrow> nat"
  assumes "\<And>i. i < n \<Longrightarrow> cs ! i = (of_nat (length (filter (\<lambda>v. f v = i) vs)) :: 'w::len word)" and "n \<le> length cs"
  shows "sum_list (take n cs) = of_nat (length (filter (\<lambda>v. f v < n) vs))"
  using assms
proof (induction n)
  case (Suc n)
  have "length (filter (\<lambda>v. f v < Suc n) vs) = length (filter (\<lambda>v. f v < n) vs) + length (filter (\<lambda>v. f v = n) vs)"
    by (induction vs) (auto simp: less_Suc_eq)
  with Suc show ?case by (simp add: take_Suc_conv_app_nth)
qed simp

lemma observations_meaning: "bucket_meaning us h \<Longrightarrow> bucket_meaning (rev vs @ us) (foldl Observe h vs)"
  by (induction vs arbitrary: us h) (use bucket_meaning_Observe in fastforce)+

lemma h_bounds_foldl [simp]: "h_bounds (foldl Observe h vs) = h_bounds h"
  by (induction vs arbitrary: h) (simp_all add: Observe_def Let_def)

lemma length_filter_rev: "length (filter P (rev vs)) = length (filter P vs)"
  by (simp add: rev_filter [symmetric])

text \<open>C37: a scrape reads what happened. After any observations the histogram reports, for each bound, how many
  of them were at most that bound, and as count and sum their number and their sum, up to the wrap of
  the 64-bit counters: the buckets are cumulative, inclusive, and agree with the count.\<close>

theorem histogram_refines_multiset:
  assumes "i < length bounds"
  shows "(case snapshot (foldl Observe (newHistogram bounds) vs) of (cum, count, s) \<Rightarrow>
      cum ! i = of_nat (at_most vs (sort bounds ! i)) \<and> cum ! length bounds = count
      \<and> count = of_nat (length vs) \<and> s = sum_list vs)"
proof -
  define h where "h = foldl Observe (newHistogram bounds) vs"
  have m: "bucket_meaning (rev vs) h"
    unfolding h_def using observations_meaning [OF bucket_meaning_new] by simp
  have b: "h_bounds h = sort bounds" by (simp add: h_def newHistogram_def)
  from m b have len: "length (h_counts h) = length bounds + 1" by (simp add: bucket_meaning_def)
  have cum: "running 0 (h_counts h) ! k = of_nat (length (filter (\<lambda>v. search_bounds (sort bounds) v < Suc k) vs))"
    if "k \<le> length bounds" for k
  proof -
    have "sum_list (take (Suc k) (h_counts h))
        = of_nat (length (filter (\<lambda>v. search_bounds (sort bounds) v < Suc k) (rev vs)))"
      using m b that len by (intro sum_index_counts) (auto simp: bucket_meaning_def)
    with that len show ?thesis by (simp add: running_nth length_filter_rev)
  qed
  have "filter (\<lambda>v. search_bounds (sort bounds) v < Suc i) vs = filter (\<lambda>v. v \<le> sort bounds ! i) vs"
    using assms by (simp add: less_Suc_eq_le search_bounds_less_iff)
  moreover have "filter (\<lambda>v. search_bounds (sort bounds) v < Suc (length bounds)) vs = vs"
    using search_bounds_le [of "sort bounds"] by (simp add: less_Suc_eq_le)
  ultimately show ?thesis
    using cum [of i] cum [of "length bounds"] assms m
    by (simp add: snapshot_def at_most_def bucket_meaning_def h_def [symmetric] sum_list_rev)
qed

lemma histogram_refines_multiset_witness:
  "fst (snapshot (foldl Observe (newHistogram [5, 1]) [1, 7, 2])) ! 1 = of_nat (at_most [1, 7, 2] (sort [5, 1] ! 1))"
  using histogram_refines_multiset [of 1 "[5, 1]" "[1, 7, 2]"] by (simp add: case_prod_beta)

subsection \<open>Facts on vectors and labels\<close>

text \<open>A label value nobody registered lands in the shared child: no update grows the series set.\<close>

lemma vec_update_series:
  "map fst (v_children (vec_update v x f)) = map fst (v_children v) \<and> v_order (vec_update v x f) = v_order v"
proof (cases "map_of (v_children v) x")
  case (Some c)
  then have "x \<in> fst ` set (v_children v)" by (metis domIff dom_map_of_conv_image_fst option.distinct(1))
  with Some show ?thesis by (simp add: vec_update_def update_keys)
qed (simp add: vec_update_def)

lemma vec_update_other:
  assumes "x \<noteq> y" and "y \<in> fst ` set (v_children v)"
  shows "vec_With (vec_update v x f) y = vec_With v y"
proof -
  from assms(2) obtain c where "map_of (v_children v) y = Some c"
    by (metis domD dom_map_of_conv_image_fst)
  with assms(1) show ?thesis
    by (cases "map_of (v_children v) x") (simp_all add: vec_update_def vec_With_def map_of_update)
qed

fun unescape_label :: "bytes \<Rightarrow> bytes" where
  "unescape_label [] = []"
| "unescape_label [c] = [c]"
| "unescape_label (c # d # s) =
     (if c = CHR 0x5C then (if d = CHR ''n'' then CHR 0x0A else d) # unescape_label s
      else c # unescape_label (d # s))"

lemma unescape_plain: "x \<noteq> CHR 0x5C \<Longrightarrow> unescape_label (x # s) = x # unescape_label s"
  by (cases s) simp_all

lemma EscapeLabel_Cons: "EscapeLabel (c # s) = escape_label_char c @ EscapeLabel s"
  by (simp add: EscapeLabel_def)

lemma unescape_EscapeLabel: "unescape_label (EscapeLabel s) = s"
proof (induction s)
  case (Cons c s)
  consider "c = CHR 0x5C" | "c = CHR 0x22" | "c = CHR 0x0A" | "c \<noteq> CHR 0x5C" "c \<noteq> CHR 0x22" "c \<noteq> CHR 0x0A" by blast
  then show ?case
    by cases (simp_all add: EscapeLabel_Cons unescape_plain Cons)
qed (simp add: EscapeLabel_def)

lemma EscapeLabel_safe: "CHR 0x0A \<notin> set (EscapeLabel s)"
  by (auto simp: EscapeLabel_def)

end
