(* ===== verification/Decision.thy ===== *)
theory Decision
  imports Prelude Metrics
begin

text \<open>
  \<open>internal/gate/decision.go\<close> and \<open>internal/gate/metrics.go\<close>: the vocabulary for the rung that ended a
  request, with its label and its properties, and the counters the request path bumps.
\<close>

subsection \<open>Decisions\<close>

datatype decision =
    DecisionNonCanonicalPath | DecisionUnknownAuthority | DecisionOwnEndpoint | DecisionBypassPath | DecisionBypassIP
  | DecisionCORSPreflight | DecisionPassPoW | DecisionPassPaid | DecisionBypassCrawler | DecisionCrawlerVerificationUnavailable
  | DecisionCrawlerUnverified | DecisionBypassHosted | DecisionHostedRefusal | DecisionHostedUnverified | DecisionPaymentRequired
  | DecisionPayMethodRefused | DecisionPayUpgradeRefused | DecisionPayMalformed | DecisionPayUnidentified | DecisionPayUnoffered
  | DecisionPayReplay | DecisionPayStateUnavailable | DecisionPayInflight | DecisionPayRateLimited | DecisionPayPending
  | DecisionPayGrantFailed | DecisionPayGrantConflict | DecisionPayRejected | DecisionPayAmbiguous | DecisionPayInfra
  | DecisionWaitPage | DecisionRefusal

datatype decision_flag = FlagUpstream | FlagWalled

fun decision_String :: "decision \<Rightarrow> bytes" where
  "decision_String DecisionNonCanonicalPath = ''non-canonical-path''"
| "decision_String DecisionUnknownAuthority = ''unknown-authority''"
| "decision_String DecisionOwnEndpoint = ''own-endpoint''"
| "decision_String DecisionBypassPath = ''bypass-path''"
| "decision_String DecisionBypassIP = ''bypass-ip''"
| "decision_String DecisionCORSPreflight = ''cors-preflight''"
| "decision_String DecisionPassPoW = ''pass-pow''"
| "decision_String DecisionPassPaid = ''pass-paid''"
| "decision_String DecisionBypassCrawler = ''bypass-crawler''"
| "decision_String DecisionCrawlerVerificationUnavailable = ''crawler-verification-unavailable''"
| "decision_String DecisionCrawlerUnverified = ''crawler-unverified''"
| "decision_String DecisionBypassHosted = ''bypass-hosted''"
| "decision_String DecisionHostedRefusal = ''hosted-refusal''"
| "decision_String DecisionHostedUnverified = ''hosted-unverified''"
| "decision_String DecisionPaymentRequired = ''payment-required''"
| "decision_String DecisionPayMethodRefused = ''pay-method-refused''"
| "decision_String DecisionPayUpgradeRefused = ''pay-upgrade-refused''"
| "decision_String DecisionPayMalformed = ''pay-malformed''"
| "decision_String DecisionPayUnidentified = ''pay-unidentified''"
| "decision_String DecisionPayUnoffered = ''pay-unoffered''"
| "decision_String DecisionPayReplay = ''pay-replay''"
| "decision_String DecisionPayStateUnavailable = ''pay-state-unavailable''"
| "decision_String DecisionPayInflight = ''pay-inflight''"
| "decision_String DecisionPayRateLimited = ''pay-rate-limited''"
| "decision_String DecisionPayPending = ''pay-pending''"
| "decision_String DecisionPayGrantFailed = ''pay-grant-failed''"
| "decision_String DecisionPayGrantConflict = ''pay-grant-conflict''"
| "decision_String DecisionPayRejected = ''pay-rejected''"
| "decision_String DecisionPayAmbiguous = ''pay-ambiguous''"
| "decision_String DecisionPayInfra = ''pay-infra''"
| "decision_String DecisionWaitPage = ''wait-page''"
| "decision_String DecisionRefusal = ''refusal''"

fun decision_flags :: "decision \<Rightarrow> decision_flag list" where
  "decision_flags DecisionNonCanonicalPath = []"
| "decision_flags DecisionUnknownAuthority = []"
| "decision_flags DecisionOwnEndpoint = []"
| "decision_flags DecisionBypassPath = [FlagUpstream]"
| "decision_flags DecisionBypassIP = [FlagUpstream]"
| "decision_flags DecisionCORSPreflight = [FlagUpstream]"
| "decision_flags DecisionPassPoW = [FlagUpstream]"
| "decision_flags DecisionPassPaid = [FlagUpstream]"
| "decision_flags DecisionBypassCrawler = [FlagUpstream]"
| "decision_flags DecisionCrawlerVerificationUnavailable = []"
| "decision_flags DecisionCrawlerUnverified = [FlagWalled]"
| "decision_flags DecisionBypassHosted = [FlagUpstream]"
| "decision_flags DecisionHostedRefusal = [FlagWalled]"
| "decision_flags DecisionHostedUnverified = [FlagWalled]"
| "decision_flags DecisionPaymentRequired = [FlagWalled]"
| "decision_flags DecisionPayMethodRefused = []"
| "decision_flags DecisionPayUpgradeRefused = []"
| "decision_flags DecisionPayMalformed = []"
| "decision_flags DecisionPayUnidentified = []"
| "decision_flags DecisionPayUnoffered = []"
| "decision_flags DecisionPayReplay = []"
| "decision_flags DecisionPayStateUnavailable = []"
| "decision_flags DecisionPayInflight = []"
| "decision_flags DecisionPayRateLimited = []"
| "decision_flags DecisionPayPending = []"
| "decision_flags DecisionPayGrantFailed = []"
| "decision_flags DecisionPayGrantConflict = []"
| "decision_flags DecisionPayRejected = []"
| "decision_flags DecisionPayAmbiguous = []"
| "decision_flags DecisionPayInfra = []"
| "decision_flags DecisionWaitPage = [FlagWalled]"
| "decision_flags DecisionRefusal = [FlagWalled]"

definition upstream :: "decision \<Rightarrow> bool" where
  "upstream d \<longleftrightarrow> FlagUpstream \<in> set (decision_flags d)"

definition walled :: "decision \<Rightarrow> bool" where
  "walled d \<longleftrightarrow> FlagWalled \<in> set (decision_flags d)"

text \<open>All decisions in the order of the constants.\<close>

definition all_decisions :: "decision list" where
  "all_decisions =
     [DecisionNonCanonicalPath, DecisionUnknownAuthority, DecisionOwnEndpoint, DecisionBypassPath,
      DecisionBypassIP, DecisionCORSPreflight, DecisionPassPoW, DecisionPassPaid,
      DecisionBypassCrawler, DecisionCrawlerVerificationUnavailable, DecisionCrawlerUnverified, DecisionBypassHosted,
      DecisionHostedRefusal, DecisionHostedUnverified, DecisionPaymentRequired, DecisionPayMethodRefused,
      DecisionPayUpgradeRefused, DecisionPayMalformed, DecisionPayUnidentified, DecisionPayUnoffered,
      DecisionPayReplay, DecisionPayStateUnavailable, DecisionPayInflight, DecisionPayRateLimited,
      DecisionPayPending, DecisionPayGrantFailed, DecisionPayGrantConflict, DecisionPayRejected,
      DecisionPayAmbiguous, DecisionPayInfra, DecisionWaitPage, DecisionRefusal]"

definition decisionLabels :: "bytes list" where
  "decisionLabels = map decision_String all_decisions"

subsection \<open>The gate's metrics\<close>

definition solveBuckets :: "rat list" where
  "solveBuckets = [1/100, 1/20, 1/10, 1/4, 1/2, 1, 5/2, 5, 10, 30, 60]"

record gate_metrics =
  gm_requests :: "counter vec"
  gm_inFlight :: gauge
  gm_issued :: "counter vec"
  gm_answers :: "counter vec"
  gm_solveTime :: "histogram vec"
  gm_minted :: "counter vec"
  gm_paidValue :: counter
  gm_upstreamErr :: counter
  gm_challengeBytes :: counter
  gm_upstreamBytes :: counter
  gm_bytesTotal :: counter

definition newGateMetrics :: gate_metrics where
  "newGateMetrics =
     \<lparr>gm_requests = new_vec 0 ''decision'' decisionLabels, gm_inFlight = 0,
      gm_issued = new_vec 0 ''kind'' [''admit'', ''renew''],
      gm_answers = new_vec 0 ''outcome''
        [''ok_admit'', ''ok_renew'', ''malformed'', ''stale'', ''bad_pow'', ''window_elapsed'', ''error''],
      gm_solveTime = new_vec (newHistogram solveBuckets) ''kind'' [''admit'', ''renew''],
      gm_minted = new_vec 0 ''kind'' [''pow'', ''paid''],
      gm_paidValue = 0, gm_upstreamErr = 0, gm_challengeBytes = 0, gm_upstreamBytes = 0, gm_bytesTotal = 0\<rparr>"

definition countBytes :: "gate_metrics \<Rightarrow> decision \<Rightarrow> 64 word \<Rightarrow> gate_metrics" where
  "countBytes m d n =
     (let m = m\<lparr>gm_bytesTotal := counter_Add (gm_bytesTotal m) n\<rparr> in
      if upstream d then m\<lparr>gm_upstreamBytes := counter_Add (gm_upstreamBytes m) n\<rparr>
      else m\<lparr>gm_challengeBytes := counter_Add (gm_challengeBytes m) n\<rparr>)"

subsection \<open>Facts\<close>

lemma all_decisions_complete [simp]: "d \<in> set all_decisions"
  by (cases d) (simp_all add: all_decisions_def)

lemma decision_labels_distinct: "distinct decisionLabels"
  by code_simp

lemma upstream_decisions:
  "upstream d \<longleftrightarrow> d \<in> {DecisionBypassPath, DecisionBypassIP, DecisionCORSPreflight, DecisionPassPoW,
     DecisionPassPaid, DecisionBypassCrawler, DecisionBypassHosted}"
  by (cases d) (simp_all add: upstream_def)

lemma upstream_not_walled: "upstream d \<Longrightarrow> \<not> walled d"
  by (cases d) (simp_all add: upstream_def walled_def)

text \<open>The two sides of the byte split always add up to the total.\<close>

definition bytes_split :: "gate_metrics \<Rightarrow> bool" where
  "bytes_split m \<longleftrightarrow> gm_bytesTotal m = gm_challengeBytes m + gm_upstreamBytes m"

lemma bytes_split_new: "bytes_split newGateMetrics"
  by (simp add: bytes_split_def newGateMetrics_def)

lemma bytes_split_count [frame]: "bytes_split m \<Longrightarrow> bytes_split (countBytes m d n)"
  by (simp add: bytes_split_def countBytes_def Let_def counter_Add_def)

text \<open>No request is counted under the shared label: every decision has a child of its own.\<close>

lemma requests_registered: "decision_String d \<in> fst ` set (v_children (gm_requests newGateMetrics))"
  by (simp add: newGateMetrics_def new_vec_def decisionLabels_def image_image)

end
