(* ===== verification/GrantStore.thy ===== *)
theory GrantStore
  imports Token
begin

text \<open>
  \<open>internal/payment/store.go\<close>: the durable record of settled payments. The bbolt file is
  third-party code: the model keeps what the store relies on, a map from payment IDs to record
  bytes that a transaction reads and changes atomically. \<open>open_ok\<close> and \<open>commit_ok\<close> say whether
  opening the file and committing the transaction succeeded; a failed commit leaves the map
  unchanged. Any number of processes share one map. The random bytes of a lease are an input.
\<close>

definition paymentLease :: duration where
  "paymentLease = 30 * second"

record grant =
  g_Scope :: bytes
  g_Audience :: bytes
  g_Payer :: bytes
  g_Transaction :: bytes
  g_Amount :: bytes
  g_Network :: bytes
  g_ExpiresAt :: int

record grant_record =
  gr_Lease :: bytes
  gr_PendingUntil :: int
  gr_Grant :: "grant option"

datatype begin_result = BeginNew | BeginInFlight | BeginRecoverable | BeginSpent

datatype store_error =
    StoreEmptyPath
  | StoreOpen
  | StoreCommit
  | StoreEmptyID
  | StoreCorrupt
  | StoreLeaseEntropy
  | StoreIncompleteGrant
  | StoreDisappeared
  | StoreChanged

type_synonym grants_bucket = "bytes \<rightharpoonup> bytes"

definition validateGrant :: "grant \<Rightarrow> store_error option" where
  "validateGrant g =
     (if g_Scope g = [] \<or> g_Audience g = [] \<or> g_Transaction g = [] \<or> g_Network g = [] \<or> g_ExpiresAt g \<le> 0
      then Some StoreIncompleteGrant else None)"

subsection \<open>Record bytes\<close>

definition grant_json :: "grant \<Rightarrow> json" where
  "grant_json g = JObj
     ([(''scope'', JStr (g_Scope g)), (''audience'', JStr (g_Audience g))] @ opt_str ''payer'' (g_Payer g)
      @ [(''transaction'', JStr (g_Transaction g))] @ opt_str ''amount'' (g_Amount g)
      @ [(''network'', JStr (g_Network g)), (''expires_at'', JNum (show_int (g_ExpiresAt g)))])"

definition grant_record_json :: "grant_record \<Rightarrow> json" where
  "grant_record_json r = JObj
     (opt_str ''lease'' (gr_Lease r) @ opt_int ''pending_until'' (gr_PendingUntil r)
      @ (case gr_Grant r of None \<Rightarrow> [] | Some g \<Rightarrow> [(''grant'', grant_json g)]))"

definition encodeGrantRecord :: "grant_record \<Rightarrow> bytes" where
  "encodeGrantRecord r = json_print (grant_record_json r)"

definition zero_grant :: grant where
  "zero_grant = \<lparr>g_Scope = [], g_Audience = [], g_Payer = [], g_Transaction = [], g_Amount = [],
     g_Network = [], g_ExpiresAt = 0\<rparr>"

definition dec_grant :: "grant \<Rightarrow> (bytes \<times> json) list \<Rightarrow> grant option" where
  "dec_grant g ms =
     (case (dec_string (g_Scope g) (obj_values ''scope'' ms), dec_string (g_Audience g) (obj_values ''audience'' ms),
            dec_string (g_Payer g) (obj_values ''payer'' ms), dec_string (g_Transaction g) (obj_values ''transaction'' ms),
            dec_string (g_Amount g) (obj_values ''amount'' ms), dec_string (g_Network g) (obj_values ''network'' ms),
            dec_int64 (g_ExpiresAt g) (obj_values ''expires_at'' ms)) of
        (Some s, Some a, Some p, Some t, Some m, Some n, Some e) \<Rightarrow>
          Some \<lparr>g_Scope = s, g_Audience = a, g_Payer = p, g_Transaction = t, g_Amount = m, g_Network = n,
                g_ExpiresAt = e\<rparr>
      | _ \<Rightarrow> None)"

fun dec_grant_ptr :: "grant option \<Rightarrow> json list \<Rightarrow> grant option option" where
  "dec_grant_ptr g [] = Some g"
| "dec_grant_ptr g (JNull # js) = dec_grant_ptr None js"
| "dec_grant_ptr g (JObj ms # js) =
     (case dec_grant (case g of None \<Rightarrow> zero_grant | Some g \<Rightarrow> g) ms of
        None \<Rightarrow> None
      | Some g' \<Rightarrow> dec_grant_ptr (Some g') js)"
| "dec_grant_ptr g (_ # js) = None"

definition unmarshal_record :: "bytes \<Rightarrow> grant_record option" where
  "unmarshal_record raw =
     (case json_parse raw of
        Some JNull \<Rightarrow> Some \<lparr>gr_Lease = [], gr_PendingUntil = 0, gr_Grant = None\<rparr>
      | Some (JObj ms) \<Rightarrow>
         (case (dec_string [] (obj_values ''lease'' ms), dec_int64 0 (obj_values ''pending_until'' ms),
                dec_grant_ptr None (obj_values ''grant'' ms)) of
            (Some l, Some p, Some g) \<Rightarrow> Some \<lparr>gr_Lease = l, gr_PendingUntil = p, gr_Grant = g\<rparr>
          | _ \<Rightarrow> None)
      | _ \<Rightarrow> None)"

definition decodeGrantRecord :: "bytes \<Rightarrow> store_error + grant_record" where
  "decodeGrantRecord raw =
     (case unmarshal_record raw of
        None \<Rightarrow> Inl StoreCorrupt
      | Some rec \<Rightarrow>
         (case gr_Grant rec of
            Some g \<Rightarrow>
              if gr_Lease rec \<noteq> [] \<or> gr_PendingUntil rec \<noteq> 0 then Inl StoreCorrupt
              else if validateGrant g \<noteq> None then Inl StoreCorrupt
              else Inr rec
          | None \<Rightarrow>
              if gr_Lease rec = [] \<or> gr_PendingUntil rec \<le> 0 then Inl StoreCorrupt
              else Inr rec))"

subsection \<open>The operations\<close>

text \<open>
  \<open>update\<close> runs a transaction: the function gives an error or a result and the new map. A
  failed function rolls back.
\<close>

record store_io =
  open_ok :: bool
  commit_ok :: bool

definition store_update ::
  "store_io \<Rightarrow> (grants_bucket \<Rightarrow> store_error + ('a \<times> grants_bucket)) \<Rightarrow> grants_bucket
     \<Rightarrow> (store_error + 'a) \<times> grants_bucket" where
  "store_update io fn db =
     (if \<not> open_ok io then (Inl StoreOpen, db)
      else
        (case fn db of
           Inl e \<Rightarrow> (Inl e, db)
         | Inr (r, db') \<Rightarrow> if commit_ok io then (Inr r, db') else (Inl StoreCommit, db)))"

definition NewGrantStore :: "store_io \<Rightarrow> bytes \<Rightarrow> grants_bucket \<Rightarrow> (store_error + unit) \<times> grants_bucket" where
  "NewGrantStore io path db =
     (if path = [] then (Inl StoreEmptyPath, db) else store_update io (\<lambda>b. Inr ((), b)) db)"

definition newLease :: "bytes option \<Rightarrow> store_error + bytes" where
  "newLease rnd =
     (case rnd of None \<Rightarrow> Inl StoreLeaseEntropy | Some r \<Rightarrow> Inr (b64_encode RawURLEncoding r))"

text \<open>The result, the new lease (empty unless the result is \<open>BeginNew\<close>) and the existing grant.\<close>

definition begin_fn ::
  "time \<Rightarrow> bytes option \<Rightarrow> bytes \<Rightarrow> grants_bucket
     \<Rightarrow> store_error + ((begin_result \<times> bytes \<times> grant option) \<times> grants_bucket)" where
  "begin_fn now rnd pid b =
     (let reserve =
        (case newLease rnd of
           Inl e \<Rightarrow> Inl e
         | Inr lease \<Rightarrow>
            Inr ((BeginNew, lease, None),
                 b(pid \<mapsto> encodeGrantRecord \<lparr>gr_Lease = lease, gr_PendingUntil = now + paymentLease, gr_Grant = None\<rparr>)))
      in (case b pid of
            None \<Rightarrow> reserve
          | Some raw \<Rightarrow>
             (case decodeGrantRecord raw of
                Inl e \<Rightarrow> Inl e
              | Inr rec \<Rightarrow>
                 (case gr_Grant rec of
                    Some g \<Rightarrow>
                      Inr ((if time_unix now < g_ExpiresAt g then BeginRecoverable else BeginSpent, [], Some g), b)
                  | None \<Rightarrow>
                      if now < gr_PendingUntil rec then Inr ((BeginInFlight, [], None), b)
                      else reserve))))"

definition store_Begin ::
  "store_io \<Rightarrow> time \<Rightarrow> bytes option \<Rightarrow> bytes \<Rightarrow> grants_bucket
     \<Rightarrow> (store_error + (begin_result \<times> bytes \<times> grant option)) \<times> grants_bucket" where
  "store_Begin io now rnd pid db =
     (if pid = [] then (Inl StoreEmptyID, db) else store_update io (begin_fn now rnd pid) db)"

definition release_fn :: "bytes \<Rightarrow> bytes \<Rightarrow> grants_bucket \<Rightarrow> store_error + (unit \<times> grants_bucket)" where
  "release_fn pid lease b =
     (case b pid of
        None \<Rightarrow> Inr ((), b)
      | Some raw \<Rightarrow>
         (case decodeGrantRecord raw of
            Inl e \<Rightarrow> Inl e
          | Inr rec \<Rightarrow>
             if gr_Grant rec = None \<and> gr_Lease rec = lease then Inr ((), b(pid := None)) else Inr ((), b)))"

definition store_Release :: "store_io \<Rightarrow> bytes \<Rightarrow> bytes \<Rightarrow> grants_bucket \<Rightarrow> (store_error + unit) \<times> grants_bucket" where
  "store_Release io pid lease db =
     (if lease = [] then (Inr (), db) else store_update io (release_fn pid lease) db)"

definition commit_fn ::
  "bytes \<Rightarrow> bytes \<Rightarrow> grant \<Rightarrow> grants_bucket \<Rightarrow> store_error + ((grant \<times> bool) \<times> grants_bucket)" where
  "commit_fn pid lease g b =
     (case b pid of
        None \<Rightarrow> Inl StoreDisappeared
      | Some raw \<Rightarrow>
         (case decodeGrantRecord raw of
            Inl e \<Rightarrow> Inl e
          | Inr rec \<Rightarrow>
             (case gr_Grant rec of
                Some g' \<Rightarrow> Inr ((g', False), b)
              | None \<Rightarrow>
                  if lease = [] \<or> gr_Lease rec \<noteq> lease then Inl StoreChanged
                  else Inr ((g, True),
                        b(pid \<mapsto> encodeGrantRecord \<lparr>gr_Lease = [], gr_PendingUntil = 0, gr_Grant = Some g\<rparr>)))))"

text \<open>\<open>Commit\<close> gives the grant that counts and whether this call created it.\<close>

definition store_Commit ::
  "store_io \<Rightarrow> bytes \<Rightarrow> bytes \<Rightarrow> grant \<Rightarrow> grants_bucket \<Rightarrow> (store_error + (grant \<times> bool)) \<times> grants_bucket" where
  "store_Commit io pid lease g db =
     (if validateGrant g \<noteq> None then (Inl StoreIncompleteGrant, db)
      else store_update io (commit_fn pid lease g) db)"

subsection \<open>Record bytes are read back\<close>

definition grant_wf :: "grant \<Rightarrow> bool" where
  "grant_wf g \<longleftrightarrow>
     ascii_string (g_Scope g) \<and> ascii_string (g_Audience g) \<and> ascii_string (g_Payer g)
     \<and> ascii_string (g_Transaction g) \<and> ascii_string (g_Amount g) \<and> ascii_string (g_Network g)
     \<and> in_int64 (g_ExpiresAt g) \<and> validateGrant g = None"

definition record_wf :: "grant_record \<Rightarrow> bool" where
  "record_wf r \<longleftrightarrow>
     ascii_string (gr_Lease r) \<and> in_int64 (gr_PendingUntil r)
     \<and> (case gr_Grant r of
          None \<Rightarrow> gr_Lease r \<noteq> [] \<and> 0 < gr_PendingUntil r
        | Some g \<Rightarrow> gr_Lease r = [] \<and> gr_PendingUntil r = 0 \<and> grant_wf g)"

lemma grant_fields_lower:
  "to_lower ''transaction'' = ''transaction''" "to_lower ''network'' = ''network''"
  "to_lower ''audience'' = ''audience''" "to_lower ''amount'' = ''amount''"
  "to_lower ''expires_at'' = ''expires_at''" "to_lower ''lease'' = ''lease''"
  "to_lower ''pending_until'' = ''pending_until''" "to_lower ''grant'' = ''grant''"
  by code_simp+

lemma grant_json_ok: "grant_wf g \<Longrightarrow> json_ok (grant_json g)"
  by (simp add: grant_json_def grant_wf_def int_lit_show_int ascii_chars)

lemma dec_grant_json:
  assumes "grant_wf g" and "grant_json g = JObj ms" shows "dec_grant zero_grant ms = Some g"
  using assms
  by (auto simp: grant_json_def dec_grant_def zero_grant_def grant_wf_def equal_fold_def pass_fields_lower
      grant_fields_lower simp del: dec_int64.simps)

lemma record_json_ok: "record_wf r \<Longrightarrow> json_ok (grant_record_json r)"
  by (auto simp: grant_record_json_def record_wf_def grant_json_ok ascii_chars split: option.splits)

lemma record_json_flat: "json_depth (grant_record_json r) \<le> maxNestingDepth"
  by (simp add: grant_record_json_def grant_json_def opt_str_def opt_int_def split: option.split)

lemma in_int64_0 [simp]: "in_int64 0"
  by (simp add: in_int64_def min_int64_def max_int64_def)

lemma unmarshal_encode: "record_wf r \<Longrightarrow> unmarshal_record (encodeGrantRecord r) = Some r"
proof -
  assume wf: "record_wf r"
  have p: "json_parse (encodeGrantRecord r) = Some (grant_record_json r)"
    unfolding encodeGrantRecord_def by (rule json_parse_print [OF record_json_ok [OF wf] record_json_flat])
  show ?thesis
  proof (cases "gr_Grant r")
    case None
    with wf p show ?thesis
      by (simp add: unmarshal_record_def grant_record_json_def equal_fold_def grant_fields_lower record_wf_def
          del: dec_int64.simps)
  next
    case (Some g)
    obtain ms where ms: "grant_json g = JObj ms" by (simp add: grant_json_def)
    have "grant_wf g" using wf Some by (simp add: record_wf_def)
    with dec_grant_json [OF this ms] wf p Some show ?thesis
      by (cases r) (simp add: unmarshal_record_def grant_record_json_def equal_fold_def grant_fields_lower record_wf_def ms
          del: dec_int64.simps)
  qed
qed

lemma decode_encode: "record_wf r \<Longrightarrow> decodeGrantRecord (encodeGrantRecord r) = Inr r"
  by (auto simp: decodeGrantRecord_def unmarshal_encode record_wf_def grant_wf_def split: option.splits)

definition record_read :: "bytes \<Rightarrow> grant_record option" where
  "record_read raw = (case decodeGrantRecord raw of Inl _ \<Rightarrow> None | Inr r \<Rightarrow> Some r)"

interpretation record_codec: codec encodeGrantRecord record_read record_wf
  by unfold_locales (simp add: record_read_def decode_encode)

subsection \<open>What a ledger of claims promises\<close>

text \<open>The abstract state of one payment ID.\<close>

datatype claim =
    Free
  | Reserved bytes int  \<comment> \<open>the lease and when it lapses\<close>
  | Granted grant
  | Corrupt

definition claim_open :: "time \<Rightarrow> claim \<Rightarrow> bool" where
  "claim_open now c \<longleftrightarrow> c = Free \<or> (\<exists>l u. c = Reserved l u \<and> u \<le> now)"

datatype ledger_event =
    LBegin bytes begin_result bytes
  | LRelease bytes bytes
  | LCommit bytes grant bool
  | LFailed bytes

text \<open>How many commits created a grant for \<open>p\<close>.\<close>

definition creations :: "bytes \<Rightarrow> ledger_event list \<Rightarrow> nat" where
  "creations p es = length (filter (\<lambda>e. \<exists>g. e = LCommit p g True) es)"

lemma creations_simps [simp]:
  "creations p [] = 0"
  "creations p (LBegin q b l # es) = creations p es"
  "creations p (LRelease q l # es) = creations p es"
  "creations p (LFailed q # es) = creations p es"
  "creations p (LCommit q g c # es) = (if q = p \<and> c then 1 else 0) + creations p es"
  by (auto simp: creations_def)

lemma creations_none: "(\<forall>h c. LCommit p h c \<in> set es \<longrightarrow> h = g \<and> \<not> c) \<Longrightarrow> creations p es = 0"
  by (auto simp: creations_def filter_empty_conv)

text \<open>A run of operations by any processes, in the order in which their transactions commit.\<close>

inductive ledger_run ::
  "('io \<Rightarrow> time \<Rightarrow> 'rnd \<Rightarrow> bytes \<Rightarrow> 'db \<Rightarrow> ('e + (begin_result \<times> bytes \<times> grant option)) \<times> 'db)
   \<Rightarrow> ('io \<Rightarrow> bytes \<Rightarrow> bytes \<Rightarrow> 'db \<Rightarrow> ('e + unit) \<times> 'db)
   \<Rightarrow> ('io \<Rightarrow> bytes \<Rightarrow> bytes \<Rightarrow> grant \<Rightarrow> 'db \<Rightarrow> ('e + (grant \<times> bool)) \<times> 'db)
   \<Rightarrow> (time \<Rightarrow> 'rnd \<Rightarrow> bool) \<Rightarrow> (grant \<Rightarrow> bool)
   \<Rightarrow> 'db \<Rightarrow> ledger_event list \<Rightarrow> 'db \<Rightarrow> bool"
  for begin_op release_op commit_op begin_ok grant_ok where
  run_nil: "ledger_run begin_op release_op commit_op begin_ok grant_ok db [] db"
| run_begin: "begin_ok now rnd \<Longrightarrow> begin_op io now rnd p db = (r, db') \<Longrightarrow>
    ledger_run begin_op release_op commit_op begin_ok grant_ok db' es db'' \<Longrightarrow>
    ledger_run begin_op release_op commit_op begin_ok grant_ok db
      ((case r of Inl _ \<Rightarrow> LFailed p | Inr (b, l, _) \<Rightarrow> LBegin p b l) # es) db''"
| run_release: "release_op io p l db = (r, db') \<Longrightarrow>
    ledger_run begin_op release_op commit_op begin_ok grant_ok db' es db'' \<Longrightarrow>
    ledger_run begin_op release_op commit_op begin_ok grant_ok db (LRelease p l # es) db''"
| run_commit: "grant_ok g \<Longrightarrow> commit_op io p l g db = (r, db') \<Longrightarrow>
    ledger_run begin_op release_op commit_op begin_ok grant_ok db' es db'' \<Longrightarrow>
    ledger_run begin_op release_op commit_op begin_ok grant_ok db
      ((case r of Inl _ \<Rightarrow> LFailed p | Inr (g', c) \<Rightarrow> LCommit p g' c) # es) db''"

locale grant_ledger =
  fixes view :: "'db \<Rightarrow> bytes \<Rightarrow> claim"
    and begin_op :: "'io \<Rightarrow> time \<Rightarrow> 'rnd \<Rightarrow> bytes \<Rightarrow> 'db \<Rightarrow> ('e + (begin_result \<times> bytes \<times> grant option)) \<times> 'db"
    and release_op :: "'io \<Rightarrow> bytes \<Rightarrow> bytes \<Rightarrow> 'db \<Rightarrow> ('e + unit) \<times> 'db"
    and commit_op :: "'io \<Rightarrow> bytes \<Rightarrow> bytes \<Rightarrow> grant \<Rightarrow> 'db \<Rightarrow> ('e + (grant \<times> bool)) \<times> 'db"
    and begin_ok :: "time \<Rightarrow> 'rnd \<Rightarrow> bool"
    and grant_ok :: "grant \<Rightarrow> bool"
  assumes begin_new: "begin_ok now rnd \<Longrightarrow> begin_op io now rnd p db = (Inr (BeginNew, l, x), db') \<Longrightarrow>
      l \<noteq> [] \<and> claim_open now (view db p) \<and> view db' = (view db)(p := Reserved l (now + paymentLease))"
    and begin_old: "begin_op io now rnd p db = (r, db') \<Longrightarrow> \<forall>l x. r \<noteq> Inr (BeginNew, l, x) \<Longrightarrow> view db' = view db"
    and begin_granted: "begin_op io now rnd p db = (Inr (b, l, Some g), db') \<Longrightarrow> view db p = Granted g"
    and begin_recoverable: "begin_op io now rnd p db = (Inr (BeginRecoverable, l, x), db') \<Longrightarrow>
      \<exists>g. x = Some g \<and> time_unix now < g_ExpiresAt g"
    and release_view: "release_op io p l db = (rel, db') \<Longrightarrow>
      view db' = view db \<or> (l \<noteq> [] \<and> (\<exists>u. view db p = Reserved l u) \<and> view db' = (view db)(p := Free))"
    and commit_new: "grant_ok g \<Longrightarrow> commit_op io p l g db = (Inr (g', True), db') \<Longrightarrow>
      g' = g \<and> l \<noteq> [] \<and> (\<exists>u. view db p = Reserved l u) \<and> view db' = (view db)(p := Granted g)"
    and commit_old: "commit_op io p l g db = (Inr (g', False), db') \<Longrightarrow> view db p = Granted g' \<and> view db' = view db"
    and commit_failed: "commit_op io p l g db = (Inl e, db') \<Longrightarrow> view db' = view db"
begin

lemma begin_keeps_granted:
  assumes "begin_ok now rnd" "begin_op io now rnd p db = (r, db')" "view db q = Granted g"
  shows "view db' q = Granted g"
proof (cases "\<exists>l x. r = Inr (BeginNew, l, x)")
  case True
  then obtain l x where r: "r = Inr (BeginNew, l, x)" by blast
  from begin_new [OF assms(1) assms(2) [unfolded r]] assms(3) show ?thesis by (auto simp: claim_open_def)
next
  case False
  with begin_old [OF assms(2)] assms(3) show ?thesis by simp
qed

lemma release_keeps_granted:
  "release_op io p l db = (r, db') \<Longrightarrow> view db q = Granted g \<Longrightarrow> view db' q = Granted g"
  using release_view [of io p l db _ db'] by fastforce

lemma commit_keeps_granted:
  assumes "grant_ok g'" "commit_op io p l g' db = (r, db')" "view db q = Granted g"
  shows "view db' q = Granted g \<and> (p = q \<longrightarrow> (\<forall>h c. r = Inr (h, c) \<longrightarrow> h = g \<and> \<not> c))"
proof (cases r)
  case (Inl e)
  with commit_failed assms(2,3) show ?thesis by auto
next
  case (Inr hc)
  obtain h c where hc: "hc = (h, c)" by (cases hc)
  show ?thesis
  proof (cases c)
    case True
    with commit_new [OF assms(1), of io p l db h db'] assms(2,3) Inr hc show ?thesis by auto
  next
    case False
    with commit_old [of io p l g' db h db'] assms(2,3) Inr hc show ?thesis by auto
  qed
qed

abbreviation run :: "'db \<Rightarrow> ledger_event list \<Rightarrow> 'db \<Rightarrow> bool" where
  "run \<equiv> ledger_run begin_op release_op commit_op begin_ok grant_ok"

lemma granted_forever:
  "run db es db' \<Longrightarrow> view db p = Granted g \<Longrightarrow>
     view db' p = Granted g \<and> (\<forall>h c. LCommit p h c \<in> set es \<longrightarrow> h = g \<and> \<not> c)
     \<and> (\<forall>l. LBegin p BeginNew l \<notin> set es)"
proof (induction rule: ledger_run.induct)
  case (run_begin now rnd io q db r db' es db'')
  have "r \<noteq> Inr (BeginNew, l, x) \<or> q \<noteq> p" for l x
    using begin_new [OF run_begin(1), of io q db l x db'] run_begin(2,5) by (auto simp: claim_open_def)
  then show ?case using begin_keeps_granted [OF run_begin(1,2,5)] run_begin(4)
    by (auto split: sum.splits prod.splits)
next
  case (run_release io q l db r db' es db'')
  then show ?case using release_keeps_granted [OF run_release(1)] by auto
next
  case (run_commit h io q l db r db' es db'')
  then show ?case using commit_keeps_granted [OF run_commit(1,2,5)] by (auto split: sum.splits prod.splits)
qed simp

lemma commit_settles:
  assumes "grant_ok g" "commit_op io p l g db = (Inr (h, c), db')" shows "view db' p = Granted h"
proof (cases c)
  case True
  with commit_new [OF assms(1)] assms(2) show ?thesis by fastforce
next
  case False
  with commit_old assms(2) show ?thesis by fastforce
qed

lemma created_once:
  "run db es db' \<Longrightarrow>
     creations p es \<le> 1 \<and> (\<forall>h c h' c'. LCommit p h c \<in> set es \<longrightarrow> LCommit p h' c' \<in> set es \<longrightarrow> h = h')"
proof (induction rule: ledger_run.induct)
  case (run_begin now rnd io q db r db' es db'')
  then show ?case by (auto split: sum.splits prod.splits)
next
  case (run_commit g io q l db r db' es db'')
  show ?case
  proof (cases "\<exists>h c. r = Inr (h, c) \<and> q = p")
    case True
    then obtain h c where r: "r = Inr (h, c)" "q = p" by blast
    have v: "view db' p = Granted h" using commit_settles run_commit(1,2) r by blast
    note later = granted_forever [OF run_commit(3) v, THEN conjunct2, THEN conjunct1]
    from creations_none [OF later] later r show ?thesis by auto
  next
    case False
    with run_commit(4) show ?thesis by (auto split: sum.splits prod.splits)
  qed
qed auto

end

subsection \<open>The store is a ledger\<close>

definition store_view :: "grants_bucket \<Rightarrow> bytes \<Rightarrow> claim" where
  "store_view db p =
     (case db p of
        None \<Rightarrow> Free
      | Some raw \<Rightarrow>
         (case decodeGrantRecord raw of
            Inl _ \<Rightarrow> Corrupt
          | Inr rec \<Rightarrow>
             (case gr_Grant rec of
                Some g \<Rightarrow> Granted g
              | None \<Rightarrow> Reserved (gr_Lease rec) (gr_PendingUntil rec))))"

definition store_begin_ok :: "time \<Rightarrow> bytes option \<Rightarrow> bool" where
  "store_begin_ok now rnd \<longleftrightarrow> 0 < now \<and> now + paymentLease \<le> max_int64 \<and> rnd \<noteq> Some []"

lemma store_view_upd:
  "record_wf r \<Longrightarrow> store_view (db(p \<mapsto> encodeGrantRecord r)) =
     (store_view db)(p := (case gr_Grant r of Some g \<Rightarrow> Granted g | None \<Rightarrow> Reserved (gr_Lease r) (gr_PendingUntil r)))"
  by (rule ext) (simp add: store_view_def decode_encode)

lemma store_view_del: "store_view (db(p := None)) = (store_view db)(p := Free)"
  by (rule ext) (simp add: store_view_def)

lemma b64_encode_Nil: "b64_encode e [] = []"
  by (simp add: b64_encode_def)

lemma reserve_record_wf:
  "store_begin_ok now (Some r) \<Longrightarrow>
     record_wf \<lparr>gr_Lease = b64_encode RawURLEncoding r, gr_PendingUntil = now + paymentLease, gr_Grant = None\<rparr>"
  using b64_encode_inject [of RawURLEncoding r "[]"]
  by (auto simp: store_begin_ok_def record_wf_def b64_encode_ascii in_int64_def min_int64_def paymentLease_def
      second_def b64_encode_Nil)

lemma grant_record_wf: "grant_wf g \<Longrightarrow> record_wf \<lparr>gr_Lease = [], gr_PendingUntil = 0, gr_Grant = Some g\<rparr>"
  by (simp add: record_wf_def)

lemma store_update_cases:
  assumes "store_update io fn db = (r, db')"
  obtains (fail) e where "r = Inl e" "db' = db" | (ok) x where "fn db = Inr (x, db')" "r = Inr x"
  using assms by (auto simp: store_update_def split: if_splits sum.splits prod.splits)

lemma begin_fn_cases:
  assumes "begin_fn now rnd p b = Inr (x, b')"
  shows "(\<exists>r. x = (BeginNew, b64_encode RawURLEncoding r, None) \<and> rnd = Some r \<and> claim_open now (store_view b p)
      \<and> b' = b(p \<mapsto> encodeGrantRecord \<lparr>gr_Lease = b64_encode RawURLEncoding r, gr_PendingUntil = now + paymentLease, gr_Grant = None\<rparr>))
    \<or> (\<exists>g. x = (if time_unix now < g_ExpiresAt g then BeginRecoverable else BeginSpent, [], Some g)
        \<and> store_view b p = Granted g \<and> b' = b)
    \<or> (x = (BeginInFlight, [], None) \<and> b' = b)"
proof (cases "b p")
  case None
  then show ?thesis using assms
    by (auto simp: begin_fn_def newLease_def store_view_def claim_open_def split: option.splits)
next
  case (Some raw)
  obtain rec where rec: "decodeGrantRecord raw = Inr rec"
    using assms Some by (auto simp: begin_fn_def)
  show ?thesis
  proof (cases "gr_Grant rec")
    case None
    then show ?thesis using assms Some rec
      by (auto simp: begin_fn_def newLease_def store_view_def claim_open_def split: option.splits if_splits)
  next
    case (Some g)
    then show ?thesis using assms \<open>b p = Some raw\<close> rec
      by (auto simp: begin_fn_def store_view_def)
  qed
qed

lemma store_Begin_cases:
  assumes "store_Begin io now rnd p db = (r, db')"
  shows "(\<exists>e. r = Inl e \<and> db' = db) \<or> (\<exists>x. r = Inr x \<and> begin_fn now rnd p db = Inr (x, db'))"
  using assms by (auto simp: store_Begin_def elim: store_update_cases split: if_splits)

lemma store_Commit_cases:
  assumes "store_Commit io p l g db = (r, db')"
  shows "(\<exists>e. r = Inl e \<and> db' = db)
    \<or> (r = Inr (g, True) \<and> l \<noteq> [] \<and> (\<exists>u. store_view db p = Reserved l u)
        \<and> db' = db(p \<mapsto> encodeGrantRecord \<lparr>gr_Lease = [], gr_PendingUntil = 0, gr_Grant = Some g\<rparr>))
    \<or> (\<exists>g'. r = Inr (g', False) \<and> store_view db p = Granted g' \<and> db' = db)"
proof (cases "\<exists>x. r = Inr x")
  case True
  then obtain x where x: "r = Inr x" "commit_fn p l g db = Inr (x, db')"
    using assms by (auto simp: store_Commit_def elim: store_update_cases split: if_splits)
  then obtain raw rec where rec: "db p = Some raw" "decodeGrantRecord raw = Inr rec"
    by (auto simp: commit_fn_def)
  show ?thesis
    using x rec by (cases "gr_Grant rec") (auto simp: commit_fn_def store_view_def)
next
  case False
  then obtain e where "r = Inl e" by (cases r) auto
  then show ?thesis using assms
    by (auto simp: store_Commit_def elim: store_update_cases split: if_splits)
qed

lemma store_Release_cases:
  assumes "store_Release io p l db = (r, db')"
  shows "db' = db \<or> (l \<noteq> [] \<and> (\<exists>u. store_view db p = Reserved l u) \<and> db' = db(p := None))"
proof (cases "l = [] \<or> (\<exists>e. r = Inl e)")
  case True
  then show ?thesis using assms by (auto simp: store_Release_def elim: store_update_cases split: if_splits)
next
  case False
  then have "release_fn p l db = Inr ((), db')" "l \<noteq> []"
    using assms by (auto simp: store_Release_def elim: store_update_cases split: if_splits)
  then show ?thesis
    by (auto simp: release_fn_def store_view_def split: option.splits if_splits)
qed

interpretation gs: grant_ledger store_view store_Begin store_Release store_Commit store_begin_ok grant_wf
proof
  fix now :: time and rnd io p db l x db'
  assume ok: "store_begin_ok now rnd" and b: "store_Begin io now rnd p db = (Inr (BeginNew, l, x), db')"
  from store_Begin_cases [OF b] have "begin_fn now rnd p db = Inr ((BeginNew, l, x), db')" by auto
  from begin_fn_cases [OF this] obtain r where r: "l = b64_encode RawURLEncoding r" "rnd = Some r"
    "claim_open now (store_view db p)"
    "db' = db(p \<mapsto> encodeGrantRecord \<lparr>gr_Lease = l, gr_PendingUntil = now + paymentLease, gr_Grant = None\<rparr>)"
    by (auto split: if_splits)
  from reserve_record_wf [of now r] ok r(2) have wf: "record_wf \<lparr>gr_Lease = l, gr_PendingUntil = now + paymentLease, gr_Grant = None\<rparr>"
    by (simp add: r(1))
  then show "l \<noteq> [] \<and> claim_open now (store_view db p)
      \<and> store_view db' = (store_view db)(p := Reserved l (now + paymentLease))"
    using r(3,4) store_view_upd [OF wf] by (simp add: record_wf_def)
next
  fix io now rnd p db r db'
  assume b: "store_Begin io now rnd p db = (r, db')" and n: "\<forall>l x. r \<noteq> Inr (BeginNew, l, x)"
  from store_Begin_cases [OF b] n begin_fn_cases show "store_view db' = store_view db" by fastforce
next
  fix io now rnd p db b l g db'
  assume "store_Begin io now rnd p db = (Inr (b, l, Some g), db')"
  from store_Begin_cases [OF this] have "begin_fn now rnd p db = Inr ((b, l, Some g), db')" by auto
  from begin_fn_cases [OF this] show "store_view db p = Granted g" by auto
next
  fix io now rnd p db l x db'
  assume "store_Begin io now rnd p db = (Inr (BeginRecoverable, l, x), db')"
  from store_Begin_cases [OF this] have "begin_fn now rnd p db = Inr ((BeginRecoverable, l, x), db')" by auto
  from begin_fn_cases [OF this] show "\<exists>g. x = Some g \<and> time_unix now < g_ExpiresAt g" by (auto split: if_splits)
next
  fix io p l db rel db'
  assume "store_Release io p l db = (rel, db')"
  from store_Release_cases [OF this] show "store_view db' = store_view db
      \<or> (l \<noteq> [] \<and> (\<exists>u. store_view db p = Reserved l u) \<and> store_view db' = (store_view db)(p := Free))"
    by (auto simp: store_view_del)
next
  fix g io p l db g' db'
  assume g: "grant_wf g" and "store_Commit io p l g db = (Inr (g', True), db')"
  from store_Commit_cases [OF this(2)] store_view_upd [OF grant_record_wf [OF g]]
  show "g' = g \<and> l \<noteq> [] \<and> (\<exists>u. store_view db p = Reserved l u) \<and> store_view db' = (store_view db)(p := Granted g)"
    by auto
next
  fix io p l g db g' db'
  assume "store_Commit io p l g db = (Inr (g', False), db')"
  from store_Commit_cases [OF this] show "store_view db p = Granted g' \<and> store_view db' = store_view db" by auto
next
  fix io p l g db e db'
  assume "store_Commit io p l g db = (Inl e, db')"
  from store_Commit_cases [OF this] show "store_view db' = store_view db" by auto
qed

subsection \<open>Properties\<close>

text \<open>C3: one payment buys one grant. However many processes race on one payment ID, over any sequence of
  reservations, releases and commits with any failures of the file in between, at most one commit
  ever creates a grant, and every commit that succeeds reports that same grant.\<close>

theorem store_one_grant:
  assumes "ledger_run store_Begin store_Release store_Commit store_begin_ok grant_wf db es db'"
  shows "creations p es \<le> 1
    \<and> (\<forall>h c h' c'. LCommit p h c \<in> set es \<longrightarrow> LCommit p h' c' \<in> set es \<longrightarrow> h = h')"
  by (rule gs.created_once [OF assms])

definition demo_io :: store_io where
  "demo_io = \<lparr>open_ok = True, commit_ok = True\<rparr>"

definition demo_grant :: grant where
  "demo_grant = \<lparr>g_Scope = ''s'', g_Audience = ''example.com'', g_Payer = [], g_Transaction = ''0x1'',
     g_Amount = [], g_Network = ''eip155:1'', g_ExpiresAt = 4600\<rparr>"

lemma demo_grant_wf: "grant_wf demo_grant"
  by code_simp

definition demo_granted :: grants_bucket where
  "demo_granted = [''p'' \<mapsto> encodeGrantRecord \<lparr>gr_Lease = [], gr_PendingUntil = 0, gr_Grant = Some demo_grant\<rparr>]"

lemma demo_granted_view: "store_view demo_granted ''p'' = Granted demo_grant"
  by (simp add: demo_granted_def store_view_def decode_encode grant_record_wf demo_grant_wf)

lemma demo_recommit:
  "store_Commit demo_io ''p'' ''l'' (demo_grant\<lparr>g_Scope := ''t''\<rparr>) demo_granted = (Inr (demo_grant, False), demo_granted)"
proof -
  have "validateGrant (demo_grant\<lparr>g_Scope := ''t''\<rparr>) = None" by code_simp
  then show ?thesis
    by (simp add: store_Commit_def store_update_def demo_io_def commit_fn_def demo_granted_def decode_encode
        grant_record_wf demo_grant_wf)
qed

lemma demo_run:
  "ledger_run store_Begin store_Release store_Commit store_begin_ok grant_wf demo_granted
     [LCommit ''p'' demo_grant False] demo_granted"
proof -
  have wf: "grant_wf (demo_grant\<lparr>g_Scope := ''t''\<rparr>)" by code_simp
  show ?thesis using ledger_run.run_commit [where begin_op = store_Begin and release_op = store_Release
      and commit_op = store_Commit and begin_ok = store_begin_ok and grant_ok = grant_wf, OF wf demo_recommit ledger_run.run_nil]
    by simp
qed

lemma store_one_grant_witness: "creations ''p'' [LCommit ''p'' demo_grant False] \<le> 1"
  by (rule conjunct1 [OF store_one_grant [OF demo_run]])

text \<open>C21: a committed grant is permanent: no later operation of any process removes or replaces it, and no
  later attempt on the same payment ID is ever told that the payment is new.\<close>

theorem store_grant_permanent:
  assumes "ledger_run store_Begin store_Release store_Commit store_begin_ok grant_wf db es db'"
    and "store_view db p = Granted g"
  shows "store_view db' p = Granted g \<and> (\<forall>l. LBegin p BeginNew l \<notin> set es)"
  using gs.granted_forever [OF assms] by blast

lemma store_grant_permanent_witness:
  "store_view demo_granted ''p'' = Granted demo_grant \<and> (\<forall>l. LBegin ''p'' BeginNew l \<notin> set [LCommit ''p'' demo_grant False])"
  by (rule store_grant_permanent [OF demo_run demo_granted_view])

text \<open>C20: reservations are exclusive. \<open>Begin\<close> hands out a lease only when nobody holds an unexpired one, a
  commit that creates a grant holds the current lease, and a late \<open>Release\<close> with another lease leaves
  the newer reservation alone.\<close>

theorem store_lease_exclusive:
  assumes "store_view db p = Reserved l u" and "store_begin_ok now rnd" and "grant_wf g"
  shows "(store_Begin io now rnd p db = (Inr (BeginNew, l', x), db1) \<longrightarrow> u \<le> now)
    \<and> (store_Commit io p l' g db = (Inr (h, True), db2) \<longrightarrow> l' = l)
    \<and> (l' \<noteq> l \<longrightarrow> store_view (snd (store_Release io p l' db)) = store_view db)"
proof (intro conjI impI)
  assume "store_Begin io now rnd p db = (Inr (BeginNew, l', x), db1)"
  from gs.begin_new [OF assms(2) this] show "u \<le> now" using assms(1) by (auto simp: claim_open_def)
next
  assume "store_Commit io p l' g db = (Inr (h, True), db2)"
  from gs.commit_new [OF assms(3) this] show "l' = l" using assms(1) by auto
next
  assume "l' \<noteq> l"
  with gs.release_view [of io p l' db "fst (store_Release io p l' db)" "snd (store_Release io p l' db)"] assms(1)
  show "store_view (snd (store_Release io p l' db)) = store_view db" by auto
qed

definition demo_reserved :: grants_bucket where
  "demo_reserved = [''p'' \<mapsto> encodeGrantRecord \<lparr>gr_Lease = ''l'', gr_PendingUntil = 50, gr_Grant = None\<rparr>]"

lemma store_lease_exclusive_witness:
  "store_view (snd (store_Release demo_io ''p'' ''late'' demo_reserved)) = store_view demo_reserved"
proof -
  have wf: "record_wf \<lparr>gr_Lease = ''l'', gr_PendingUntil = 50, gr_Grant = None\<rparr>" by code_simp
  have v: "store_view demo_reserved ''p'' = Reserved ''l'' 50"
    by (simp add: demo_reserved_def store_view_def decode_encode wf)
  have b: "store_begin_ok 10 (Some ''r'')"
    by (simp add: store_begin_ok_def max_int64_def paymentLease_def second_def)
  show ?thesis using store_lease_exclusive [OF v b demo_grant_wf, of demo_io "''late''"] by simp
qed

end
