(* ===== verification/Endpoints.thy ===== *)
theory Endpoints
  imports Pages Decision GrantStore Guards
begin

text \<open>
  The gate's own endpoints under \<open>/.anteroom/\<close> (\<open>internal/gate/endpoints.go\<close>) and the hooks of the
  activity log (\<open>internal/gate/activity.go\<close>), on the state the gate shares between requests. Each
  reading of the clock in the code is an \<open>instant\<close> of its own, so no two readings are assumed equal.
\<close>

subsection \<open>State and environment\<close>

record gate_state =
  st_met :: gate_metrics
  st_activity :: "act_log option"
  st_crawlers :: crawler_set
  st_grants :: grants_bucket
  st_payLimit :: limiter
  st_facs :: "bytes \<Rightarrow> fac_state"  \<comment> \<open>by facilitator identity\<close>
  st_pages :: page_cache
  st_skipReported :: "bytes list"
  st_identityIPWarned :: bool

datatype instant =
    AtIssue | AtAnswer | AtRemaining | AtMint | AtSolved | AtActivity | AtPass | AtCrawler
  | AtBegin | AtLimit | AtPaidExpiry | AtGrant

record host =
  h_clock :: "instant \<Rightarrow> time"
  h_rand :: "bytes option"
  h_assets :: assets
  h_pages :: page_dir

definition count_in :: "bytes \<Rightarrow> counter vec \<Rightarrow> counter vec" where
  "count_in label v = vec_update v label counter_Inc"

subsection \<open>The hooks of the activity log\<close>

definition recordDecision :: "host \<Rightarrow> decision \<Rightarrow> addr \<Rightarrow> gate_state \<Rightarrow> gate_state" where
  "recordDecision hs d clientIP s =
     (if st_activity s = None \<or> \<not> walled d then s
      else if addr_IsValid clientIP
      then s\<lparr>st_activity := opt_record (st_activity s)
              (\<lambda>l. RecordFailure l (h_clock hs AtActivity) (addr_String clientIP))\<rparr>
      else s)"

definition answer_record :: "bytes \<Rightarrow> (act_log \<Rightarrow> time \<Rightarrow> bytes \<Rightarrow> act_log) option" where
  "answer_record outcome =
     (if outcome \<in> set [''malformed'', ''stale'', ''bad_pow'', ''window_elapsed''] then Some RecordFailure
      else if outcome = ''ok_admit'' then Some RecordAdmit
      else if outcome = ''ok_renew'' then Some RecordRenew
      else None)"

definition noteAnswer :: "gate \<Rightarrow> host \<Rightarrow> bytes \<Rightarrow> request \<Rightarrow> gate_state \<Rightarrow> gate_state" where
  "noteAnswer g hs outcome r s =
     (let s = s\<lparr>st_met := (st_met s)\<lparr>gm_answers := count_in outcome (gm_answers (st_met s))\<rparr>\<rparr> in
      case answer_record outcome of
        None \<Rightarrow> s
      | Some rec \<Rightarrow>
          (case ClientIP (g_match g) r of
             Inl e \<Rightarrow> s
           | Inr ip \<Rightarrow>
               s\<lparr>st_activity := opt_record (st_activity s) (\<lambda>l. rec l (h_clock hs AtActivity) (addr_String ip))\<rparr>))"

subsection \<open>Issuing a challenge\<close>

record challengeResponse =
  cr_Challenge :: bytes
  cr_Threshold :: bytes
  cr_Kind :: bytes
  cr_PassTTLMs :: int
  cr_DeadlineMs :: int

definition challengeResponse_json :: "challengeResponse \<Rightarrow> json" where
  "challengeResponse_json c = JObj
     [(''challenge'', JStr (cr_Challenge c)), (''threshold'', JStr (cr_Threshold c)), (''kind'', JStr (cr_Kind c)),
      (''pass_ttl_ms'', JNum (show_int (cr_PassTTLMs c))), (''deadline_unix_ms'', JNum (show_int (cr_DeadlineMs c)))]"

definition challenge_profile :: "gate \<Rightarrow> request \<Rightarrow> time \<Rightarrow> profile" where
  "challenge_profile g r now = (if mayRenew g r now \<noteq> None then g_renew g else g_admit g)"

definition challenge_response :: "gate \<Rightarrow> bytes option \<Rightarrow> request \<Rightarrow> time \<Rightarrow> challenge_error + challengeResponse" where
  "challenge_response g rnd r now =
     (let profile = challenge_profile g r now in
      case Issue (g_hm g) (g_issuer g) rnd now (requestAudience r) profile of
        Inl e \<Rightarrow> Inl e
      | Inr (c, issuedAt) \<Rightarrow>
          Inr \<lparr>cr_Challenge = c, cr_Threshold = hex_encode (prof_Threshold profile),
               cr_Kind = Kind_String (prof_Kind profile), cr_PassTTLMs = go_div (prof_TTL profile) millisecond,
               cr_DeadlineMs = time_unix_milli (issuedAt + prof_TTL profile)\<rparr>)"

definition serveChallenge :: "gate \<Rightarrow> host \<Rightarrow> request \<Rightarrow> recorder \<Rightarrow> gate_state \<Rightarrow> recorder \<times> gate_state" where
  "serveChallenge g hs r w s =
     (if req_Method r \<noteq> ''GET'' then (get_only w, s)
      else
        (case challenge_response g (h_rand hs) r (h_clock hs AtIssue) of
           Inl e \<Rightarrow> (http_Error recorder_writer ''internal error'' 500 w, s)
         | Inr resp \<Rightarrow>
             (rec_Write (json_Encode (challengeResponse_json resp)) (w_Set ''Content-Type'' ''application/json'' (noStore w)),
              s\<lparr>st_met := (st_met s)\<lparr>gm_issued := count_in (cr_Kind resp) (gm_issued (st_met s))\<rparr>\<rparr>)))"

subsection \<open>Redeeming an answer\<close>

text \<open>
  The first JSON value of the body, of which at most 4096 bytes are read, as \<open>{challenge, nonce}\<close>. A
  bare \<open>null\<close> that touches the limit is not known to be complete.
\<close>

definition dec_answer :: "bytes \<Rightarrow> (bytes \<times> bytes) option" where
  "dec_answer body =
     (let s = take 4096 body in
      case p_value (2 * length s + 2) s of
        Some (JObj ms, rest) \<Rightarrow>
          if list_all (\<lambda>(k, _). equal_fold k ''challenge'' \<or> equal_fold k ''nonce'') ms then
            (case (dec_string [] (obj_values ''challenge'' ms), dec_string [] (obj_values ''nonce'' ms)) of
               (Some c, Some n) \<Rightarrow> Some (c, n) | _ \<Rightarrow> None)
          else None
      | Some (JNull, rest) \<Rightarrow> if rest = [] \<and> 4096 < length body then None else Some ([], [])
      | _ \<Rightarrow> None)"

record answerResponse =
  ar_OK :: bool
  ar_Kind :: bytes
  ar_ExpUnixMs :: int
  ar_Error :: bytes

definition answer_error :: "bytes \<Rightarrow> answerResponse" where
  "answer_error msg = \<lparr>ar_OK = False, ar_Kind = [], ar_ExpUnixMs = 0, ar_Error = msg\<rparr>"

definition answerResponse_json :: "answerResponse \<Rightarrow> json" where
  "answerResponse_json a = JObj
     ([(''ok'', JBool (ar_OK a))] @ opt_str ''kind'' (ar_Kind a) @ opt_int ''exp_unix_ms'' (ar_ExpUnixMs a)
      @ opt_str ''error'' (ar_Error a))"

text \<open>A refusal: the outcome that is noted, the status and the message.\<close>

type_synonym refusal = "bytes \<times> int \<times> bytes"

definition window_elapsed_text :: bytes where
  "window_elapsed_text =
     ''this challenge'' @ [CHR 0x27] @ ''s pass window has already elapsed; fetch a fresh challenge from '' @ pathChallenge"

text \<open>The root admission a redeemed challenge carries on; a renewal has to present the pass that earned it.\<close>

definition renewal_root :: "gate \<Rightarrow> request \<Rightarrow> time \<Rightarrow> profile \<Rightarrow> refusal + time option" where
  "renewal_root g r issuedAt profile =
     (if prof_Kind profile = KindRenew then
        (case mayRenew g r issuedAt of
           None \<Rightarrow> Inl (''bad_pow'', 403, ''renewal challenge requires the pass that earned it'')
         | Some rt \<Rightarrow> Inr (Some rt))
      else Inr None)"

definition pow_pass :: pass where
  "pow_pass = zero_pass\<lparr>pass_Kind := KindPoW, pass_Scope := ScopeAll\<rparr>"

text \<open>The end of \<open>serveAnswer\<close>: the remaining lifetime and the cookie, with the kind and the expiry.\<close>

definition redeem ::
  "gate \<Rightarrow> host \<Rightarrow> request \<Rightarrow> time \<Rightarrow> profile \<Rightarrow> time option \<Rightarrow> refusal + (bytes \<times> time \<times> time \<times> set_cookie)" where
  "redeem g hs r issuedAt profile rootAt =
     (let ex = issuedAt + prof_TTL profile in
      if time_sub ex (h_clock hs AtRemaining) \<le> 0 then Inl (''window_elapsed'', 403, window_elapsed_text)
      else
        (case setPassCookie g r (h_clock hs AtMint) pow_pass ex rootAt of
           Inl e \<Rightarrow> Inl (''error'', 500, ''internal error'')
         | Inr c \<Rightarrow> Inr (Kind_String (prof_Kind profile), ex, issuedAt, c)))"

definition answer_result ::
  "gate \<Rightarrow> host \<Rightarrow> request \<Rightarrow> refusal + (bytes \<times> time \<times> time \<times> set_cookie)" where
  "answer_result g hs r =
     (case dec_answer (req_Body r) of
        None \<Rightarrow> Inl (''malformed'', 400, ''body must be JSON {challenge, nonce}'')
      | Some (c, nonce) \<Rightarrow>
         (case challenge_Verify (g_hm g) (g_issuer g) c (requestAudience r) (h_clock hs AtAnswer) of
            Inl e \<Rightarrow>
              Inl (if e = ChErrStale
                   then (''stale'', 400, ''challenge expired; fetch a fresh one from '' @ pathChallenge)
                   else (''malformed'', 400, ''invalid challenge''))
          | Inr (issuedAt, profile) \<Rightarrow>
             (case renewal_root g r issuedAt profile of
                Inl e \<Rightarrow> Inl e
              | Inr rootAt \<Rightarrow>
                  if CheckPoW (g_sha g) c nonce (prof_Threshold profile) \<noteq> None
                  then Inl (''bad_pow'', 403, ''solution does not meet the required threshold'')
                  else redeem g hs r issuedAt profile rootAt)))"

definition serveAnswer :: "gate \<Rightarrow> host \<Rightarrow> request \<Rightarrow> recorder \<Rightarrow> gate_state \<Rightarrow> recorder \<times> gate_state" where
  "serveAnswer g hs r w s =
     (let w = w_Set ''Content-Type'' ''application/json'' (noStore w) in
      if req_Method r \<noteq> ''POST'' then
        (rec_Write (json_Encode (answerResponse_json (answer_error ''POST only''))) (rec_WriteHeader 405 w), s)
      else
        (case answer_result g hs r of
           Inl (outcome, status, msg) \<Rightarrow>
             (rec_Write (json_Encode (answerResponse_json (answer_error msg))) (rec_WriteHeader status w),
              noteAnswer g hs outcome r s)
         | Inr (kind, ex, issuedAt, c) \<Rightarrow>
             (let s = noteAnswer g hs (''ok_'' @ kind) r s;
                  m = st_met s;
                  m = m\<lparr>gm_solveTime := vec_update (gm_solveTime m) kind
                          (\<lambda>h. Observe h (Seconds (time_sub (h_clock hs AtSolved) issuedAt)))\<rparr>;
                  m = m\<lparr>gm_minted := count_in ''pow'' (gm_minted m)\<rparr>
              in (rec_Write (json_Encode (answerResponse_json
                    \<lparr>ar_OK = True, ar_Kind = kind, ar_ExpUnixMs = time_unix_milli ex, ar_Error = []\<rparr>))
                    (w_Add ''Set-Cookie'' (cookie_String c) w), s\<lparr>st_met := m\<rparr>))))"

subsection \<open>The dispatch\<close>

definition http_NotFound :: "recorder \<Rightarrow> recorder" where
  "http_NotFound w = http_Error recorder_writer ''404 page not found'' 404 w"

definition serveOwn :: "gate \<Rightarrow> host \<Rightarrow> request \<Rightarrow> recorder \<Rightarrow> gate_state \<Rightarrow> recorder \<times> gate_state" where
  "serveOwn g hs r w s =
     (let p = req_Path r in
      if p = HealthPath then (serveHealthz r w, s)
      else if p = pathChallenge then serveChallenge g hs r w s
      else if p = pathAnswer then serveAnswer g hs r w s
      else if p = pathSW then (serveSW (h_assets hs) r w, s)
      else if p = pathRenew then (serveRenew (h_assets hs) r w, s)
      else if p = pathUninstall then (serveUninstall (h_assets hs) r w, s)
      else if p = pathInstructions then (serveInstructions r w, s)
      else if p = pathSchema then (serveSchema r w, s)
      else if has_prefix p pathSolverPrefix \<and> has_suffix p ''.js'' then (serveSolver g r w, s)
      else (http_NotFound (noStore w), s))"

subsection \<open>Facts on answers\<close>

text \<open>What the decoder makes of the body the wait page's solver posts.\<close>

definition answer_body :: "bytes \<Rightarrow> bytes \<Rightarrow> bytes" where
  "answer_body c nonce = json_print (JObj [(''challenge'', JStr c), (''nonce'', JStr nonce)])"

lemma dec_answer_body:
  assumes "ascii_string c" and "ascii_string nonce" and "length (answer_body c nonce) \<le> 4096"
  shows "dec_answer (answer_body c nonce) = Some (c, nonce)"
proof -
  let ?j = "JObj [(''challenge'', JStr c), (''nonce'', JStr nonce)]"
  have ok: "json_ok ?j" using assms by (simp add: ascii_chars)
  have "p_value (2 * length (answer_body c nonce) + 2) (answer_body c nonce @ []) = Some (?j, [])"
    unfolding answer_body_def
    by (rule print_at [THEN conjunct1, unfolded print_value_at_def, rule_format, OF ok num_stop_delims(4)]) simp
  moreover have "equal_fold ''nonce'' ''challenge'' = False" "equal_fold ''challenge'' ''nonce'' = False" by code_simp+
  ultimately show ?thesis using assms(3) by (simp add: dec_answer_def Let_def equal_fold_refl del: p_value.simps)
qed

lemma answer_result_Inr:
  "answer_result g hs r = Inr (kind, ex, issuedAt, ck) \<longleftrightarrow>
     (\<exists>c nonce prof rootAt. dec_answer (req_Body r) = Some (c, nonce)
        \<and> challenge_Verify (g_hm g) (g_issuer g) c (requestAudience r) (h_clock hs AtAnswer) = Inr (issuedAt, prof)
        \<and> renewal_root g r issuedAt prof = Inr rootAt
        \<and> CheckPoW (g_sha g) c nonce (prof_Threshold prof) = None
        \<and> redeem g hs r issuedAt prof rootAt = Inr (kind, ex, issuedAt, ck))"
proof -
  have key: "i = issuedAt" if "redeem g hs r i prof ra = Inr (kind, ex, issuedAt, ck)" for i prof ra
    using that by (auto simp: redeem_def Let_def split: if_splits sum.splits)
  show ?thesis
    by (auto simp: answer_result_def split: option.splits sum.splits prod.splits if_splits; metis key)
qed

lemma redeem_Inr:
  "redeem g hs r issuedAt prof rootAt = Inr (kind, ex, issuedAt', ck) \<longleftrightarrow>
     kind = Kind_String (prof_Kind prof) \<and> ex = issuedAt + prof_TTL prof \<and> issuedAt' = issuedAt
     \<and> 0 < time_sub ex (h_clock hs AtRemaining)
     \<and> setPassCookie g r (h_clock hs AtMint) pow_pass ex rootAt = Inr ck"
  by (auto simp: redeem_def Let_def split: sum.splits)

lemma renewal_root_Some:
  "renewal_root g r t prof = Inr (Some rt) \<Longrightarrow> prof_Kind prof = KindRenew \<and> mayRenew g r t = Some rt"
  by (auto simp: renewal_root_def split: if_splits option.splits)

lemma pow_pass_fields [simp]: "pass_Kind pow_pass = KindPoW" "pass_Scope pow_pass = ScopeAll"
  "pass_Payer pow_pass = []" "pass_Tx pow_pass = []" "pass_Rt pow_pass = 0"
  by (simp_all add: pow_pass_def zero_pass_def)

text \<open>The pass an answer is worth.\<close>

definition earned_pass :: "gate \<Rightarrow> host \<Rightarrow> request \<Rightarrow> time \<Rightarrow> time option \<Rightarrow> pass" where
  "earned_pass g hs r ex rootAt = stamped_pass g r (h_clock hs AtMint) pow_pass ex rootAt"

end
