(* ===== verification/Forward.thy ===== *)
theory Forward
  imports Endpoints
begin

text \<open>
  What the upstream is sent: \<open>forward\<close> and the \<open>Rewrite\<close> hook of \<open>newProxy\<close> in
  \<open>internal/gate/gate.go\<close>, on top of what \<open>httputil.ReverseProxy\<close> does to a request before the hook
  runs. Header names are in canonical form. The address of the upstream and the base path that
  \<open>SetURL\<close> prepends belong to \<open>en_upstream\<close>, the round trip; so does the cleaning of query parameters
  that do not parse.
\<close>

subsection \<open>The reverse proxy before the hook\<close>

definition upper_char :: "char \<Rightarrow> char" where
  "upper_char c = (if char_between CHR ''a'' CHR ''z'' c then val_byte (byte_val c - 32) else c)"

fun canon_from :: "bool \<Rightarrow> bytes \<Rightarrow> bytes" where
  "canon_from up [] = []"
| "canon_from up (c # s) = (if up then upper_char c else lower_char c) # canon_from (c = CHR ''-'') s"

text \<open>\<open>textproto.CanonicalMIMEHeaderKey\<close>.\<close>

definition canonical_key :: "bytes \<Rightarrow> bytes" where
  "canonical_key k = (if list_all is_token_char k then canon_from True k else k)"

definition hopHeaders :: "bytes list" where
  "hopHeaders = [''Connection'', ''Proxy-Connection'', ''Keep-Alive'', ''Proxy-Authenticate'', ''Proxy-Authorization'',
     ''Te'', ''Trailer'', ''Transfer-Encoding'', ''Upgrade'']"

definition connection_tokens :: "header \<Rightarrow> bytes \<Rightarrow> bytes list" where
  "connection_tokens h k = concat (map (\<lambda>f. filter (\<lambda>t. t \<noteq> []) (map trim_space (split_on CHR '','' f))) (hdr_Values h k))"

definition removeHopByHopHeaders :: "header \<Rightarrow> header" where
  "removeHopByHopHeaders h = hdr_Del_all h (map canonical_key (connection_tokens h ''Connection'') @ hopHeaders)"

definition has_token :: "header \<Rightarrow> bytes \<Rightarrow> bytes \<Rightarrow> bool" where
  "has_token h k t \<longleftrightarrow> list_ex (equal_fold t) (connection_tokens h k)"

definition upgradeType :: "header \<Rightarrow> bytes" where
  "upgradeType h = (if has_token h ''Connection'' ''upgrade'' then hdr_Get h ''Upgrade'' else [])"

definition proxy_outgoing :: "header \<Rightarrow> header" where
  "proxy_outgoing h =
     (let out = removeHopByHopHeaders h;
          out = (if has_token h ''Te'' ''trailers'' then hdr_Set out ''Te'' ''trailers'' else out);
          out = (if upgradeType h \<noteq> [] then hdr_Set (hdr_Set out ''Connection'' ''Upgrade'') ''Upgrade'' (upgradeType h)
                 else out)
      in hdr_Del_all out [''Forwarded'', ''X-Forwarded-For'', ''X-Forwarded-Host'', ''X-Forwarded-Proto''])"

subsection \<open>The hook\<close>

definition clientIPHeaders :: "bytes list" where
  "clientIPHeaders = [''X-Real-Ip'', ''Cf-Connecting-Ip'', ''True-Client-Ip'', ''X-Client-Ip'', ''Fastly-Client-Ip'',
     ''X-Cluster-Client-Ip'', ''X-Original-Forwarded-For'']"

text \<open>\<open>ProxyRequest.SetXForwarded\<close>, whose incoming copy of the header is already gone.\<close>

definition SetXForwarded :: "request \<Rightarrow> header \<Rightarrow> header" where
  "SetXForwarded r h =
     (let h = (case SplitHostPort (req_RemoteAddr r) of
                 Some (ip, _) \<Rightarrow> hdr_Set h ''X-Forwarded-For'' ip
               | None \<Rightarrow> hdr_Del h ''X-Forwarded-For'');
          h = hdr_Set h ''X-Forwarded-Host'' (req_Host r)
      in hdr_Set h ''X-Forwarded-Proto'' (if req_TLS r then ''https'' else ''http''))"

definition proxy_Rewrite :: "matcher \<Rightarrow> request \<Rightarrow> header \<Rightarrow> header" where
  "proxy_Rewrite m r h =
     (let h = hdr_Del_all (SetXForwarded r h) clientIPHeaders;
          h = (case ClientIP m r of
                 Inr ip \<Rightarrow> hdr_Set (hdr_Set h ''X-Forwarded-For'' (addr_String ip)) ''X-Real-Ip'' (addr_String ip)
               | Inl _ \<Rightarrow> h)
      in hdr_Set h ''X-Forwarded-Proto'' (if requestIsTLS m r then ''https'' else ''http''))"

definition proxy_request :: "matcher \<Rightarrow> request \<Rightarrow> request" where
  "proxy_request m r = r\<lparr>req_Header := proxy_Rewrite m r (proxy_outgoing (req_Header r))\<rparr>"

subsection \<open>\<open>forward\<close>\<close>

text \<open>The request as the gate hands it to the proxy, and as the upstream gets it.\<close>

definition stripped :: "request \<Rightarrow> request" where
  "stripped r = r\<lparr>req_Header := hdr_Del_all (stripPassCookie (req_Header r)) [HeaderSignature, HeaderRequired, HeaderResponse]\<rparr>"

definition forwarded :: "gate \<Rightarrow> request \<Rightarrow> request" where
  "forwarded g r = proxy_request (g_match g) (stripped r)"

definition forward ::
  "gate \<Rightarrow> (request \<Rightarrow> upstream_answer) \<Rightarrow> 'w writer \<Rightarrow> request \<Rightarrow> 'w \<Rightarrow> gate_state \<Rightarrow> 'w \<times> gate_state \<times> request" where
  "forward g up ops r w s =
     (let out = forwarded g r; a = up out;
          s = (if up_Final a = None
               then s\<lparr>st_met := (st_met s)\<lparr>gm_upstreamErr := counter_Inc (gm_upstreamErr (st_met s))\<rparr>\<rparr> else s)
      in (proxy_serve ops a w, s, out))"

subsection \<open>Facts\<close>

lemma proxy_outgoing_values:
  "hdr_Values (proxy_outgoing h) k = hdr_Values h k \<or> hdr_Values (proxy_outgoing h) k = []
     \<or> k \<in> {''Te'', ''Connection'', ''Upgrade''}"
  by (simp add: proxy_outgoing_def removeHopByHopHeaders_def Let_def hdr_Values_Del_all)

lemma proxy_Rewrite_values:
  "hdr_Values (proxy_Rewrite m r h) k = hdr_Values h k
     \<or> k \<in> set clientIPHeaders \<union> {''X-Forwarded-For'', ''X-Forwarded-Host'', ''X-Forwarded-Proto''}"
  by (simp add: proxy_Rewrite_def SetXForwarded_def Let_def hdr_Values_Del_all clientIPHeaders_def split: sum.split option.split)

lemma stripped_values:
  "hdr_Values (req_Header (stripped r)) k =
     (if k \<in> {HeaderSignature, HeaderRequired, HeaderResponse} then [] else hdr_Values (stripPassCookie (req_Header r)) k)"
  by (simp add: stripped_def hdr_Values_Del_all)

lemma stripped_same:
  "ClientIP m (stripped r) = ClientIP m r" "requestIsTLS m (stripped r) = requestIsTLS m r"
proof -
  have f: "hdr_Values (req_Header (stripped r)) ''X-Forwarded-For'' = hdr_Values (req_Header r) ''X-Forwarded-For''"
    "hdr_Values (req_Header (stripped r)) ''X-Forwarded-Proto'' = hdr_Values (req_Header r) ''X-Forwarded-Proto''"
    by (simp_all add: stripped_values stripPassCookie_frame HeaderSignature_def HeaderRequired_def HeaderResponse_def)
  have "remote_host (stripped r) = remote_host r" by (simp add: remote_host_def stripped_def split: option.split)
  moreover have "req_RemoteAddr (stripped r) = req_RemoteAddr r" "req_TLS (stripped r) = req_TLS r" by (simp_all add: stripped_def)
  ultimately show "ClientIP m (stripped r) = ClientIP m r" "requestIsTLS m (stripped r) = requestIsTLS m r"
    using f by (simp_all add: ClientIP_def requestIsTLS_def TrustedPeer_def req_Get_def hdr_Get_Values Let_def split: option.split)
qed

text \<open>
  The one answer about the client that the upstream may get: the address the gate resolved, or, when the
  header of a trusted proxy cannot be resolved, the socket's peer.
\<close>

definition forwarded_for :: "matcher \<Rightarrow> request \<Rightarrow> bytes list" where
  "forwarded_for m r =
     (case ClientIP m r of
        Inr ip \<Rightarrow> [addr_String ip]
      | Inl _ \<Rightarrow> (case SplitHostPort (req_RemoteAddr r) of Some (ip, _) \<Rightarrow> [ip] | None \<Rightarrow> []))"

lemma forwarded_for_stripped: "forwarded_for m (stripped r) = forwarded_for m r"
proof -
  have "req_RemoteAddr (stripped r) = req_RemoteAddr r" by (simp add: stripped_def)
  then show ?thesis unfolding forwarded_for_def stripped_same by (simp split: sum.split)
qed

lemma proxy_outgoing_dropped:
  "k \<in> {''Forwarded'', ''X-Forwarded-For'', ''X-Forwarded-Host'', ''X-Forwarded-Proto''} \<Longrightarrow> hdr_Values (proxy_outgoing h) k = []"
  by (auto simp: proxy_outgoing_def Let_def hdr_Values_Del_all)

lemma proxy_Rewrite_names:
  "hdr_Values (proxy_Rewrite m r h) ''X-Forwarded-Proto'' = [if requestIsTLS m r then ''https'' else ''http'']"
  "hdr_Values (proxy_Rewrite m r h) ''X-Forwarded-Host'' = [req_Host r]"
  "hdr_Values (proxy_Rewrite m r h) ''X-Real-Ip'' = (case ClientIP m r of Inr ip \<Rightarrow> [addr_String ip] | Inl _ \<Rightarrow> [])"
  "hdr_Values (proxy_Rewrite m r h) ''X-Forwarded-For'' = forwarded_for m r"
  "hdr_Values (proxy_Rewrite m r h) ''Forwarded'' = hdr_Values h ''Forwarded''"
  "list_all (\<lambda>k. hdr_Values (proxy_Rewrite m r h) k = []) (tl clientIPHeaders)"
  by (simp_all add: proxy_Rewrite_def SetXForwarded_def forwarded_for_def Let_def hdr_Values_Del_all clientIPHeaders_def
      split: sum.split option.split)

text \<open>C8: what the upstream is told comes from the gate. No forwarded request carries a payment header, and none a
  cookie pair whose name is written exactly as the pass's (a pair whose name a client padded with white space is not that
  name to the gate, and stays). \<open>X-Forwarded-For\<close> and \<open>X-Real-Ip\<close> hold exactly one value, the gate's own resolution of
  the client; where it has none the first holds the socket's peer and the second is absent; every other header that names a client
  address, and \<open>Forwarded\<close>, is absent; the scheme is the one the gate resolved, and the authority is the visitor's.\<close>

theorem forwarded_request_clean:
  "hdr_Values (req_Header (forwarded g r)) HeaderSignature = [] \<and> hdr_Values (req_Header (forwarded g r)) HeaderRequired = []
   \<and> hdr_Values (req_Header (forwarded g r)) HeaderResponse = []
   \<and> cookieName \<notin> set (map pair_name (cookie_pairs (req_Header (forwarded g r))))
   \<and> hdr_Values (req_Header (forwarded g r)) ''X-Forwarded-For''
       = (case ClientIP (g_match g) r of
            Inr ip \<Rightarrow> [addr_String ip]
          | Inl _ \<Rightarrow> (case SplitHostPort (req_RemoteAddr r) of Some (ip, _) \<Rightarrow> [ip] | None \<Rightarrow> []))
   \<and> hdr_Values (req_Header (forwarded g r)) ''X-Real-Ip''
       = (case ClientIP (g_match g) r of Inr ip \<Rightarrow> [addr_String ip] | Inl _ \<Rightarrow> [])
   \<and> list_all (\<lambda>k. hdr_Values (req_Header (forwarded g r)) k = []) (''Forwarded'' # tl clientIPHeaders)
   \<and> hdr_Values (req_Header (forwarded g r)) ''X-Forwarded-Proto'' = [if requestIsTLS (g_match g) r then ''https'' else ''http'']
   \<and> hdr_Values (req_Header (forwarded g r)) ''X-Forwarded-Host'' = [req_Host r] \<and> req_Host (forwarded g r) = req_Host r"
proof -
  let ?h = "proxy_outgoing (req_Header (stripped r))"
  have H: "req_Header (forwarded g r) = proxy_Rewrite (g_match g) (stripped r) ?h"
    by (simp add: forwarded_def proxy_request_def)
  have pay: "hdr_Values (req_Header (forwarded g r)) k = []" if "k \<in> {HeaderSignature, HeaderRequired, HeaderResponse}" for k
    using that proxy_Rewrite_values [of "g_match g" "stripped r" ?h k] proxy_outgoing_values [of "req_Header (stripped r)" k]
      stripped_values [of r k]
    by (auto simp: H HeaderSignature_def HeaderRequired_def HeaderResponse_def clientIPHeaders_def)
  have "hdr_Values (req_Header (forwarded g r)) ''Cookie'' \<in> {hdr_Values (stripPassCookie (req_Header r)) ''Cookie'', []}"
    using proxy_Rewrite_values [of "g_match g" "stripped r" ?h "''Cookie''"] stripped_values [of r "''Cookie''"]
      proxy_outgoing_values [of "req_Header (stripped r)" "''Cookie''"]
    by (auto simp: H HeaderSignature_def HeaderRequired_def HeaderResponse_def clientIPHeaders_def)
  then have "set (cookie_pairs (req_Header (forwarded g r))) \<subseteq> set (cookie_pairs (stripPassCookie (req_Header r)))"
    by (auto simp: cookie_pairs_def)
  then have "cookieName \<notin> set (map pair_name (cookie_pairs (req_Header (forwarded g r))))"
    by (auto simp: stripPassCookie_pairs)
  moreover have "req_Host (stripped r) = req_Host r" by (simp add: stripped_def)
  ultimately show ?thesis
    using pay proxy_Rewrite_names [where m = "g_match g" and r = "stripped r" and h = ?h]
      proxy_outgoing_dropped [of "''Forwarded''" "req_Header (stripped r)"]
    by (simp add: H stripped_same forwarded_for_stripped flip: forwarded_for_def) (simp add: forwarded_def proxy_request_def)
qed

end
