(* ===== verification/Offers.thy ===== *)
theory Offers
  imports Forward
begin

text \<open>
  The payment offer and the answers that carry it (\<open>internal/gate/pay.go\<close>): the document of a
  rule, its rendering as header, JSON and text, and the answer to a settlement that is still pending.
\<close>

subsection \<open>The offer of a rule\<close>

definition permit2Address :: bytes where "permit2Address = ''0x000000000022D473030F116dDEE9F6B43aC78BA3''"

definition usesPermit2 :: "rail list \<Rightarrow> bool" where
  "usesPermit2 rails \<longleftrightarrow> list_ex (\<lambda>r. rl_AssetTransferMethod r = ''permit2'') rails"

text \<open>A nil slice is printed as \<open>null\<close>.\<close>

definition prerequisites :: "rail list \<Rightarrow> json" where
  "prerequisites rails =
     (if \<not> usesPermit2 rails then JNull
      else JArr [JObj
        [(''kind'', JStr ''erc20-approval''), (''oneTime'', JBool True),
         (''reason'', JStr ''permit2 transfers require a one-time ERC-20 approval of the Permit2 contract''),
         (''spender'', JStr permit2Address),
         (''symptom'', JStr ''an otherwise valid payment is rejected by the facilitator''),
         (''tokens'', JArr (map (\<lambda>r. JStr (rl_Asset r)) (filter (\<lambda>r. rl_AssetTransferMethod r = ''permit2'') rails)))]])"

definition railDisplay :: "rail list \<Rightarrow> json" where
  "railDisplay rails = JArr (map (\<lambda>r. JObj
     ([(''asset'', JStr (rl_Asset r)), (''assetDecimals'', JNum (show_int (rl_Decimals r))),
       (''assetTransferMethod'', JStr (rl_AssetTransferMethod r)), (''network'', JStr (rl_Network r))]
      @ json_str_opt ''rpcUrl'' (rl_RPCURL r))) rails)"

definition absoluteURL :: "gate \<Rightarrow> request \<Rightarrow> bytes \<Rightarrow> bytes" where
  "absoluteURL g r p =
     (if requestIsTLS (g_match g) r then ''https'' else ''http'') @ ''://''
     @ (if req_Host r = [] then ''unknown'' else req_Host r) @ p"

definition resourceURL :: "gate \<Rightarrow> request \<Rightarrow> bytes" where
  "resourceURL g r = absoluteURL g r (req_EscapedPath r)"

definition extensionKey :: bytes where "extensionKey = ''dev.anteroom''"

definition rail_extra :: "rail \<Rightarrow> extra" where
  "rail_extra rl = Some [(''assetTransferMethod'', JStr (rl_AssetTransferMethod rl)),
     (''name'', JStr (rl_AssetName rl)), (''version'', JStr (rl_AssetVersion rl))]"

text \<open>One entry of \<open>accepts\<close>; a rail without a resolved price is left out.\<close>

definition rail_requirements :: "payments \<Rightarrow> rule \<Rightarrow> rail \<Rightarrow> requirements option" where
  "rail_requirements p u rl =
     (case map_of (ru_PriceAtomic u) (rl_Network rl) of
        None \<Rightarrow> None
      | Some amount \<Rightarrow>
          Some \<lparr>rq_Scheme = ''exact'', rq_Network = rl_Network rl, rq_Asset = rl_Asset rl, rq_Amount = show_int amount,
                rq_PayTo = (if rl_PayTo rl = [] then py_PayTo p else rl_PayTo rl),
                rq_MaxTimeoutSeconds = py_MaxTimeoutSeconds p, rq_Extra = rail_extra rl\<rparr>)"

definition offer_accepts :: "payments \<Rightarrow> rule \<Rightarrow> requirements list" where
  "offer_accepts p u = List.map_filter (rail_requirements p u) (py_Rails p)"

definition offer_info :: "payments \<Rightarrow> rule \<Rightarrow> json" where
  "offer_info p u = JObj
     [(''freeAlternative'', JObj [(''answerUrl'', JStr pathAnswer), (''challengeUrl'', JStr pathChallenge),
         (''instructions'', JStr pathInstructions), (''kind'', JStr ''proof-of-work'')]),
      (''paidTtlSeconds'', JNum (show_int (go_div (ru_PaidTTL u) second))),
      (''prerequisites'', prerequisites (py_Rails p)),
      (''presentation'', JObj [(''methods'', JArr [JStr ''GET'', JStr ''HEAD'']), (''result'', JStr ''admission-pass''),
         (''retryOriginal'', JBool True)]),
      (''price'', JStr (ru_Price u)), (''rails'', railDisplay (py_Rails p)), (''scope'', JStr (ru_Name u))]"

text \<open>The payment section of the configuration; without one, \<open>offer\<close> is not called.\<close>

definition no_payments :: payments where
  "no_payments = \<lparr>py_PayTo = [], py_Facilitator = [], py_StateFile = [], py_FacilitatorHeaders = [],
     py_MaxTimeoutSeconds = 0, py_ResourceDescription = [], py_Rails = [], py_Rules = []\<rparr>"

definition gate_payments :: "gate \<Rightarrow> payments" where
  "gate_payments g = (case c_Payments (g_cfg g) of None \<Rightarrow> no_payments | Some p \<Rightarrow> p)"

definition offer :: "gate \<Rightarrow> rule \<Rightarrow> request \<Rightarrow> bytes \<Rightarrow> required" where
  "offer g u r errMsg =
     (let p = gate_payments g;
          desc = (if py_ResourceDescription p = [] then ''Admission pass for protected content'' else py_ResourceDescription p)
      in \<lparr>rd_X402Version = payment_Version, rd_Error = errMsg,
          rd_Resource = \<lparr>rs_URL = resourceURL g r, rs_Description = desc\<rparr>,
          rd_Accepts = offer_accepts p u,
          rd_Extensions = [(extensionKey, JObj [(''info'', offer_info p u),
             (''schema'', JObj [(''$ref'', JStr (absoluteURL g r pathSchema))])])]\<rparr>)"

subsection \<open>The offer as text\<close>

definition approvalMultiple :: int where "approvalMultiple = 100"

definition approvalBudget :: "rule \<Rightarrow> bytes \<Rightarrow> bytes" where
  "approvalBudget u network =
     (case map_of (ru_PriceAtomic u) network of
        Some price \<Rightarrow> show_int (price * approvalMultiple)
      | None \<Rightarrow> ''<the amount you intend to spend, in atomic units>'')"

definition permit2_rail :: "rule \<Rightarrow> rail \<Rightarrow> bytes" where
  "permit2_rail u r =
     (let rpc = (if rl_RPCURL r = [] then ''<an RPC endpoint for '' @ rl_Network r @ ''>'' else rl_RPCURL r) in
      unlines [''For `'' @ rl_Asset r @ ''` on `'' @ rl_Network r @ ''`:'',
     [],
     ''```sh'',
     ''# Already approved? A result at or above your budget means you are done.'',
     ''cast call '' @ rl_Asset r @ '' '' @ [CHR 0x5C],
     ''  \"allowance(address,address)(uint256)\" $YOUR_ADDRESS '' @ permit2Address @ '' '' @ [CHR 0x5C],
     ''  --rpc-url '' @ rpc,
     [],
     ''# Approve a budget '' @ [CHR 0xE2, CHR 0x80, CHR 0x94] @ '' '' @ approvalBudget u (rl_Network r) @ '' here, which is '' @ show_int approvalMultiple @ '' requests at this price.'',
     ''cast send '' @ rl_Asset r @ '' '' @ [CHR 0x5C],
     ''  \"approve(address,uint256)\" '' @ permit2Address @ '' '' @ approvalBudget u (rl_Network r) @ '' '' @ [CHR 0x5C],
     ''  --rpc-url '' @ rpc @ '' --interactive'',
     ''```'',
     []])"

definition permit2Section :: "rail list \<Rightarrow> rule \<Rightarrow> bytes" where
  "permit2Section rails u =
     (if \<not> usesPermit2 rails then []
      else
     unlines [''### Before your first payment on this rail'',
     [],
     ''Rails using `assetTransferMethod: \"permit2\"` need a **one-time ERC-20 approval**'',
     ''of the Permit2 contract, per token, per wallet. Without it the facilitator'',
     ''rejects an otherwise perfectly signed payment, and the reason it returns does'',
     ''not say why. A funded wallet is not sufficient.'',
     [],
     ''Permit2 is at `'' @ permit2Address @ ''` on every chain.'',
     []]
     @ concat (map (permit2_rail u) (filter (\<lambda>r. rl_AssetTransferMethod r = ''permit2'') rails))
     @ unlines [''Two things about that command are deliberate. `--interactive` prompts for the'',
     ''key instead of taking `--private-key`, which puts it in the process argument'',
     ''list where any other account on the machine can read it. And the amount is a'',
     ''budget rather than the usual `0xffff'' @ [CHR 0xE2, CHR 0x80, CHR 0xA6] @ ''ff`: an allowance is standing permission,'',
     ''so whatever is left of it can be moved at any time in the future. Approve what'',
     ''you mean to spend, and re-approve when it runs out.'',
     [],
     ''Budget for gas too: the approval is an ordinary transaction and costs gas, which'',
     ''on a stablecoin-fee chain comes out of the same token you are paying with '' @ [CHR 0xE2, CHR 0x80, CHR 0x94] @ '' in'',
     ''practice roughly the price of one payment. Every payment afterwards needs no'',
     ''on-chain step from you at all.'',
     []])"

text \<open>\<open>json.MarshalIndent\<close> with two spaces, at a depth.\<close>

definition indent :: "nat \<Rightarrow> bytes" where
  "indent d = CHR 0x0A # replicate (2 * d) CHR 0x20"

fun json_indent :: "nat \<Rightarrow> json \<Rightarrow> bytes"
  and indent_elems :: "nat \<Rightarrow> json list \<Rightarrow> bytes"
  and indent_members :: "nat \<Rightarrow> (bytes \<times> json) list \<Rightarrow> bytes" where
  "json_indent d (JArr (x # xs)) = ''['' @ indent_elems (d + 1) (x # xs) @ indent d @ '']''"
| "json_indent d (JObj (m # ms)) = ''{'' @ indent_members (d + 1) (m # ms) @ indent d @ ''}''"
| "json_indent d j = json_print j"
| "indent_elems d [] = []"
| "indent_elems d [x] = indent d @ json_indent d x"
| "indent_elems d (x # y # xs) = indent d @ json_indent d x @ '','' @ indent_elems d (y # xs)"
| "indent_members d [] = []"
| "indent_members d [(k, x)] = indent d @ json_print (JStr k) @ '': '' @ json_indent d x"
| "indent_members d ((k, x) # m # ms) = indent d @ json_print (JStr k) @ '': '' @ json_indent d x @ '','' @ indent_members d (m # ms)"

definition payMarkdown :: "gate \<Rightarrow> required \<Rightarrow> rule \<Rightarrow> bytes" where
  "payMarkdown g doc u =
     unlines [''# Payment required'',
     [],
     ''This resource is behind Anteroom, a self-hosted gate. There are two ways in and'',
     ''**both are open to you**: pay the price below, or solve a free puzzle.'',
     [],
     ''**If a person sent you here:** open this URL in a normal browser. The check runs'',
     ''automatically, costs nothing, and takes about a second. Nothing below is needed.'',
     [],
     ''## Option 1 '' @ [CHR 0xE2, CHR 0x80, CHR 0x94] @ '' pay '' @ ru_Price u @ '' (x402)'',
     [],
     ''Sign an x402 `exact` payment against one of the rails below, then present it'',
     ''on a GET or HEAD request for this URL. The response sets an admission cookie;'',
     ''send the original request with that cookie and without `PAYMENT-SIGNATURE`.'',
     [],
     ''The same document is in the `PAYMENT-REQUIRED` response header, base64-encoded.'',
     [],
     ''```json'']
     @ json_indent 0 (required_json doc)
     @ unlines [[],
     ''```'',
     [],
     ''Amounts are atomic units: divide by the asset'' @ [CHR 0x27] @ ''s decimals for a display value.'',
     ''`extra.name` and `extra.version` are the **token contract'' @ [CHR 0x27] @ ''s** EIP-712 domain and'',
     ''are required to construct the signature.'',
     []]
     @ permit2Section (py_Rails (gate_payments g)) u
     @ unlines [''## Option 2 '' @ [CHR 0xE2, CHR 0x80, CHR 0x94] @ '' solve the puzzle, free'',
     [],
     ''No payment, no account, no key. This is the right default for an unattended'',
     ''agent that should not be spending money on an unfamiliar address:'',
     [],
     ''1. `GET '' @ pathChallenge @ ''` '' @ [CHR 0xE2, CHR 0x86, CHR 0x92] @ '' JSON `{challenge, threshold, deadline_unix_ms}`.'',
     ''2. Find a nonce whose SHA-256 digest of `challenge + nonce`, compared as bytes,'',
     ''   sorts strictly below `threshold`.'',
     ''3. `POST '' @ pathAnswer @ ''` with `{\"challenge\": ..., \"nonce\": ...}`.'',
     ''4. Retry with the `'' @ cookieName @ ''` cookie the answer sets.'',
     [],
     ''Full instructions: `'' @ pathInstructions @ ''`'',
     [],
     ''## If a human sent you'',
     [],
     ''Open the URL in a normal browser. The puzzle runs automatically, costs nothing,'',
     ''and takes about a second.'']"

subsection \<open>Serving an offer\<close>

definition wants_json_answer :: "gate \<Rightarrow> request \<Rightarrow> bool" where
  "wants_json_answer g r \<longleftrightarrow> tr_JSONAccept (c_Triage (g_cfg g)) \<and> wantsJSON r"

definition pay_status :: "gate \<Rightarrow> request \<Rightarrow> int" where
  "pay_status g r = (if okBodyAgent g r then 200 else 402)"

definition whole_seconds :: "duration \<Rightarrow> bytes" where
  "whole_seconds d = show_int (go_div d second)"

definition servePaymentRequired :: "gate \<Rightarrow> request \<Rightarrow> rule \<Rightarrow> bytes \<Rightarrow> duration \<Rightarrow> recorder \<Rightarrow> recorder" where
  "servePaymentRequired g r u errMsg retryAfter w =
     (let doc = offer g u r errMsg;
          w = w_Set HeaderRequired (required_Encode doc) (noStore w);
          w = (if 0 < retryAfter then w_Set ''Retry-After'' (whole_seconds retryAfter) w else w)
      in if wants_json_answer g r
         then rec_Write (json_Encode (required_json doc))
                (rec_WriteHeader (pay_status g r) (w_Set ''Content-Type'' ''application/json'' w))
         else rec_Write (payMarkdown g doc u)
                (rec_WriteHeader (pay_status g r) (w_Set ''Content-Type'' ''text/markdown; charset=utf-8'' w)))"

definition b64Std :: "bytes \<Rightarrow> bytes" where "b64Std b = b64_encode StdEncoding b"

definition settle_response_json :: "settle_response \<Rightarrow> json" where
  "settle_response_json sr = JObj
     ([(''success'', JBool (sr_Success sr))] @ json_str_opt ''errorReason'' (sr_ErrorReason sr)
      @ json_str_opt ''payer'' (sr_Payer sr)
      @ json_str_opt ''transaction'' (sr_Transaction sr) @ json_str_opt ''network'' (sr_Network sr)
      @ json_str_opt ''amount'' (sr_Amount sr))"

definition pending_json :: "pay_result \<Rightarrow> json" where
  "pending_json res = JObj
     [(''error'', JStr ErrorSettlementPending),
      (''next'', JStr (''do NOT sign a new payment; check the transaction on chain, then ''
                     @ ''re-present the SAME PAYMENT-SIGNATURE'')),
      (''settlement'', JObj [(''network'', JStr (res_Network res)), (''payer'', JStr (res_Payer res)),
         (''status'', JStr ''broadcast, confirmation unknown''), (''transaction'', JStr (res_Tx res))]),
      (''x402Version'', JNum (show_int payment_Version))]"

definition pending_text :: "pay_result \<Rightarrow> bytes" where
  "pending_text res =
     unlines [''# Payment settlement pending'',
     [],
     ''Your payment was broadcast. Its confirmation could not be established yet, so'',
     ''this resource is not being served '' @ [CHR 0xE2, CHR 0x80, CHR 0x94] @ '' but **you may already have been charged**.'',
     [],
     ''- transaction: `'' @ res_Tx res @ ''`'']
     @ (if res_Network res \<noteq> [] then unlines [''- network: `'' @ res_Network res @ ''`''] else [])
     @ (if res_Payer res \<noteq> [] then unlines [''- payer: `'' @ res_Payer res @ ''`''] else [])
     @ unlines [[],
     ''## What to do'',
     [],
     ''**Do not sign a new payment.** Signing again risks paying twice for one'',
     ''resource: the transaction above may confirm at any moment.'',
     [],
     ''1. Check the transaction on `'' @ (if res_Network res \<noteq> [] then res_Network res else ''the network you paid on'') @ ''`.'',
     ''2. If it confirmed, retry this request with the **same** `PAYMENT-SIGNATURE`.'',
     ''   Its token authorization cannot transfer the amount twice, but x402 does not'',
     ''   require every facilitator to cache a successful settlement response.'',
     ''3. If it failed on chain, sign a fresh payment '' @ [CHR 0xE2, CHR 0x80, CHR 0x94] @ '' the original was never spent.'',
     [],
     ''The free proof-of-work door is open either way and costs nothing:'',
     ''see `'' @ pathInstructions @ ''`.'']"

definition servePaymentPending :: "gate \<Rightarrow> request \<Rightarrow> pay_result \<Rightarrow> recorder \<Rightarrow> recorder" where
  "servePaymentPending g r res w =
     (let receipt = \<lparr>sr_Success = False, sr_ErrorReason = ErrorSettlementPending, sr_Payer = res_Payer res,
                     sr_Transaction = res_Tx res, sr_Network = res_Network res, sr_Amount = []\<rparr>;
          w = w_Set HeaderResponse (b64Std (json_print (settle_response_json receipt))) (noStore w);
          retry = (if res_RetryAfter res < second then 5 * second else res_RetryAfter res);
          w = w_Set ''Retry-After'' (whole_seconds retry) w
      in if wants_json_answer g r
         then rec_Write (json_Encode (pending_json res))
                (rec_WriteHeader (pay_status g r) (w_Set ''Content-Type'' ''application/json'' w))
         else rec_Write (pending_text res)
                (rec_WriteHeader (pay_status g r) (w_Set ''Content-Type'' ''text/markdown; charset=utf-8'' w)))"

end
