(* ===== verification/FreeDoor.thy ===== *)
theory FreeDoor
  imports Endpoints
begin

text \<open>
  The free way in as a whole: a challenge issued, solved and redeemed gives a pass that opens the
  site, and renewals of that pass are bounded by the session that began with the admission.
\<close>

subsection \<open>A minted pass travels in a cookie\<close>

definition cookie_safe :: "char \<Rightarrow> bool" where
  "cookie_safe c \<longleftrightarrow> valid_cookie_byte c \<and> \<not> is_space c \<and> c \<noteq> CHR '';'' \<and> c \<noteq> CHR '',''"

lemma cookie_safe_val:
  "33 \<le> byte_val c \<Longrightarrow> byte_val c \<le> 126 \<Longrightarrow> byte_val c \<notin> {34, 44, 59, 92} \<Longrightarrow> cookie_safe c"
  by (auto simp: cookie_safe_def valid_cookie_byte_def is_space_def char_between_def byte_val_def)

lemma b64_val_byte: "b64_val url c = Some n \<Longrightarrow> byte_val c \<in> {43, 45, 47, 95} \<or> 48 \<le> byte_val c \<and> byte_val c \<le> 57
    \<or> 65 \<le> byte_val c \<and> byte_val c \<le> 90 \<or> 97 \<le> byte_val c \<and> byte_val c \<le> 122"
  by (simp add: b64_val_def Let_def byte_val_def split: if_splits)

lemma b64_out_cookie_safe: "b64_out e c \<Longrightarrow> cookie_safe c"
proof -
  assume "b64_out e c"
  then consider n where "b64_val (b64_url e) c = Some n" | "c = CHR ''=''" using b64_char_val by (auto simp: b64_out_def)
  then show "cookie_safe c"
  proof cases
    case 1
    from b64_val_byte [OF this] show ?thesis by (intro cookie_safe_val) auto
  next
    case 2
    then show ?thesis by (intro cookie_safe_val) (simp_all add: byte_val_def)
  qed
qed

lemma b64_cookie_safe: "list_all cookie_safe (b64_encode e s)"
  by (auto simp: list_all_iff intro: b64_out_cookie_safe b64_encode_out)

lemma Mint_cookie_safe: "Mint hm kr p = Inr s \<Longrightarrow> s \<noteq> [] \<and> list_all cookie_safe s"
proof -
  have "cookie_safe CHR ''.''"
    by (rule cookie_safe_val) (simp_all add: byte_val_def)
  moreover assume "Mint hm kr p = Inr s"
  ultimately show ?thesis by (auto simp: Mint_def Let_def b64_cookie_safe split: option.splits)
qed

lemma Cookies_pass:
  assumes "hdr_Values h ''Cookie'' = [cookieName @ ''='' @ v]" and "v \<noteq> []" and "list_all cookie_safe v"
  shows "Cookies h = [(cookieName, v)]"
proof -
  have n: "CHR '';'' \<notin> set cookieName" "CHR ''='' \<notin> set cookieName" "is_token cookieName"
    "cookieName \<noteq> []" "\<not> is_space (hd cookieName)" "\<not> is_space (last cookieName)"
    by code_simp+
  let ?p = "cookieName @ ''='' @ v"
  from n assms(3) have sp: "CHR '';'' \<notin> set ?p" by (auto simp: list_all_iff cookie_safe_def)
  have v: "list_all valid_cookie_byte v" "CHR 0x22 \<notin> set v"
    using assms(3) by (auto simp: list_all_iff cookie_safe_def valid_cookie_byte_def)
  then have "hd v \<noteq> CHR 0x22" using assms(2) by (metis hd_in_set)
  with v(1) have "parse_cookie_value v = Some v" by (simp add: parse_cookie_value_def Let_def)
  moreover have "trim_space ?p = ?p" "trim_space cookieName = cookieName"
    using n(4-6) assms(2,3) by (intro trim_space_id; simp add: list_all_iff cookie_safe_def)+
  moreover have "cut CHR ''='' ?p = (cookieName, v, True)" using cut_append [OF n(2), of v] by simp
  ultimately have "parse_cookie ?p = Some (cookieName, v)"
    using n(3,4) by (simp add: parse_cookie_def Let_def del: append_assoc)
  then show ?thesis
    using assms(1) split_on_no_sep [OF sp] by (simp add: Cookies_def List.map_filter_def)
qed

subsection \<open>A built gate\<close>

definition gate_ok :: "gate \<Rightarrow> bool" where
  "gate_ok g \<longleftrightarrow> keyring_ok (g_keyring g) \<and> ascii_string (signKid (g_keyring g)) \<and> g_issuer g \<noteq> []
     \<and> (\<forall>k m. length (g_hm g k m) = macLen) \<and> (\<forall>b. length (g_sha g b) = 32)
     \<and> profile_wf (g_admit g) \<and> prof_Kind (g_admit g) = KindAdmit
     \<and> profile_wf (g_renew g) \<and> prof_Kind (g_renew g) = KindRenew"

text \<open>A visitor with an authority and a resolvable address, and one that has the same.\<close>

definition visitor :: "gate \<Rightarrow> request \<Rightarrow> bool" where
  "visitor g r \<longleftrightarrow> requestAudience r \<noteq> [] \<and> ascii_string (requestAudience r)
     \<and> clientPrefix g r \<noteq> [] \<and> ascii_string (clientPrefix g r)"

definition same_visitor :: "gate \<Rightarrow> request \<Rightarrow> request \<Rightarrow> bool" where
  "same_visitor g r r' \<longleftrightarrow> requestAudience r' = requestAudience r \<and> clientPrefix g r' = clientPrefix g r"

text \<open>The readings of the clock while an answer is handled lie inside the lifetime \<open>ttl\<close> from \<open>t\<close>.\<close>

definition in_time :: "host \<Rightarrow> time \<Rightarrow> duration \<Rightarrow> bool" where
  "in_time hs t ttl \<longleftrightarrow> t \<le> h_clock hs AtAnswer \<and> h_clock hs AtAnswer \<le> t + ttl \<and> h_clock hs AtRemaining < t + ttl
     \<and> 0 < time_unix (h_clock hs AtMint) \<and> time_unix (h_clock hs AtMint) < time_unix (t + ttl)
     \<and> in_int64 (time_unix (t + ttl))"

definition presents :: "request \<Rightarrow> bytes \<Rightarrow> bool" where
  "presents r v \<longleftrightarrow> hdr_Values (req_Header r) ''Cookie'' = [cookieName @ ''='' @ v]"

lemma uaHash_ok: "gate_ok g \<Longrightarrow> uaHash (g_sha g) ua \<noteq> [] \<and> ascii_string (uaHash (g_sha g) ua)"
proof -
  let ?x = "take 9 (g_sha g (''anteroom-ua-v0.'' @ ua))"
  assume "gate_ok g"
  then have "length (g_sha g b) = 32" for b by (simp add: gate_ok_def)
  then have "0 < length ?x" unfolding length_take by simp
  then have "?x \<noteq> []" by (rule length_greater_0_conv [THEN iffD1])
  moreover have "b64_encode RawURLEncoding ?x = b64_encode RawURLEncoding [] \<longleftrightarrow> ?x = []" by (rule b64_encode_inject)
  moreover have "b64_encode RawURLEncoding [] = []" by (simp add: b64_encode_def)
  ultimately have "uaHash (g_sha g) ua \<noteq> []" by (simp only: uaHash_def simp_thms)
  moreover have "ascii_string (uaHash (g_sha g) ua)" unfolding uaHash_def by (rule b64_encode_ascii)
  ultimately show ?thesis ..
qed

lemma earned_pass_valid:
  assumes "gate_ok g" and "visitor g r" and "in_time hs t ttl" and "\<forall>rt. rootAt = Some rt \<longrightarrow> 0 \<le> time_unix rt \<and> time_unix rt \<le> time_unix (h_clock hs AtMint)"
  shows "pass_validate (earned_pass g hs r (t + ttl) rootAt) = None \<and> pass_wf (earned_pass g hs r (t + ttl) rootAt)"
proof -
  let ?p = "earned_pass g hs r (t + ttl) rootAt"
  have f: "pass_Kind ?p = KindPoW" "pass_Scope ?p = ScopeAll" "pass_Aud ?p = requestAudience r"
    "pass_Iat ?p = time_unix (h_clock hs AtMint)" "pass_Exp ?p = time_unix (t + ttl)" "pass_Payer ?p = []" "pass_Tx ?p = []"
    "pass_IPP ?p = clientPrefix g r" "pass_UAH ?p = uaHash (g_sha g) (req_Get r ''User-Agent'')"
    "pass_Rt ?p = (case rootAt of None \<Rightarrow> 0 | Some rt \<Rightarrow> time_unix rt)"
    "pass_V ?p = 0" "pass_Kid ?p = []"
    by (simp_all add: earned_pass_def stamped_pass_PoW stamped_pass_Rt)
      (simp_all add: stamped_pass_def pow_pass_def zero_pass_def Let_def split: option.split)
  have t: "0 < time_unix (h_clock hs AtMint)" "time_unix (h_clock hs AtMint) < time_unix (t + ttl)"
    "in_int64 (time_unix (t + ttl))" using assms(3) by (auto simp: in_time_def)
  then have i: "in_int64 (time_unix (h_clock hs AtMint))" by (simp add: in_int64_def min_int64_def)
  have rt: "0 \<le> pass_Rt ?p" "pass_Rt ?p \<le> time_unix (h_clock hs AtMint)"
    using assms(4) t(1) by (auto simp: f split: option.splits)
  then have "in_int64 (pass_Rt ?p)" using i by (simp add: in_int64_def min_int64_def)
  moreover have "ascii_string ScopeAll" "ascii_string KindPoW" "ScopeAll \<noteq> []" "in_int64 0" by code_simp+
  ultimately show ?thesis
    using assms(2) uaHash_ok [OF assms(1)] t i rt
    by (simp add: pass_validate_def pass_wf_def visitor_def f(1-9,11,12))
qed


subsection \<open>From a challenge to a pass\<close>

lemma kinds_differ: "KindAdmit \<noteq> KindRenew" by code_simp

lemma Mint_ok: "pass_validate p = None \<Longrightarrow> \<exists>s. Mint hm kr p = Inr s"
  by (simp add: Mint_def Let_def)

lemma issued_verifies:
  assumes "gate_ok g" and "Issue (g_hm g) (g_issuer g) (Some rnd) now aud prof = Inr (c, t)" and "length rnd = randLen"
    and "profile_wf prof" and "in_int64 (time_unix now)" and "t \<le> later" and "later \<le> t + prof_TTL prof"
  shows "challenge_Verify (g_hm g) (g_issuer g) c aud later = Inr (t, prof)"
proof -
  obtain k ks where ks: "g_issuer g = k # ks" using assms(1) by (auto simp: gate_ok_def neq_Nil_conv)
  have mac: "length (g_hm g (KeyBytes k) m) = macLen" for m using assms(1) by (simp add: gate_ok_def)
  have ttl: "0 < prof_TTL prof" "prof_TTL prof \<le> max_int64" using assms(4)
    by (auto simp: profile_wf_def profile_validate_def in_int64_def split: if_splits)
  with assms(6,7) have "time_sub later t = later - t" "time_sub t later = t - later"
    by (intro time_sub_exact; simp add: in_int64_def min_int64_def max_int64_def)+
  moreover have "0 \<le> skew" by (simp add: skew_def second_def)
  ultimately show ?thesis
    using challenge_roundtrip [OF mac assms(2) [unfolded ks] assms(4,3,5), of "g_issuer g" later] assms(6,7)
    by (simp add: ks)
qed

lemma answer_accepts:
  assumes "gate_ok g" and "visitor g r" and "in_time hs t (prof_TTL prof)"
    and "dec_answer (req_Body r) = Some (c, nonce)"
    and "challenge_Verify (g_hm g) (g_issuer g) c (requestAudience r) (h_clock hs AtAnswer) = Inr (t, prof)"
    and "CheckPoW (g_sha g) c nonce (prof_Threshold prof) = None" and "renewal_root g r t prof = Inr rootAt"
    and "\<forall>rt. rootAt = Some rt \<longrightarrow> 0 \<le> time_unix rt \<and> time_unix rt \<le> time_unix (h_clock hs AtMint)"
  shows "\<exists>ck. answer_result g hs r = Inr (Kind_String (prof_Kind prof), t + prof_TTL prof, t, ck)
    \<and> Mint (g_hm g) (g_keyring g) (earned_pass g hs r (t + prof_TTL prof) rootAt) = Inr (sc_Value ck)
    \<and> pass_wf (earned_pass g hs r (t + prof_TTL prof) rootAt)"
proof -
  let ?p = "earned_pass g hs r (t + prof_TTL prof) rootAt"
  from earned_pass_valid [OF assms(1,2,3,8)] have v: "pass_validate ?p = None" "pass_wf ?p" by auto
  from Mint_ok [OF v(1)] obtain s where s: "Mint (g_hm g) (g_keyring g) ?p = Inr s" by blast
  then obtain ck where ck: "setPassCookie g r (h_clock hs AtMint) pow_pass (t + prof_TTL prof) rootAt = Inr ck" "sc_Value ck = s"
    by (auto simp: setPassCookie_def earned_pass_def)
  have "h_clock hs AtRemaining < t + prof_TTL prof" using assms(3) by (simp add: in_time_def)
  then have "0 < time_sub (t + prof_TTL prof) (h_clock hs AtRemaining)" by (simp add: time_sub_def max_int64_def)
  with assms(4-7) ck(1) have "answer_result g hs r = Inr (Kind_String (prof_Kind prof), t + prof_TTL prof, t, ck)"
    unfolding answer_result_Inr redeem_Inr by blast
  with s ck(2) v(2) show ?thesis by blast
qed

lemma presented_pass_opens:
  assumes "gate_ok g" and "Mint (g_hm g) (g_keyring g) p = Inr v" and "pass_wf p" and "pass_Kind p = KindPoW"
    and "pass_Aud p = requestAudience r" and "pass_IPP p = clientPrefix g r" and "presents r v"
    and "time_unix tm < pass_Exp p" and "pass_Iat p \<le> time_unix (tm + clockSkew)"
  shows "\<exists>q. validPassAt g r tm = Some q \<and> scopeCovers g q (req_Path r)"
proof -
  let ?q = "p\<lparr>pass_V := token_Version, pass_Kid := signKid (g_keyring g)\<rparr>"
  have v: "v \<noteq> []" "list_all cookie_safe v" using Mint_cookie_safe [OF assms(2)] by auto
  have "token_Verify (g_hm g) (g_keyring g) v tm = Inr ?q"
    using assms(1) by (intro token_roundtrip [OF _ _ assms(3,2,8,9)]) (simp_all add: gate_ok_def)
  then have u: "usable_pass g r tm v ?q" using v(1) assms(5,6) by (simp add: usable_pass_def)
  then have "scopeCovers g ?q (req_Path r)" by (rule usable_pass_covers) (simp add: assms(4))
  with u have "validPassAt g r tm = Some ?q"
    by (simp only: validPassAt_def Cookies_pass [OF assms(7) [unfolded presents_def] v] scan_usable [OF u] if_True)
  with \<open>scopeCovers g ?q (req_Path r)\<close> show ?thesis by blast
qed

text \<open>Work is all a visitor needs. A visitor without a pass asks for a challenge, finds a nonce below
  the advertised threshold and posts it while the challenge lives; the answer is a pass, and every later
  request of that visitor that presents it, up to the expiry, opens whatever path it asks for.\<close>

lemma solve_then_enter:
  assumes "gate_ok g" and "mayRenew g r1 now = None" and "challenge_response g (Some rnd) r1 now = Inr resp"
    and "length rnd = randLen" and "in_int64 (time_unix now)"
    and "visitor g r2" and "same_visitor g r1 r2" and "req_Body r2 = answer_body (cr_Challenge resp) nonce"
    and "ascii_string nonce" and "length (req_Body r2) \<le> 4096"
    and "CheckPoW (g_sha g) (cr_Challenge resp) nonce (prof_Threshold (g_admit g)) = None"
    and "in_time hs (unix_time (time_unix now)) (prof_TTL (g_admit g))"
    and "same_visitor g r2 r3" and "h_clock hs AtMint \<le> tm" and "time_unix tm < time_unix (unix_time (time_unix now) + prof_TTL (g_admit g))"
  shows "\<exists>ck. answer_result g hs r2
        = Inr (''admit'', unix_time (time_unix now) + prof_TTL (g_admit g), unix_time (time_unix now), ck)
    \<and> (presents r3 (sc_Value ck) \<longrightarrow> (\<exists>q. validPassAt g r3 tm = Some q \<and> scopeCovers g q (req_Path r3)))"
proof -
  let ?t = "unix_time (time_unix now)" and ?prof = "g_admit g"
  have prof: "profile_wf ?prof" "prof_Kind ?prof = KindAdmit" "Kind_String (prof_Kind ?prof) = ''admit''"
    using assms(1) kinds_differ by (auto simp: gate_ok_def Kind_String_def)
  obtain t where i: "Issue (g_hm g) (g_issuer g) (Some rnd) now (requestAudience r1) ?prof = Inr (cr_Challenge resp, t)"
    using assms(2,3) by (auto simp: challenge_response_def challenge_profile_def Let_def split: sum.splits)
  then have t: "t = ?t" by (simp add: Issue_Inr_iff)
  have "ascii_string (cr_Challenge resp)" using i by (auto simp: Issue_def Let_def split: option.splits list.splits)
      (metis b64_encode_ascii)
  with assms(8-10) have d: "dec_answer (req_Body r2) = Some (cr_Challenge resp, nonce)" by (simp add: dec_answer_body)
  have "challenge_Verify (g_hm g) (g_issuer g) (cr_Challenge resp) (requestAudience r2) (h_clock hs AtAnswer) = Inr (?t, ?prof)"
    using issued_verifies [OF assms(1) i assms(4) prof(1) assms(5)] assms(7,12) by (simp add: t in_time_def same_visitor_def)
  from answer_accepts [OF assms(1,6,12) d this assms(11), of None] obtain ck where
    ck: "answer_result g hs r2 = Inr (Kind_String (prof_Kind ?prof), ?t + prof_TTL ?prof, ?t, ck)"
      "Mint (g_hm g) (g_keyring g) (earned_pass g hs r2 (?t + prof_TTL ?prof) None) = Inr (sc_Value ck)"
      "pass_wf (earned_pass g hs r2 (?t + prof_TTL ?prof) None)"
    using prof(2) kinds_differ by (auto simp: renewal_root_def)
  let ?p = "earned_pass g hs r2 (?t + prof_TTL ?prof) None"
  have "time_unix (h_clock hs AtMint) \<le> time_unix (tm + clockSkew)"
    using assms(14) by (intro time_unix_mono) (simp add: clockSkew_def second_def)
  then have "presents r3 (sc_Value ck) \<longrightarrow> (\<exists>q. validPassAt g r3 tm = Some q \<and> scopeCovers g q (req_Path r3))"
    using presented_pass_opens [OF assms(1) ck(2,3), of r3 tm] assms(13,15)
    by (simp add: earned_pass_def stamped_pass_PoW same_visitor_def)
  with ck(1) prof(3) show ?thesis by auto
qed


subsection \<open>Renewals\<close>

lemma Mint_valid: "Mint hm kr p = Inr s \<Longrightarrow> pass_validate p = None"
  by (auto simp: Mint_def split: option.splits)

lemma time_sub_less: "time_sub t u < d \<Longrightarrow> d \<le> max_int64 \<Longrightarrow> t - u < d"
  by (auto simp: time_sub_def min_def max_def split: if_splits)

text \<open>C22: one admission buys one session. A renewal needs a live pass that was earned by work for this
  authority and this network, and a signed renewal challenge, issued while that pass's session was younger than
  \<open>max_session\<close>. The new pass descends from the same root admission, and it expires one lifetime of
  the signed challenge after that challenge was issued: so before \<open>max_session\<close> and one lifetime have gone by since the
  root, however often the session was renewed before.\<close>

theorem renewal_session_bound:
  assumes "answer_result g hs r = Inr (''renew'', ex, t, ck)" and "c_MaxSession (g_cfg g) \<le> max_int64"
  shows "\<exists>c nonce prof v p q. dec_answer (req_Body r) = Some (c, nonce)
    \<and> challenge_Verify (g_hm g) (g_issuer g) c (requestAudience r) (h_clock hs AtAnswer) = Inr (t, prof)
    \<and> prof_Kind prof = KindRenew \<and> ex = t + prof_TTL prof
    \<and> (cookieName, v) \<in> set (Cookies (req_Header r)) \<and> usable_pass g r t v p \<and> pass_Kind p = KindPoW
    \<and> t < RootAt p + c_MaxSession (g_cfg g)
    \<and> Mint (g_hm g) (g_keyring g) q = Inr (sc_Value ck) \<and> pass_Kind q = KindPoW \<and> RootAt q = RootAt p
    \<and> pass_Exp q = time_unix ex \<and> unix_time (pass_Exp q) < RootAt q + c_MaxSession (g_cfg g) + prof_TTL prof"
proof -
  from assms(1) obtain c nonce prof rootAt where
    ch: "dec_answer (req_Body r) = Some (c, nonce)"
      "challenge_Verify (g_hm g) (g_issuer g) c (requestAudience r) (h_clock hs AtAnswer) = Inr (t, prof)"
    and ra: "renewal_root g r t prof = Inr rootAt" and k: "Kind_String (prof_Kind prof) = ''renew''"
    and ex: "ex = t + prof_TTL prof"
    and m: "setPassCookie g r (h_clock hs AtMint) pow_pass ex rootAt = Inr ck"
    unfolding answer_result_Inr redeem_Inr by auto
  from k have kind: "prof_Kind prof = KindRenew" by (simp add: Kind_String_def split: if_splits)
  with ra obtain rt where rt: "rootAt = Some rt" "mayRenew g r t = Some rt"
    by (auto simp: renewal_root_def split: option.splits)
  from mayRenew_Some [OF rt(2)] obtain v p where p: "(cookieName, v) \<in> set (Cookies (req_Header r))"
    "usable_pass g r t v p" "pass_Kind p = KindPoW" "rt = RootAt p" "time_sub t rt < c_MaxSession (g_cfg g)" by blast
  have "pass_validate p = None" using p(2) by (auto simp: usable_pass_def token_Verify_Inr_iff)
  then have u: "0 < time_unix rt \<and> unix_time (time_unix rt) = rt"
    by (auto simp: p(4) RootAt_def pass_validate_def split: if_splits)
  define q where "q = stamped_pass g r (h_clock hs AtMint) pow_pass ex rootAt"
  have "pass_Rt q = time_unix rt" by (simp add: q_def stamped_pass_Rt rt(1))
  with u have "RootAt q = RootAt p" unfolding p(4) [symmetric] by (simp add: RootAt_def)
  moreover have "Mint (g_hm g) (g_keyring g) q = Inr (sc_Value ck)" using m by (simp add: setPassCookie_Inr q_def)
  moreover have "pass_Exp q = time_unix ex" "unix_time (time_unix ex) \<le> ex" by (simp_all add: q_def unix_time_le)
  moreover have "t < RootAt p + c_MaxSession (g_cfg g)" using time_sub_less [OF p(5) assms(2)] by (simp add: p(4))
  moreover have "pass_Kind q = KindPoW" by (simp add: q_def)
  ultimately show ?thesis using p(1-3) ch kind ex
    by (intro exI [of _ c] exI [of _ nonce] exI [of _ prof] exI [of _ v] exI [of _ p] exI [of _ q]) auto
qed


text \<open>C6: work is what a free pass costs. A pass is minted only for a challenge that this gate's keys
  signed for this authority and that is inside its window, together with a nonce whose digest is below the
  signed threshold; a renewal challenge counts only with a pass that was renewable when it was issued. The
  pass expires one lifetime after the challenge was issued, however late the answer came.\<close>

theorem answer_pass_earned:
  assumes "answer_result g hs r = Inr (kind, ex, issuedAt, ck)"
  shows "\<exists>c nonce prof rootAt. dec_answer (req_Body r) = Some (c, nonce)
    \<and> challenge_Verify (g_hm g) (g_issuer g) c (requestAudience r) (h_clock hs AtAnswer) = Inr (issuedAt, prof)
    \<and> CheckPoW (g_sha g) c nonce (prof_Threshold prof) = None
    \<and> (prof_Kind prof = KindRenew \<longrightarrow> rootAt = mayRenew g r issuedAt \<and> rootAt \<noteq> None)
    \<and> (prof_Kind prof \<noteq> KindRenew \<longrightarrow> rootAt = None)
    \<and> ex = issuedAt + prof_TTL prof \<and> h_clock hs AtRemaining < ex
    \<and> Mint (g_hm g) (g_keyring g) (earned_pass g hs r ex rootAt) = Inr (sc_Value ck)
    \<and> pass_Exp (earned_pass g hs r ex rootAt) = time_unix ex \<and> pass_Aud (earned_pass g hs r ex rootAt) = requestAudience r
    \<and> pass_IPP (earned_pass g hs r ex rootAt) = clientPrefix g r"
proof -
  from assms obtain c nonce prof rootAt where a: "dec_answer (req_Body r) = Some (c, nonce)"
    "challenge_Verify (g_hm g) (g_issuer g) c (requestAudience r) (h_clock hs AtAnswer) = Inr (issuedAt, prof)"
    "renewal_root g r issuedAt prof = Inr rootAt" "CheckPoW (g_sha g) c nonce (prof_Threshold prof) = None"
    and b: "ex = issuedAt + prof_TTL prof" "0 < time_sub ex (h_clock hs AtRemaining)"
    "setPassCookie g r (h_clock hs AtMint) pow_pass ex rootAt = Inr ck"
    unfolding answer_result_Inr redeem_Inr by blast
  have "h_clock hs AtRemaining < ex" using b(2) by (simp add: time_sub_def min_def max_def min_int64_def split: if_splits)
  moreover have "(prof_Kind prof = KindRenew \<longrightarrow> rootAt = mayRenew g r issuedAt \<and> rootAt \<noteq> None)
      \<and> (prof_Kind prof \<noteq> KindRenew \<longrightarrow> rootAt = None)"
    using a(3) by (auto simp: renewal_root_def split: option.splits if_splits dest: sym)
  ultimately show ?thesis using a b
    by (intro exI [of _ c] exI [of _ nonce] exI [of _ prof] exI [of _ rootAt])
      (auto simp: setPassCookie_Inr earned_pass_def stamped_pass_PoW dest: sym)
qed

text \<open>
  Passes are dated in whole seconds, the check on the remaining lifetime is not: with a lifetime of a second
  and a half, an answer in the last half second, before the advertised deadline, is an internal error.
\<close>

lemma fractional_lifetime_fails:
  assumes "h_clock hs AtRemaining < t + prof_TTL prof" and "time_unix (t + prof_TTL prof) \<le> time_unix (h_clock hs AtMint)"
  shows "redeem g hs r t prof rootAt = Inl (''error'', 500, ''internal error'')"
proof -
  have "0 < time_sub (t + prof_TTL prof) (h_clock hs AtRemaining)"
    using assms(1) by (simp add: time_sub_def max_int64_def)
  moreover have "pass_validate (stamped_pass g r (h_clock hs AtMint) pow_pass (t + prof_TTL prof) rootAt) \<noteq> None"
    using assms(2) by (simp add: pass_validate_def)
  ultimately show ?thesis
    by (auto simp: redeem_def Let_def setPassCookie_def Mint_def split: option.splits)
qed

lemma fractional_lifetime_example:
  "time_unix (unix_time 1000 + 1500 * millisecond) \<le> time_unix (unix_time 1000 + 1200 * millisecond)
     \<and> unix_time 1000 + 1200 * millisecond < unix_time 1000 + 1500 * millisecond"
  by (simp add: time_unix_def unix_time_def second_def millisecond_def)

subsection \<open>An example visitor\<close>

lemma length_b64_encode: "length (b64_encode e s) \<le> 2 * length s + 2"
proof -
  have "length (b64_encode_vals e xs) \<le> 2 * length xs + 2" for xs
    by (induction e xs rule: b64_encode_vals.induct) simp_all
  from this [of "map byte_val s"] show ?thesis by (simp add: b64_encode_def)
qed

lemma length_escape_string: "ascii_string s \<Longrightarrow> length (escape_string s) \<le> 6 * length s"
proof (induction s)
  case (Cons c s)
  have "length (escape_char c) \<le> 6" by (simp add: escape_char_def hex4_def Let_def)
  with Cons show ?case by (simp add: ascii_char_def)
qed simp

lemma length_challenge:
  assumes "Issue hm ks (Some r) now aud prof = Inr (c, t)" and "profile_wf prof" and "length r = randLen"
    and "\<forall>k m. length (hm k m) = macLen"
  shows "ascii_string c \<and> length c \<le> 200"
proof -
  from assms(1) obtain k :: hmac_key where c: "c = b64_encode RawURLEncoding
      (challenge_body now r prof @ challenge_mac hm (KeyBytes k) (challenge_body now r prof) aud)"
    unfolding Issue_Inr_iff by blast
  have "length (challenge_body now r prof @ challenge_mac hm (KeyBytes k) (challenge_body now r prof) aud) = 98"
    using challenge_body_parts(1) [OF assms(3,2), of now] assms(4) by (simp add: challenge_mac_def challenge_lens)
  then show ?thesis
    using length_b64_encode [of RawURLEncoding "challenge_body now r prof @ challenge_mac hm (KeyBytes k) (challenge_body now r prof) aud"]
    unfolding c by (intro conjI b64_encode_ascii) linarith
qed

definition free_gate :: gate where
  "free_gate = demo_gate\<lparr>g_sha := (\<lambda>_. replicate 32 (CHR 0x01))\<rparr>"

definition free_host :: host where
  "free_host = \<lparr>h_clock = (\<lambda>_. unix_time 2000), h_rand = None,
     h_assets = \<lparr>as_header = [], as_footer = [], as_core = [], as_page = [], as_swShell = [], as_sha256Vendor = [],
       as_sha256 = [], as_renew = [], as_uninstall = []\<rparr>,
     h_pages = \<lparr>pd_Stat = (\<lambda>_. None), pd_ReadFile = (\<lambda>_. None)\<rparr>\<rparr>"

definition with_cookie :: "bytes \<Rightarrow> request \<Rightarrow> request" where
  "with_cookie v r = r\<lparr>req_Header := hdr_Set (req_Header r) ''Cookie'' (cookieName @ ''='' @ v)\<rparr>"

lemma ClientIP_cong:
  assumes "req_RemoteAddr r = req_RemoteAddr r'"
    and "hdr_Values (req_Header r) ''X-Forwarded-For'' = hdr_Values (req_Header r') ''X-Forwarded-For''"
  shows "ClientIP m r = ClientIP m r'"
proof -
  have "remote_host r = remote_host r'" using assms(1) by (simp add: remote_host_def split: option.split)
  with assms show ?thesis by (simp add: ClientIP_def Let_def split: option.split)
qed

lemma clientPrefix_cong: "ClientIP (g_match g) r = ClientIP (g_match g) r' \<Longrightarrow> clientPrefix g r = clientPrefix g r'"
  by (simp add: clientPrefix_def)

lemma free_gate_ok: "gate_ok free_gate"
proof -
  have "g_keyring free_gate = demo_keyring" "g_issuer free_gate = [demo_key]" "g_hm free_gate = const_mac"
    "g_sha free_gate = (\<lambda>_. replicate 32 (CHR 0x01))" "g_admit free_gate = demo_profile"
    "g_renew free_gate = demo_profile\<lparr>prof_Kind := KindRenew\<rparr>"
    by (simp_all add: free_gate_def demo_gate_def)
  moreover have "prof_Kind demo_profile = KindAdmit" "profile_wf (demo_profile\<lparr>prof_Kind := KindRenew\<rparr>)" by code_simp+
  ultimately show ?thesis
    using demo_keyring_facts demo_profile_facts by (simp add: gate_ok_def const_mac_def macLen_def)
qed

lemma demo_visitor: "requestAudience demo_request = ''example.com''" "clientPrefix free_gate demo_request = ''192.0.2.0/24''"
proof -
  show "requestAudience demo_request = ''example.com''" by code_simp
  have "addr_Prefix (addr_Unmap (AddrV4 0xC0000207)) 24 = Some \<lparr>pfx_addr = AddrV4 0xC0000200, pfx_bits = 24\<rparr>" by code_simp
  moreover have "prefix_String \<lparr>pfx_addr = AddrV4 0xC0000200, pfx_bits = 24\<rparr> = ''192.0.2.0/24''" by code_simp
  moreover have "ClientIP demo_matcher demo_request = Inr (addr_Unmap (AddrV4 0xC0000207))" by code_simp
  moreover have "g_match free_gate = demo_matcher" by (simp add: free_gate_def demo_gate_def)
  ultimately show "clientPrefix free_gate demo_request = ''192.0.2.0/24''"
    by (simp add: clientPrefix_def passPrefixBits4_def)
qed

lemma demo_variants:
  "requestAudience (with_cookie v r) = requestAudience r" "requestAudience (r\<lparr>req_Body := b\<rparr>) = requestAudience r"
  "clientPrefix g (with_cookie v r) = clientPrefix g r" "clientPrefix g (r\<lparr>req_Body := b\<rparr>) = clientPrefix g r"
  "presents (with_cookie v r) v" "req_Body (r\<lparr>req_Body := b\<rparr>) = b" "Cookies (req_Header (r\<lparr>req_Body := b\<rparr>)) = Cookies (req_Header r)"
  by (auto simp: with_cookie_def requestAudience_def presents_def intro!: clientPrefix_cong ClientIP_cong)

lemma demo_no_pass: "mayRenew free_gate demo_request tm = None"
proof -
  have "Cookies (req_Header demo_request) = []" by (simp add: Cookies_def demo_request_def)
  then show ?thesis by (simp add: mayRenew_def validPassAt_def)
qed

lemma demo_visits: "visitor free_gate (demo_request\<lparr>req_Body := b\<rparr>)" "visitor free_gate (with_cookie v demo_request\<lparr>req_Body := b\<rparr>)"
proof -
  have "ascii_string ''example.com''" "ascii_string ''192.0.2.0/24''" by code_simp+
  then show "visitor free_gate (demo_request\<lparr>req_Body := b\<rparr>)" "visitor free_gate (with_cookie v demo_request\<lparr>req_Body := b\<rparr>)"
    by (simp_all add: visitor_def demo_variants demo_visitor)
qed

lemma demo_in_time: "in_time free_host (unix_time (time_unix (unix_time 2000))) hour"
  by (simp add: in_time_def free_host_def) (simp add: unix_time_def time_unix_def second_def hour_def in_int64_def
      min_int64_def max_int64_def)

lemma demo_work: "CheckPoW (g_sha free_gate) c n (prof_Threshold demo_profile) = None"
proof -
  have "pow_compare (replicate 32 (CHR 0x01)) (prof_Threshold demo_profile) = None" by code_simp
  then show ?thesis by (simp add: CheckPoW_def free_gate_def)
qed

lemma demo_body_short: "ascii_string c \<Longrightarrow> length c \<le> 200 \<Longrightarrow> length (answer_body c ''n'') \<le> 4096"
  using length_escape_string [of c] by (simp add: answer_body_def escape_char_def ascii_chars Let_def byte_val_def)

lemma demo_pass_usable:
  "usable_pass free_gate (with_cookie (demo_cookie const_mac) demo_request) (unix_time 2000) (demo_cookie const_mac) demo_pass"
proof -
  have "demo_cookie const_mac \<noteq> []" by (simp add: demo_cookie_def)
  moreover have "pass_Aud demo_pass = ''example.com''" "pass_IPP demo_pass = ''192.0.2.0/24''" by (simp_all add: demo_pass_def)
  moreover have "g_hm free_gate = const_mac" "g_keyring free_gate = demo_keyring" by (simp_all add: free_gate_def demo_gate_def)
  ultimately show ?thesis by (simp add: usable_pass_def demo_variants demo_visitor demo_verify)
qed

lemma demo_may_renew: "mayRenew free_gate (with_cookie (demo_cookie const_mac) demo_request\<lparr>req_Body := b\<rparr>) (unix_time 2000) = Some (unix_time 1000)"
proof -
  let ?r = "with_cookie (demo_cookie const_mac) demo_request\<lparr>req_Body := b\<rparr>"
  have ck: "Cookies (req_Header ?r) = [(cookieName, demo_cookie const_mac)]"
    using Cookies_pass [OF demo_variants(5) [unfolded presents_def]] Mint_cookie_safe [OF demo_mint] by (simp add: demo_variants)
  have u: "usable_pass free_gate ?r (unix_time 2000) (demo_cookie const_mac) demo_pass"
    using demo_pass_usable by (simp add: usable_pass_def demo_variants)
  have k: "pass_Kind demo_pass = KindPoW" "pass_Scope demo_pass = ScopeAll" "RootAt demo_pass = unix_time 1000" by code_simp+
  have "validPassAt free_gate ?r (unix_time 2000) = Some demo_pass"
    by (simp only: validPassAt_def ck scan_usable [OF u] usable_pass_covers [OF u k(1)] if_True)
  moreover have "c_MaxSession (g_cfg free_gate) = 30 * minute" by (simp add: free_gate_def demo_gate_def defaults_def)
  ultimately show ?thesis
    by (simp add: mayRenew_def k) (simp add: time_sub_def min_int64_def max_int64_def unix_time_def second_def minute_def)
qed

lemma demo_renewed:
  "\<exists>c ck. answer_result free_gate free_host (with_cookie (demo_cookie const_mac) demo_request\<lparr>req_Body := answer_body c ''n''\<rparr>)
      = Inr (''renew'', unix_time 2000 + hour, unix_time 2000, ck)"
proof -
  let ?prof = "demo_profile\<lparr>prof_Kind := KindRenew\<rparr>"
  have f: "g_hm free_gate = const_mac" "g_issuer free_gate = [demo_key]" "prof_TTL ?prof = hour"
    "g_renew free_gate = ?prof" "c_MaxSession (g_cfg free_gate) = 30 * minute"
    by (simp_all add: free_gate_def demo_gate_def demo_profile_def defaults_def)
  have wf: "profile_wf ?prof" using free_gate_ok by (simp add: gate_ok_def f)
  then obtain c where i: "Issue (g_hm free_gate) (g_issuer free_gate) (Some (replicate randLen CHR ''r'')) (unix_time 2000) ''example.com'' ?prof = Inr (c, unix_time 2000)"
    by (auto simp: Issue_Inr_iff f profile_wf_def)
  have c: "ascii_string c" "length c \<le> 200"
    using length_challenge [OF i wf] by (auto simp: f const_mac_def macLen_def)
  let ?r = "with_cookie (demo_cookie const_mac) demo_request\<lparr>req_Body := answer_body c ''n''\<rparr>"
  have v: "challenge_Verify (g_hm free_gate) (g_issuer free_gate) c (requestAudience ?r) (h_clock free_host AtAnswer) = Inr (unix_time 2000, ?prof)"
    using issued_verifies [OF free_gate_ok i _ wf, of "unix_time 2000"]
    by (simp add: demo_variants demo_visitor free_host_def in_int64_def min_int64_def max_int64_def demo_profile_def hour_def)
  have n: "ascii_string ''n''" by code_simp
  have "\<exists>ck. answer_result free_gate free_host ?r = Inr (Kind_String (prof_Kind ?prof), unix_time 2000 + prof_TTL ?prof, unix_time 2000, ck)"
    using answer_accepts [OF free_gate_ok demo_visits(2), where prof = ?prof and t = "unix_time 2000" and c = c and nonce = "''n''" and
        rootAt = "Some (unix_time 1000)" and hs = free_host] demo_in_time v dec_answer_body [OF c(1) n demo_body_short [OF c]] demo_work demo_may_renew
    by (fastforce simp: f demo_variants renewal_root_def free_host_def)
  then show ?thesis by (auto simp: f Kind_String_def)
qed

lemma renewal_session_bound_witness:
  "\<exists>r ck c nonce prof v p q. answer_result free_gate free_host r = Inr (''renew'', unix_time 2000 + hour, unix_time 2000, ck)
    \<and> challenge_Verify (g_hm free_gate) (g_issuer free_gate) c (requestAudience r) (h_clock free_host AtAnswer) = Inr (unix_time 2000, prof)
    \<and> prof_TTL prof = hour \<and> dec_answer (req_Body r) = Some (c, nonce)
    \<and> (cookieName, v) \<in> set (Cookies (req_Header r)) \<and> usable_pass free_gate r (unix_time 2000) v p
    \<and> Mint (g_hm free_gate) (g_keyring free_gate) q = Inr (sc_Value ck) \<and> RootAt q = RootAt p
    \<and> unix_time (pass_Exp q) < RootAt q + c_MaxSession (g_cfg free_gate) + hour"
proof -
  from demo_renewed obtain r ck where r: "answer_result free_gate free_host r = Inr (''renew'', unix_time 2000 + hour, unix_time 2000, ck)"
    by blast
  have "c_MaxSession (g_cfg free_gate) \<le> max_int64"
    by (simp add: free_gate_def demo_gate_def defaults_def minute_def max_int64_def)
  from renewal_session_bound [OF r this] r show ?thesis by fastforce
qed

lemma answer_pass_earned_witness:
  "\<exists>r c nonce prof. dec_answer (req_Body r) = Some (c, nonce)
    \<and> challenge_Verify (g_hm free_gate) (g_issuer free_gate) c (requestAudience r) (h_clock free_host AtAnswer) = Inr (unix_time 2000, prof)
    \<and> CheckPoW (g_sha free_gate) c nonce (prof_Threshold prof) = None"
proof -
  from demo_renewed obtain r ck where "answer_result free_gate free_host r = Inr (''renew'', unix_time 2000 + hour, unix_time 2000, ck)"
    by blast
  from answer_pass_earned [OF this] show ?thesis by blast
qed

end
