(* ===== verification/Pay.thy ===== *)
theory Pay
  imports Offers FreeDoor
begin

text \<open>
  The pay door of \<open>internal/gate/pay.go\<close>: from a presented \<open>PAYMENT-SIGNATURE\<close> to a refusal or to a
  paid pass and the forwarded request. The store, the limiter and the facilitators' breakers are shared
  with other requests: \<open>pe_others\<close> is what they do to the store while the facilitator is asked, and
  \<open>pe_fac\<close> holds their part of the rest.
\<close>

subsection \<open>Settlement\<close>

definition breakerThreshold :: int where "breakerThreshold = 3"
definition breakerWindow :: duration where "breakerWindow = 30 * second"
definition breakerCooldown :: duration where "breakerCooldown = 30 * second"

definition paidExpiry :: "time \<Rightarrow> duration \<Rightarrow> time" where
  "paidExpiry now ttl =
     (let ex = now + ttl in if ex mod second = 0 then ex else unix_time (time_unix ex) + second)"

definition maxSettlementField :: nat where "maxSettlementField = 128"

definition settlementField :: "bytes \<Rightarrow> bytes" where
  "settlementField v = (if length v \<le> maxSettlementField then v else [])"

definition paymentsEnabled :: "gate \<Rightarrow> bool" where
  "paymentsEnabled g \<longleftrightarrow> c_Payments (g_cfg g) \<noteq> None \<and> g_verifiers g \<noteq> []"

definition verifierFor :: "gate \<Rightarrow> bytes \<Rightarrow> (bytes \<times> callback_verifier) option" where
  "verifierFor g network = map_of (g_verifiers g) network"

definition rail_decimals :: "rail list \<Rightarrow> bytes \<Rightarrow> int" where
  "rail_decimals rails network = (case find (\<lambda>r. rl_Network r = network) rails of Some r \<Rightarrow> rl_Decimals r | None \<Rightarrow> 6)"

definition paid_atomic :: "bytes \<Rightarrow> bytes \<Rightarrow> rule \<Rightarrow> int option" where
  "paid_atomic amount network u =
     (case big_SetString 10 amount of
        Some n \<Rightarrow> if n < 0 then map_of (ru_PriceAtomic u) network else Some n
      | None \<Rightarrow> map_of (ru_PriceAtomic u) network)"

definition countPaidValue :: "gate \<Rightarrow> bytes \<Rightarrow> bytes \<Rightarrow> rule \<Rightarrow> gate_metrics \<Rightarrow> gate_metrics" where
  "countPaidValue g amount network u m =
     (case paid_atomic amount network u of
        None \<Rightarrow> m
      | Some atomic \<Rightarrow>
         (let micros = go_div (atomic * 1000000) (10 ^ nat (rail_decimals (py_Rails (gate_payments g)) network)) in
          if micros < 0 \<or> 2 ^ 64 \<le> micros then m
          else m\<lparr>gm_paidValue := counter_Add (gm_paidValue m) (word_of_int micros)\<rparr>))"

text \<open>
  How a request ends: what was written, the state, the request the upstream got, if any, and the
  rung that answered.
\<close>

type_synonym served = "recorder \<times> gate_state \<times> request option \<times> decision"

definition pay_refuse ::
  "gate \<Rightarrow> request \<Rightarrow> rule \<Rightarrow> decision \<Rightarrow> bytes \<Rightarrow> duration \<Rightarrow> recorder \<Rightarrow> gate_state \<Rightarrow> served" where
  "pay_refuse g r u d msg retry w s = (servePaymentRequired g r u msg retry w, s, None, d)"

definition ambiguousGrantFailure :: bytes where
  "ambiguousGrantFailure = ''payment settled but the pass could not be issued; ''
     @ ''retry with the SAME PAYMENT-SIGNATURE inside its validity window''"

definition paid_pass :: "grant \<Rightarrow> pass" where
  "paid_pass gr = zero_pass\<lparr>pass_Kind := KindPaid, pass_Scope := g_Scope gr,
     pass_Payer := settlementField (g_Payer gr), pass_Tx := settlementField (g_Transaction gr)\<rparr>"

definition grant_receipt :: "grant \<Rightarrow> bytes" where
  "grant_receipt gr = b64Std (json_print (settle_response_json
     \<lparr>sr_Success = True, sr_ErrorReason = [], sr_Payer = g_Payer gr, sr_Transaction = g_Transaction gr,
      sr_Network = g_Network gr, sr_Amount = g_Amount gr\<rparr>))"

definition set_status :: "bytes \<Rightarrow> request \<Rightarrow> request" where
  "set_status v r = r\<lparr>req_Header := hdr_Set (req_Header r) ''X-Anteroom-Status'' v\<rparr>"

definition servePaidGrant ::
  "gate \<Rightarrow> host \<Rightarrow> (request \<Rightarrow> upstream_answer) \<Rightarrow> request \<Rightarrow> rule \<Rightarrow> grant \<Rightarrow> recorder \<Rightarrow> gate_state \<Rightarrow> served" where
  "servePaidGrant g hs up r u gr w s =
     (let ex = unix_time (g_ExpiresAt gr) in
      if ex \<le> h_clock hs AtGrant then
        pay_refuse g r u DecisionPayReplay ''this payment's access period has expired; sign a fresh one'' 0 w s
      else
        (case setPassCookie g r (h_clock hs AtMint) (paid_pass gr) ex None of
           Inl e \<Rightarrow> pay_refuse g r u DecisionPayGrantFailed ambiguousGrantFailure (2 * second) w s
         | Inr c \<Rightarrow>
            (let s = s\<lparr>st_met := (st_met s)\<lparr>gm_minted := count_in ''paid'' (gm_minted (st_met s))\<rparr>\<rparr>;
                 w = w_Add ''Set-Cookie'' (cookie_String c) w;
                 (p, s, out) = forward g up paid_writer_ops (set_status ''pass-paid'' r) (new_paid_writer (grant_receipt gr) w) s
             in (pw_w p, s, Some out, DecisionPassPaid))))"

subsection \<open>Presenting a payment\<close>

record pay_env =
  pe_begin :: store_io
  pe_commit :: store_io
  pe_release :: store_io
  pe_lease :: "bytes option"
  pe_others :: "grants_bucket \<Rightarrow> grants_bucket"
  pe_fac :: fac_env

text \<open>The refusals that cost nothing: method, upgrade, decoding, rail and identity.\<close>

definition pay_precheck ::
  "gate \<Rightarrow> request \<Rightarrow> rule \<Rightarrow> bytes \<Rightarrow> (decision \<times> bytes) + (payload \<times> requirements \<times> bytes)" where
  "pay_precheck g r u header =
     (if req_Method r \<noteq> ''GET'' \<and> req_Method r \<noteq> ''HEAD'' then
        Inl (DecisionPayMethodRefused,
             ''present payments on GET or HEAD to acquire a pass, then retry the original request with the pass cookie'')
      else if isUpgradeRequest r then
        Inl (DecisionPayUpgradeRefused, ''payments cannot be presented on protocol-upgrade requests'')
      else
        (case DecodePayload header of
           Inl e \<Rightarrow> Inl (DecisionPayMalformed, ''PAYMENT-SIGNATURE could not be decoded'')
         | Inr p \<Rightarrow>
            (case MatchRail p (rd_Accepts (offer g u r [])) of
               Inl e \<Rightarrow> Inl (DecisionPayUnoffered,
                          ''payment presented on a network or scheme this resource does not accept'')
             | Inr req \<Rightarrow>
                (case payment_ID (g_sha g) p req of
                   Inl e \<Rightarrow> Inl (DecisionPayUnidentified,
                              ''the authorization in this payment names no payer and nonce to identify it by'')
                 | Inr pid \<Rightarrow> Inr (p, req, pid)))))"

definition limit_key :: "gate \<Rightarrow> request \<Rightarrow> bytes" where
  "limit_key g r = (case ClientIP (g_match g) r of Inr ip \<Rightarrow> addr_String ip | Inl e \<Rightarrow> ''unresolved-client'')"

definition new_grant :: "paid_route \<Rightarrow> request \<Rightarrow> requirements \<Rightarrow> pay_result \<Rightarrow> time \<Rightarrow> grant" where
  "new_grant rt r req res ex = \<lparr>g_Scope = pr_scope rt, g_Audience = requestAudience r, g_Payer = res_Payer res,
     g_Transaction = res_Tx res, g_Amount = res_Amount res, g_Network = rq_Network req, g_ExpiresAt = time_unix ex\<rparr>"

text \<open>The case of a \<open>Valid\<close> verdict.\<close>

definition pay_settled ::
  "gate \<Rightarrow> host \<Rightarrow> pay_env \<Rightarrow> (request \<Rightarrow> upstream_answer) \<Rightarrow> request \<Rightarrow> paid_route \<Rightarrow> bytes \<Rightarrow> bytes \<Rightarrow> requirements
     \<Rightarrow> pay_result \<Rightarrow> recorder \<Rightarrow> gate_state \<Rightarrow> served" where
  "pay_settled g hs pe up r rt pid lease req res w s =
     (let u = pr_rule rt;
          ex = paidExpiry (h_clock hs AtPaidExpiry) (ru_PaidTTL u);
          (result, db) = store_Commit (pe_commit pe) pid lease (new_grant rt r req res ex) (pe_others pe (st_grants s));
          s = s\<lparr>st_grants := db\<rparr>
      in case result of
           Inl e \<Rightarrow> pay_refuse g r u DecisionPayGrantFailed ambiguousGrantFailure (2 * second) w s
         | Inr (gr, created) \<Rightarrow>
             if g_Scope gr \<noteq> pr_scope rt \<or> g_Audience gr \<noteq> requestAudience r
             then pay_refuse g r u DecisionPayGrantConflict ambiguousGrantFailure (2 * second) w s
             else servePaidGrant g hs up r u gr w
                    (s\<lparr>st_met := countPaidValue g (g_Amount gr) (rq_Network req) u (st_met s)\<rparr>))"

definition at_least :: "duration \<Rightarrow> duration \<Rightarrow> duration" where
  "at_least m d = (if d < m then m else d)"

definition pay_verdict_case ::
  "gate \<Rightarrow> host \<Rightarrow> pay_env \<Rightarrow> (request \<Rightarrow> upstream_answer) \<Rightarrow> request \<Rightarrow> paid_route \<Rightarrow> bytes \<Rightarrow> bytes \<Rightarrow> requirements
     \<Rightarrow> pay_result \<Rightarrow> recorder \<Rightarrow> gate_state \<Rightarrow> served" where
  "pay_verdict_case g hs pe up r rt pid lease req res w s =
     (case res_Verdict res of
        PayValid \<Rightarrow> pay_settled g hs pe up r rt pid lease req res w s
      | PayInvalid \<Rightarrow>
          pay_refuse g r (pr_rule rt) DecisionPayRejected
            (if res_Reason res = [] then ''payment rejected'' else res_Reason res) 0 w s
      | PayPending \<Rightarrow> (servePaymentPending g r res w, s, None, DecisionPayPending)
      | PayAmbiguous \<Rightarrow>
          pay_refuse g r (pr_rule rt) DecisionPayAmbiguous (res_Reason res) (at_least (2 * second) (res_RetryAfter res)) w s
      | PayIndeterminate \<Rightarrow>
          pay_refuse g r (pr_rule rt) DecisionPayInfra (res_Reason res) (at_least (5 * second) (res_RetryAfter res)) w s)"

definition no_verifier_text :: bytes where
  "no_verifier_text =
     ''the gate cannot reach a settlement service right now; retry shortly or use the free challenge''"

text \<open>What holds the reservation: the limit, the verifier of the rail and its verdict.\<close>

definition pay_reserved ::
  "gate \<Rightarrow> host \<Rightarrow> pay_env \<Rightarrow> (request \<Rightarrow> upstream_answer) \<Rightarrow> request \<Rightarrow> paid_route \<Rightarrow> payload \<Rightarrow> requirements \<Rightarrow> bytes
     \<Rightarrow> bytes \<Rightarrow> recorder \<Rightarrow> gate_state \<Rightarrow> served" where
  "pay_reserved g hs pe up r rt p req pid lease w s =
     (let (ok, lim) = Allow (st_payLimit s) (h_clock hs AtLimit) (limit_key g r);
          s = s\<lparr>st_payLimit := lim\<rparr>
      in if \<not> ok then
           pay_refuse g r (pr_rule rt) DecisionPayRateLimited ''too many payment attempts; slow down and retry'' (10 * second) w s
         else
           (case verifierFor g (rq_Network req) of
              None \<Rightarrow> pay_refuse g r (pr_rule rt) DecisionPayInfra no_verifier_text (5 * second) w s
            | Some (ident, v) \<Rightarrow>
               (let (res, fs, verifies, settles) = callback_Verify v (pe_fac pe) p req (st_facs s ident);
                    s = s\<lparr>st_facs := (st_facs s)(ident := fs)\<rparr>
                in pay_verdict_case g hs pe up r rt pid lease req res w s)))"

definition pay_release :: "pay_env \<Rightarrow> bytes \<Rightarrow> bytes \<Rightarrow> served \<Rightarrow> served" where
  "pay_release pe pid lease = (\<lambda>(w, s, out, d).
     (w, s\<lparr>st_grants := snd (store_Release (pe_release pe) pid lease (st_grants s))\<rparr>, out, d))"

definition servePayment ::
  "gate \<Rightarrow> host \<Rightarrow> pay_env \<Rightarrow> (request \<Rightarrow> upstream_answer) \<Rightarrow> request \<Rightarrow> paid_route \<Rightarrow> bytes \<Rightarrow> recorder \<Rightarrow> gate_state \<Rightarrow> served" where
  "servePayment g hs pe up r rt header w s =
     (let u = pr_rule rt in
      case pay_precheck g r u header of
        Inl (d, msg) \<Rightarrow> pay_refuse g r u d msg 0 w s
      | Inr (p, req, pid) \<Rightarrow>
         (let (result, db) = store_Begin (pe_begin pe) (h_clock hs AtBegin) (pe_lease pe) pid (st_grants s);
              s = s\<lparr>st_grants := db\<rparr>
          in case result of
               Inl e \<Rightarrow>
                 pay_refuse g r u DecisionPayStateUnavailable
                   ''payment recovery state is temporarily unavailable; retry the same payment'' (5 * second) w s
             | Inr (st, lease, prior) \<Rightarrow>
                (case st of
                   BeginRecoverable \<Rightarrow>
                     (let gr = (case prior of Some gr \<Rightarrow> gr | None \<Rightarrow> zero_grant) in
                      if g_Scope gr \<noteq> pr_scope rt \<or> g_Audience gr \<noteq> requestAudience r
                      then pay_refuse g r u DecisionPayReplay ''this payment has already been used for another resource'' 0 w s
                      else servePaidGrant g hs up r u gr w s)
                 | BeginSpent \<Rightarrow>
                     pay_refuse g r u DecisionPayReplay ''this payment has already been used; sign a fresh one'' 0 w s
                 | BeginInFlight \<Rightarrow>
                     pay_refuse g r u DecisionPayInflight
                       ''this payment is already being processed; retry the same payment'' (2 * second) w s
                 | BeginNew \<Rightarrow> pay_release pe pid lease (pay_reserved g hs pe up r rt p req pid lease w s))))"

subsection \<open>What the door relies on from a verifier\<close>

text \<open>The \<open>Verifier\<close> interface: a \<open>Valid\<close> verdict has settlement evidence behind it.\<close>

locale payment_verifier =
  fixes verify :: "'v \<Rightarrow> 'e \<Rightarrow> payload \<Rightarrow> requirements \<Rightarrow> 's \<Rightarrow> pay_result \<times> 's \<times> 'c list \<times> 'c list"
    and evidence :: "'v \<Rightarrow> 'e \<Rightarrow> payload \<Rightarrow> requirements \<Rightarrow> 'c list \<Rightarrow> pay_result \<Rightarrow> bool"
  assumes valid_evidence:
    "verify v e p req s = (res, s', vs, ss) \<Longrightarrow> res_Verdict res = PayValid \<Longrightarrow> evidence v e p req ss res"
begin

text \<open>What a client that acts on a \<open>Valid\<close> verdict only can conclude from having acted.\<close>

lemma acted_on_evidence:
  assumes "act (fst (verify v e p req s))" and "\<And>res. act res \<Longrightarrow> res_Verdict res = PayValid"
  shows "\<exists>res ss. evidence v e p req ss res \<and> act res"
proof -
  obtain res s' vs ss where v: "verify v e p req s = (res, s', vs, ss)" by (cases "verify v e p req s") auto
  with assms have "act res" by simp
  with valid_evidence [OF v assms(2)] show ?thesis by blast
qed

end

interpretation fac: payment_verifier callback_Verify settlement_evidence
  by unfold_locales (rule callback_Valid_evidence)

subsection \<open>The outcomes of a presentation\<close>

definition refused :: "gate \<Rightarrow> request \<Rightarrow> rule \<Rightarrow> recorder \<Rightarrow> served \<Rightarrow> bool" where
  "refused g r u w = (\<lambda>(w', s', out, d). (\<exists>msg retry. w' = servePaymentRequired g r u msg retry w)
     \<and> out = None \<and> \<not> upstream d \<and> d \<noteq> DecisionPayPending)"

text \<open>A grant turned into a pass: it is live, for this route and this authority, and the pass is minted from it.\<close>

definition passed :: "gate \<Rightarrow> host \<Rightarrow> request \<Rightarrow> grant \<Rightarrow> served \<Rightarrow> bool" where
  "passed g hs r gr = (\<lambda>(w', s', out, d). d = DecisionPassPaid \<and> out = Some (forwarded g (set_status ''pass-paid'' r))
     \<and> h_clock hs AtGrant < unix_time (g_ExpiresAt gr)
     \<and> (\<exists>c. setPassCookie g r (h_clock hs AtMint) (paid_pass gr) (unix_time (g_ExpiresAt gr)) None = Inr c))"

lemma not_upstream [simp]:
  "\<not> upstream DecisionPayMethodRefused" "\<not> upstream DecisionPayUpgradeRefused" "\<not> upstream DecisionPayMalformed"
  "\<not> upstream DecisionPayUnidentified" "\<not> upstream DecisionPayUnoffered" "\<not> upstream DecisionPayReplay"
  "\<not> upstream DecisionPayStateUnavailable" "\<not> upstream DecisionPayInflight" "\<not> upstream DecisionPayRateLimited"
  "\<not> upstream DecisionPayPending" "\<not> upstream DecisionPayGrantFailed" "\<not> upstream DecisionPayGrantConflict"
  "\<not> upstream DecisionPayRejected" "\<not> upstream DecisionPayAmbiguous" "\<not> upstream DecisionPayInfra"
  "\<not> upstream DecisionPaymentRequired" "upstream DecisionPassPaid"
  by (simp_all add: upstream_def)

lemma pay_refuse_refused [simp]:
  "\<not> upstream d \<Longrightarrow> d \<noteq> DecisionPayPending \<Longrightarrow> refused g r u w (pay_refuse g r u d msg retry w s)"
  by (auto simp: refused_def pay_refuse_def)

text \<open>What a sale writes and leaves behind: the cookie minted from the grant on the paid answer, and the store.\<close>

definition sold ::
  "gate \<Rightarrow> host \<Rightarrow> (request \<Rightarrow> upstream_answer) \<Rightarrow> request \<Rightarrow> grant \<Rightarrow> recorder \<Rightarrow> grants_bucket \<Rightarrow> served \<Rightarrow> bool" where
  "sold g hs up r gr w db sv \<longleftrightarrow> passed g hs r gr sv \<and> st_grants (fst (snd sv)) = db
     \<and> (\<exists>c. setPassCookie g r (h_clock hs AtMint) (paid_pass gr) (unix_time (g_ExpiresAt gr)) None = Inr c
          \<and> fst sv = pw_w (proxy_serve paid_writer_ops (up (forwarded g (set_status ''pass-paid'' r)))
                        (new_paid_writer (grant_receipt gr) (w_Add ''Set-Cookie'' (cookie_String c) w))))"

lemma servePaidGrant_cases:
  "refused g r u w (servePaidGrant g hs up r u gr w s) \<or> sold g hs up r gr w (st_grants s) (servePaidGrant g hs up r u gr w s)"
  by (auto simp: servePaidGrant_def sold_def passed_def forward_def Let_def not_le split: sum.split)

lemma pay_release_cases [simp]:
  "refused g r u w (pay_release pe pid lease sv) = refused g r u w sv"
  "passed g hs r gr (pay_release pe pid lease sv) = passed g hs r gr sv"
  "fst (pay_release pe pid lease sv) = fst sv" "snd (snd (pay_release pe pid lease sv)) = snd (snd sv)"
  by (auto simp: refused_def passed_def pay_release_def split: prod.splits)

lemma pay_release_sold:
  "sold g hs up r gr w db sv
     \<Longrightarrow> sold g hs up r gr w (snd (store_Release (pe_release pe) pid lease db)) (pay_release pe pid lease sv)"
  by (cases sv) (auto simp: sold_def pay_release_def passed_def)

lemma pay_settled_cases:
  "refused g r (pr_rule rt) w (pay_settled g hs pe up r rt pid lease req res w s)
   \<or> (\<exists>gr created db. store_Commit (pe_commit pe) pid lease
          (new_grant rt r req res (paidExpiry (h_clock hs AtPaidExpiry) (ru_PaidTTL (pr_rule rt)))) (pe_others pe (st_grants s))
            = (Inr (gr, created), db)
        \<and> g_Scope gr = pr_scope rt \<and> g_Audience gr = requestAudience r
        \<and> sold g hs up r gr w db (pay_settled g hs pe up r rt pid lease req res w s))"
proof -
  obtain result db where c: "store_Commit (pe_commit pe) pid lease
      (new_grant rt r req res (paidExpiry (h_clock hs AtPaidExpiry) (ru_PaidTTL (pr_rule rt)))) (pe_others pe (st_grants s))
        = (result, db)" by force
  show ?thesis
  proof (cases result)
    case (Inl e)
    then show ?thesis by (simp add: pay_settled_def c Let_def)
  next
    case (Inr x)
    obtain gr created where x: "x = (gr, created)" by force
    then show ?thesis
      using servePaidGrant_cases [of g r "pr_rule rt" w hs up gr
          "s\<lparr>st_grants := db, st_met := countPaidValue g (g_Amount gr) (rq_Network req) (pr_rule rt) (st_met s)\<rparr>"] c
      by (auto simp: pay_settled_def Inr Let_def)
  qed
qed

definition pending :: "gate \<Rightarrow> request \<Rightarrow> recorder \<Rightarrow> served \<Rightarrow> bool" where
  "pending g r w = (\<lambda>(w', s', out, d). \<exists>res. w' = servePaymentPending g r res w \<and> out = None \<and> d = DecisionPayPending
     \<and> res_Verdict res = PayPending)"

lemma pay_release_pending [simp]: "pending g r w (pay_release pe pid lease sv) = pending g r w sv"
  by (auto simp: pending_def pay_release_def split: prod.splits)

lemma pay_verdict_cases:
  "refused g r (pr_rule rt) w (pay_verdict_case g hs pe up r rt pid lease req res w s)
   \<or> pending g r w (pay_verdict_case g hs pe up r rt pid lease req res w s)
   \<or> (res_Verdict res = PayValid
      \<and> pay_verdict_case g hs pe up r rt pid lease req res w s = pay_settled g hs pe up r rt pid lease req res w s)"
  by (cases "res_Verdict res") (auto simp: pay_verdict_case_def pending_def)

text \<open>
  A fresh settlement: between the store \<open>db0\<close> the request found and the store \<open>db1\<close> it leaves, it reserved
  the payment, a facilitator settled it on the gate's terms, and it committed the grant under its own
  reservation, on the store as the other requests had left it, and gave the reservation back.
\<close>

definition settled_under ::
  "gate \<Rightarrow> host \<Rightarrow> pay_env \<Rightarrow> request \<Rightarrow> paid_route \<Rightarrow> grants_bucket \<Rightarrow> payload \<Rightarrow> requirements \<Rightarrow> bytes \<Rightarrow> bytes \<Rightarrow> grant
     \<Rightarrow> grants_bucket \<Rightarrow> bool" where
  "settled_under g hs pe r rt db p req pid lease gr db' \<longleftrightarrow>
     (\<exists>ident v ss res created. verifierFor g (rq_Network req) = Some (ident, v)
        \<and> settlement_evidence v (pe_fac pe) p req ss res
        \<and> store_Commit (pe_commit pe) pid lease
            (new_grant rt r req res (paidExpiry (h_clock hs AtPaidExpiry) (ru_PaidTTL (pr_rule rt)))) (pe_others pe db)
            = (Inr (gr, created), db'))"

definition settled_now ::
  "gate \<Rightarrow> host \<Rightarrow> pay_env \<Rightarrow> request \<Rightarrow> paid_route \<Rightarrow> grants_bucket \<Rightarrow> payload \<Rightarrow> requirements \<Rightarrow> bytes \<Rightarrow> grant
     \<Rightarrow> grants_bucket \<Rightarrow> bool" where
  "settled_now g hs pe r rt db0 p req pid gr db1 \<longleftrightarrow>
     (\<exists>lease prior db db'. store_Begin (pe_begin pe) (h_clock hs AtBegin) (pe_lease pe) pid db0 = (Inr (BeginNew, lease, prior), db)
        \<and> settled_under g hs pe r rt db p req pid lease gr db'
        \<and> db1 = snd (store_Release (pe_release pe) pid lease db'))"

lemma settled_under_I:
  assumes "verifierFor g (rq_Network req) = Some (ident, v)" and "settlement_evidence v (pe_fac pe) p req ss res"
    and "store_Commit (pe_commit pe) pid lease
           (new_grant rt r req res (paidExpiry (h_clock hs AtPaidExpiry) (ru_PaidTTL (pr_rule rt)))) (pe_others pe db) = (Inr (gr, created), db')"
  shows "settled_under g hs pe r rt db p req pid lease gr db'"
  unfolding settled_under_def using assms by blast

lemma pay_reserved_cases:
  "refused g r (pr_rule rt) w (pay_reserved g hs pe up r rt p req pid lease w s)
   \<or> pending g r w (pay_reserved g hs pe up r rt p req pid lease w s)
   \<or> (\<exists>gr db. settled_under g hs pe r rt (st_grants s) p req pid lease gr db
        \<and> g_Scope gr = pr_scope rt \<and> g_Audience gr = requestAudience r
        \<and> sold g hs up r gr w db (pay_reserved g hs pe up r rt p req pid lease w s))"
proof -
  obtain ok lim where l: "Allow (st_payLimit s) (h_clock hs AtLimit) (limit_key g r) = (ok, lim)" by force
  let ?s = "s\<lparr>st_payLimit := lim\<rparr>"
  show ?thesis
  proof (cases "ok \<and> verifierFor g (rq_Network req) \<noteq> None")
    case False
    then consider "\<not> ok" | "ok" "verifierFor g (rq_Network req) = None" by blast
    then have "refused g r (pr_rule rt) w (pay_reserved g hs pe up r rt p req pid lease w s)"
      by cases (simp_all add: pay_reserved_def l)
    then show ?thesis ..
  next
    case True
    then obtain ident v where v: "verifierFor g (rq_Network req) = Some (ident, v)" by auto
    obtain res fs vs ss where c: "callback_Verify v (pe_fac pe) p req (st_facs ?s ident) = (res, fs, vs, ss)"
      by (cases "callback_Verify v (pe_fac pe) p req (st_facs ?s ident)") auto
    have e: "pay_reserved g hs pe up r rt p req pid lease w s
        = pay_verdict_case g hs pe up r rt pid lease req res w (?s\<lparr>st_facs := (st_facs ?s)(ident := fs)\<rparr>)"
      using True v c by (simp add: pay_reserved_def l Let_def)
    show ?thesis
    proof (cases "res_Verdict res = PayValid")
      case True
      let ?t = "?s\<lparr>st_facs := (st_facs ?s)(ident := fs)\<rparr>"
      have r: "pay_reserved g hs pe up r rt p req pid lease w s = pay_settled g hs pe up r rt pid lease req res w ?t"
        unfolding e by (simp only: pay_verdict_case_def True pay_verdict.case)
      have ev: "settlement_evidence v (pe_fac pe) p req ss res" by (rule fac.valid_evidence [OF c True])
      show ?thesis
        unfolding r using pay_settled_cases [of g r rt w hs pe up pid lease req res ?t] settled_under_I [OF v ev] by fastforce
    next
      case False
      then show ?thesis unfolding e using pay_verdict_cases by blast
    qed
  qed
qed

text \<open>A grant the store already holds is what \<open>Begin\<close> reports, and only then.\<close>

lemma Begin_recoverable:
  assumes "store_Begin io now rnd pid db = (Inr (BeginRecoverable, lease, prior), db')"
  shows "\<exists>gr. prior = Some gr \<and> store_view db pid = Granted gr \<and> db' = db"
proof -
  from store_Begin_cases [OF assms] have "begin_fn now rnd pid db = Inr ((BeginRecoverable, lease, prior), db')" by auto
  from begin_fn_cases [OF this] show ?thesis by auto
qed

lemma Begin_granted:
  assumes "store_view db pid = Granted gr" and "pid \<noteq> []" and "open_ok io" "commit_ok io" and "time_unix now < g_ExpiresAt gr"
  shows "store_Begin io now rnd pid db = (Inr (BeginRecoverable, [], Some gr), db)"
proof -
  obtain raw rec where raw: "db pid = Some raw" "decodeGrantRecord raw = Inr rec" "gr_Grant rec = Some gr"
    using assms(1) by (auto simp: store_view_def split: option.splits sum.splits)
  then have "begin_fn now rnd pid db = Inr ((BeginRecoverable, [], Some gr), db)" using assms(5) by (simp add: begin_fn_def)
  then show ?thesis using assms(2-4) by (simp add: store_Begin_def store_update_def)
qed

text \<open>A grant this request committed is in the store when the request ends, if its record can be read back.\<close>

lemma settled_now_stored:
  assumes "settled_now g hs pe r rt db0 p req pid gr db1" and "grant_wf gr"
  shows "store_view db1 pid = Granted gr"
proof -
  obtain lease ng db db' created where c: "store_Commit (pe_commit pe) pid lease ng db = (Inr (gr, created), db')"
    and rel: "db1 = snd (store_Release (pe_release pe) pid lease db')"
    using assms(1) unfolding settled_now_def settled_under_def by blast
  from store_Commit_cases [OF c] store_view_upd [OF grant_record_wf [OF assms(2)]]
  have "store_view db' pid = Granted gr" by auto
  from gs.release_keeps_granted [OF _ this] show ?thesis using rel by (metis prod.collapse)
qed

text \<open>What backs a pass served for the payment \<open>pid\<close>: a grant already stored, or a settlement by this request.\<close>

definition backed ::
  "gate \<Rightarrow> host \<Rightarrow> pay_env \<Rightarrow> request \<Rightarrow> paid_route \<Rightarrow> gate_state \<Rightarrow> payload \<Rightarrow> requirements \<Rightarrow> bytes \<Rightarrow> grant \<Rightarrow> bool" where
  "backed g hs pe r rt s p req pid gr \<longleftrightarrow> g_Scope gr = pr_scope rt \<and> g_Audience gr = requestAudience r
     \<and> (store_view (st_grants s) pid = Granted gr \<or> (\<exists>db. settled_now g hs pe r rt (st_grants s) p req pid gr db))"

lemma servePayment_cases:
  "refused g r (pr_rule rt) w (servePayment g hs pe up r rt header w s)
   \<or> (\<exists>p req pid. pay_precheck g r (pr_rule rt) header = Inr (p, req, pid)
       \<and> (pending g r w (servePayment g hs pe up r rt header w s)
          \<or> (\<exists>gr db. g_Scope gr = pr_scope rt \<and> g_Audience gr = requestAudience r
               \<and> (store_view (st_grants s) pid = Granted gr \<and> db = st_grants s
                  \<or> settled_now g hs pe r rt (st_grants s) p req pid gr db)
               \<and> sold g hs up r gr w db (servePayment g hs pe up r rt header w s))))"
proof (cases "pay_precheck g r (pr_rule rt) header")
  case (Inl e)
  obtain d msg where e: "e = (d, msg)" by (cases e)
  have "\<not> upstream d \<and> d \<noteq> DecisionPayPending"
    using Inl by (auto simp: pay_precheck_def e split: if_splits sum.splits)
  then have "refused g r (pr_rule rt) w (servePayment g hs pe up r rt header w s)" by (simp add: servePayment_def Inl e Let_def)
  then show ?thesis ..
next
  case (Inr x)
  obtain p req pid where x: "x = (p, req, pid)" by (cases x) auto
  obtain result db where b: "store_Begin (pe_begin pe) (h_clock hs AtBegin) (pe_lease pe) pid (st_grants s) = (result, db)" by force
  show ?thesis
  proof (cases result)
    case (Inl e)
    have "refused g r (pr_rule rt) w (servePayment g hs pe up r rt header w s)"
      by (simp add: servePayment_def Inr x b Inl Let_def)
    then show ?thesis ..
  next
    case (Inr y)
    obtain st lease prior where y: "y = (st, lease, prior)" by (cases y) auto
    note S = servePayment_def \<open>pay_precheck g r (pr_rule rt) header = Inr x\<close> x b Inr y Let_def
    show ?thesis
    proof (cases st)
      case BeginNew
      have "servePayment g hs pe up r rt header w s
          = pay_release pe pid lease (pay_reserved g hs pe up r rt p req pid lease w (s\<lparr>st_grants := db\<rparr>))"
        by (simp add: S BeginNew)
      then show ?thesis
        using pay_reserved_cases [of g r rt w hs pe up p req pid lease "s\<lparr>st_grants := db\<rparr>"]
          \<open>pay_precheck g r (pr_rule rt) header = Inr x\<close> x b [unfolded Inr y BeginNew]
        by (auto simp: settled_now_def intro: pay_release_sold)
    next
      case BeginRecoverable
      from Begin_recoverable [OF b [unfolded Inr y BeginRecoverable]] obtain gr
        where gr: "prior = Some gr" "store_view (st_grants s) pid = Granted gr" "db = st_grants s" by blast
      show ?thesis
      proof (cases "g_Scope gr = pr_scope rt \<and> g_Audience gr = requestAudience r")
        case True
        then have "servePayment g hs pe up r rt header w s = servePaidGrant g hs up r (pr_rule rt) gr w (s\<lparr>st_grants := db\<rparr>)"
          by (simp add: S BeginRecoverable gr)
        then show ?thesis
          using servePaidGrant_cases [of g r "pr_rule rt" w hs up gr "s\<lparr>st_grants := db\<rparr>"] True gr
            \<open>pay_precheck g r (pr_rule rt) header = Inr x\<close> x
          by auto
      next
        case False
        then have "refused g r (pr_rule rt) w (servePayment g hs pe up r rt header w s)"
          by (auto simp: S BeginRecoverable gr)
        then show ?thesis ..
      qed
    qed (simp_all add: S)
  qed
qed

text \<open>A paid pass never ends before the period that was sold, and less than a second after it.\<close>

lemma paidExpiry_rounds_up:
  "now + ttl \<le> paidExpiry now ttl \<and> paidExpiry now ttl < now + ttl + second \<and> paidExpiry now ttl mod second = 0"
proof -
  have s: "second = 1000000000" by (simp add: second_def)
  show ?thesis unfolding paidExpiry_def Let_def unix_time_def time_unix_def s
    using mult_div_mod_eq [of "1000000000" "now + ttl"] pos_mod_bound [of 1000000000 "now + ttl"] pos_mod_sign [of 1000000000 "now + ttl"]
    by (simp add: algebra_simps; linarith)
qed

lemma paid_pass_mintable:
  assumes "requestAudience r \<noteq> []" and "g_Scope gr \<noteq> []" and "g_Scope gr \<noteq> ScopeAll"
    and "0 < time_unix now" and "time_unix now < g_ExpiresAt gr"
  shows "\<exists>c. setPassCookie g r now (paid_pass gr) (unix_time (g_ExpiresAt gr)) None = Inr c"
proof -
  let ?p = "stamped_pass g r now (paid_pass gr) (unix_time (g_ExpiresAt gr)) None"
  have "time_unix (unix_time (g_ExpiresAt gr)) = g_ExpiresAt gr" by simp
  then have "pass_validate ?p = None"
    using assms by (simp add: pass_validate_def stamped_pass_def paid_pass_def zero_pass_def Let_def KindPaid_def KindPoW_def)
  then show ?thesis by (simp add: setPassCookie_def Mint_def Let_def)
qed

subsection \<open>Properties\<close>


text \<open>C7: a payment is never lost and never settled twice. Once a grant of a payment is committed, then after whatever
  other requests, failures and retries, presenting the payment again for the same route and authority while
  the grant lives gives the pass of that grant; the facilitator is not asked.\<close>

theorem settled_payment_redeemable:
  assumes "grant_wf gr0" and "store_Commit io pid lease gr0 db0 = (Inr (gr, created), db1)"
    and "ledger_run store_Begin store_Release store_Commit store_begin_ok grant_wf db1 es (st_grants s)"
    and "pay_precheck g r (pr_rule rt) header = Inr (p, req, pid)" and "pid \<noteq> []"
    and "open_ok (pe_begin pe)" "commit_ok (pe_begin pe)"
    and "g_Scope gr = pr_scope rt" and "pr_scope rt \<notin> {[], ScopeAll}"
    and "g_Audience gr = requestAudience r" and "requestAudience r \<noteq> []"
    and "time_unix (h_clock hs AtBegin) < g_ExpiresAt gr" and "h_clock hs AtGrant < unix_time (g_ExpiresAt gr)"
    and "0 < time_unix (h_clock hs AtMint)" and "time_unix (h_clock hs AtMint) < g_ExpiresAt gr"
  shows "passed g hs r gr (servePayment g hs pe up r rt header w s)
    \<and> servePayment g hs pe up r rt header w s = servePaidGrant g hs up r (pr_rule rt) gr w s"
proof -
  have "store_view (st_grants s) pid = Granted gr"
    using gs.granted_forever [OF assms(3) gs.commit_settles [OF assms(1,2)]] by blast
  from Begin_granted [OF this assms(5-7,12)] assms(4,8,10)
  have "servePayment g hs pe up r rt header w s = servePaidGrant g hs up r (pr_rule rt) gr w s"
    by (simp add: servePayment_def Let_def)
  moreover obtain c where "setPassCookie g r (h_clock hs AtMint) (paid_pass gr) (unix_time (g_ExpiresAt gr)) None = Inr c"
    using paid_pass_mintable [of r gr "h_clock hs AtMint" g] assms(8,9,11,14,15) by auto
  then have "passed g hs r gr (servePaidGrant g hs up r (pr_rule rt) gr w s)"
    using assms(13) by (auto simp: servePaidGrant_def passed_def forward_def Let_def)
  ultimately show ?thesis by simp
qed

text \<open>A visitor presents the payment of a stored grant again; the facilitator cannot be reached.\<close>

definition demo_paid_rule :: rule where
  "demo_paid_rule = \<lparr>ru_Name = ''site'', ru_Paths = [''/*''], ru_Price = ''1'', ru_PaidTTL = hour, ru_PriceAtomic = [(''e'', 7)]\<rparr>"

definition demo_paid_route :: paid_route where
  "demo_paid_route = \<lparr>pr_rule = demo_paid_rule, pr_matcher = \<lparr>m_paths = [''/*''], m_cidrs = [], m_trusted = []\<rparr>, pr_scope = ''s''\<rparr>"

definition pay_gate :: gate where
  "pay_gate = demo_gate\<lparr>g_sha := (\<lambda>_. ''h''), g_routes := [demo_paid_route],
     g_cfg := defaults\<lparr>c_Payments := Some (demo_payments\<lparr>py_PayTo := ''p'', py_Rails := [demo_rail_cfg\<lparr>rl_Network := ''e'', rl_Asset := ''a''\<rparr>],
       py_Rules := [demo_paid_rule]\<rparr>)\<rparr>\<rparr>"

definition demo_document :: bytes where
  "demo_document = ''{\"x402Version\":2,\"payload\":{\"authorization\":{\"from\":\"f\",\"nonce\":1}},\"accepted\":''
     @ ''{\"scheme\":\"exact\",\"network\":\"e\",\"asset\":\"a\",\"amount\":\"7\",\"payTo\":\"p\"}}''"

definition demo_accepted :: requirements where
  "demo_accepted = \<lparr>rq_Scheme = ''exact'', rq_Network = ''e'', rq_Asset = ''a'', rq_Amount = ''7'', rq_PayTo = ''p'',
     rq_MaxTimeoutSeconds = 0, rq_Extra = None\<rparr>"

definition demo_presented :: payload where
  "demo_presented = \<lparr>pl_X402Version = 2, pl_Payload = Some (JObj [(''authorization'', JObj [(''from'', JStr ''f''), (''nonce'', JNum ''1'')])]),
     pl_Accepted = demo_accepted, pl_raw = []\<rparr>"

lemma demo_document_decodes: "dec_payload demo_document = Some demo_presented"
  by code_simp

lemma demo_accepts: "rd_Accepts (offer pay_gate demo_paid_rule r []) = [demo_accepted\<lparr>rq_Extra := rail_extra (demo_rail_cfg\<lparr>rl_Network := ''e''\<rparr>)\<rparr>]"
  by (simp add: offer_def Let_def) code_simp

definition demo_header :: bytes where
  "demo_header = b64_encode StdEncoding demo_document"

lemma demo_header_decodes: "DecodePayload demo_header = Inr (demo_presented\<lparr>pl_raw := demo_document\<rparr>)"
proof -
  have "try_encodings payload_encodings demo_header = Some demo_document"
    unfolding demo_header_def by (rule try_encodings_any) (simp add: payload_encodings_def)
  moreover have "length demo_document \<le> 1000" by (simp add: demo_document_def)
  moreover from this have "length demo_header \<le> maxPayloadBytes"
    using length_b64_encode [of StdEncoding demo_document] by (simp add: demo_header_def maxPayloadBytes_def)
  moreover have "demo_header \<noteq> []" using b64_encode_inject [of StdEncoding demo_document "[]"]
    by (auto simp: demo_header_def b64_encode_def demo_document_def)
  ultimately show ?thesis
    by (simp add: DecodePayload_def demo_document_decodes not_less [symmetric] maxPayloadBytes_def payment_Version_def)
      (simp add: demo_presented_def demo_accepted_def)
qed

lemma demo_precheck:
  "pay_precheck pay_gate demo_request demo_paid_rule demo_header
     = Inr (demo_presented\<lparr>pl_raw := demo_document\<rparr>, demo_accepted\<lparr>rq_Extra := rail_extra (demo_rail_cfg\<lparr>rl_Network := ''e''\<rparr>)\<rparr>, ''68'')"
proof -
  have m: "req_Method demo_request = ''GET''" "\<not> isUpgradeRequest demo_request"
    by (simp add: demo_request_def) code_simp
  have r: "MatchRail (demo_presented\<lparr>pl_raw := demo_document\<rparr>) [demo_accepted\<lparr>rq_Extra := rail_extra (demo_rail_cfg\<lparr>rl_Network := ''e''\<rparr>)\<rparr>]
      = Inr (demo_accepted\<lparr>rq_Extra := rail_extra (demo_rail_cfg\<lparr>rl_Network := ''e''\<rparr>)\<rparr>)"
    by (simp add: demo_presented_def demo_accepted_def)
  have "payment_ID (\<lambda>_. ''h'') (demo_presented\<lparr>pl_raw := demo_document\<rparr>)
      (demo_accepted\<lparr>rq_Extra := rail_extra (demo_rail_cfg\<lparr>rl_Network := ''e''\<rparr>)\<rparr>) = Inr ''68''"
    by code_simp
  then have "payment_ID (g_sha pay_gate) (demo_presented\<lparr>pl_raw := demo_document\<rparr>)
      (demo_accepted\<lparr>rq_Extra := rail_extra (demo_rail_cfg\<lparr>rl_Network := ''e''\<rparr>)\<rparr>) = Inr ''68''"
    by (simp add: pay_gate_def)
  with m r show ?thesis by (simp add: pay_precheck_def demo_header_decodes demo_accepts)
qed

definition demo_stored :: grants_bucket where
  "demo_stored = [''68'' \<mapsto> encodeGrantRecord \<lparr>gr_Lease = [], gr_PendingUntil = 0, gr_Grant = Some demo_grant\<rparr>]"

lemma demo_stored_view: "store_view demo_stored ''68'' = Granted demo_grant"
  by (simp add: demo_stored_def store_view_def decode_encode grant_record_wf demo_grant_wf)

lemma demo_settled: "store_Commit demo_io ''68'' ''l'' demo_grant demo_stored = (Inr (demo_grant, False), demo_stored)"
proof -
  have "validateGrant demo_grant = None" by code_simp
  then show ?thesis
    by (simp add: store_Commit_def store_update_def demo_io_def commit_fn_def demo_stored_def decode_encode
        grant_record_wf demo_grant_wf)
qed

lemma settled_payment_redeemable_witness:
  "\<forall>up w s fac others. passed pay_gate free_host demo_request demo_grant
     (servePayment pay_gate free_host \<lparr>pe_begin = demo_io, pe_commit = demo_io, pe_release = demo_io, pe_lease = None,
        pe_others = others, pe_fac = fac\<rparr> up demo_request demo_paid_route demo_header w (s\<lparr>st_grants := demo_stored\<rparr>))"
proof (intro allI conjunct1 [OF settled_payment_redeemable [OF demo_grant_wf demo_settled, where es = "[]"]])
  fix s :: gate_state
  show "ledger_run store_Begin store_Release store_Commit store_begin_ok grant_wf demo_stored [] (st_grants (s\<lparr>st_grants := demo_stored\<rparr>))"
    by (simp add: ledger_run.run_nil)
  show "pay_precheck pay_gate demo_request (pr_rule demo_paid_route) demo_header
     = Inr (demo_presented\<lparr>pl_raw := demo_document\<rparr>, demo_accepted\<lparr>rq_Extra := rail_extra (demo_rail_cfg\<lparr>rl_Network := ''e''\<rparr>)\<rparr>, ''68'')"
    by (simp add: demo_paid_route_def demo_precheck)
qed (simp_all add: demo_io_def demo_paid_route_def demo_grant_def free_host_def demo_visitor ScopeAll_def unix_time_def time_unix_def second_def)

text \<open>A visitor presents a fresh payment, which the facilitator settles: the whole path is taken.\<close>

definition buy_gate :: gate where
  "buy_gate = pay_gate\<lparr>g_verifiers := [(''e'', (''i'', demo_verifier))]\<rparr>"

definition buy_answer :: bytes where
  "buy_answer = ''{\"success\":true,\"transaction\":\"0x1\",\"network\":\"e\"}''"

definition buy_env :: pay_env where
  "buy_env = \<lparr>pe_begin = demo_io, pe_commit = demo_io, pe_release = demo_io, pe_lease = Some ''l'', pe_others = (\<lambda>db. db),
     pe_fac = demo_env buy_answer\<rparr>"

definition demo_offered :: requirements where
  "demo_offered = demo_accepted\<lparr>rq_Extra := rail_extra (demo_rail_cfg\<lparr>rl_Network := ''e''\<rparr>)\<rparr>"

lemma buy_precheck: "pay_precheck buy_gate demo_request demo_paid_rule demo_header
   = Inr (demo_presented\<lparr>pl_raw := demo_document\<rparr>, demo_offered, ''68'')"
proof -
  have o: "offer buy_gate u r h = offer pay_gate u r h" for r u h
    by (simp add: offer_def buy_gate_def Let_def gate_payments_def resourceURL_def absoluteURL_def)
  have sha: "g_sha buy_gate = g_sha pay_gate" by (simp add: buy_gate_def)
  have "pay_precheck buy_gate r u h = pay_precheck pay_gate r u h" for r u h
    unfolding pay_precheck_def o sha ..
  then show ?thesis by (simp add: demo_precheck demo_offered_def)
qed

lemma buy_decoded:
  "dec_settle_response buy_answer = Some \<lparr>sr_Success = True, sr_ErrorReason = [], sr_Payer = [],
     sr_Transaction = ''0x1'', sr_Network = ''e'', sr_Amount = []\<rparr>"
  "authorization (pl_Payload demo_presented) (TransferMethod demo_offered)
     = Inr (Some \<lparr>au_method = ''authorization'', au_from = ''f'', au_nonce = ''1''\<rparr>)"
  "rq_Network demo_offered = ''e''"
  by code_simp+

lemma buy_body: "\<exists>b. facilitator_body \<lparr>fr_X402Version = payment_Version, fr_PaymentPayload = demo_document,
      fr_PaymentRequirements = demo_offered\<rparr> = Some b"
proof -
  have "json_parse demo_document \<noteq> None" using demo_document_decodes
    by (cases "json_parse demo_document") (auto simp: dec_payload_def)
  then have "marshal_raw demo_document \<noteq> None" by (simp add: marshal_raw_def)
  then show ?thesis by (auto simp: facilitator_body_def)
qed

lemma buy_small: "take maxAnswerBytes buy_answer = buy_answer"
  by (simp add: maxAnswerBytes_def buy_answer_def)

lemma buy_verified:
  "\<exists>fs vs ss. callback_Verify demo_verifier (demo_env buy_answer) (demo_presented\<lparr>pl_raw := demo_document\<rparr>) demo_offered demo_fac
     = ((zero_result PayValid [])\<lparr>res_Tx := ''0x1'', res_Network := ''e''\<rparr>, fs, vs, ss)"
proof -
  from buy_body obtain b where b: "facilitator_body \<lparr>fr_X402Version = payment_Version, fr_PaymentPayload = demo_document,
      fr_PaymentRequirements = demo_offered\<rparr> = Some b" ..
  show ?thesis
    by (simp add: callback_Verify_def demo_decoded buy_decoded b demo_env_def Let_def maxInFlight_def verify_step_def
        settle_step_def callback_call_def verifyAttempts_def numeral_2_eq_2 demo_answer_def decode_answer_def demo_small buy_small
        settled_result_def)
qed

definition bought_grant :: grant where
  "bought_grant = demo_grant\<lparr>g_Network := ''e'', g_ExpiresAt := 5600\<rparr>"

definition buy_lease :: bytes where "buy_lease = b64_encode RawURLEncoding ''l''"

definition buy_reserved :: grants_bucket where
  "buy_reserved = [''68'' \<mapsto> encodeGrantRecord \<lparr>gr_Lease = buy_lease, gr_PendingUntil = unix_time 2000 + paymentLease, gr_Grant = None\<rparr>]"

lemma buy_steps:
  "store_Begin demo_io (h_clock free_host AtBegin) (Some ''l'') ''68'' Map.empty = (Inr (BeginNew, buy_lease, None), buy_reserved)"
  "\<exists>db. store_Commit demo_io ''68'' buy_lease bought_grant buy_reserved = (Inr (bought_grant, True), db)"
proof -
  show "store_Begin demo_io (h_clock free_host AtBegin) (Some ''l'') ''68'' Map.empty = (Inr (BeginNew, buy_lease, None), buy_reserved)"
    by (simp add: store_Begin_def store_update_def demo_io_def begin_fn_def newLease_def buy_lease_def buy_reserved_def free_host_def)
  have "record_wf \<lparr>gr_Lease = buy_lease, gr_PendingUntil = unix_time 2000 + paymentLease, gr_Grant = None\<rparr>"
    unfolding buy_lease_def by code_simp
  moreover have "validateGrant bought_grant = None" by code_simp
  moreover have "buy_lease \<noteq> []" unfolding buy_lease_def by code_simp
  ultimately show "\<exists>db. store_Commit demo_io ''68'' buy_lease bought_grant buy_reserved = (Inr (bought_grant, True), db)"
    by (simp add: store_Commit_def store_update_def demo_io_def commit_fn_def buy_reserved_def decode_encode)
qed

lemma fresh_payment_sold:
  fixes s :: gate_state
  assumes "st_grants s = Map.empty" and "st_payLimit s = NewLimiter 6 6" and "st_facs s ''i'' = demo_fac"
  shows "\<exists>w' s' q. servePayment buy_gate free_host buy_env up demo_request demo_paid_route demo_header w s
     = (w', s', Some q, DecisionPassPaid)"
proof -
  let ?p = "demo_presented\<lparr>pl_raw := demo_document\<rparr>"
  have route: "pr_rule demo_paid_route = demo_paid_rule" "pr_scope demo_paid_route = ''s''" "ru_PaidTTL demo_paid_rule = hour"
    by (simp_all add: demo_paid_route_def demo_paid_rule_def)
  have pe: "pe_begin buy_env = demo_io" "pe_commit buy_env = demo_io" "pe_lease buy_env = Some ''l''"
    "pe_others buy_env db = db" "pe_fac buy_env = demo_env buy_answer" for db
    by (simp_all add: buy_env_def)
  have ok: "fst (Allow (NewLimiter 6 6) (h_clock free_host AtLimit) k)" for k
    by (simp add: Allow_def NewLimiter_def Let_def free_host_def)
  have v: "verifierFor buy_gate ''e'' = Some (''i'', demo_verifier)"
    by (simp add: verifierFor_def buy_gate_def)
  have ng: "new_grant demo_paid_route demo_request demo_offered ((zero_result PayValid [])\<lparr>res_Tx := ''0x1'', res_Network := ''e''\<rparr>)
      (paidExpiry (h_clock free_host AtPaidExpiry) hour) = bought_grant"
    by (simp add: new_grant_def route demo_visitor buy_decoded bought_grant_def demo_grant_def zero_result_def free_host_def
        paidExpiry_def hour_def minute_def second_def unix_time_def time_unix_def Let_def)
  have gr: "g_Scope bought_grant = ''s''" "g_Audience bought_grant = ''example.com''" "g_ExpiresAt bought_grant = 5600"
    by (simp_all add: bought_grant_def demo_grant_def)
  obtain c where c: "setPassCookie buy_gate demo_request (h_clock free_host AtMint) (paid_pass bought_grant)
      (unix_time (g_ExpiresAt bought_grant)) None = Inr c"
    using paid_pass_mintable [of demo_request bought_grant "h_clock free_host AtMint" buy_gate]
    by (auto simp: demo_visitor gr ScopeAll_def free_host_def)
  have sold: "\<exists>w' s' q. servePaidGrant buy_gate free_host up demo_request demo_paid_rule bought_grant w t
      = (w', s', Some q, DecisionPassPaid)" for t
    using c by (auto simp: servePaidGrant_def forward_def Let_def free_host_def gr unix_time_def second_def)
  obtain fs vs ss where cv: "callback_Verify demo_verifier (demo_env buy_answer) ?p demo_offered demo_fac
     = ((zero_result PayValid [])\<lparr>res_Tx := ''0x1'', res_Network := ''e''\<rparr>, fs, vs, ss)" using buy_verified by blast
  obtain db where cm: "store_Commit demo_io ''68'' buy_lease bought_grant buy_reserved = (Inr (bought_grant, True), db)"
    using buy_steps(2) by blast
  have settled: "\<exists>w' s' q. pay_settled buy_gate free_host buy_env up demo_request demo_paid_route ''68'' buy_lease demo_offered
      ((zero_result PayValid [])\<lparr>res_Tx := ''0x1'', res_Network := ''e''\<rparr>) w t = (w', s', Some q, DecisionPassPaid)"
    if "st_grants t = buy_reserved" for t
    using sold by (simp add: pay_settled_def pe that route ng cm gr demo_visitor Let_def)
  have "\<exists>w' s' q. pay_reserved buy_gate free_host buy_env up demo_request demo_paid_route ?p demo_offered ''68'' buy_lease w t
      = (w', s', Some q, DecisionPassPaid)"
    if "st_grants t = buy_reserved" "st_payLimit t = NewLimiter 6 6" "st_facs t ''i'' = demo_fac" for t
  proof -
    obtain lim where "Allow (NewLimiter 6 6) (h_clock free_host AtLimit) (limit_key buy_gate demo_request) = (True, lim)"
      using ok [of "limit_key buy_gate demo_request"] by (cases "Allow (NewLimiter 6 6) (h_clock free_host AtLimit) (limit_key buy_gate demo_request)") auto
    then show ?thesis
      using settled that by (simp add: pay_reserved_def buy_decoded v pe cv pay_verdict_case_def zero_result_def Let_def)
  qed
  from this [of "s\<lparr>st_grants := buy_reserved\<rparr>"] assms
  show ?thesis
    by (auto simp: servePayment_def buy_precheck route pe buy_steps pay_release_def Let_def)
qed


end
