(* ===== verification/Html.thy ===== *)
theory Html
  imports Json GoStrings
begin

text \<open>
  How \<open>internal/gate/inject.go\<close> and \<open>internal/gate/injector.go\<close> read the bytes of a page: whether it is
  a document, where its head begins and ends, and the policies in its \<open>meta\<close> tags. The code searches
  a lower-cased copy of the page and uses the offsets it finds in the page itself. \<open>bytes.ToLower\<close> keeps the length
  of ASCII text only: an invalid byte becomes the three bytes of U+FFFD, and a rune may change its width. So a
  slice can be out of range, which is \<open>Inl OutOfRange\<close>, Go's panic, and the loop over the \<open>meta\<close> tags may
  not end, which is \<open>None\<close>. \<open>unicode.ToLower\<close> for runes that are not ASCII is the parameter \<open>ul\<close>, and the
  capacity of the buffer beyond its length is \<open>spare\<close>.
\<close>

subsection \<open>\<open>bytes.ToLower\<close>\<close>

definition rune_lower :: "(nat \<Rightarrow> nat) \<Rightarrow> nat \<Rightarrow> nat" where
  "rune_lower ul r = (if r < 128 then (if 65 \<le> r \<and> r \<le> 90 then r + 32 else r) else ul r)"

function map_runes :: "(nat \<Rightarrow> nat) \<Rightarrow> bytes \<Rightarrow> bytes" where
  "map_runes f [] = []"
| "map_runes f (c # s) = (case utf8_decode (c # s) of (r, w) \<Rightarrow> utf8_encode (f r) @ map_runes f (drop w (c # s)))"
  by pat_completeness auto
termination
  by (relation "measure (\<lambda>(f, s). length s)") (auto dest!: utf8_decode_pos)

definition bytes_ToLower :: "(nat \<Rightarrow> nat) \<Rightarrow> bytes \<Rightarrow> bytes" where
  "bytes_ToLower ul s = (if ascii_string s then to_lower s else map_runes (rune_lower ul) s)"

text \<open>\<open>strings.EqualFold\<close> against an ASCII text: the long s and the Kelvin sign fold to ASCII letters.\<close>

fun fold_ascii :: "bytes \<Rightarrow> bytes" where
  "fold_ascii (a # b # c # s) =
     (if [a, b, c] = [CHR 0xE2, CHR 0x84, CHR 0xAA] then CHR ''k'' # fold_ascii s
      else if [a, b] = [CHR 0xC5, CHR 0xBF] then CHR ''s'' # fold_ascii (c # s)
      else lower_char a # fold_ascii (b # c # s))"
| "fold_ascii [a, b] = (if [a, b] = [CHR 0xC5, CHR 0xBF] then ''s'' else [lower_char a, lower_char b])"
| "fold_ascii [a] = [lower_char a]"
| "fold_ascii [] = []"

definition EqualFold_ascii :: "bytes \<Rightarrow> bytes \<Rightarrow> bool" where
  "EqualFold_ascii s t \<longleftrightarrow> fold_ascii s = to_lower t"

subsection \<open>Slices\<close>

datatype panic = OutOfRange

text \<open>\<open>b[n:]\<close>, \<open>b[:n]\<close> and \<open>b[m:n]\<close>; the last two reach into the capacity, which holds zeros.\<close>

definition slice_from :: "bytes \<Rightarrow> nat \<Rightarrow> panic + bytes" where
  "slice_from b n = (if length b < n then Inl OutOfRange else Inr (drop n b))"

definition slice_range :: "nat \<Rightarrow> bytes \<Rightarrow> nat \<Rightarrow> nat \<Rightarrow> panic + bytes" where
  "slice_range spare b m n =
     (if n < m \<or> length b + spare < n then Inl OutOfRange
      else Inr (drop m (take n (b @ replicate spare CHR 0x00))))"

subsection \<open>Is it a document\<close>

definition utf16or32BOM :: "bytes \<Rightarrow> bool" where
  "utf16or32BOM b \<longleftrightarrow> has_prefix b [CHR 0xFF, CHR 0xFE] \<or> has_prefix b [CHR 0xFE, CHR 0xFF] \<or> has_prefix b [CHR 0x00, CHR 0x00]"

definition html_space :: "char \<Rightarrow> bool" where
  "html_space c \<longleftrightarrow> c = CHR '' '' \<or> c = CHR 0x09 \<or> c = CHR 0x0D \<or> c = CHR 0x0A"

definition utf8_bom :: bytes where "utf8_bom = [CHR 0xEF, CHR 0xBB, CHR 0xBF]"

fun trim_document :: "bytes \<Rightarrow> bytes" where
  "trim_document [] = []"
| "trim_document (c # s) =
     (if has_prefix (c # s) utf8_bom then trim_document (drop 2 s)
      else if html_space c then trim_document s else c # s)"

definition document_openings :: "bytes list" where
  "document_openings = [''<!doctype html'', ''<html'', ''<head'']"

definition opens_with :: "bytes \<Rightarrow> bytes \<Rightarrow> bool" where
  "opens_with s p \<longleftrightarrow> (if length p \<le> length s then equal_fold (take (length p) s) p else equal_fold s (take (length s) p))"

definition looksLikeDocument :: "bytes \<Rightarrow> bool" where
  "looksLikeDocument b \<longleftrightarrow> \<not> utf16or32BOM b \<and> list_ex (opens_with (trim_document b)) document_openings"

subsection \<open>Where the head begins\<close>

definition isTagNameEnd :: "char \<Rightarrow> bool" where
  "isTagNameEnd c \<longleftrightarrow> c = CHR ''>'' \<or> html_space c \<or> c = CHR ''/''"

text \<open>Is the offset \<open>h\<close> inside a comment?\<close>

definition in_comment :: "(nat \<Rightarrow> nat) \<Rightarrow> nat \<Rightarrow> bytes \<Rightarrow> nat \<Rightarrow> panic + bool" where
  "in_comment ul spare b h =
     (case slice_range spare b 0 h of
        Inl e \<Rightarrow> Inl e
      | Inr pre \<Rightarrow>
         (case last_index (bytes_ToLower ul pre) ''<!--'' of
            None \<Rightarrow> Inr False
          | Some c \<Rightarrow>
             (case slice_range spare b c h of
                Inl e \<Rightarrow> Inl e
              | Inr mid \<Rightarrow> Inr (\<not> contains_sub mid ''-->''))))"

function insertion_from :: "(nat \<Rightarrow> nat) \<Rightarrow> nat \<Rightarrow> bytes \<Rightarrow> nat \<Rightarrow> panic + nat option" where
  "insertion_from ul spare b i =
     (if length b < i then Inl OutOfRange
      else
        (case str_index (bytes_ToLower ul (drop i b)) ''<head'' of
           None \<Rightarrow> Inr None
         | Some k \<Rightarrow>
            (let h = k + i; after = h + 5 in
             if after < length b \<and> \<not> isTagNameEnd (b ! after) then insertion_from ul spare b after
             else
               (case in_comment ul spare b h of
                  Inl e \<Rightarrow> Inl e
                | Inr inside \<Rightarrow>
                   (case slice_from b h of
                      Inl e \<Rightarrow> Inl e
                    | Inr rest \<Rightarrow>
                       (if inside then
                          (case str_index rest ''-->'' of
                             None \<Rightarrow> Inr None
                           | Some e \<Rightarrow> insertion_from ul spare b (h + e + 3))
                        else
                          (case str_index rest ''>'' of
                             None \<Rightarrow> Inr None
                           | Some e \<Rightarrow> Inr (Some (h + e + 1)))))))))"
  by pat_completeness auto
termination
  by (relation "measure (\<lambda>(ul, spare, b, i). Suc (length b) - i)") auto

definition insertionPoint :: "(nat \<Rightarrow> nat) \<Rightarrow> nat \<Rightarrow> bytes \<Rightarrow> panic + nat option" where
  "insertionPoint ul spare b = insertion_from ul spare b 0"

subsection \<open>Where the head ends\<close>

definition headEnd :: "(nat \<Rightarrow> nat) \<Rightarrow> bytes \<Rightarrow> nat option" where
  "headEnd ul b =
     (let lower = bytes_ToLower ul b in
      case (str_index lower ''</head'', str_index lower ''<body'') of
        (None, body) \<Rightarrow> body
      | (closing, None) \<Rightarrow> closing
      | (Some closing, Some body) \<Rightarrow> Some (min closing body))"

subsection \<open>Policies inside the page\<close>

definition attr_value :: "bytes \<Rightarrow> bytes option" where
  "attr_value rest =
     (case rest of
        [] \<Rightarrow> None
      | q # more \<Rightarrow>
         if q = CHR 0x22 \<or> q = CHR 0x27
         then map_option (\<lambda>e. take e more) (str_index more [q])
         else Some (takeWhile (\<lambda>c. \<not> html_space c) rest))"

lemma past_name: "name \<noteq> [] \<Longrightarrow> i \<le> n \<Longrightarrow> Suc n - (k + i + length name) < Suc n - i"
  by (cases name) simp_all

function attr_from :: "(nat \<Rightarrow> nat) \<Rightarrow> bytes \<Rightarrow> bytes \<Rightarrow> nat \<Rightarrow> panic + bytes option" where
  "attr_from ul tag name i =
     (if length name = 0 \<or> length (bytes_ToLower ul tag) < i then Inl OutOfRange
      else
        (case str_index (drop i (bytes_ToLower ul tag)) name of
           None \<Rightarrow> Inr None
         | Some k0 \<Rightarrow>
            (let k = k0 + i; i' = k + length name in
             if k = 0 then attr_from ul tag name i'
             else if length tag \<le> k - 1 then Inl OutOfRange
             else if \<not> html_space (tag ! (k - 1)) then attr_from ul tag name i'
             else
               (case slice_from tag i' of
                  Inl e \<Rightarrow> Inl e
                | Inr rest \<Rightarrow>
                   (let t = trim_left_while html_space rest in
                    if take 1 t \<noteq> ''='' then attr_from ul tag name i'
                    else Inr (attr_value (trim_left_while html_space (drop 1 t))))))))"
  by pat_completeness auto
termination
  by (relation "measure (\<lambda>(ul, tag, name, i). Suc (length (bytes_ToLower ul tag)) - i)")
    (auto simp: not_less intro: past_name)

definition attr :: "(nat \<Rightarrow> nat) \<Rightarrow> bytes \<Rightarrow> bytes \<Rightarrow> panic + bytes option" where
  "attr ul tag name = attr_from ul tag name 0"

definition meta_policy :: "(nat \<Rightarrow> nat) \<Rightarrow> bytes \<Rightarrow> panic + bytes list" where
  "meta_policy ul tag =
     (case attr ul tag ''http-equiv'' of
        Inl e \<Rightarrow> Inl e
      | Inr None \<Rightarrow> Inr []
      | Inr (Some directive) \<Rightarrow>
         if \<not> EqualFold_ascii (trim_space directive) ''content-security-policy'' then Inr []
         else
           (case attr ul tag ''content'' of
              Inl e \<Rightarrow> Inl e
            | Inr None \<Rightarrow> Inr []
            | Inr (Some content) \<Rightarrow> Inr [content]))"

partial_function (option) meta_from :: "(nat \<Rightarrow> nat) \<Rightarrow> bytes \<Rightarrow> nat \<Rightarrow> bytes list \<Rightarrow> (panic + bytes list) option" where
  "meta_from ul b i out =
     (if length (bytes_ToLower ul b) < i then Some (Inl OutOfRange)
      else
        (case str_index (drop i (bytes_ToLower ul b)) ''<meta'' of
           None \<Rightarrow> Some (Inr out)
         | Some k \<Rightarrow>
            (let m = k + i in
             case slice_from b m of
               Inl e \<Rightarrow> Some (Inl e)
             | Inr rest \<Rightarrow>
                (case str_index rest ''>'' of
                   None \<Rightarrow> Some (Inr out)
                 | Some end \<Rightarrow>
                    (case meta_policy ul (take end rest) of
                       Inl e \<Rightarrow> Some (Inl e)
                     | Inr ps \<Rightarrow> meta_from ul b (m + end) (out @ ps))))))"

definition metaPolicies :: "(nat \<Rightarrow> nat) \<Rightarrow> bytes \<Rightarrow> (panic + bytes list) option" where
  "metaPolicies ul b = meta_from ul b 0 []"

declare insertion_from.simps [simp del] attr_from.simps [simp del]

subsection \<open>Pages whose lower-cased copy lines up\<close>

text \<open>Every rune of the text keeps its width when lowered; in particular all of it is valid UTF-8.\<close>

function keeps_width :: "(nat \<Rightarrow> nat) \<Rightarrow> bytes \<Rightarrow> bool" where
  "keeps_width ul [] \<longleftrightarrow> True"
| "keeps_width ul (c # s) \<longleftrightarrow>
     (case utf8_decode (c # s) of (r, w) \<Rightarrow>
        length (utf8_encode (rune_lower ul r)) = w \<and> (r < 128 \<or> 128 \<le> ul r) \<and> keeps_width ul (drop w (c # s)))"
  by pat_completeness auto
termination
  by (relation "measure (\<lambda>(ul, s). length s)") (auto dest!: utf8_decode_pos)

declare map_runes.simps [simp del] keeps_width.simps [simp del]

lemma keeps_width_Nil [simp]: "keeps_width ul []" by (simp add: keeps_width.simps)
lemma map_runes_Nil [simp]: "map_runes f [] = []" by (simp add: map_runes.simps)

lemma utf8_decode_ascii: "ascii_char c \<Longrightarrow> utf8_decode (c # s) = (byte_val c, 1)"
  by (simp add: utf8_decode_def ascii_char_def Let_def)

lemma utf8_encode_ascii: "r < 128 \<Longrightarrow> utf8_encode r = [val_byte r]"
  by (simp add: utf8_encode_def Let_def)

lemma rune_lower_char: "ascii_char c \<Longrightarrow> utf8_encode (rune_lower ul (byte_val c)) = [lower_char c]"
  by (auto simp: rune_lower_def ascii_char_def lower_char_def utf8_encode_ascii)

lemma keeps_width_ascii [simp]: "ascii_char c \<Longrightarrow> keeps_width ul (c # s) \<longleftrightarrow> keeps_width ul s"
  by (simp add: keeps_width.simps utf8_decode_ascii rune_lower_char) (simp add: ascii_char_def)

lemma map_runes_ascii [simp]: "ascii_char c \<Longrightarrow> map_runes (rune_lower ul) (c # s) = lower_char c # map_runes (rune_lower ul) s"
  by (simp add: map_runes.simps utf8_decode_ascii rune_lower_char)

lemma keeps_width_ascii_string: "ascii_string s \<Longrightarrow> keeps_width ul s"
  by (induction s) simp_all

lemma bytes_ToLower_runes: "bytes_ToLower ul s = map_runes (rune_lower ul) s"
proof -
  have "ascii_string s \<Longrightarrow> map_runes (rune_lower ul) s = to_lower s" by (induction s) (simp_all add: to_lower_def)
  then show ?thesis by (simp add: bytes_ToLower_def)
qed

lemma utf8_encode_high: "128 \<le> r \<Longrightarrow> c \<in> set (utf8_encode r) \<Longrightarrow> \<not> ascii_char c"
  by (auto simp: utf8_encode_def Let_def ascii_char_def rune_error_def split: if_splits)

lemma mod_shift:
  fixes n :: nat
  assumes "k * d \<le> n" and "n < k * d + d"
  shows "n mod d = n - k * d"
proof -
  have "n = (n - k * d) + k * d" "n - k * d < d" using assms by linarith+
  then show ?thesis using mod_mult_self1 [of "n - k * d" k d] by simp
qed

lemma decode_cases:
  assumes "utf8_decode s = (r, w)" and "s = c # t" and "\<not> ascii_char c" and "w \<noteq> 1"
  obtains (two) c1 u where "s = c # c1 # u" "w = 2" "r = (byte_val c mod 32) * 64 + byte_val c1 mod 64"
      "194 \<le> byte_val c" "byte_val c \<le> 223" "128 \<le> byte_val c1"
  | (three) c1 c2 u where "s = c # c1 # c2 # u" "w = 3"
      "r = (byte_val c mod 16) * 4096 + (byte_val c1 mod 64) * 64 + byte_val c2 mod 64"
      "224 \<le> byte_val c" "byte_val c \<le> 239" "fst (utf8_lead_range (byte_val c)) \<le> byte_val c1" "128 \<le> byte_val c1" "128 \<le> byte_val c2"
      "byte_val c1 \<le> 191"
  | (four) c1 c2 c3 u where "s = c # c1 # c2 # c3 # u" "w = 4"
      "r = (byte_val c mod 8) * 262144 + (byte_val c1 mod 64) * 4096 + (byte_val c2 mod 64) * 64 + byte_val c3 mod 64"
      "240 \<le> byte_val c" "byte_val c \<le> 244" "fst (utf8_lead_range (byte_val c)) \<le> byte_val c1" "128 \<le> byte_val c1"
      "128 \<le> byte_val c2" "128 \<le> byte_val c3" "byte_val c1 \<le> 191"
proof -
  have r: "128 \<le> fst (utf8_lead_range n)" "snd (utf8_lead_range n) \<le> 191" for n by (simp_all add: utf8_lead_range_def)
  show thesis
    using assms r [of "byte_val c"] that
    by (cases t; cases "tl t"; cases "tl (tl t)")
      (auto simp: utf8_decode_def ascii_char_def cont_byte_def Let_def split: prod.splits if_splits)
qed

lemma decode_high:
  assumes "utf8_decode (c # s) = (r, w)" and "\<not> ascii_char c" and "w \<noteq> 1"
  shows "128 \<le> r \<and> 2 \<le> w \<and> w \<le> length (c # s) \<and> list_all (\<lambda>d. \<not> ascii_char d) (take w (c # s))"
proof -
  have m: "64 * k \<le> n \<Longrightarrow> n \<le> 191 \<Longrightarrow> 128 \<le> n \<Longrightarrow> n mod 64 = n - 128" for n k :: nat
    using mod_shift [of 2 64 n] by simp
  from assms(1) refl assms(2,3) show ?thesis
  proof (cases rule: decode_cases)
    case (two c1 u)
    have "byte_val c mod 32 = byte_val c - 192" using two(4,5) mod_shift [of 6 32 "byte_val c"] by simp
    then show ?thesis using two assms(2) by (simp add: ascii_char_def)
  next
    case (three c1 c2 u)
    have "byte_val c mod 16 = byte_val c - 224" using three(4,5) mod_shift [of 14 16 "byte_val c"] by simp
    moreover have "byte_val c1 mod 64 = byte_val c1 - 128" using three(7,9) mod_shift [of 2 64 "byte_val c1"] by simp
    moreover have "byte_val c = 224 \<Longrightarrow> 160 \<le> byte_val c1" using three(6) by (simp add: utf8_lead_range_def)
    ultimately have "128 \<le> r" using three(3,4,7) by (cases "byte_val c = 224") (simp, linarith)
    then show ?thesis using three assms(2) by (simp add: ascii_char_def)
  next
    case (four c1 c2 c3 u)
    have "byte_val c mod 8 = byte_val c - 240" using four(4,5) mod_shift [of 30 8 "byte_val c"] by simp
    moreover have "byte_val c1 mod 64 = byte_val c1 - 128" using four(7,10) mod_shift [of 2 64 "byte_val c1"] by simp
    moreover have "byte_val c = 240 \<Longrightarrow> 144 \<le> byte_val c1" using four(6) by (simp add: utf8_lead_range_def)
    ultimately have "128 \<le> r" using four(3,4,7) by (cases "byte_val c = 240") (simp, linarith)
    then show ?thesis using four assms(2) by (simp add: ascii_char_def)
  qed
qed

lemma decode_take:
  assumes "utf8_decode (c # s) = (r, w)" and "\<not> ascii_char c" and "w \<noteq> 1" and "w \<le> n"
  shows "utf8_decode (take n (c # s)) = (r, w)"
proof -
  obtain k where n: "n = w + k" using assms(4) le_Suc_ex by blast
  from assms(1) refl assms(2,3) show ?thesis
  proof (cases rule: decode_cases)
    case (two c1 u)
    then have "n = Suc (Suc k)" using n by simp
    then show ?thesis using assms(1) two by (simp add: utf8_decode_def Let_def ascii_char_def split: prod.splits if_splits)
  next
    case (three c1 c2 u)
    then have "n = Suc (Suc (Suc k))" using n by simp
    then show ?thesis using assms(1) three by (simp add: utf8_decode_def Let_def ascii_char_def split: prod.splits if_splits)
  next
    case (four c1 c2 c3 u)
    then have "n = Suc (Suc (Suc (Suc k)))" using n by simp
    then show ?thesis using assms(1) four by (simp add: utf8_decode_def Let_def)
  qed
qed

text \<open>One rune of such a text that is not ASCII: its bytes and those of its image are all outside ASCII.\<close>

lemma keeps_width_high:
  assumes "keeps_width ul (c # s)" and "\<not> ascii_char c"
  obtains r w where "utf8_decode (c # s) = (r, w)" and "2 \<le> w" and "w \<le> length (c # s)"
    and "list_all (\<lambda>d. \<not> ascii_char d) (take w (c # s))" and "list_all (\<lambda>d. \<not> ascii_char d) (utf8_encode (rune_lower ul r))"
    and "length (utf8_encode (rune_lower ul r)) = w" and "keeps_width ul (drop w (c # s))" and "128 \<le> ul r" and "128 \<le> r"
proof -
  obtain r w where d: "utf8_decode (c # s) = (r, w)" by force
  from assms(1) have k: "length (utf8_encode (rune_lower ul r)) = w" "r < 128 \<or> 128 \<le> ul r" "keeps_width ul (drop w (c # s))"
    by (simp_all add: keeps_width.simps(2) [of ul c s] d)
  have "w \<noteq> 1"
  proof
    assume w: "w = 1"
    then have "r = rune_error" using d assms(2)
      by (auto simp: utf8_decode_def ascii_char_def Let_def split: list.splits prod.splits if_splits)
    then have "128 \<le> ul r" using k(2) by (simp add: rune_error_def)
    then have "2 \<le> length (utf8_encode (rune_lower ul r))" using \<open>r = rune_error\<close>
      by (simp add: rune_lower_def rune_error_def utf8_encode_def Let_def)
    with k(1) w show False by simp
  qed
  from decode_high [OF d assms(2) this] have h: "128 \<le> r" "2 \<le> w" "w \<le> length (c # s)" "list_all (\<lambda>d. \<not> ascii_char d) (take w (c # s))"
    by blast+
  then have "128 \<le> rune_lower ul r" using k(2) by (simp add: rune_lower_def)
  then have "list_all (\<lambda>d. \<not> ascii_char d) (utf8_encode (rune_lower ul r))" by (auto simp: list_all_iff dest: utf8_encode_high)
  then show thesis using that d h k by auto
qed

subsection \<open>Offsets in the lower-cased copy\<close>

definition lines_up :: "bytes \<Rightarrow> bytes \<Rightarrow> bool" where
  "lines_up s l \<longleftrightarrow> list_all2 (\<lambda>c d. ascii_char c \<or> ascii_char d \<longrightarrow> d = lower_char c) s l"

lemma lines_up_high:
  "length a = length b \<Longrightarrow> list_all (\<lambda>d. \<not> ascii_char d) a \<Longrightarrow> list_all (\<lambda>d. \<not> ascii_char d) b \<Longrightarrow> lines_up a b"
  by (auto simp: lines_up_def list_all2_conv_all_nth list_all_length)

lemma lines_up_length: "lines_up s l \<Longrightarrow> length l = length s"
  unfolding lines_up_def by (rule list_all2_lengthD [symmetric])

lemma lines_up_append: "lines_up a b \<Longrightarrow> lines_up c d \<Longrightarrow> lines_up (a @ c) (b @ d)"
  by (simp add: lines_up_def list_all2_appendI)

lemma keeps_width_lines_up: "keeps_width ul s \<Longrightarrow> lines_up s (bytes_ToLower ul s)"
  unfolding bytes_ToLower_runes
proof (induction s rule: length_induct)
  case (1 s)
  show ?case
  proof (cases s)
    case Nil
    then show ?thesis by (simp add: lines_up_def)
  next
    case (Cons c t)
    show ?thesis
    proof (cases "ascii_char c")
      case True
      with 1 Cons have "lines_up t (map_runes (rune_lower ul) t)" by simp
      with True Cons show ?thesis by (simp add: lines_up_def)
    next
      case False
      obtain r w where k: "utf8_decode (c # t) = (r, w)" "2 \<le> w" "w \<le> length (c # t)"
        "list_all (\<lambda>d. \<not> ascii_char d) (take w (c # t))" "list_all (\<lambda>d. \<not> ascii_char d) (utf8_encode (rune_lower ul r))"
        "length (utf8_encode (rune_lower ul r)) = w" "keeps_width ul (drop w (c # t))"
        using keeps_width_high [OF _ False, of ul t] 1(2) Cons by metis
      have "length (drop w (c # t)) < length s" using k(2) Cons by (simp add: less_Suc_eq_le)
      then have "lines_up (drop w (c # t)) (map_runes (rune_lower ul) (drop w (c # t)))" using 1(1) k(7) by blast
      moreover have "lines_up (take w (c # t)) (utf8_encode (rune_lower ul r))"
        using k(3-6) by (intro lines_up_high) simp_all
      ultimately have "lines_up (take w (c # t) @ drop w (c # t))
          (utf8_encode (rune_lower ul r) @ map_runes (rune_lower ul) (drop w (c # t)))" by (intro lines_up_append)
      then show ?thesis using Cons by (simp only: append_take_drop_id map_runes.simps(2) k(1) prod.case)
    qed
  qed
qed

lemma keeps_width_split:
  "keeps_width ul s \<Longrightarrow> i < length s \<Longrightarrow> ascii_char (s ! i) \<Longrightarrow> keeps_width ul (take i s) \<and> keeps_width ul (drop i s)"
proof (induction s arbitrary: i rule: length_induct)
  case (1 s)
  then obtain c t where s: "s = c # t" by (cases s) auto
  show ?case
  proof (cases "ascii_char c \<or> i = 0")
    case True
    then show ?thesis
    proof (cases i)
      case (Suc j)
      with True have a: "ascii_char c" by simp
      with 1(1) [rule_format, of t j] 1(2-4) s Suc show ?thesis by simp
    qed (use 1(2) in simp)
  next
    case False
    then have n: "\<not> ascii_char c" by simp
    obtain r w where k: "utf8_decode (c # t) = (r, w)" "2 \<le> w" "w \<le> length (c # t)"
      "list_all (\<lambda>d. \<not> ascii_char d) (take w (c # t))"
      "length (utf8_encode (rune_lower ul r)) = w" "keeps_width ul (drop w (c # t))" "128 \<le> ul r"
      using keeps_width_high [OF _ n, of ul t] 1(2) s by metis
    have w: "w \<le> i"
    proof (rule ccontr)
      assume "\<not> w \<le> i"
      then have "(c # t) ! i \<in> set (take w (c # t))" using k(3) by (auto simp: in_set_conv_nth intro!: exI [of _ i])
      with k(4) 1(4) s show False by (auto simp: list_all_iff)
    qed
    let ?u = "drop w (c # t)"
    have "length ?u < length s" using k(2) s by (simp add: less_Suc_eq_le)
    moreover have "i - w < length ?u" "?u ! (i - w) = s ! i" using w 1(3) s k(3) by (simp_all add: nth_drop)
    ultimately have ih: "keeps_width ul (take (i - w) ?u) \<and> keeps_width ul (drop (i - w) ?u)" using 1(1,4) k(6) by metis
    have i: "0 < i" using w k(2) by simp
    have t: "take i (c # t) = c # take (i - 1) t" using i by (cases i) simp_all
    have "utf8_decode (take i (c # t)) = (r, w)" using decode_take [OF k(1) n _ w] k(2) by simp
    moreover have "drop w (take i (c # t)) = take (i - w) ?u" by (simp add: drop_take)
    ultimately have "keeps_width ul (take i (c # t))"
      using ih k(5,7) unfolding t keeps_width.simps(2) by simp
    moreover have "drop (i - w) ?u = drop i (c # t)" using w by simp
    ultimately show ?thesis using ih s by simp
  qed
qed

lemma keeps_width_append: "ascii_string a \<Longrightarrow> keeps_width ul (a @ s) \<longleftrightarrow> keeps_width ul s"
  by (induction a) simp_all

lemma keeps_width_after:
  assumes "keeps_width ul s" and "has_prefix (drop i s) p" and "ascii_string p" and "p \<noteq> []"
  shows "keeps_width ul (drop (i + length p) s)" "keeps_width ul (take i s)" "keeps_width ul (drop i s)"
proof -
  obtain q where q: "drop i s = p @ q" using assms(2) by (auto simp: has_prefix_iff)
  obtain c t where c: "p = c # t" using assms(4) by (cases p) auto
  have i: "i < length s" using q c by (metis append_Cons drop_eq_Nil list.distinct(1) not_le)
  have "s ! i = c" using q c i by (simp add: hd_drop_conv_nth [symmetric])
  then have a: "ascii_char (s ! i)" using assms(3) c by simp
  show k: "keeps_width ul (take i s)" "keeps_width ul (drop i s)" using keeps_width_split [OF assms(1) i a] by blast+
  have "drop (i + length p) s = q" using q by (metis add.commute append_eq_conv_conj drop_drop)
  with k(2) show "keeps_width ul (drop (i + length p) s)" by (simp add: q keeps_width_append [OF assms(3)])
qed

text \<open>An ASCII text found in the lower-cased copy is in the page at the same offset.\<close>

lemma lines_up_prefix:
  assumes "lines_up s l" and "has_prefix (drop k l) p" and "ascii_string p"
  shows "to_lower (take (length p) (drop k s)) = p" "length (take (length p) (drop k s)) = length p" "ascii_string (take (length p) (drop k s))"
proof -
  have "list_all2 (\<lambda>c d. ascii_char c \<or> ascii_char d \<longrightarrow> d = lower_char c) (take (length p) (drop k s)) (take (length p) (drop k l))"
    using assms(1) by (simp add: lines_up_def list_all2_takeI list_all2_dropI)
  moreover have "take (length p) (drop k l) = p" using assms(2) by (auto simp: has_prefix_iff)
  ultimately have f: "list_all2 (\<lambda>c d. ascii_char c \<or> ascii_char d \<longrightarrow> d = lower_char c) (take (length p) (drop k s)) p" by simp
  then show "length (take (length p) (drop k s)) = length p" by (rule list_all2_lengthD)
  have "ascii_string q \<Longrightarrow> list_all2 (\<lambda>c d. ascii_char c \<or> ascii_char d \<longrightarrow> d = lower_char c) a q \<Longrightarrow> to_lower a = q \<and> ascii_string a" for a q
  proof (induction a arbitrary: q)
    case (Cons c a)
    then obtain d r where q: "q = d # r" by (cases q) auto
    have "ascii_char d \<Longrightarrow> d = lower_char c \<Longrightarrow> ascii_char c"
      by (auto simp: ascii_char_def lower_char_def split: if_splits)
    then show ?case using Cons q by (auto simp: to_lower_def)
  qed (simp add: to_lower_def)
  from this [OF assms(3) f] show "to_lower (take (length p) (drop k s)) = p" "ascii_string (take (length p) (drop k s))" by blast+
qed

lemma lower_index:
  assumes "keeps_width ul s" and "str_index (bytes_ToLower ul s) p = Some k" and "ascii_string p"
  shows "to_lower (take (length p) (drop k s)) = p" "k + length p \<le> length s" "ascii_string (take (length p) (drop k s))"
proof -
  note l = lines_up_prefix [OF keeps_width_lines_up [OF assms(1)] conjunct2 [OF str_index_Some [OF assms(2)]] assms(3)]
  show "to_lower (take (length p) (drop k s)) = p" "ascii_string (take (length p) (drop k s))" by (fact l(1), fact l(3))
  have "length (bytes_ToLower ul s) = length s"
    using keeps_width_lines_up [OF assms(1)] by (simp add: lines_up_def list_all2_lengthD)
  then have "k \<le> length s" using str_index_Some [OF assms(2)] by simp
  with l(2) show "k + length p \<le> length s" by simp
qed

lemma last_index_Some:
  "last_index s p = Some c \<Longrightarrow> has_prefix (drop c s) p \<and> c \<le> length s \<and> (\<forall>j. c < j \<and> j \<le> length s \<longrightarrow> \<not> has_prefix (drop j s) p \<or> p = [])"
proof (induction s arbitrary: c)
  case (Cons a s)
  show ?case
  proof (cases "last_index s p")
    case None
    have "has_prefix (drop j s) p \<Longrightarrow> j \<le> length s \<Longrightarrow> p \<noteq> [] \<Longrightarrow> False" for j
      using None
    proof (induction s arbitrary: j)
      case (Cons x s)
      then show ?case by (cases j) (auto split: option.splits if_splits)
    qed (simp add: has_prefix_def split: if_splits)
    moreover have "c = 0" "has_prefix (a # s) p" using Cons.prems None by (auto split: if_splits)
    ultimately show ?thesis by (auto simp: drop_Cons') (metis Suc_le_mono Suc_pred)
  next
    case (Some i)
    with Cons.prems have c: "c = Suc i" by simp
    from Cons.IH [OF Some] c show ?thesis by (auto simp: drop_Cons' dest!: spec [of _ "_ - Suc 0"])
  qed
qed (auto split: if_splits)

lemma last_index_None: "last_index s p = None \<Longrightarrow> j \<le> length s \<Longrightarrow> \<not> has_prefix (drop j s) p"
proof (induction s arbitrary: j)
  case (Cons x s)
  then show ?case by (cases j) (auto split: option.splits if_splits)
qed (simp add: has_prefix_def split: if_splits)


subsection \<open>The place for the script\<close>

text \<open>The opening tag of the head at \<open>h\<close>, which ends before \<open>p\<close>; no comment is open there.\<close>

definition opening_head :: "bytes \<Rightarrow> nat \<Rightarrow> nat \<Rightarrow> bool" where
  "opening_head b h p \<longleftrightarrow> to_lower (take 5 (drop h b)) = ''<head'' \<and> isTagNameEnd (b ! (h + 5)) \<and> h + 5 < p \<and> p \<le> length b
     \<and> b ! (p - 1) = CHR ''>'' \<and> CHR ''>'' \<notin> set (take (p - 1 - h) (drop h b))
     \<and> (\<forall>c. c + 4 \<le> h \<longrightarrow> take 4 (drop c b) = ''<!--'' \<longrightarrow> contains_sub (drop c (take h b)) ''-->'')"

lemma in_comment_ok:
  assumes "keeps_width ul (take h b)" and "h \<le> length b"
  shows "\<exists>x. in_comment ul spare b h = Inr x
    \<and> (\<not> x \<longrightarrow> (\<forall>c. c + 4 \<le> h \<longrightarrow> take 4 (drop c b) = ''<!--'' \<longrightarrow> contains_sub (drop c (take h b)) ''-->''))"
proof -
  let ?pre = "take h b"
  have s: "slice_range spare b c h = Inr (drop c ?pre)" if "c \<le> h" for c
    using that assms(2) by (simp add: slice_range_def)
  have L: "lines_up ?pre (bytes_ToLower ul ?pre)" by (rule keeps_width_lines_up [OF assms(1)])
  then have len: "length (bytes_ToLower ul ?pre) = h" using lines_up_length assms(2) by fastforce
  have opener: "has_prefix (drop c (bytes_ToLower ul ?pre)) ''<!--''" if "c + 4 \<le> h" "take 4 (drop c b) = ''<!--''" for c
  proof -
    have "take 4 (drop c ?pre) = ''<!--''" using that assms(2) by (simp add: take_drop min_absorb1)
    moreover have "list_all2 (\<lambda>c d. ascii_char c \<or> ascii_char d \<longrightarrow> d = lower_char c) (take 4 (drop c ?pre)) (take 4 (drop c (bytes_ToLower ul ?pre)))"
      using L by (simp add: lines_up_def list_all2_takeI list_all2_dropI)
    moreover have "list_all2 (\<lambda>c d. ascii_char c \<or> ascii_char d \<longrightarrow> d = lower_char c) ''<!--'' q \<Longrightarrow> q = ''<!--''" for q
      by (auto simp: list_all2_Cons1 ascii_char_def byte_val_def lower_char_def)
    ultimately have "take 4 (drop c (bytes_ToLower ul ?pre)) = ''<!--''" by simp
    then show ?thesis by (simp add: has_prefix_def numeral_eq_Suc)
  qed
  show ?thesis
  proof (cases "last_index (bytes_ToLower ul ?pre) ''<!--''")
    case None
    have "c + 4 \<le> h \<Longrightarrow> take 4 (drop c b) = ''<!--'' \<Longrightarrow> False" for c
      using opener last_index_None [OF None] len by auto
    then show ?thesis by (auto simp: in_comment_def s None)
  next
    case (Some c0)
    note c0 = last_index_Some [OF Some]
    have "contains_sub (drop c ?pre) ''-->''" if "c + 4 \<le> h" "take 4 (drop c b) = ''<!--''" "contains_sub (drop c0 ?pre) ''-->''" for c
    proof -
      have "c \<le> c0" using opener [OF that(1,2)] c0 len that(1) by (metis le_add1 le_trans list.distinct(1) not_le)
      then have d: "drop c0 ?pre = drop (c0 - c) (drop c ?pre)" by simp
      from that(3) obtain x y where "drop c0 ?pre = x @ ''-->'' @ y" by (auto simp: contains_sub_def str_index_None_iff)
      then have "drop c ?pre = (take (c0 - c) (drop c ?pre) @ x) @ ''-->'' @ y" using d by (metis append_assoc append_take_drop_id)
      then show ?thesis unfolding contains_sub_def str_index_None_iff by blast
    qed
    then show ?thesis using s c0 len by (auto simp: in_comment_def Some)
  qed
qed

lemma keeps_width_at:
  assumes "keeps_width ul (drop i b)" and "str_index (bytes_ToLower ul (drop i b)) p = Some k" and "ascii_string p" and "p \<noteq> []"
  shows "to_lower (take (length p) (drop (k + i) b)) = p" "k + i + length p \<le> length b"
    "keeps_width ul (drop (k + i + length p) b)" "ascii_char (b ! (k + i))"
proof -
  note l = lower_index [OF assms(1-3)]
  have d: "drop k (drop i b) = drop (k + i) b" by (simp add: add.commute)
  show "to_lower (take (length p) (drop (k + i) b)) = p" using l(1) d by simp
  show n: "k + i + length p \<le> length b" using l(2) assms(4) by (cases p) auto
  have q: "has_prefix (drop k (drop i b)) (take (length p) (drop (k + i) b))" "ascii_string (take (length p) (drop (k + i) b))"
    using l(3) d n by (simp_all add: has_prefix_def min_absorb2)
  have "take (length p) (drop (k + i) b) \<noteq> []" using n assms(4) by (cases p) auto
  from keeps_width_after(1) [OF assms(1) q this]
  show "keeps_width ul (drop (k + i + length p) b)" using n by (simp add: min_absorb2 add.commute add.left_commute)
  have "0 < length (take (length p) (drop (k + i) b))" using \<open>take (length p) (drop (k + i) b) \<noteq> []\<close> by blast
  then have "take (length p) (drop (k + i) b) ! 0 \<in> set (take (length p) (drop (k + i) b))" by (rule nth_mem)
  then have "b ! (k + i) \<in> set (take (length p) (drop (k + i) b))"
    using n assms(4) by simp
  with q(2) show "ascii_char (b ! (k + i))" by (auto simp: ascii_string_def list_all_iff)
qed

lemma tag_closes_at:
  assumes "to_lower (take 5 (drop h b)) = tag" and "CHR ''>'' \<notin> set tag" and "h + 5 \<le> length b" and "str_index (drop h b) ''>'' = Some e"
  shows "5 \<le> e" "h + e < length b" "b ! (h + e) = CHR ''>''" "CHR ''>'' \<notin> set (take e (drop h b))"
proof -
  have s: "e \<le> length (drop h b)" "has_prefix (drop e (drop h b)) ''>''" using str_index_Some [OF assms(4)] by auto
  then have "drop (h + e) b \<noteq> []" by (auto simp: add.commute)
  then show l: "h + e < length b" by simp
  then have "drop (h + e) b = b ! (h + e) # drop (Suc (h + e)) b" by (rule Cons_nth_drop_Suc [symmetric])
  then show v: "b ! (h + e) = CHR ''>''" using s(2) by (simp add: add.commute)
  show n: "CHR ''>'' \<notin> set (take e (drop h b))"
  proof
    assume "CHR ''>'' \<in> set (take e (drop h b))"
    then obtain j where j: "j < e" "h + j < length b" "b ! (h + j) = CHR ''>''" by (auto simp: in_set_conv_nth)
    then have "drop j (drop h b) = CHR ''>'' # drop (Suc (h + j)) b" using Cons_nth_drop_Suc [of "h + j" b] by (simp add: add.commute)
    with str_index_first [OF assms(4) j(1)] show False by simp
  qed
  show "5 \<le> e"
  proof (rule ccontr)
    assume "\<not> 5 \<le> e"
    then have "lower_char (b ! (h + e)) \<in> set (to_lower (take 5 (drop h b)))"
      using l by (auto simp: to_lower_def in_set_conv_nth intro!: imageI exI [of _ e])
    then show False using assms(2) unfolding assms(1) v by (simp add: lower_char_def byte_val_def)
  qed
qed

lemma insertion_step:
  assumes "i \<le> length b" and "str_index (bytes_ToLower ul (drop i b)) ''<head'' = Some k" and "h = k + i"
  shows "insertion_from ul spare b i =
    (if h + 5 < length b \<and> \<not> isTagNameEnd (b ! (h + 5)) then insertion_from ul spare b (h + 5)
     else (case in_comment ul spare b h of
             Inl e \<Rightarrow> Inl e
           | Inr inside \<Rightarrow>
              (case slice_from b h of
                 Inl e \<Rightarrow> Inl e
               | Inr rest \<Rightarrow>
                  (if inside then (case str_index rest ''-->'' of None \<Rightarrow> Inr None | Some e \<Rightarrow> insertion_from ul spare b (h + e + 3))
                   else (case str_index rest ''>'' of None \<Rightarrow> Inr None | Some e \<Rightarrow> Inr (Some (h + e + 1)))))))"
  unfolding assms(3) using assms(1) by (subst insertion_from.simps) (simp add: assms(2) Let_def)

lemma past_comment:
  assumes "keeps_width ul b" and "h \<le> length b" and "str_index (drop h b) ''-->'' = Some e"
  shows "keeps_width ul (drop (h + e + 3) b) \<and> h + e + 3 \<le> length b"
proof -
  note e = str_index_Some [OF assms(3)]
  have "ascii_string ''-->''" by code_simp
  with e have "keeps_width ul (drop (h + e + 3) b)"
    using keeps_width_after(1) [OF assms(1), of "h + e" "''-->''"] by (simp add: add.commute numeral_eq_Suc)
  moreover have "h + e + 3 \<le> length b" using e assms(2) by (auto simp: has_prefix_def dest: arg_cong [of _ _ length])
  ultimately show ?thesis ..
qed

lemma head_found:
  assumes "to_lower (take 5 (drop h b)) = ''<head''" and "h + 5 \<le> length b" and "str_index (drop h b) ''>'' = Some e"
    and "\<not> (h + 5 < length b \<and> \<not> isTagNameEnd (b ! (h + 5)))"
    and "\<forall>c. c + 4 \<le> h \<longrightarrow> take 4 (drop c b) = ''<!--'' \<longrightarrow> contains_sub (drop c (take h b)) ''-->''"
  shows "opening_head b h (h + e + 1)"
proof -
  from tag_closes_at [OF assms(1) _ assms(2,3)] have c: "5 \<le> e" "h + e < length b" "b ! (h + e) = CHR ''>''" "CHR ''>'' \<notin> set (take e (drop h b))"
    by auto
  then have "isTagNameEnd (b ! (h + 5))" using assms(4) by simp
  with c assms(1,5) show ?thesis by (simp add: opening_head_def)
qed

lemma insertion_from_sound:
  "keeps_width ul b \<Longrightarrow> keeps_width ul (drop i b) \<Longrightarrow> i \<le> length b \<Longrightarrow>
     \<exists>q. insertion_from ul spare b i = Inr q \<and> (\<forall>p. q = Some p \<longrightarrow> (\<exists>h. opening_head b h p))"
proof (induction ul spare b i rule: insertion_from.induct)
  case (1 ul spare b i)
  show ?case
  proof (cases "str_index (bytes_ToLower ul (drop i b)) ''<head''")
    case None
    then show ?thesis using "1.prems" by (simp add: insertion_from.simps [of ul spare b i])
  next
    case (Some k)
    define h where "h = k + i"
    have p: "ascii_string ''<head''" by code_simp
    note at = keeps_width_at [OF "1.prems"(2) Some p, folded h_def, simplified]
    have h: "h < length b" "h \<le> length b" "h + 5 \<le> length b" using at(2) by simp_all
    have opens: "to_lower (take 5 (drop h b)) = ''<head''" using at(1) by (simp add: numeral_eq_Suc)
    have pre: "keeps_width ul (take h b)" using keeps_width_split [OF "1.prems"(1) h(1) at(4)] by blast
    show ?thesis
    proof (cases "h + 5 < length b \<and> \<not> isTagNameEnd (b ! (h + 5))")
      case True
      have "insertion_from ul spare b i = insertion_from ul spare b (h + 5)"
        by (simp only: insertion_step [OF "1.prems"(3) Some h_def] if_P [OF True])
      moreover have "keeps_width ul (drop (h + 5) b)" using at(3) by (simp add: numeral_eq_Suc)
      ultimately show ?thesis
        using "1.IH"(1) [OF _ Some h_def refl] "1.prems"(1,3) True h(3) by simp
    next
      case False
      from in_comment_ok [OF pre h(2), of spare] obtain x where x: "in_comment ul spare b h = Inr x"
        and out: "\<not> x \<longrightarrow> (\<forall>c. c + 4 \<le> h \<longrightarrow> take 4 (drop c b) = ''<!--'' \<longrightarrow> contains_sub (drop c (take h b)) ''-->'')" by blast
      have sl: "slice_from b h = Inr (drop h b)" using h(2) by (simp add: slice_from_def)
      have eq: "insertion_from ul spare b i =
          (if x then (case str_index (drop h b) ''-->'' of None \<Rightarrow> Inr None | Some e \<Rightarrow> insertion_from ul spare b (h + e + 3))
           else (case str_index (drop h b) ''>'' of None \<Rightarrow> Inr None | Some e \<Rightarrow> Inr (Some (h + e + 1))))"
        by (simp only: insertion_step [OF "1.prems"(3) Some h_def] if_not_P [OF False] x sl sum.case)
      show ?thesis
      proof (cases x)
        case True
        show ?thesis
        proof (cases "str_index (drop h b) ''-->''")
          case None
          then show ?thesis using eq True by simp
        next
          case (Some e)
          from past_comment [OF "1.prems"(1) h(2) this]
          show ?thesis
            using "1.IH"(2) [OF _ \<open>str_index (bytes_ToLower ul (drop i b)) ''<head'' = Some k\<close> h_def refl _ x sl True Some] "1.prems"(1,3) False eq True Some
            by auto
        qed
      next
        case False
        show ?thesis
        proof (cases "str_index (drop h b) ''>''")
          case None
          then show ?thesis using eq False by simp
        next
          case (Some e)
          from head_found [OF opens h(3) Some \<open>\<not> (h + 5 < length b \<and> \<not> isTagNameEnd (b ! (h + 5)))\<close>] out False
          have "opening_head b h (h + e + 1)" by blast
          then show ?thesis using eq False Some by auto
        qed
      qed
    qed
  qed
qed

subsection \<open>Reading the \<open>meta\<close> tags\<close>

lemma attr_from_returns:
  "length (bytes_ToLower ul tag) = length tag \<Longrightarrow> i \<le> length tag \<Longrightarrow> name \<noteq> [] \<Longrightarrow> \<exists>v. attr_from ul tag name i = Inr v"
proof (induction ul tag name i rule: attr_from.induct)
  case (1 ul tag name i)
  show ?case
  proof (cases "str_index (drop i (bytes_ToLower ul tag)) name")
    case None
    then show ?thesis using "1.prems" by (subst attr_from.simps) simp
  next
    case (Some k)
    have n: "k + i + length name \<le> length tag"
      using str_index_Some [OF Some] "1.prems" by (auto simp: has_prefix_def dest: arg_cong [of _ _ length])
    have g: "\<not> (length name = 0 \<or> length (bytes_ToLower ul tag) < i)" using "1.prems" by simp
    have eq: "attr_from ul tag name i =
      (if k + i = 0 then attr_from ul tag name (k + i + length name)
       else if \<not> html_space (tag ! (k + i - 1)) then attr_from ul tag name (k + i + length name)
       else (let t = trim_left_while html_space (drop (k + i + length name) tag) in
             if take 1 t \<noteq> ''='' then attr_from ul tag name (k + i + length name)
             else Inr (attr_value (trim_left_while html_space (drop 1 t)))))"
      using g n "1.prems"(3) by (subst attr_from.simps) (auto simp: Some Let_def slice_from_def)
    note ih = "1.IH" [OF g Some refl refl]
    show ?thesis
      unfolding eq using ih "1.prems" n
      by (auto simp: Let_def slice_from_def not_le)
  qed
qed

lemma meta_policy_returns:
  assumes "length (bytes_ToLower ul tag) = length tag"
  shows "\<exists>ps. meta_policy ul tag = Inr ps"
proof -
  obtain v c where "attr ul tag ''http-equiv'' = Inr v" "attr ul tag ''content'' = Inr c"
    using attr_from_returns [OF assms le0] unfolding attr_def by (metis list.distinct(1))
  then show ?thesis by (cases v; cases c) (simp_all add: meta_policy_def)
qed

lemma meta_from_returns:
  assumes "keeps_width ul b"
  shows "i \<le> length b \<Longrightarrow> \<exists>ps. meta_from ul b i out = Some (Inr ps)"
proof (induction "length b - i" arbitrary: i out rule: less_induct)
  case less
  let ?l = "bytes_ToLower ul b"
  have L: "lines_up b ?l" by (rule keeps_width_lines_up [OF assms])
  then have len: "length ?l = length b" by (rule lines_up_length)
  show ?case
  proof (cases "str_index (drop i ?l) ''<meta''")
    case None
    then show ?thesis using less.prems len by (subst meta_from.simps) simp
  next
    case (Some k)
    define m where "m = k + i"
    have p: "has_prefix (drop m ?l) ''<meta''" "ascii_string ''<meta''"
      using str_index_Some [OF Some] by (simp_all add: m_def add.commute) code_simp
    have t: "to_lower (take 5 (drop m b)) = ''<meta''" "length (take 5 (drop m b)) = 5" "ascii_string (take 5 (drop m b))"
      using lines_up_prefix [OF L p] by (simp_all add: numeral_eq_Suc)
    then have m: "m + 5 \<le> length b" by simp
    have "take 5 (drop m b) ! 0 \<in> set (take 5 (drop m b))" using t(2) by (intro nth_mem) simp
    then have a: "ascii_char (b ! m)" using t(3) m by (auto simp: ascii_string_def list_all_iff)
    then have k: "keeps_width ul (drop m b)" using keeps_width_split [OF assms, of m] m by simp
    show ?thesis
    proof (cases "str_index (drop m b) ''>''")
      case None
      then show ?thesis
        using less.prems len \<open>str_index (drop i ?l) ''<meta'' = Some k\<close> m
        by (subst meta_from.simps) (simp add: m_def Let_def slice_from_def)
    next
      case (Some e)
      have e: "5 \<le> e" "m + e < length b" "b ! (m + e) = CHR ''>''" using tag_closes_at [OF t(1) _ m Some] by simp_all
      have "keeps_width ul (take e (drop m b))" using keeps_width_split [OF k, of e] e by (simp add: ascii_char_def byte_val_def)
      then have "length (bytes_ToLower ul (take e (drop m b))) = length (take e (drop m b))"
        by (rule lines_up_length [OF keeps_width_lines_up])
      then obtain ps where ps: "meta_policy ul (take e (drop m b)) = Inr ps" using meta_policy_returns by blast
      have "meta_from ul b i out = meta_from ul b (m + e) (out @ ps)"
        using less.prems len \<open>str_index (drop i ?l) ''<meta'' = Some k\<close> m Some ps
        by (subst meta_from.simps) (simp add: m_def Let_def slice_from_def)
      moreover have "length b - (m + e) < length b - i" using e m by (simp add: m_def)
      ultimately show ?thesis using less.hyps e(2) by simp
    qed
  qed
qed

subsection \<open>Properties\<close>


text \<open>A page in UTF-8 with a letter that is not ASCII; and one whose first \<open>head\<close> is in a comment.\<close>

lemma e_acute: "utf8_decode (CHR 0xC3 # CHR 0xA9 # s) = (233, 2)" "utf8_encode 233 = [CHR 0xC3, CHR 0xA9]"
  by (simp_all add: utf8_decode_def cont_byte_def utf8_lead_range_def utf8_encode_def byte_val_def val_byte_def Let_def) code_simp+

definition demo_page :: bytes where
  "demo_page = ''<!DOCTYPE html><!-- <head> --><HEAD lang=tr><title>'' @ [CHR 0xC3, CHR 0xA9] @ ''</title></head>''"

lemma demo_page_keeps: "keeps_width (\<lambda>r. r) demo_page"
proof -
  let ?a = "''<!DOCTYPE html><!-- <head> --><HEAD lang=tr><title>''" and ?b = "''</title></head>''"
  have a: "ascii_string ?a" "ascii_string ?b" by code_simp+
  have "keeps_width (\<lambda>r. r) (CHR 0xC3 # CHR 0xA9 # ?b)"
    unfolding keeps_width.simps(2) [of _ "CHR 0xC3"] e_acute using keeps_width_ascii_string [OF a(2)] by (simp add: rune_lower_def e_acute)
  then have "keeps_width (\<lambda>r. r) (?a @ CHR 0xC3 # CHR 0xA9 # ?b)" by (rule keeps_width_append [OF a(1), THEN iffD2])
  then show ?thesis unfolding demo_page_def by simp
qed


text \<open>C15: on such a page, the loop over the \<open>meta\<close> tags ends, without a panic.\<close>

theorem metaPolicies_terminates:
  assumes "keeps_width ul b"
  shows "\<exists>ps. metaPolicies ul b = Some (Inr ps)"
  using meta_from_returns [OF assms, of 0] by (simp add: metaPolicies_def)

lemma metaPolicies_terminates_witness: "\<exists>ps. metaPolicies (\<lambda>r. r) demo_page = Some (Inr ps)"
  by (rule metaPolicies_terminates [OF demo_page_keeps])

subsection \<open>Pages where it does not\<close>

text \<open>A letter with an accent in ISO 8859-1: before an ASCII letter or another one it is not valid UTF-8.\<close>

lemma latin1_decode:
  "s = [] \<or> \<not> (128 \<le> byte_val (hd s) \<and> byte_val (hd s) \<le> 191) \<Longrightarrow> utf8_decode (CHR 0xE9 # s) = (rune_error, 1)"
  by (cases s; cases "tl s") (auto simp: utf8_decode_def cont_byte_def utf8_lead_range_def byte_val_def Let_def)

lemma latin1_lower:
  assumes "ul rune_error = rune_error" and "s = [] \<or> \<not> (128 \<le> byte_val (hd s) \<and> byte_val (hd s) \<le> 191)"
  shows "map_runes (rune_lower ul) (CHR 0xE9 # s) = utf8_encode rune_error @ map_runes (rune_lower ul) s"
  using latin1_decode [OF assms(2)] assms(1) by (simp add: map_runes.simps(2) rune_lower_def) (simp add: rune_error_def)

lemma latin1_word:
  assumes "ul rune_error = rune_error" and "ascii_string s"
  shows "map_runes (rune_lower ul) (replicate n (CHR 0xE9) @ s) = concat (replicate n (utf8_encode rune_error)) @ to_lower s"
proof (induction n)
  case 0
  then show ?case using assms(2) bytes_ToLower_runes [of ul s] by (simp add: bytes_ToLower_def)
next
  case (Suc n)
  have "replicate n (CHR 0xE9) @ s = [] \<or> \<not> (128 \<le> byte_val (hd (replicate n (CHR 0xE9) @ s)) \<and> byte_val (hd (replicate n (CHR 0xE9) @ s)) \<le> 191)"
    using assms(2) by (cases n; cases s) (auto simp: ascii_char_def, simp_all add: byte_val_def)
  from latin1_lower [where ul = ul, OF assms(1) this] Suc show ?case by simp
qed

lemma latin1_page:
  assumes "ul rune_error = rune_error" and "ascii_string a" and "ascii_string s"
  shows "bytes_ToLower ul (a @ replicate n (CHR 0xE9) @ s) = to_lower a @ concat (replicate n (utf8_encode rune_error)) @ to_lower s"
  unfolding bytes_ToLower_runes using assms(2) latin1_word [where ul = ul, OF assms(1,3)]
  by (induction a) (simp_all add: to_lower_def)

lemma rune_error_bytes: "utf8_encode rune_error = [CHR 0xEF, CHR 0xBF, CHR 0xBD]"
  by (simp add: utf8_encode_def rune_error_def val_byte_def) code_simp

lemma meta_stuck:
  assumes "str_index (drop i (bytes_ToLower ul b)) ''<meta'' = Some 0" and "slice_from b i = Inr rest" and "str_index rest ''>'' = Some 0"
  shows "meta_from ul b i out = None"
proof -
  have n: "meta_policy ul [] = Inr []"
    by (simp add: meta_policy_def attr_def attr_from.simps bytes_ToLower_def to_lower_def)
  have "\<not> (ul' = ul \<and> b' = b \<and> i' = i)" if "meta_from ul' b' i' out' = Some y" for ul' b' i' out' y
    using that
  proof (rule meta_from.raw_induct [where P = "\<lambda>ul' b' i' out' y. \<not> (ul' = ul \<and> b' = b \<and> i' = i)", rotated])
    fix f ul' b' i' out' y
    assume ih: "\<And>x y z w v. f x y z w = Some v \<Longrightarrow> \<not> (x = ul \<and> y = b \<and> z = i)"
      and e: "(if length (bytes_ToLower ul' b') < i' then Some (Inl OutOfRange)
      else
        (case str_index (drop i' (bytes_ToLower ul' b')) ''<meta'' of
           None \<Rightarrow> Some (Inr out')
         | Some k \<Rightarrow>
            (let m = k + i' in
             case slice_from b' m of
               Inl e \<Rightarrow> Some (Inl e)
             | Inr rest \<Rightarrow>
                (case str_index rest ''>'' of
                   None \<Rightarrow> Some (Inr out')
                 | Some end \<Rightarrow>
                    (case meta_policy ul' (take end rest) of
                       Inl e \<Rightarrow> Some (Inl e)
                     | Inr ps \<Rightarrow> f ul' b' (m + end) (out' @ ps)))))) = Some y"
    show "\<not> (ul' = ul \<and> b' = b \<and> i' = i)"
    proof
      assume s: "ul' = ul \<and> b' = b \<and> i' = i"
      have "\<not> length (bytes_ToLower ul b) < i" using assms(1) by (cases "length (bytes_ToLower ul b) < i") simp_all
      with e s assms n have "f ul b i (out' @ []) = Some y" by simp
      from ih [OF this] show False by simp
    qed
  qed
  then show ?thesis by (cases "meta_from ul b i out") blast+
qed
text \<open>A title with eleven such letters before a \<open>meta\<close> tag of 23 bytes: the loop does not end.\<close>

definition latin1_title :: bytes where
  "latin1_title = ''<html><head><title>'' @ replicate 11 (CHR 0xE9) @ ''</title><meta charset=\"latin1\"></head>''"

lemma latin1_title_hangs:
  assumes "ul rune_error = rune_error"
  shows "looksLikeDocument latin1_title" "metaPolicies ul latin1_title = None"
proof -
  show "looksLikeDocument latin1_title"
    by (simp add: latin1_title_def) code_simp
  let ?a = "''<html><head><title>''" and ?s = "''</title><meta charset=\"latin1\"></head>''"
  have as: "ascii_string ?a" "ascii_string ?s" by code_simp+
  have low: "bytes_ToLower ul latin1_title = ?a @ concat (replicate 11 [CHR 0xEF, CHR 0xBF, CHR 0xBD]) @ ?s"
    unfolding latin1_title_def latin1_page [where ul = ul, OF assms as] rune_error_bytes by (simp, code_simp)
  have l: "length (bytes_ToLower ul latin1_title) = 90" unfolding low by code_simp
  have b1: "str_index (bytes_ToLower ul latin1_title) ''<meta'' = Some 60" unfolding low by code_simp
  have b2: "str_index (drop 60 (bytes_ToLower ul latin1_title)) ''<meta'' = Some 0" unfolding low by code_simp
  have b3: "slice_from latin1_title 60 = Inr (drop 60 latin1_title)" "str_index (drop 60 latin1_title) ''>'' = Some 0"
    unfolding latin1_title_def by (simp add: slice_from_def, code_simp)
  have "meta_policy ul [] = Inr []"
    by (simp add: meta_policy_def attr_def attr_from.simps bytes_ToLower_def to_lower_def)
  then have "meta_from ul latin1_title 0 [] = meta_from ul latin1_title 60 []"
    using b1 b3 l by (subst meta_from.simps) simp
  then show "metaPolicies ul latin1_title = None"
    unfolding metaPolicies_def using meta_stuck [OF b2 b3] by simp
qed

text \<open>Four of them in a comment before the head: the script goes into the title. Forty: the search panics.\<close>

definition latin1_comment :: "nat \<Rightarrow> bytes" where
  "latin1_comment n = ''<html><!--'' @ replicate n (CHR 0xE9) @ ''--><head>'' @ [CHR 0x0A] @ ''<title>T</title></head>''"

lemma latin1_comment_low:
  assumes "ul rune_error = rune_error"
  shows "bytes_ToLower ul (latin1_comment n) = ''<html><!--'' @ concat (replicate n [CHR 0xEF, CHR 0xBF, CHR 0xBD])
     @ ''--><head>'' @ [CHR 0x0A] @ ''<title>t</title></head>''"
proof -
  have "ascii_string ''<html><!--''" "ascii_string (''--><head>'' @ [CHR 0x0A] @ ''<title>T</title></head>'')" by code_simp+
  from latin1_page [where ul = ul, OF assms this] show ?thesis
    unfolding latin1_comment_def rune_error_bytes by (simp add: to_lower_def lower_char_def byte_val_def val_byte_def) code_simp
qed

lemma latin1_comment_misplaced:
  assumes "ul rune_error = rune_error"
  shows "insertionPoint ul spare (latin1_comment 4) = Inr (Some 31)" "drop 24 (take 31 (latin1_comment 4)) = ''<title>''"
proof -
  show "drop 24 (take 31 (latin1_comment 4)) = ''<title>''" unfolding latin1_comment_def by code_simp
  let ?b = "latin1_comment 4"
  have low: "str_index (bytes_ToLower ul ?b) ''<head'' = Some 25" unfolding latin1_comment_low [where ul = ul, OF assms] by code_simp
  have t: "take 25 ?b = ''<html><!--'' @ replicate 4 (CHR 0xE9) @ ''--><head>'' @ [CHR 0x0A] @ ''<''" unfolding latin1_comment_def by code_simp
  have as: "ascii_string ''<html><!--''" "ascii_string (''--><head>'' @ [CHR 0x0A] @ ''<'')" by code_simp+
  have pre: "bytes_ToLower ul (take 25 ?b) = to_lower ''<html><!--'' @ concat (replicate 4 [CHR 0xEF, CHR 0xBF, CHR 0xBD]) @ to_lower (''--><head>'' @ [CHR 0x0A] @ ''<'')"
    by (simp only: t latin1_page [where ul = ul, OF assms as] rune_error_bytes)
  have "last_index (bytes_ToLower ul (take 25 ?b)) ''<!--'' = Some 6" unfolding pre by code_simp
  moreover have "contains_sub (drop 6 (take 25 ?b)) ''-->''" unfolding latin1_comment_def by code_simp
  moreover have len: "length ?b = 47" unfolding latin1_comment_def by code_simp
  ultimately have c: "in_comment ul spare ?b 25 = Inr False" by (simp add: in_comment_def slice_range_def)
  have "isTagNameEnd (?b ! 30)" "str_index (drop 25 ?b) ''>'' = Some 5" unfolding latin1_comment_def by code_simp+
  then show "insertionPoint ul spare ?b = Inr (Some 31)"
    unfolding insertionPoint_def using low c len by (subst insertion_from.simps) (simp add: slice_from_def)
qed

lemma latin1_comment_panics:
  assumes "ul rune_error = rune_error"
  shows "insertionPoint ul spare (latin1_comment 40) = Inl OutOfRange"
proof -
  let ?b = "latin1_comment 40"
  have low: "str_index (bytes_ToLower ul ?b) ''<head'' = Some 133" unfolding latin1_comment_low [where ul = ul, OF assms] by code_simp
  have len: "length ?b = 83" unfolding latin1_comment_def by code_simp
  have p: "e = OutOfRange" for e by (cases e) simp
  show ?thesis
    unfolding insertionPoint_def using low len
    by (subst insertion_from.simps) (auto simp: slice_from_def split: sum.split intro: p)
qed

end
