(* ===== verification/Mime.thy ===== *)
theory Mime
  imports GoStrings Http
begin

text \<open>
  \<open>mime.ParseMediaType\<close> of the standard library, with which the injector reads \<open>Content-Type\<close>: the media
  type, and its parameters with the continuations and encodings of RFC 2231.
\<close>

datatype mime_error = MimeNoMediaType | MimeUnexpected | MimeInvalidParameter | MimeDuplicate

definition mime_token_char :: "char \<Rightarrow> bool" where
  "mime_token_char c \<longleftrightarrow> 33 \<le> byte_val c \<and> byte_val c \<le> 126 \<and> c \<notin> set ''()<>@,;:/[]?='' \<and> c \<noteq> CHR 0x22 \<and> c \<noteq> CHR 0x5C"

definition mime_special :: "char \<Rightarrow> bool" where
  "mime_special c \<longleftrightarrow> c \<in> set ''()<>@,;:/[]?='' \<or> c = CHR 0x22 \<or> c = CHR 0x5C"

definition consumeToken :: "bytes \<Rightarrow> bytes \<times> bytes" where
  "consumeToken v = (takeWhile mime_token_char v, dropWhile mime_token_char v)"

text \<open>After an opening quote: the text and what follows the closing one; \<open>None\<close> if it is broken.\<close>

fun quoted_value :: "bytes \<Rightarrow> (bytes \<times> bytes) option" where
  "quoted_value [] = None"
| "quoted_value (c # s) =
     (if c = CHR 0x22 then Some ([], s)
      else if c = CHR 0x5C \<and> s \<noteq> [] \<and> mime_special (hd s)
        then (case s of [] \<Rightarrow> None | d # t \<Rightarrow> map_option (\<lambda>(v, r). (d # v, r)) (quoted_value t))
      else if c = CHR 0x0D \<or> c = CHR 0x0A then None
      else map_option (\<lambda>(v, r). (c # v, r)) (quoted_value s))"

definition consumeValue :: "bytes \<Rightarrow> bytes \<times> bytes" where
  "consumeValue v =
     (case v of
        [] \<Rightarrow> ([], [])
      | c # s \<Rightarrow>
         if c \<noteq> CHR 0x22 then consumeToken v
         else (case quoted_value s of Some r \<Rightarrow> r | None \<Rightarrow> ([], v)))"

text \<open>A parameter: its name, its value, the rest; \<open>None\<close> when the name comes back empty.\<close>

definition consumeMediaParam :: "bytes \<Rightarrow> (bytes \<times> bytes \<times> bytes) option" where
  "consumeMediaParam v =
     (case cut_prefix (trim_left_while is_space v) '';'' of
        None \<Rightarrow> None
      | Some rest \<Rightarrow>
         (let (param, rest) = consumeToken (trim_left_while is_space rest); param = to_lower param in
          if param = [] then None
          else
            (case cut_prefix (trim_left_while is_space rest) ''='' of
               None \<Rightarrow> None
             | Some rest \<Rightarrow>
                (let rest = trim_left_while is_space rest; (val, rest2) = consumeValue rest in
                 if val = [] \<and> rest2 = rest then None else Some (param, val, rest2)))))"

definition checkMediaType :: "bytes \<Rightarrow> mime_error option" where
  "checkMediaType s =
     (let (typ, rest) = consumeToken s in
      if typ = [] then Some MimeNoMediaType
      else
        (case rest of
           [] \<Rightarrow> None
         | c # rest \<Rightarrow>
            if c \<noteq> CHR ''/'' then Some MimeUnexpected
            else
              (let (sub, rest) = consumeToken rest in
               if sub = [] \<or> rest \<noteq> [] then Some MimeUnexpected else None)))"

lemma length_quoted_value: "quoted_value s = Some (v, r) \<Longrightarrow> length r < length s"
  by (induction s arbitrary: v r rule: quoted_value.induct) (fastforce split: if_splits list.splits)+

lemma length_trim_left_while: "length (trim_left_while p s) \<le> length s"
  by (simp add: trim_left_while_def length_dropWhile_le)

lemma length_consumeToken: "consumeToken s = (t, r) \<Longrightarrow> length r \<le> length s"
  by (auto simp: consumeToken_def length_dropWhile_le)

lemma length_consumeValue: "consumeValue s = (t, r) \<Longrightarrow> length r \<le> length s"
  by (cases s) (auto simp: consumeValue_def dest!: length_quoted_value length_consumeToken split: if_splits option.splits)

lemma length_cut_prefix: "cut_prefix s p = Some r \<Longrightarrow> p \<noteq> [] \<Longrightarrow> s \<noteq> [] \<Longrightarrow> length r < length s"
  by (cases p) (auto simp: cut_prefix_def split: if_splits)

lemma length_consumeMediaParam:
  assumes "consumeMediaParam v = Some (k, val, r)" shows "length r < length v"
proof -
  obtain a where a: "cut_prefix (trim_left_while is_space v) '';'' = Some a"
    using assms by (auto simp: consumeMediaParam_def split: option.splits)
  obtain k0 b where b: "consumeToken (trim_left_while is_space a) = (k0, b)" by force
  obtain c where c: "cut_prefix (trim_left_while is_space b) ''='' = Some c"
    using assms a b by (auto simp: consumeMediaParam_def Let_def split: option.splits if_splits)
  obtain x y where d: "consumeValue (trim_left_while is_space c) = (x, y)" by force
  have "r = y" using assms a b c d by (auto simp: consumeMediaParam_def Let_def split: if_splits)
  moreover have "length y \<le> length c" using length_consumeValue [OF d] length_trim_left_while [of is_space c] by simp
  moreover have "length c \<le> length b"
    using c length_trim_left_while [of is_space b] by (auto simp: cut_prefix_def split: if_splits)
  moreover have "length b \<le> length a" using length_consumeToken [OF b] length_trim_left_while [of is_space a] by simp
  moreover have "trim_left_while is_space v \<noteq> []" using a by (auto simp: cut_prefix_def)
  then have "length a < length v" using length_cut_prefix [OF a] length_trim_left_while [of is_space v] by simp
  ultimately show ?thesis by simp
qed

lemma media_rest: "Some (k, val, r) = consumeMediaParam (trim_left_while is_space v) \<Longrightarrow> length r < length v"
  using length_consumeMediaParam [of "trim_left_while is_space v" k val r] length_trim_left_while [of is_space v] by simp

text \<open>The parameters in the order found, names with a star among them.\<close>

function media_params :: "bytes \<Rightarrow> (bytes \<times> bytes) list \<Rightarrow> mime_error + (bytes \<times> bytes) list" where
  "media_params v ps =
     (let v = trim_left_while is_space v in
      if v = [] then Inr ps
      else
        (case consumeMediaParam v of
           None \<Rightarrow> if trim_space v = '';'' then Inr ps else Inl MimeInvalidParameter
         | Some (k, val, rest) \<Rightarrow>
            (case map_of ps k of
               Some old \<Rightarrow> if old \<noteq> val then Inl MimeDuplicate else media_params rest ps
             | None \<Rightarrow> media_params rest (ps @ [(k, val)]))))"
  by pat_completeness auto
termination
  by (relation "measure (\<lambda>(v, ps). length v)") (auto dest: media_rest [OF sym])

definition media_type :: "bytes \<Rightarrow> mime_error + bytes \<times> (bytes \<times> bytes) list" where
  "media_type v =
     (let (base, _, _) = cut CHR '';'' v; t = trim_space (to_lower base) in
      case checkMediaType t of
        Some e \<Rightarrow> Inl e
      | None \<Rightarrow>
         (case media_params (drop (length base) v) [] of Inl e \<Rightarrow> Inl e | Inr ps \<Rightarrow> Inr (t, ps)))"

subsection \<open>Encoded and continued parameters\<close>

fun percentHexUnescape :: "bytes \<Rightarrow> bytes option" where
  "percentHexUnescape [] = Some []"
| "percentHexUnescape (c # s) =
     (if c \<noteq> CHR 0x25 then map_option ((#) c) (percentHexUnescape s)
      else
        (case s of
           a # b # t \<Rightarrow>
             (case (hex_digit_val a, hex_digit_val b) of
                (Some x, Some y) \<Rightarrow> map_option ((#) (val_byte (16 * x + y))) (percentHexUnescape t)
              | _ \<Rightarrow> None)
         | _ \<Rightarrow> None))"

definition decode2231Enc :: "bytes \<Rightarrow> bytes option" where
  "decode2231Enc v =
     (let (charset, more, ok) = cut CHR 0x27 v; (lang, enc, ok2) = cut CHR 0x27 more in
      if \<not> ok \<or> \<not> ok2 then None
      else if to_lower charset \<noteq> ''us-ascii'' \<and> to_lower charset \<noteq> ''utf-8'' then None
      else percentHexUnescape enc)"

text \<open>The pieces \<open>key*0\<close>, \<open>key*1\<close> and so on, plain or encoded: whether there is any, and their text.\<close>

fun stitch :: "nat \<Rightarrow> (bytes \<times> bytes) list \<Rightarrow> bytes \<Rightarrow> nat \<Rightarrow> bool \<times> bytes" where
  "stitch 0 ps key n = (False, [])"
| "stitch (Suc fuel) ps key n =
     (let simplePart = key @ ''*'' @ show_nat n in
      case map_of ps simplePart of
        Some v \<Rightarrow> (True, v @ snd (stitch fuel ps key (n + 1)))
      | None \<Rightarrow>
         (case map_of ps (simplePart @ ''*'') of
            None \<Rightarrow> (False, [])
          | Some v \<Rightarrow>
             (True,
              (case (if n = 0 then decode2231Enc v else percentHexUnescape v) of Some d \<Rightarrow> d | None \<Rightarrow> [])
              @ snd (stitch fuel ps key (n + 1)))))"

text \<open>The value of a parameter; each piece is another entry, so as many rounds as there are entries suffice.\<close>

definition media_param :: "(bytes \<times> bytes) list \<Rightarrow> bytes \<Rightarrow> bytes" where
  "media_param ps key =
     (let plain = (case map_of ps key of Some v \<Rightarrow> v | None \<Rightarrow> []) in
      case map_of ps (key @ ''*'') of
        Some v \<Rightarrow> (case decode2231Enc v of Some d \<Rightarrow> d | None \<Rightarrow> plain)
      | None \<Rightarrow>
         (let (valid, text) = stitch (length ps + 1) ps key 0 in if valid then text else plain))"

lemma media_type_examples:
  "media_type ''text/HTML; charset=\"utf-8\"; a=b'' = Inr (''text/html'', [(''charset'', ''utf-8''), (''a'', ''b'')])"
  "media_type ''text/html;'' = Inr (''text/html'', [])"
  "media_type ''text/html; charset'' = Inl MimeInvalidParameter"
  "media_param [(''charset*0'', ''utf''), (''charset*1*'', ''%2d8'')] ''charset'' = ''utf-8''"
  by code_simp+

end
