(* ===== verification/Csp.thy ===== *)
theory Csp
  imports Html Mime Pages
begin

text \<open>
  When and how the renewal script may go onto a page, \<open>internal/gate/inject.go\<close>: the requests and the
  responses that qualify, the content security policies of a response reduced to the directive that governs
  scripts, and the plan that satisfies all of them. Directive names and source keywords are ASCII. SHA-256 and the
  sixteen random bytes of a nonce are parameters.
\<close>

subsection \<open>Which responses\<close>

definition looksLikeBrowserHTML :: "request \<Rightarrow> bytes \<Rightarrow> bool" where
  "looksLikeBrowserHTML r accept \<longleftrightarrow> offersHTML (parseAccept accept) \<and> contains_sub (req_Get r ''User-Agent'') ''Mozilla''"

definition injectableRequest :: "request \<Rightarrow> bool \<Rightarrow> bool" where
  "injectableRequest r navigation =
     (if req_Method r \<noteq> ''GET'' then False
      else if navigation then True
      else if isFragmentRequest r then False
      else
        (let d = req_Get r ''Sec-Fetch-Dest'' in
         if d \<noteq> [] then (if d = ''empty'' then looksLikeBrowserHTML r (req_Get r ''Accept'') else d = ''document'')
         else contains_sub (req_Get r ''Accept'') ''text/html''))"

definition isBrowserNav :: "request \<Rightarrow> bool" where
  "isBrowserNav r \<longleftrightarrow> fa_navigation (inspectRequest r [])"

definition injectable :: "request \<Rightarrow> bool" where
  "injectable r = injectableRequest r (isBrowserNav r)"

definition digest_headers :: "bytes list" where
  "digest_headers = [''Content-Digest'', ''Repr-Digest'', ''Digest'', ''Signature'']"

definition ascii_charsets :: "bytes list" where
  "ascii_charsets = [[], ''utf-8'', ''utf8'', ''us-ascii'', ''ascii'', ''iso-8859-1'', ''latin1'', ''windows-1252'', ''iso-8859-15'']"

definition responseSkipReason :: "int \<Rightarrow> header \<Rightarrow> bytes" where
  "responseSkipReason status h =
     (if status \<noteq> 200 then ''response-status-is-not-200''
      else
        (case find (\<lambda>k. hdr_Get h k \<noteq> []) digest_headers of
           Some k \<Rightarrow> ''response-carries-'' @ to_lower k
         | None \<Rightarrow>
            if hdr_Get h ''Content-Encoding'' \<noteq> [] \<and> \<not> equal_fold (hdr_Get h ''Content-Encoding'') ''identity''
            then ''upstream-ignored-accept-encoding-identity''
            else
              (case media_type (hdr_Get h ''Content-Type'') of
                 Inl e \<Rightarrow> ''content-type-is-not-text/html''
               | Inr (ct, params) \<Rightarrow>
                  if ct \<noteq> ''text/html'' then ''content-type-is-not-text/html''
                  else if to_lower (media_param params ''charset'') \<in> set ascii_charsets then []
                  else ''charset-is-not-ascii-compatible'')))"

subsection \<open>The script element\<close>

datatype injectMode = ModeSkip | ModeExternal | ModeInline | ModeInlineHash | ModeInlineNonce

definition externalTag :: bytes where
  "externalTag = ''<script src=\"'' @ pathRenew @ ''\" defer></script>''"

text \<open>\<open>inlineLoader\<close> with the attributes of its opening tag.\<close>

definition inlineLoader :: "bytes \<Rightarrow> bytes" where
  "inlineLoader attrs = ''<script'' @ attrs @ ''>(function(){var s=document.createElement(\"script\");s.src=\"''
     @ pathRenew @ ''\";s.defer=true;document.head.appendChild(s);})();</script>''"

record cspPlan =
  pl_mode :: injectMode
  pl_enforce :: "bytes list option"
  pl_report :: "bytes list option"
  pl_nonce :: bytes

definition plan_tag :: "cspPlan \<Rightarrow> bytes" where
  "plan_tag p =
     (case pl_mode p of
        ModeExternal \<Rightarrow> externalTag
      | ModeInline \<Rightarrow> inlineLoader []
      | ModeInlineHash \<Rightarrow> inlineLoader []
      | ModeInlineNonce \<Rightarrow> inlineLoader ('' nonce=\"'' @ pl_nonce p @ [CHR 0x22])
      | ModeSkip \<Rightarrow> [])"

definition inlineBody :: bytes where
  "inlineBody =
     (let tag = inlineLoader [];
          start = (case str_index tag ''>'' of Some i \<Rightarrow> i + 1 | None \<Rightarrow> 0)
      in case last_index tag ''</script>'' of Some e \<Rightarrow> drop start (take e tag) | None \<Rightarrow> [])"

definition inlineHash :: "(bytes \<Rightarrow> bytes) \<Rightarrow> bytes" where
  "inlineHash sha = [CHR 0x27] @ ''sha256-'' @ b64_encode StdEncoding (sha inlineBody) @ [CHR 0x27]"

definition newNonce :: "bytes \<Rightarrow> bytes" where
  "newNonce rnd = b64_encode RawStdEncoding rnd"

subsection \<open>A policy and its directive for scripts\<close>

definition quoted :: "bytes \<Rightarrow> bytes" where "quoted s = [CHR 0x27] @ s @ [CHR 0x27]"

record sourceList =
  sl_name :: bytes
  sl_sources :: "bytes list"
  sl_restricting :: bool
  sl_sandboxBlocks :: bool

definition sl_has :: "sourceList \<Rightarrow> bytes \<Rightarrow> bool" where
  "sl_has s t \<longleftrightarrow> t \<in> set (sl_sources s)"

definition hasNonceOrHash :: "sourceList \<Rightarrow> bool" where
  "hasNonceOrHash s \<longleftrightarrow> list_ex (\<lambda>v. has_prefix v (CHR 0x27 # ''nonce-'') \<or> has_prefix v (CHR 0x27 # ''sha256-'')
     \<or> has_prefix v (CHR 0x27 # ''sha384-'') \<or> has_prefix v (CHR 0x27 # ''sha512-'')) (sl_sources s)"

text \<open>The directives of a policy, lower-cased; of two with one name the later one is kept.\<close>

definition directives :: "bytes \<Rightarrow> (bytes \<times> bytes list) list" where
  "directives policy = List.map_filter (\<lambda>d. case GoStrings.fields d of [] \<Rightarrow> None | f # vs \<Rightarrow> Some (to_lower f, map to_lower vs))
     (split_on CHR '';'' policy)"

definition directive :: "bytes \<Rightarrow> bytes \<Rightarrow> bytes list option" where
  "directive policy name = map_of (rev (directives policy)) name"

definition script_directives :: "bytes list" where
  "script_directives = [''script-src-elem'', ''script-src'', ''default-src'']"

definition governing :: "bytes \<Rightarrow> bytes option" where
  "governing policy = find (\<lambda>n. directive policy n \<noteq> None) script_directives"

definition effective :: "bytes \<Rightarrow> sourceList" where
  "effective policy =
     (let blocks = (case directive policy ''sandbox'' of
                      None \<Rightarrow> False
                    | Some vs \<Rightarrow> ''allow-scripts'' \<notin> set vs \<or> ''allow-same-origin'' \<notin> set vs)
      in case governing policy of
           None \<Rightarrow> \<lparr>sl_name = [], sl_sources = [], sl_restricting = False, sl_sandboxBlocks = blocks\<rparr>
         | Some n \<Rightarrow> \<lparr>sl_name = n, sl_sources = the (directive policy n), sl_restricting = True, sl_sandboxBlocks = blocks\<rparr>)"

definition policy_parts :: "bytes \<Rightarrow> bytes list" where
  "policy_parts header = filter (\<lambda>p. trim_space p \<noteq> []) (split_on CHR '','' header)"

definition policies :: "bytes \<Rightarrow> sourceList list" where
  "policies header = map effective (policy_parts header)"

subsection \<open>Adding a source\<close>

definition blank :: "char \<Rightarrow> bool" where "blank c \<longleftrightarrow> c = CHR '' '' \<or> c = CHR 0x09"

definition names_directive :: "bytes \<Rightarrow> bytes \<Rightarrow> bool" where
  "names_directive name seg \<longleftrightarrow> (case GoStrings.fields seg of [] \<Rightarrow> False | f # vs \<Rightarrow> to_lower f = name)"

fun append_first :: "bytes \<Rightarrow> bytes \<Rightarrow> bytes list \<Rightarrow> bytes list" where
  "append_first name src [] = []"
| "append_first name src (seg # segs) =
     (if names_directive name seg then (trim_right_while blank seg @ '' '' @ src) # segs
      else seg # append_first name src segs)"

definition appendSource :: "bytes \<Rightarrow> bytes \<Rightarrow> bytes \<Rightarrow> bytes" where
  "appendSource policy name src = join '';'' (append_first name src (split_on CHR '';'' policy))"

definition rewrite_part :: "bytes \<Rightarrow> bytes \<Rightarrow> bytes" where
  "rewrite_part src p =
     (if trim_space p = [] then p
      else if \<not> sl_restricting (effective p) then p
      else appendSource p (sl_name (effective p)) src)"

definition rewrite_header :: "bytes \<Rightarrow> bytes \<Rightarrow> bytes" where
  "rewrite_header src h = join '','' (map (rewrite_part src) (split_on CHR '','' h))"

definition rewrite :: "bytes list \<Rightarrow> bytes \<Rightarrow> bytes list option" where
  "rewrite headers src = (if headers = [] then None else Some (map (rewrite_header src) headers))"

subsection \<open>The plan\<close>

definition plan_skip :: cspPlan where
  "plan_skip = \<lparr>pl_mode = ModeSkip, pl_enforce = None, pl_report = None, pl_nonce = []\<rparr>"

definition planCSP :: "(bytes \<Rightarrow> bytes) \<Rightarrow> bytes \<Rightarrow> bytes list \<Rightarrow> bytes list \<Rightarrow> bytes list \<Rightarrow> cspPlan" where
  "planCSP sha rnd enforce report meta =
     (let metaDirs = concat (map policies meta);
          dirs = concat (map policies enforce);
          enforcingR = filter sl_restricting dirs;
          metaR = filter sl_restricting metaDirs
      in if list_ex (\<lambda>d. sl_sandboxBlocks d \<or> sl_restricting d \<and> sl_has d (quoted ''none'')) (dirs @ metaDirs) then plan_skip
         else if list_all (\<lambda>d. sl_has d (quoted ''self'')) (enforcingR @ metaR)
           then plan_skip\<lparr>pl_mode := ModeExternal\<rparr>
         else if metaR \<noteq> [] then plan_skip
         else if list_ex (\<lambda>d. sl_has d (quoted ''strict-dynamic'')) enforcingR then
           (let nonce = newNonce rnd; src = quoted (''nonce-'' @ nonce) in
            \<lparr>pl_mode = ModeInlineNonce, pl_enforce = rewrite enforce src, pl_report = rewrite report src, pl_nonce = nonce\<rparr>)
         else if enforcingR \<noteq> [] \<and> list_all (\<lambda>d. sl_has d (quoted ''unsafe-inline'') \<and> \<not> hasNonceOrHash d) enforcingR
           then plan_skip\<lparr>pl_mode := ModeInline\<rparr>
         else
           (let h = inlineHash sha in
            \<lparr>pl_mode = ModeInlineHash, pl_enforce = rewrite enforce h, pl_report = rewrite report h, pl_nonce = []\<rparr>))"

subsection \<open>Facts: a source added to a policy\<close>

definition source_token :: "bytes \<Rightarrow> bool" where
  "source_token src \<longleftrightarrow> src \<noteq> [] \<and> list_all (\<lambda>c. \<not> is_space c \<and> c \<noteq> CHR '';'' \<and> c \<noteq> CHR '','') src"

lemma fields_acc_token:
  "list_all (\<lambda>c. \<not> is_space c) t \<Longrightarrow> cur \<noteq> [] \<or> t \<noteq> [] \<Longrightarrow> fields_acc cur t = [rev cur @ t]"
  by (induction t arbitrary: cur) auto

lemma fields_acc_append:
  "is_space c \<Longrightarrow> fields_acc cur (a @ c # s) = fields_acc cur a @ fields_acc [] s"
  by (induction a arbitrary: cur) auto

lemma fields_add: "source_token src \<Longrightarrow> GoStrings.fields (a @ '' '' @ src) = GoStrings.fields a @ [src]"
  using fields_acc_append [of "CHR '' ''" "[]" a src] fields_acc_token [of src "[]"]
  by (simp add: GoStrings.fields_def source_token_def list_all_iff) (simp add: is_space_def byte_val_def)

lemma fields_acc_spaces: "list_all is_space s \<Longrightarrow> fields_acc cur s = (if cur = [] then [] else [rev cur])"
  by (induction s arbitrary: cur) auto

lemma fields_trim: "GoStrings.fields (trim_right_while blank a) = GoStrings.fields a"
proof -
  let ?t = "rev (takeWhile blank (rev a))"
  have a: "a = trim_right_while blank a @ ?t"
    unfolding trim_right_while_def by (metis rev_append rev_rev_ident takeWhile_dropWhile_id)
  have "blank c \<Longrightarrow> is_space c" for c by (auto simp: blank_def is_space_def byte_val_def)
  then have "list_all is_space ?t" by (auto simp: list_all_iff dest: set_takeWhileD)
  then have "fields_acc cur (b @ ?t) = fields_acc cur b" for b cur
  proof (induction b arbitrary: cur)
    case Nil
    then show ?case using fields_acc_spaces [of ?t cur] by simp
  qed simp
  from this [of "[]" "trim_right_while blank a"] show ?thesis using a by (simp add: GoStrings.fields_def)
qed

lemma fields_appended: "source_token src \<Longrightarrow> GoStrings.fields (trim_right_while blank seg @ '' '' @ src) = GoStrings.fields seg @ [src]"
  by (simp only: fields_add fields_trim)

text \<open>The directive that a segment states, with its values as they are written.\<close>

definition seg_written :: "bytes \<Rightarrow> (bytes \<times> bytes list) option" where
  "seg_written d = (case GoStrings.fields d of [] \<Rightarrow> None | f # vs \<Rightarrow> Some (to_lower f, vs))"

definition written :: "bytes \<Rightarrow> (bytes \<times> bytes list) list" where
  "written policy = List.map_filter seg_written (split_on CHR '';'' policy)"

definition lowered :: "bytes \<times> bytes list \<Rightarrow> bytes \<times> bytes list" where
  "lowered = map_prod (\<lambda>n. n) (map to_lower)"

lemma fst_lowered [simp]: "fst (lowered d) = fst d"
  by (simp add: lowered_def)

lemma map_of_lowered: "map_of (map lowered ds) n = map_option (map to_lower) (map_of ds n)"
  by (induction ds) (auto simp: lowered_def)

lemma directives_written: "directives policy = map lowered (written policy)"
proof -
  have "List.map_filter (\<lambda>d. case GoStrings.fields d of [] \<Rightarrow> None | f # vs \<Rightarrow> Some (to_lower f, map to_lower vs)) segs
      = map lowered (List.map_filter seg_written segs)" for segs
    by (induction segs) (auto simp: List.map_filter_simps seg_written_def lowered_def split: list.splits)
  then show ?thesis by (simp add: directives_def written_def)
qed

lemma seg_written_add:
  assumes "source_token src" and "seg_written seg = Some (n, vs)"
  shows "seg_written (trim_right_while blank seg @ '' '' @ src) = Some (n, vs @ [src])"
  using assms fields_appended [OF assms(1), of seg] by (auto simp: seg_written_def split: list.splits)

lemma names_seg: "names_directive n seg \<longleftrightarrow> (\<exists>vs. seg_written seg = Some (n, vs))"
  by (auto simp: names_directive_def seg_written_def split: list.splits)

fun add_value :: "bytes \<Rightarrow> bytes \<Rightarrow> (bytes \<times> bytes list) list \<Rightarrow> (bytes \<times> bytes list) list" where
  "add_value n v [] = []"
| "add_value n v ((m, vs) # ds) = (if m = n then (m, vs @ [v]) # ds else (m, vs) # add_value n v ds)"

lemma map_filter_append_first:
  assumes "source_token src"
  shows "List.map_filter seg_written (append_first n src segs) = add_value n src (List.map_filter seg_written segs)"
proof (induction segs)
  case (Cons seg segs)
  show ?case
  proof (cases "seg_written seg")
    case None
    then show ?thesis using Cons names_seg [of n seg] by (simp add: List.map_filter_simps)
  next
    case (Some d)
    obtain m vs where d: "d = (m, vs)" by force
    then show ?thesis using Cons Some names_seg [of n seg] seg_written_add [OF assms, of seg m vs]
      by (auto simp: List.map_filter_simps)
  qed
qed (simp add: List.map_filter_simps)

lemma append_first_no_sep:
  assumes "source_token src" and "c = CHR '';'' \<or> c = CHR '',''"
  shows "\<forall>w\<in>set segs. c \<notin> set w \<Longrightarrow> \<forall>w\<in>set (append_first n src segs). c \<notin> set w"
proof (induction segs)
  case (Cons seg segs)
  have "c \<notin> set src" "c \<noteq> CHR '' ''" using assms by (auto simp: source_token_def list_all_iff)
  moreover have "c \<notin> set (trim_right_while blank seg)" using Cons.prems by (auto simp: trim_right_while_def dest: set_dropWhileD)
  ultimately show ?case using Cons by simp
qed simp

lemma append_first_Nil: "append_first n src segs = [] \<longleftrightarrow> segs = []"
  by (cases segs) auto

lemma written_appendSource:
  assumes "source_token src" shows "written (appendSource p n src) = add_value n src (written p)"
proof -
  have "split_on CHR '';'' (appendSource p n src) = append_first n src (split_on CHR '';'' p)"
    unfolding appendSource_def
    using append_first_no_sep [OF assms, of "CHR '';''" "split_on CHR '';'' p" n] split_on_elems [of _ "CHR '';''" p]
    by (intro split_on_join) (simp_all add: append_first_Nil)
  then show ?thesis by (simp add: written_def map_filter_append_first [OF assms])
qed

lemma add_value_names: "map fst (add_value n v ds) = map fst ds"
  by (induction n v ds rule: add_value.induct) auto

lemma lowered_add_value: "map lowered (add_value n v ds) = add_value n (to_lower v) (map lowered ds)"
  by (induction n v ds rule: add_value.induct) (auto simp: lowered_def)

lemma directives_appendSource:
  "source_token src \<Longrightarrow> directives (appendSource p n src) = add_value n (to_lower src) (directives p)"
  by (simp add: directives_written written_appendSource lowered_add_value)

lemma map_of_add_value:
  "map_of (add_value n v ds) m = (if m = n then map_option (\<lambda>vs. vs @ [v]) (map_of ds n) else map_of ds m)"
  by (induction n v ds rule: add_value.induct) auto

text \<open>A policy that names no directive twice.\<close>

definition plain_policy :: "bytes \<Rightarrow> bool" where
  "plain_policy p \<longleftrightarrow> distinct (map fst (directives p))"

lemma map_of_rev: "distinct (map fst ds) \<Longrightarrow> map_of (rev ds) = map_of ds"
  by (rule map_of_eqI) (auto simp: rev_map [symmetric] map_of_eq_Some_iff simp del: map_of_eq_None_iff)

lemma directive_plain: "plain_policy p \<Longrightarrow> directive p n = map_of (directives p) n"
  by (simp add: directive_def plain_policy_def map_of_rev)

lemma directive_append:
  assumes "source_token src" and "plain_policy p"
  shows "directive (appendSource p n src) m
    = (if m = n then map_option (\<lambda>vs. vs @ [to_lower src]) (directive p n) else directive p m)"
    "plain_policy (appendSource p n src)"
proof -
  show q: "plain_policy (appendSource p n src)"
    using assms by (simp add: plain_policy_def directives_appendSource add_value_names)
  show "directive (appendSource p n src) m = (if m = n then map_option (\<lambda>vs. vs @ [to_lower src]) (directive p n) else directive p m)"
    by (simp add: directive_plain [OF q] directive_plain [OF assms(2)] directives_appendSource [OF assms(1)] map_of_add_value)
qed

lemma set_join_subset: "set (join sep ws) \<subseteq> set sep \<union> \<Union> (set ` set ws)"
  by (induction sep ws rule: join.induct) auto

lemma set_join: "w \<in> set ws \<Longrightarrow> set w \<subseteq> set (join sep ws)"
  by (induction sep ws rule: join.induct) auto

lemma governing_name: "governing p = Some n \<Longrightarrow> n \<in> set script_directives \<and> (\<exists>vs. directive p n = Some vs)"
  unfolding governing_def by (auto simp: find_Some_iff)

lemma effective_name:
  "sl_restricting (effective p) \<longleftrightarrow> governing p \<noteq> None"
  "governing p = Some n \<Longrightarrow> sl_name (effective p) = n \<and> directive p n = Some (sl_sources (effective p))"
  by (auto simp: effective_def Let_def split: option.splits dest: governing_name)

lemma effective_append:
  assumes "source_token src" and "plain_policy p" and "sl_restricting (effective p)"
  shows "effective (appendSource p (sl_name (effective p)) src)
    = (effective p)\<lparr>sl_sources := sl_sources (effective p) @ [to_lower src]\<rparr>"
proof -
  obtain n where g: "governing p = Some n" using assms(3) by (auto simp: effective_name(1))
  with effective_name(2) have n: "sl_name (effective p) = n" "directive p n = Some (sl_sources (effective p))" by blast+
  from governing_name [OF g] have sb: "n \<noteq> ''sandbox''" by (auto simp: script_directives_def)
  note d = directive_append(1) [OF assms(1,2)]
  have "(directive (appendSource p n src) m = None) = (directive p m = None)" for m by (auto simp: d)
  then have g': "governing (appendSource p n src) = Some n" using g by (simp only: governing_def)
  have s: "directive (appendSource p n src) ''sandbox'' = directive p ''sandbox''" using sb by (simp add: d)
  have e: "directive (appendSource p n src) n = Some (sl_sources (effective p) @ [to_lower src])" by (simp add: d n(2))
  have n': "the (directive p n) = sl_sources (effective p)" by (simp add: n(2))
  show ?thesis
    unfolding n(1) effective_def [of "appendSource p n src"] g' s e Let_def option.case option.sel
    unfolding n' [symmetric] unfolding effective_def g Let_def option.case by simp
qed

lemma rewrite_part_effective:
  assumes "source_token src" and "plain_policy p" and "trim_space p \<noteq> []"
  shows "effective (rewrite_part src p) =
    (if sl_restricting (effective p) then (effective p)\<lparr>sl_sources := sl_sources (effective p) @ [to_lower src]\<rparr> else effective p)"
proof (cases "sl_restricting (effective p)")
  case True
  then show ?thesis using effective_append [OF assms(1,2) True] assms(3) by (simp only: rewrite_part_def if_True if_False not_True_eq_False simp_thms)
next
  case False
  then show ?thesis by (simp add: rewrite_part_def)
qed

lemma rewrite_part_no_comma:
  assumes "source_token src" and "CHR '','' \<notin> set p"
  shows "CHR '','' \<notin> set (rewrite_part src p)"
proof -
  have "CHR '','' \<notin> set w" if "w \<in> set (split_on CHR '';'' p)" for w
    using set_join [OF that, of "[CHR '';'']"] assms(2) by (auto simp: join_split_on)
  then have "\<forall>w\<in>set (append_first n src (split_on CHR '';'' p)). CHR '','' \<notin> set w" for n
    using append_first_no_sep [OF assms(1), of "CHR '',''"] by blast
  then have "CHR '','' \<notin> set (appendSource p n src)" for n
    unfolding appendSource_def using set_join_subset by fastforce
  with assms(2) show ?thesis by (simp add: rewrite_part_def)
qed

lemma blank_policy: "trim_space p = [] \<Longrightarrow> \<not> sl_restricting (effective p)"
proof -
  assume "trim_space p = []"
  then have "\<forall>c\<in>set (rev (dropWhile is_space p)). is_space c" by (simp add: trim_space_def trim_right_while_def trim_left_while_def dropWhile_eq_Nil_conv)
  then have a: "list_all is_space p"
    by (metis (no_types, lifting) list_all_iff set_rev set_takeWhileD takeWhile_dropWhile_id Un_iff set_append)
  then have "CHR '';'' \<notin> set p" by (auto simp: list_all_iff is_space_def byte_val_def)
  then have "directives p = []"
    using fields_acc_spaces [OF a, of "[]"]
    by (simp add: directives_written written_def split_on_no_sep seg_written_def GoStrings.fields_def List.map_filter_simps)
  then have "directive p n = None" for n by (simp add: directive_def)
  then show ?thesis by (simp add: effective_name governing_def find_None_iff)
qed

definition extended :: "bytes \<Rightarrow> sourceList \<Rightarrow> sourceList" where
  "extended src d = (if sl_restricting d then d\<lparr>sl_sources := sl_sources d @ [to_lower src]\<rparr> else d)"

definition plain_header :: "bytes \<Rightarrow> bool" where
  "plain_header h \<longleftrightarrow> list_all plain_policy (policy_parts h)"

lemma rewrite_part_blank:
  assumes "source_token src" and "trim_space p \<noteq> [] \<Longrightarrow> plain_policy p"
  shows "trim_space (rewrite_part src p) = [] \<longleftrightarrow> trim_space p = []"
proof (cases "trim_space p = []")
  case False
  then have e: "effective (rewrite_part src p) = extended src (effective p)"
    using rewrite_part_effective [OF assms(1)] assms(2) by (simp add: extended_def)
  have "trim_space (rewrite_part src p) \<noteq> []"
  proof
    assume b: "trim_space (rewrite_part src p) = []"
    then have "\<not> sl_restricting (extended src (effective p))" using blank_policy e by metis
    then have "rewrite_part src p = p" using False by (auto simp: extended_def rewrite_part_def split: if_splits)
    with b False show False by simp
  qed
  with False show ?thesis by simp
qed (simp add: rewrite_part_def)

lemma parts_rewrite_header:
  assumes "source_token src" and "plain_header h"
  shows "policy_parts (rewrite_header src h) = map (rewrite_part src) (policy_parts h)"
proof -
  let ?ps = "split_on CHR '','' h"
  have "split_on CHR '','' (rewrite_header src h) = map (rewrite_part src) ?ps"
    unfolding rewrite_header_def
    using rewrite_part_no_comma [OF assms(1)] split_on_elems [of _ "CHR '',''" h] by (intro split_on_join) auto
  moreover have "filter (\<lambda>p. trim_space p \<noteq> []) (map (rewrite_part src) ps) = map (rewrite_part src) (filter (\<lambda>p. trim_space p \<noteq> []) ps)"
    if "\<forall>p\<in>set ps. trim_space p \<noteq> [] \<longrightarrow> plain_policy p" for ps
    using that by (induction ps) (auto simp: rewrite_part_blank [OF assms(1)])
  ultimately show ?thesis using assms(2) by (auto simp: policy_parts_def plain_header_def list_all_iff)
qed

lemma policies_rewrite_header:
  assumes "source_token src" and "plain_header h"
  shows "policies (rewrite_header src h) = map (extended src) (policies h)"
proof -
  have "effective (rewrite_part src p) = extended src (effective p)" if "p \<in> set (policy_parts h)" for p
    using rewrite_part_effective [OF assms(1), of p] that assms(2)
    by (auto simp: extended_def plain_header_def list_all_iff policy_parts_def)
  then show ?thesis by (simp add: policies_def parts_rewrite_header [OF assms])
qed

subsection \<open>The plan satisfies every policy\<close>

text \<open>
  A policy as a browser obeys it, stated without the code's reading: of two directives with one name the first counts,
  keywords are compared without regard to case, nonces and hashes are compared as they are written,
  \<open>strict-dynamic\<close> makes \<open>self\<close> and \<open>unsafe-inline\<close> void, and a nonce or a hash makes \<open>unsafe-inline\<close> void.
\<close>

definition csp_directive :: "bytes \<Rightarrow> bytes \<Rightarrow> bytes list option" where
  "csp_directive policy n = map_of (written policy) n"

definition csp_scripts :: "bytes \<Rightarrow> bytes list option" where
  "csp_scripts policy =
     (case find (\<lambda>n. csp_directive policy n \<noteq> None) script_directives of None \<Rightarrow> None | Some n \<Rightarrow> csp_directive policy n)"

definition keyword :: "bytes list \<Rightarrow> bytes \<Rightarrow> bool" where
  "keyword ss k \<longleftrightarrow> list_ex (\<lambda>s. to_lower s = k) ss"

definition csp_sandboxed :: "bytes \<Rightarrow> bool" where
  "csp_sandboxed policy \<longleftrightarrow>
     (case csp_directive policy ''sandbox'' of
        None \<Rightarrow> False
      | Some vs \<Rightarrow> \<not> keyword vs ''allow-scripts'' \<or> \<not> keyword vs ''allow-same-origin'')"

definition nonce_or_hash :: "bytes \<Rightarrow> bool" where
  "nonce_or_hash s \<longleftrightarrow> (\<exists>k\<in>{''nonce-'', ''sha256-'', ''sha384-'', ''sha512-''}. has_prefix (to_lower s) (CHR 0x27 # k))"

definition admits :: "(bytes \<Rightarrow> bytes) \<Rightarrow> cspPlan \<Rightarrow> bytes \<Rightarrow> bool" where
  "admits sha p policy \<longleftrightarrow> \<not> csp_sandboxed policy \<and>
     (case csp_scripts policy of
        None \<Rightarrow> pl_mode p \<noteq> ModeSkip
      | Some ss \<Rightarrow> \<not> keyword ss (quoted ''none'') \<and>
         (case pl_mode p of
            ModeSkip \<Rightarrow> False
          | ModeExternal \<Rightarrow> keyword ss (quoted ''self'') \<and> \<not> keyword ss (quoted ''strict-dynamic'')
          | ModeInline \<Rightarrow> keyword ss (quoted ''unsafe-inline'') \<and> \<not> keyword ss (quoted ''strict-dynamic'')
              \<and> \<not> list_ex nonce_or_hash ss
          | ModeInlineHash \<Rightarrow> inlineHash sha \<in> set ss
          | ModeInlineNonce \<Rightarrow> quoted (''nonce-'' @ pl_nonce p) \<in> set ss))"

definition strict_dynamic :: "bytes \<Rightarrow> bool" where
  "strict_dynamic policy \<longleftrightarrow> (case csp_scripts policy of None \<Rightarrow> False | Some ss \<Rightarrow> keyword ss (quoted ''strict-dynamic''))"

text \<open>On a policy that names no directive twice the code's reading is this one, lower-cased.\<close>

lemma directive_csp: "plain_policy q \<Longrightarrow> directive q n = map_option (map to_lower) (csp_directive q n)"
  by (simp add: directive_plain directives_written map_of_lowered csp_directive_def)

lemma governing_csp: "plain_policy q \<Longrightarrow> governing q = find (\<lambda>n. csp_directive q n \<noteq> None) script_directives"
  by (simp add: governing_def directive_csp)

lemma keyword_lowered: "t \<in> set (map to_lower vs) \<longleftrightarrow> keyword vs t" "t \<in> to_lower ` set vs \<longleftrightarrow> keyword vs t"
  by (auto simp: keyword_def list_ex_iff)

lemma csp_scripts_governing:
  "plain_policy q \<Longrightarrow> csp_scripts q = (case governing q of None \<Rightarrow> None | Some n \<Rightarrow> csp_directive q n)"
  by (simp only: csp_scripts_def governing_csp)

lemma sl_sandboxBlocks_csp: "plain_policy q \<Longrightarrow> sl_sandboxBlocks (effective q) = csp_sandboxed q"
  by (simp add: effective_def csp_sandboxed_def directive_csp keyword_lowered Let_def split: option.split)

lemma sl_restricting_csp: "plain_policy q \<Longrightarrow> sl_restricting (effective q) \<longleftrightarrow> csp_scripts q \<noteq> None"
  using governing_name [of q] by (auto simp: effective_name(1) csp_scripts_governing directive_csp split: option.split)

lemma sl_sources_csp:
  assumes "plain_policy q" and "csp_scripts q = Some ss" shows "sl_sources (effective q) = map to_lower ss"
proof -
  obtain n where "governing q = Some n" "csp_directive q n = Some ss"
    using assms by (auto simp: csp_scripts_governing split: option.splits)
  then show ?thesis using effective_name(2) [of q n] assms(1) by (simp add: directive_csp)
qed

lemma sl_has_csp: "plain_policy q \<Longrightarrow> csp_scripts q = Some ss \<Longrightarrow> sl_has (effective q) t = keyword ss t"
  by (auto simp: sl_has_def sl_sources_csp keyword_def list_ex_iff)

lemma hasNonceOrHash_csp: "plain_policy q \<Longrightarrow> csp_scripts q = Some ss \<Longrightarrow> hasNonceOrHash (effective q) = list_ex nonce_or_hash ss"
  by (simp add: hasNonceOrHash_def sl_sources_csp nonce_or_hash_def list_ex_iff)

text \<open>The rewriting adds the source, as it is written, to the directive that governs scripts, and nothing else.\<close>

lemma rewrite_part_csp:
  assumes "source_token src" and "plain_policy q" and "trim_space q \<noteq> []"
  shows "csp_scripts (rewrite_part src q) = map_option (\<lambda>ss. ss @ [src]) (csp_scripts q)
    \<and> csp_sandboxed (rewrite_part src q) = csp_sandboxed q"
proof (cases "governing q")
  case None
  then have "rewrite_part src q = q" by (simp add: rewrite_part_def effective_name(1))
  moreover have "csp_scripts q = None" using None by (simp add: csp_scripts_governing [OF assms(2)])
  ultimately show ?thesis by simp
next
  case (Some n)
  then have e: "rewrite_part src q = appendSource q n src"
    using assms(3) effective_name [of q] by (simp add: rewrite_part_def)
  have sb: "n \<noteq> ''sandbox''" using governing_name [OF Some] by (auto simp: script_directives_def)
  have d: "csp_directive (appendSource q n src) m = (if m = n then map_option (\<lambda>vs. vs @ [src]) (csp_directive q n) else csp_directive q m)" for m
    by (simp add: csp_directive_def written_appendSource [OF assms(1)] map_of_add_value)
  have "(csp_directive (appendSource q n src) m \<noteq> None) = (csp_directive q m \<noteq> None)" for m by (simp add: d)
  then have "find (\<lambda>n. csp_directive q n \<noteq> None) script_directives = Some n"
    "find (\<lambda>m. csp_directive (appendSource q n src) m \<noteq> None) script_directives = Some n"
    using Some by (simp_all only: governing_csp [OF assms(2), symmetric])
  then show ?thesis using sb by (simp add: e csp_scripts_def csp_sandboxed_def d)
qed

definition sent_policies :: "bytes list \<Rightarrow> cspPlan \<Rightarrow> bytes list" where
  "sent_policies enforce p = (case pl_enforce p of None \<Rightarrow> enforce | Some hs \<Rightarrow> hs)"

lemma b64_source_char: "c \<in> set (b64_encode e s) \<Longrightarrow> \<not> is_space c \<and> c \<noteq> CHR '';'' \<and> c \<noteq> CHR '',''"
proof -
  assume "c \<in> set (b64_encode e s)"
  then have "b64_out e c" by (rule b64_encode_out)
  then consider n where "b64_val (b64_url e) c = Some n" | "c = CHR ''=''" using b64_char_val by (auto simp: b64_out_def)
  then show ?thesis by cases (auto simp: b64_val_def is_space_def byte_val_def Let_def split: if_splits)
qed

lemma source_token_quoted: "source_token (quoted (p @ b64_encode e s)) \<longleftrightarrow> list_all (\<lambda>c. \<not> is_space c \<and> c \<noteq> CHR '';'' \<and> c \<noteq> CHR '','') p"
proof -
  have "list_all (\<lambda>c. \<not> is_space c \<and> c \<noteq> CHR '';'' \<and> c \<noteq> CHR '','') (b64_encode e s)"
    unfolding list_all_iff using b64_source_char by blast
  moreover have "\<not> is_space CHR 0x27" by (simp add: is_space_def byte_val_def)
  ultimately show ?thesis by (simp add: source_token_def quoted_def)
qed

lemma source_tokens: "source_token (inlineHash sha)" "source_token (quoted (''nonce-'' @ newNonce rnd))"
proof -
  have "inlineHash sha = quoted (''sha256-'' @ b64_encode StdEncoding (sha inlineBody))" by (simp add: inlineHash_def quoted_def)
  moreover have "list_all (\<lambda>c. \<not> is_space c \<and> c \<noteq> CHR '';'' \<and> c \<noteq> CHR '','') ''sha256-''" by code_simp
  moreover have "list_all (\<lambda>c. \<not> is_space c \<and> c \<noteq> CHR '';'' \<and> c \<noteq> CHR '','') ''nonce-''" by code_simp
  ultimately show "source_token (inlineHash sha)" "source_token (quoted (''nonce-'' @ newNonce rnd))"
    by (simp_all only: source_token_quoted newNonce_def)
qed

text \<open>A new source leaves the rest of the policy, and a token that is not \<open>none\<close> does not add it.\<close>

lemma extended_simps [simp]:
  "sl_restricting (extended src d) = sl_restricting d" "sl_sandboxBlocks (extended src d) = sl_sandboxBlocks d"
  by (simp_all add: extended_def)

lemma extended_has: "sl_restricting d \<Longrightarrow> sl_has (extended src d) t \<longleftrightarrow> sl_has d t \<or> t = to_lower src"
  by (auto simp: extended_def sl_has_def)

lemma sent_extended:
  assumes "source_token src" and "list_all plain_header enforce"
  shows "concat (map policies (case rewrite enforce src of None \<Rightarrow> enforce | Some hs \<Rightarrow> hs))
    = map (extended src) (concat (map policies enforce))"
  using assms by (induction enforce) (auto simp: rewrite_def policies_rewrite_header split: if_splits)

lemma not_none: "to_lower (inlineHash sha) \<noteq> quoted ''none''" "to_lower (quoted (''nonce-'' @ n)) \<noteq> quoted ''none''"
  by (simp_all add: inlineHash_def quoted_def to_lower_def lower_char_def byte_val_def val_byte_def)

subsection \<open>Properties\<close>

text \<open>What the plan is when a script goes in at all.\<close>

definition open_to_scripts :: "sourceList list \<Rightarrow> bool" where
  "open_to_scripts ds \<longleftrightarrow> \<not> list_ex (\<lambda>d. sl_sandboxBlocks d \<or> sl_restricting d \<and> sl_has d (quoted ''none'')) ds"

lemma planCSP_cases:
  assumes "pl_mode (planCSP sha rnd enforce report meta) \<noteq> ModeSkip"
  defines "dirs \<equiv> concat (map policies enforce)" and "metas \<equiv> concat (map policies meta)" and "nonce \<equiv> quoted (''nonce-'' @ newNonce rnd)"
  shows "open_to_scripts (dirs @ metas)
    \<and> (list_all (\<lambda>d. sl_has d (quoted ''self'')) (filter sl_restricting dirs @ filter sl_restricting metas)
         \<and> planCSP sha rnd enforce report meta = plan_skip\<lparr>pl_mode := ModeExternal\<rparr>
       \<or> filter sl_restricting metas = []
         \<and> (planCSP sha rnd enforce report meta = \<lparr>pl_mode = ModeInlineNonce, pl_enforce = rewrite enforce nonce,
               pl_report = rewrite report nonce, pl_nonce = newNonce rnd\<rparr>
           \<or> planCSP sha rnd enforce report meta = plan_skip\<lparr>pl_mode := ModeInline\<rparr>
             \<and> \<not> list_ex (\<lambda>d. sl_has d (quoted ''strict-dynamic'')) (filter sl_restricting dirs)
             \<and> list_all (\<lambda>d. sl_has d (quoted ''unsafe-inline'') \<and> \<not> hasNonceOrHash d) (filter sl_restricting dirs)
           \<or> planCSP sha rnd enforce report meta = \<lparr>pl_mode = ModeInlineHash, pl_enforce = rewrite enforce (inlineHash sha),
               pl_report = rewrite report (inlineHash sha), pl_nonce = []\<rparr>))"
proof -
  let ?p = "planCSP sha rnd enforce report meta" and ?R = "filter sl_restricting dirs"
  let ?self = "list_all (\<lambda>d. sl_has d (quoted ''self'')) (?R @ filter sl_restricting metas)"
  have bad: "\<not> list_ex (\<lambda>d. sl_sandboxBlocks d \<or> sl_restricting d \<and> sl_has d (quoted ''none'')) (dirs @ metas)"
    using assms(1) by (auto simp: planCSP_def Let_def plan_skip_def dirs_def metas_def split: if_splits)
  then have ok: "open_to_scripts (dirs @ metas)" by (simp add: open_to_scripts_def)
  note bad = bad [unfolded dirs_def metas_def]
  show ?thesis
  proof (cases ?self)
    case True
    then have "?p = plan_skip\<lparr>pl_mode := ModeExternal\<rparr>" using bad by (simp add: planCSP_def Let_def dirs_def metas_def)
    with ok True show ?thesis by blast
  next
    case False
    have m: "filter sl_restricting metas = []"
      using assms(1) bad False by (auto simp: planCSP_def Let_def plan_skip_def dirs_def metas_def split: if_splits)
    let ?strict = "list_ex (\<lambda>d. sl_has d (quoted ''strict-dynamic'')) ?R"
    let ?inline = "?R \<noteq> [] \<and> list_all (\<lambda>d. sl_has d (quoted ''unsafe-inline'') \<and> \<not> hasNonceOrHash d) ?R"
    have "?p = (if ?strict then \<lparr>pl_mode = ModeInlineNonce, pl_enforce = rewrite enforce nonce, pl_report = rewrite report nonce,
        pl_nonce = newNonce rnd\<rparr> else if ?inline then plan_skip\<lparr>pl_mode := ModeInline\<rparr>
        else \<lparr>pl_mode = ModeInlineHash, pl_enforce = rewrite enforce (inlineHash sha), pl_report = rewrite report (inlineHash sha), pl_nonce = []\<rparr>)"
      unfolding planCSP_def Let_def if_not_P [OF bad] m [unfolded metas_def] if_not_P [OF False [unfolded m, unfolded dirs_def]] dirs_def nonce_def
      by (simp only: simp_thms if_False)
    then show ?thesis using ok m by presburger
  qed
qed

lemma open_to_scripts_csp:
  assumes "open_to_scripts (map effective qs)" and "q \<in> set qs" and "plain_policy q"
  shows "\<not> csp_sandboxed q" and "csp_scripts q = Some ss \<Longrightarrow> \<not> keyword ss (quoted ''none'')"
  using assms sl_sandboxBlocks_csp [OF assms(3)] sl_has_csp [OF assms(3)] sl_restricting_csp [OF assms(3)]
  by (auto simp: open_to_scripts_def list_ex_iff)

lemma policies_parts: "concat (map policies hs) = map effective (concat (map policy_parts hs))"
  by (induction hs) (simp_all add: policies_def)

lemma plain_parts: "list_all plain_header hs \<Longrightarrow> q \<in> set (concat (map policy_parts hs)) \<Longrightarrow> plain_policy q \<and> trim_space q \<noteq> []"
  by (auto simp: plain_header_def list_all_iff policy_parts_def)

lemma sent_parts:
  assumes "source_token src" and "list_all plain_header enforce"
  shows "concat (map policy_parts (case rewrite enforce src of None \<Rightarrow> enforce | Some hs \<Rightarrow> hs))
    = map (rewrite_part src) (concat (map policy_parts enforce))"
  using assms by (induction enforce) (auto simp: rewrite_def parts_rewrite_header split: if_splits)

text \<open>A policy to which the plan's own source was added admits the plan.\<close>

lemma rewritten_admits:
  assumes "open_to_scripts (map effective qs)" and "q \<in> set qs" and "plain_policy q" "trim_space q \<noteq> []"
    and "source_token src" and "to_lower src \<noteq> quoted ''none''"
    and "pl_mode p = ModeInlineHash \<and> src = inlineHash sha \<or> pl_mode p = ModeInlineNonce \<and> src = quoted (''nonce-'' @ pl_nonce p)"
  shows "admits sha p (rewrite_part src q)"
  using rewrite_part_csp [OF assms(5,3,4)] open_to_scripts_csp [OF assms(1-3)] assms(6,7)
  by (cases "csp_scripts q") (auto simp: admits_def keyword_def)

lemma unrestricted_admits:
  assumes "open_to_scripts (map effective qs)" and "q \<in> set qs" and "plain_policy q"
    and "\<not> sl_restricting (effective q)" and "pl_mode p \<noteq> ModeSkip"
  shows "admits sha p q"
  using open_to_scripts_csp(1) [OF assms(1-3)] assms(4,5) by (simp add: admits_def sl_restricting_csp [OF assms(3)])

text \<open>Where every policy lists \<open>self\<close>, only \<open>strict-dynamic\<close> stops the external script.\<close>

lemma external_admits:
  assumes "open_to_scripts (map effective qs)" and "q \<in> set qs" and "plain_policy q" and "pl_mode p = ModeExternal"
    and "list_all (\<lambda>d. sl_has d (quoted ''self'')) (filter sl_restricting (map effective qs))"
  shows "admits sha p q = (\<not> strict_dynamic q)"
proof (cases "csp_scripts q")
  case None
  then show ?thesis using open_to_scripts_csp [OF assms(1-3)] assms(4) by (simp add: admits_def strict_dynamic_def)
next
  case (Some ss)
  then have "keyword ss (quoted ''self'')"
    using assms(2,5) sl_restricting_csp [OF assms(3)] sl_has_csp [OF assms(3) Some] by (auto simp: list_all_iff)
  then show ?thesis using open_to_scripts_csp [OF assms(1-3)] assms(4) Some by (simp add: admits_def strict_dynamic_def)
qed

text \<open>Where \<open>unsafe-inline\<close> is in force everywhere, the bare loader runs.\<close>

lemma inline_admits:
  assumes "open_to_scripts (map effective qs)" and "q \<in> set qs" and "plain_policy q" and "pl_mode p = ModeInline"
    and "sl_restricting (effective q) \<longrightarrow> sl_has (effective q) (quoted ''unsafe-inline'') \<and> \<not> hasNonceOrHash (effective q)
          \<and> \<not> sl_has (effective q) (quoted ''strict-dynamic'')"
  shows "admits sha p q"
proof (cases "csp_scripts q")
  case None
  then show ?thesis using open_to_scripts_csp [OF assms(1-3)] assms(4) by (simp add: admits_def)
next
  case (Some ss)
  then have "keyword ss (quoted ''unsafe-inline'') \<and> \<not> keyword ss (quoted ''strict-dynamic'') \<and> \<not> list_ex nonce_or_hash ss"
    using assms(5) sl_restricting_csp [OF assms(3)] sl_has_csp [OF assms(3) Some] hasNonceOrHash_csp [OF assms(3) Some] by simp
  then show ?thesis using open_to_scripts_csp [OF assms(1-3)] assms(4) Some by (simp add: admits_def)
qed

text \<open>C13: the planned script element is admitted by every policy, as a browser reads them. Take a response whose policies, in
  its headers and in the page, name no directive twice. When \<open>planCSP\<close> does not skip, then each
  policy of the response as it is sent, after the rewriting, and each policy in the page admits the element: none sandboxes it away, none says
  \<open>none\<close>, and each that restricts scripts lists what the plan relies on, nonces and hashes to the letter. The one exception is
  exact: the external script is planned where every policy lists \<open>self\<close>, and it is blocked if one of them lists
  \<open>strict-dynamic\<close> as well. The rewriting has changed nothing in any policy but for the added source.\<close>

theorem planned_script_admitted:
  assumes "list_all plain_header (enforce @ meta)" and "pl_mode (planCSP sha rnd enforce report meta) \<noteq> ModeSkip"
  shows "(list_all (admits sha (planCSP sha rnd enforce report meta))
        (concat (map policy_parts (sent_policies enforce (planCSP sha rnd enforce report meta) @ meta)))
      \<longleftrightarrow> \<not> (pl_mode (planCSP sha rnd enforce report meta) = ModeExternal
             \<and> list_ex strict_dynamic (concat (map policy_parts (enforce @ meta)))))
    \<and> (\<exists>f. concat (map policies (sent_policies enforce (planCSP sha rnd enforce report meta))) = map f (concat (map policies enforce))
         \<and> (f = (\<lambda>d. d) \<or> (\<exists>src. f = extended src)))"
proof -
  let ?p = "planCSP sha rnd enforce report meta"
  let ?Q = "concat (map policy_parts enforce)" and ?M = "concat (map policy_parts meta)" and ?nonce = "quoted (''nonce-'' @ newNonce rnd)"
  note cs = planCSP_cases [OF assms(2), unfolded policies_parts map_append [symmetric]]
  have ok: "open_to_scripts (map effective (?Q @ ?M))" using cs by blast
  have plain: "plain_policy q \<and> trim_space q \<noteq> []" if "q \<in> set (?Q @ ?M)" for q
    using plain_parts [OF assms(1)] that by simp
  have pe: "list_all plain_header enforce" using assms(1) by simp
  have meta: "list_all (admits sha ?p) ?M" if "filter sl_restricting (map effective ?M) = []"
    using that plain unrestricted_admits [OF ok _ _ _ assms(2), of _ sha] by (fastforce simp: list_all_iff filter_empty_conv)
  have ext: ?thesis if p: "sent_policies enforce ?p = (case rewrite enforce src of None \<Rightarrow> enforce | Some hs \<Rightarrow> hs)"
      and m: "filter sl_restricting (map effective ?M) = []" and src: "source_token src" "to_lower src \<noteq> quoted ''none''"
      and mode: "pl_mode ?p = ModeInlineHash \<and> src = inlineHash sha \<or> pl_mode ?p = ModeInlineNonce \<and> src = quoted (''nonce-'' @ pl_nonce ?p)"
    for src
  proof -
    have "list_all (admits sha ?p) (map (rewrite_part src) ?Q)"
      using plain rewritten_admits [OF ok _ _ _ src mode] by (auto simp: list_all_iff)
    then show ?thesis using meta [OF m] mode by (auto simp: p sent_parts [OF src(1) pe] sent_extended [OF src(1) pe])
  qed
  from cs [THEN conjunct2] show ?thesis
  proof (elim disjE conjE)
    assume p: "?p = plan_skip\<lparr>pl_mode := ModeExternal\<rparr>"
      and self: "list_all (\<lambda>d. sl_has d (quoted ''self'')) (filter sl_restricting (map effective ?Q) @ filter sl_restricting (map effective ?M))"
    have "admits sha ?p q = (\<not> strict_dynamic q)" if q: "q \<in> set (?Q @ ?M)" for q
      using external_admits [OF ok q] plain [OF q] self by (simp add: p)
    then have "list_all (admits sha ?p) (?Q @ ?M) = (\<not> list_ex strict_dynamic (?Q @ ?M))" unfolding list_all_iff list_ex_iff by blast
    moreover have "sent_policies enforce ?p = enforce" "pl_mode ?p = ModeExternal" by (simp_all add: p sent_policies_def plan_skip_def)
    ultimately show ?thesis by (auto intro!: exI [of _ "\<lambda>d. d"])
  next
    assume m: "filter sl_restricting (map effective ?M) = []" and p: "?p = plan_skip\<lparr>pl_mode := ModeInline\<rparr>"
      and strict: "\<not> list_ex (\<lambda>d. sl_has d (quoted ''strict-dynamic'')) (filter sl_restricting (map effective ?Q))"
      and inline: "list_all (\<lambda>d. sl_has d (quoted ''unsafe-inline'') \<and> \<not> hasNonceOrHash d) (filter sl_restricting (map effective ?Q))"
    have "admits sha ?p q" if q: "q \<in> set ?Q" for q
      using q strict inline plain [of q] by (intro inline_admits [OF ok]) (auto simp: p list_all_iff list_ex_iff)
    then have "list_all (admits sha ?p) ?Q" by (simp add: list_all_iff)
    moreover have "sent_policies enforce ?p = enforce" "pl_mode ?p \<noteq> ModeExternal" by (simp_all add: p sent_policies_def plan_skip_def)
    ultimately show ?thesis using meta [OF m] by (auto intro!: exI [of _ "\<lambda>d. d"])
  next
    assume m: "filter sl_restricting (map effective ?M) = []"
      and p: "?p = \<lparr>pl_mode = ModeInlineNonce, pl_enforce = rewrite enforce ?nonce, pl_report = rewrite report ?nonce, pl_nonce = newNonce rnd\<rparr>"
    show ?thesis by (rule ext [OF _ m source_tokens(2) not_none(2)]) (simp_all add: sent_policies_def p)
  next
    assume m: "filter sl_restricting (map effective ?M) = []"
      and p: "?p = \<lparr>pl_mode = ModeInlineHash, pl_enforce = rewrite enforce (inlineHash sha), pl_report = rewrite report (inlineHash sha), pl_nonce = []\<rparr>"
    show ?thesis by (rule ext [OF _ m source_tokens(1) not_none(1)]) (simp_all add: sent_policies_def p)
  qed
qed

text \<open>A strict policy: the nonce is added, the rest stays. And the exception: the external script, blocked.\<close>

definition demo_policy :: bytes where
  "demo_policy = ''default-src cdn.example; script-src '' @ quoted ''nonce-abc'' @ '' '' @ quoted ''strict-dynamic''"

definition self_and_strict :: bytes where
  "self_and_strict = ''script-src '' @ quoted ''self'' @ '' '' @ quoted ''strict-dynamic'' @ '' '' @ quoted ''nonce-abc''"

text \<open>
  The rule for \<open>strict-dynamic\<close> comes after the one for \<open>self\<close>. A policy with both gets the external script, although
  the comment of the later rule says that \<open>strict-dynamic\<close> discards \<open>self\<close> and that an external script cannot run then.
\<close>

lemma self_hides_strict_dynamic: "planCSP sha rnd [self_and_strict] [] [] = plan_skip\<lparr>pl_mode := ModeExternal\<rparr>"
  by code_simp

lemma planned_script_admitted_witness:
  "list_all (admits (\<lambda>b. b) (planCSP (\<lambda>b. b) ''r'' [demo_policy] [] []))
      (concat (map policy_parts (sent_policies [demo_policy] (planCSP (\<lambda>b. b) ''r'' [demo_policy] [] []))))
   \<and> \<not> list_all (admits (\<lambda>b. b) (planCSP (\<lambda>b. b) ''r'' [self_and_strict] [] []))
      (concat (map policy_parts (sent_policies [self_and_strict] (planCSP (\<lambda>b. b) ''r'' [self_and_strict] [] []))))"
proof
  have "pl_mode (planCSP (\<lambda>b. b) ''r'' [demo_policy] [] []) = ModeInlineNonce" by code_simp
  moreover have "list_all plain_header [demo_policy]" by code_simp
  ultimately show "list_all (admits (\<lambda>b. b) (planCSP (\<lambda>b. b) ''r'' [demo_policy] [] []))
      (concat (map policy_parts (sent_policies [demo_policy] (planCSP (\<lambda>b. b) ''r'' [demo_policy] [] []))))"
    using planned_script_admitted [of "[demo_policy]" "[]" "\<lambda>b. b" "''r''" "[]"] by simp
next
  have "pl_mode (planCSP (\<lambda>b. b) ''r'' [self_and_strict] [] []) = ModeExternal" by (simp add: self_hides_strict_dynamic plan_skip_def)
  moreover have "list_all plain_header [self_and_strict]" by code_simp
  moreover have "list_ex strict_dynamic (policy_parts self_and_strict)" by code_simp
  ultimately show "\<not> list_all (admits (\<lambda>b. b) (planCSP (\<lambda>b. b) ''r'' [self_and_strict] [] []))
      (concat (map policy_parts (sent_policies [self_and_strict] (planCSP (\<lambda>b. b) ''r'' [self_and_strict] [] []))))"
    using planned_script_admitted [of "[self_and_strict]" "[]" "\<lambda>b. b" "''r''" "[]"] by simp
qed

lemma demo_policy_sent:
  "sent_policies [demo_policy] (planCSP (\<lambda>b. b) ''r'' [demo_policy] [] []) = [demo_policy @ '' '' @ quoted (''nonce-'' @ newNonce ''r'')]"
  by code_simp

text \<open>
  What \<open>planned_script_admitted\<close> says ends with the element. The inline loader then asks for the external script. The
  plans that rely on \<open>unsafe-inline\<close> or on a hash are made exactly when some policy of the response lists
  neither \<open>self\<close> nor \<open>strict-dynamic\<close>: unless that policy names the gate's own host, it blocks what the loader asks for.
\<close>

lemma loader_fetch_not_listed:
  assumes "pl_mode (planCSP sha rnd enforce report meta) \<in> {ModeInline, ModeInlineHash}"
  shows "list_ex (\<lambda>d. sl_restricting d \<and> \<not> sl_has d (quoted ''self'') \<and> \<not> sl_has d (quoted ''strict-dynamic''))
      (concat (map policies enforce))"
proof (rule ccontr)
  let ?R = "filter sl_restricting (concat (map policies enforce))"
  assume "\<not> ?thesis"
  then have n: "\<forall>d\<in>set ?R. sl_has d (quoted ''self'') \<or> sl_has d (quoted ''strict-dynamic'')" by (auto simp: list_ex_iff)
  show False
  proof (cases "list_ex (\<lambda>d. sl_has d (quoted ''strict-dynamic'')) ?R")
    case True
    then show False using assms by (auto simp: planCSP_def Let_def plan_skip_def split: if_splits)
  next
    case False
    then have "list_all (\<lambda>d. sl_has d (quoted ''self'')) ?R" using n by (auto simp: list_ex_iff list_all_iff)
    then show False using assms by (auto simp: planCSP_def Let_def plan_skip_def split: if_splits)
  qed
qed

text \<open>Of two directives with one name the last is read and the first is rewritten: the hash lands where it is not read.\<close>

lemma duplicate_directive_not_extended:
  "rewrite_part ''x'' ''script-src a.example; script-src b.example'' = ''script-src a.example x; script-src b.example''"
  "sl_sources (effective ''script-src a.example x; script-src b.example'') = [''b.example'']"
  by code_simp+

end
