(* ===== verification/Injector.thy ===== *)
theory Injector
  imports Csp Writer
begin

text \<open>
  The writer of \<open>internal/gate/injector.go\<close>, which holds the headers and the first bytes of a page until it knows
  whether and where the renewal script goes in. \<open>ij_notes\<close> lists the reasons it has reported. A panic while
  reading the page unwinds the request, and a loop that does not end holds it forever: \<open>ij_stop\<close>, after which nothing happens
  any more. Flushing is left out.
\<close>

subsection \<open>The state\<close>

datatype stop = Panicked | Diverged

record injector =
  ij_w :: recorder
  ij_notes :: "bytes list"
  ij_status :: int
  ij_buf :: bytes
  ij_checked :: bool
  ij_resolved :: bool
  ij_skipping :: bool
  ij_sent :: bool
  ij_stop :: "stop option"

text \<open>What the code gets from outside: Unicode's lower case, SHA-256, random bytes, the spare capacity of the buffer.\<close>

record inject_env =
  ie_lower :: "nat \<Rightarrow> nat"
  ie_sha :: "bytes \<Rightarrow> bytes"
  ie_rand :: bytes
  ie_spare :: nat

definition newInjector :: "recorder \<Rightarrow> injector" where
  "newInjector w = \<lparr>ij_w = w, ij_notes = [], ij_status = 200, ij_buf = [], ij_checked = False, ij_resolved = False,
     ij_skipping = False, ij_sent = False, ij_stop = None\<rparr>"

definition headBudget :: nat where "headBudget = 65536"

definition inj_note :: "bytes \<Rightarrow> injector \<Rightarrow> injector" where
  "inj_note reason i = i\<lparr>ij_notes := ij_notes i @ [reason]\<rparr>"

definition inj_Header :: "injector \<Rightarrow> header" where "inj_Header i = rec_Header (ij_w i)"

definition inj_SetHeader :: "header \<Rightarrow> injector \<Rightarrow> injector" where
  "inj_SetHeader h i = (if ij_stop i \<noteq> None then i else i\<lparr>ij_w := rec_SetHeader h (ij_w i)\<rparr>)"

subsection \<open>The operations\<close>

definition inj_WriteHeader :: "int \<Rightarrow> injector \<Rightarrow> injector" where
  "inj_WriteHeader status i =
     (if ij_stop i \<noteq> None then i
      else if is_interim status then i\<lparr>ij_w := rec_WriteHeader status (ij_w i)\<rparr>
      else if ij_sent i \<or> ij_checked i then i
      else
        (let i = i\<lparr>ij_checked := True, ij_status := status\<rparr>;
             why = responseSkipReason status (inj_Header i)
         in if why \<noteq> []
            then (inj_note why i)\<lparr>ij_resolved := True, ij_skipping := True, ij_sent := True,
                   ij_w := rec_WriteHeader status (ij_w i)\<rparr>
            else i))"

definition inj_send :: "injector \<Rightarrow> injector" where
  "inj_send i = (if ij_sent i then i else i\<lparr>ij_sent := True, ij_w := rec_WriteHeader (ij_status i) (ij_w i)\<rparr>)"

definition giveUp :: "injector \<Rightarrow> injector" where
  "giveUp i =
     (let i = inj_send (i\<lparr>ij_resolved := True, ij_skipping := True\<rparr>)
      in if ij_buf i \<noteq> [] then i\<lparr>ij_w := rec_Write (ij_buf i) (ij_w i), ij_buf := []\<rparr> else i)"

definition vary_lists :: "header \<Rightarrow> bytes \<Rightarrow> bool" where
  "vary_lists h field \<longleftrightarrow> list_ex (\<lambda>v. list_ex (\<lambda>f. EqualFold_ascii (trim_space f) field \<or> trim_space f = ''*'') (split_on CHR '','' v))
     (hdr_Values h ''Vary'')"

definition addVary :: "header \<Rightarrow> bytes \<Rightarrow> header" where
  "addVary h field = (if vary_lists h field then h else hdr_Add h ''Vary'' field)"

definition set_policies :: "bytes \<Rightarrow> bytes list option \<Rightarrow> header \<Rightarrow> header" where
  "set_policies k vs h = (case vs of None \<Rightarrow> h | Some vs \<Rightarrow> foldl (\<lambda>h v. hdr_Add h k v) (hdr_Del h k) vs)"

definition csp :: bytes where "csp = ''Content-Security-Policy''"
definition csp_report :: bytes where "csp_report = ''Content-Security-Policy-Report-Only''"

definition injected_header :: "cspPlan \<Rightarrow> header \<Rightarrow> header" where
  "injected_header plan h =
     (let h = set_policies csp_report (pl_report plan) (set_policies csp (pl_enforce plan) h);
          h = hdr_Del h ''Content-Length'';
          e = hdr_Get h ''Etag'';
          h = (if e \<noteq> [] \<and> \<not> has_prefix e ''W/'' then hdr_Set h ''Etag'' (''W/'' @ e) else h);
          h = addVary h ''Cookie''
      in if pl_nonce plan \<noteq> [] then hdr_Set h ''Cache-Control'' ''no-store'' else h)"

definition page_plan :: "inject_env \<Rightarrow> header \<Rightarrow> bytes list \<Rightarrow> cspPlan" where
  "page_plan env h metas = planCSP (ie_sha env) (ie_rand env) (hdr_Values h csp) (hdr_Values h csp_report) metas"

definition splice :: "nat \<Rightarrow> bytes \<Rightarrow> bytes \<Rightarrow> bytes" where
  "splice p tag b = take p b @ tag @ drop p b"

definition inj_inject :: "cspPlan \<Rightarrow> nat \<Rightarrow> injector \<Rightarrow> injector" where
  "inj_inject plan point i =
     (let w = rec_SetHeader (injected_header plan (inj_Header i)) (ij_w i);
          w = rec_WriteHeader (ij_status i) w;
          w = rec_Write (take point (ij_buf i)) w;
          w = rec_Write (plan_tag plan) w;
          w = rec_Write (drop point (ij_buf i)) w
      in i\<lparr>ij_resolved := True, ij_sent := True, ij_w := w, ij_buf := []\<rparr>)"

definition decide :: "inject_env \<Rightarrow> injector \<Rightarrow> injector" where
  "decide env i =
     (case insertionPoint (ie_lower env) (ie_spare env) (ij_buf i) of
        Inl e \<Rightarrow> i\<lparr>ij_stop := Some Panicked\<rparr>
      | Inr point \<Rightarrow>
         (let end = headEnd (ie_lower env) (ij_buf i) in
          case (point, end) of
            (Some p, Some e) \<Rightarrow>
              if headBudget < e then giveUp (inj_note ''head-exceeds-64KiB-budget'' i)
              else
                (case metaPolicies (ie_lower env) (ij_buf i) of
                   None \<Rightarrow> i\<lparr>ij_stop := Some Diverged\<rparr>
                 | Some (Inl e) \<Rightarrow> i\<lparr>ij_stop := Some Panicked\<rparr>
                 | Some (Inr metas) \<Rightarrow>
                    (let plan = page_plan env (inj_Header i) metas in
                     if pl_mode plan = ModeSkip then giveUp (inj_note ''content-security-policy-forbids-our-script'' i)
                     else inj_inject plan p i))
          | _ \<Rightarrow>
              giveUp (inj_note
                (case end of
                   Some e \<Rightarrow> if headBudget < e then ''head-exceeds-64KiB-budget'' else ''no-opening-head-tag''
                 | None \<Rightarrow> if point = None then ''no-opening-head-tag'' else ''document-ended-inside-head'') i)))"

definition inj_Write :: "inject_env \<Rightarrow> bytes \<Rightarrow> injector \<Rightarrow> injector" where
  "inj_Write env b i =
     (if ij_stop i \<noteq> None then i
      else
        (let i = (if ij_checked i then i else inj_WriteHeader 200 i) in
         if ij_resolved i then i\<lparr>ij_w := rec_Write b (ij_w i)\<rparr>
         else
           (let i = i\<lparr>ij_buf := ij_buf i @ b\<rparr> in
            if \<not> looksLikeDocument (ij_buf i) then giveUp (inj_note ''body-is-not-a-document'' i)
            else if headEnd (ie_lower env) (ij_buf i) \<noteq> None \<or> headBudget \<le> length (ij_buf i) then decide env i
            else i)))"

definition finish :: "inject_env \<Rightarrow> injector \<Rightarrow> injector" where
  "finish env i =
     (if ij_stop i \<noteq> None then i
      else (let i = (if ij_resolved i then i else decide env i) in if ij_stop i \<noteq> None then i else inj_send i))"

definition injector_ops :: "inject_env \<Rightarrow> injector writer" where
  "injector_ops env = \<lparr>wr_Header = inj_Header, wr_SetHeader = inj_SetHeader, wr_WriteHeader = inj_WriteHeader,
     wr_Write = inj_Write env\<rparr>"

text \<open>A page through the injector.\<close>

definition inject_page :: "inject_env \<Rightarrow> upstream_answer \<Rightarrow> recorder \<Rightarrow> injector" where
  "inject_page env a w = finish env (proxy_serve (injector_ops env) a (newInjector w))"


subsection \<open>What reaches the client\<close>

lemma insertion_from_range: "insertion_from ul spare b i = Inr (Some p) \<Longrightarrow> p \<le> length b"
proof (induction ul spare b i rule: insertion_from.induct)
  case (1 ul spare b i)
  have g: "\<not> length b < i" using "1.prems" by (subst (asm) insertion_from.simps) (simp split: if_splits)
  obtain k where k: "str_index (bytes_ToLower ul (drop i b)) ''<head'' = Some k"
    using "1.prems" g by (subst (asm) insertion_from.simps) (auto split: option.splits)
  define h where "h = k + i"
  note ih = "1.IH" [OF g k refl refl, folded h_def]
  note prem = "1.prems" [unfolded insertion_step [OF g [unfolded not_less] k h_def, of spare]]
  show ?case
  proof (cases "h + 5 < length b \<and> \<not> isTagNameEnd (b ! (h + 5))")
    case True
    then show ?thesis using prem ih(1) by simp
  next
    case False
    from prem False obtain inside rest where c: "in_comment ul spare b h = Inr inside" "slice_from b h = Inr rest"
      by (simp only: if_False) (auto split: sum.splits)
    have rest: "rest = drop h b" "h \<le> length b" using c(2) by (auto simp: slice_from_def split: if_splits)
    have room: "e + length t \<le> length rest" if "str_index rest t = Some e" for e t
      using str_index_Some [OF that] by (auto simp: has_prefix_iff dest: arg_cong [of _ _ length])
    show ?thesis
    proof (cases "inside")
      case True
      then show ?thesis using prem False c ih(2) [OF False c] by (auto split: option.splits if_splits)
    next
      case out: False
      then show ?thesis using prem False c rest room [of "''>''"] by (auto split: option.splits if_splits)
    qed
  qed
qed

lemma insertionPoint_range: "insertionPoint ul spare b = Inr (Some p) \<Longrightarrow> p \<le> length b"
  unfolding insertionPoint_def by (rule insertion_from_range)

text \<open>The upstream's page as far as it has come: \<open>w\<close> is what the recorder would hold without the injector.\<close>

definition as_sent :: "recorder \<Rightarrow> injector \<Rightarrow> bool" where
  "as_sent w i \<longleftrightarrow> rec_sent (ij_w i) = rec_sent w \<and> rec_body (ij_w i) = rec_body w"

definition with_script :: "inject_env \<Rightarrow> bytes \<Rightarrow> recorder \<Rightarrow> injector \<Rightarrow> bool" where
  "with_script env body w i \<longleftrightarrow>
     (\<exists>H head rest p metas plan.
        rec_sent w = Some (200, H) \<and> rec_body w = body @ head @ rest \<and> responseSkipReason 200 H = []
        \<and> looksLikeDocument head \<and> insertionPoint (ie_lower env) (ie_spare env) head = Inr (Some p)
        \<and> metaPolicies (ie_lower env) head = Some (Inr metas)
        \<and> (\<exists>e\<le>headBudget. headEnd (ie_lower env) head = Some e)
        \<and> plan = page_plan env H metas \<and> pl_mode plan \<noteq> ModeSkip
        \<and> rec_sent (ij_w i) = Some (200, injected_header plan H)
        \<and> rec_body (ij_w i) = body @ splice p (plan_tag plan) (head @ rest))"

definition settled :: "inject_env \<Rightarrow> bytes \<Rightarrow> recorder \<Rightarrow> injector \<Rightarrow> bool" where
  "settled env body w i \<longleftrightarrow> ij_checked i \<and> ij_resolved i \<and> ij_sent i \<and> ij_buf i = [] \<and> rec_sent w \<noteq> None
     \<and> rec_sent (ij_w i) \<noteq> None \<and> (as_sent w i \<or> with_script env body w i)"

text \<open>Still holding: nothing is sent, and the buffer is what the upstream wrote.\<close>

definition holding :: "bytes \<Rightarrow> recorder \<Rightarrow> injector \<Rightarrow> bool" where
  "holding body w i \<longleftrightarrow> ij_checked i \<and> \<not> ij_resolved i \<and> \<not> ij_sent i \<and> ij_status i = 200
     \<and> rec_sent (ij_w i) = None \<and> rec_body (ij_w i) = body \<and> responseSkipReason 200 (inj_Header i) = []
     \<and> rec_sent w = Some (200, inj_Header i) \<and> rec_body w = body @ ij_buf i
     \<and> (ij_buf i = [] \<or> looksLikeDocument (ij_buf i))"

definition page_inv :: "inject_env \<Rightarrow> bytes \<Rightarrow> recorder \<Rightarrow> injector \<Rightarrow> bool" where
  "page_inv env body w i \<longleftrightarrow> ij_stop i \<noteq> None \<or> holding body w i \<or> settled env body w i"

lemma giveUp_settles:
  assumes "holding body w i"
  shows "settled env body w (giveUp i)" "ij_stop (giveUp i) = ij_stop i"
  using assms
  by (auto simp: holding_def settled_def giveUp_def inj_send_def as_sent_def rec_WriteHeader_sent inj_Header_def Let_def)

lemma note_holding [simp]: "holding body w (inj_note why i) = holding body w i" "ij_stop (inj_note why i) = ij_stop i"
  by (simp_all add: holding_def inj_note_def inj_Header_def)

lemma inject_settles:
  assumes "holding body w i" and "ij_buf i \<noteq> []"
    and "insertionPoint (ie_lower env) (ie_spare env) (ij_buf i) = Inr (Some p)"
    and "metaPolicies (ie_lower env) (ij_buf i) = Some (Inr metas)"
    and "headEnd (ie_lower env) (ij_buf i) = Some e" and "e \<le> headBudget"
    and "pl_mode (page_plan env (inj_Header i) metas) \<noteq> ModeSkip"
  shows "settled env body w (inj_inject (page_plan env (inj_Header i) metas) p i)"
proof -
  let ?plan = "page_plan env (inj_Header i) metas" and ?i = "inj_inject (page_plan env (inj_Header i) metas) p i"
  have s: "rec_sent (ij_w ?i) = Some (200, injected_header ?plan (inj_Header i))"
    "rec_body (ij_w ?i) = body @ splice p (plan_tag ?plan) (ij_buf i @ [])"
    using assms(1) by (simp_all add: holding_def inj_inject_def rec_WriteHeader_sent splice_def Let_def)
  then have "with_script env body w ?i"
    unfolding with_script_def using assms by (intro exI [of _ "inj_Header i"] exI [of _ "ij_buf i"] exI [of _ "[]"] exI [of _ p]
      exI [of _ metas] exI [of _ ?plan]) (auto simp: holding_def)
  then show ?thesis using assms(1) s by (auto simp: settled_def holding_def inj_inject_def Let_def)
qed

lemma headEnd_Nil [simp]: "headEnd ul [] = None"
  by (simp add: headEnd_def bytes_ToLower_def to_lower_def Let_def)

lemma decide_settles:
  assumes "holding body w i"
  shows "ij_stop (decide env i) \<noteq> None \<or> settled env body w (decide env i)"
proof (cases "insertionPoint (ie_lower env) (ie_spare env) (ij_buf i)")
  case (Inr q)
  show ?thesis
  proof (cases "\<exists>p e. q = Some p \<and> headEnd (ie_lower env) (ij_buf i) = Some e \<and> e \<le> headBudget")
    case True
    then obtain p e where q: "q = Some p" "headEnd (ie_lower env) (ij_buf i) = Some e" "\<not> headBudget < e" by auto
    have ne: "ij_buf i \<noteq> []" using q(2) by auto
    show ?thesis
      using inject_settles [OF assms ne Inr [unfolded q(1)] _ q(2)] giveUp_settles [of body w "inj_note why i" for why] assms q(2,3)
      by (auto simp: decide_def Inr q Let_def split: option.splits sum.splits)
  next
    case False
    then have "\<exists>why. decide env i = giveUp (inj_note why i)"
      by (cases q; cases "headEnd (ie_lower env) (ij_buf i)") (auto simp: decide_def Inr Let_def)
    then show ?thesis using giveUp_settles(1) [of body w "inj_note why i" for why] assms by auto
  qed
qed (simp add: decide_def)

subsection \<open>Every write\<close>

lemma WriteHeader_page:
  assumes "\<not> ij_checked i" "\<not> ij_sent i" "ij_stop i = None" "ij_buf i = []" "\<not> ij_resolved i" "\<not> is_interim st"
    and "rec_sent (ij_w i) = None" "rec_body (ij_w i) = body"
    and "rec_sent w = Some (st, inj_Header i)" "rec_body w = body"
  shows "page_inv env body w (inj_WriteHeader st i)"
proof (cases "responseSkipReason st (inj_Header i) = []")
  case True
  then have "st = 200" by (auto simp: responseSkipReason_def split: if_splits)
  with True assms show ?thesis by (simp add: page_inv_def holding_def inj_WriteHeader_def inj_Header_def Let_def)
next
  case False
  with assms show ?thesis
    by (auto simp: page_inv_def settled_def as_sent_def inj_WriteHeader_def inj_note_def inj_Header_def rec_WriteHeader_sent Let_def)
qed

lemma settled_more:
  assumes "settled env body w i"
  shows "settled env body (rec_Write b w) (i\<lparr>ij_w := rec_Write b (ij_w i)\<rparr>)"
proof -
  have sent: "rec_sent (rec_WriteHeader 200 w) = rec_sent w" "rec_sent (rec_WriteHeader 200 (ij_w i)) = rec_sent (ij_w i)"
    using assms by (simp_all add: settled_def rec_WriteHeader_sent)
  have "with_script env body (rec_Write b w) (i\<lparr>ij_w := rec_Write b (ij_w i)\<rparr>)" if "with_script env body w i"
  proof -
    from that obtain H head rest p metas where f: "rec_sent w = Some (200, H)" "rec_body w = body @ head @ rest"
      "responseSkipReason 200 H = []" "looksLikeDocument head"
      "insertionPoint (ie_lower env) (ie_spare env) head = Inr (Some p)" "metaPolicies (ie_lower env) head = Some (Inr metas)"
      "\<exists>e\<le>headBudget. headEnd (ie_lower env) head = Some e" "pl_mode (page_plan env H metas) \<noteq> ModeSkip"
      "rec_sent (ij_w i) = Some (200, injected_header (page_plan env H metas) H)"
      "rec_body (ij_w i) = body @ splice p (plan_tag (page_plan env H metas)) (head @ rest)"
      unfolding with_script_def by blast
    have "splice p t (head @ rest) @ b = splice p t (head @ rest @ b)" for t
      using insertionPoint_range [OF f(5)] by (simp add: splice_def)
    then show ?thesis unfolding with_script_def
      using f sent by (intro exI [of _ H] exI [of _ head] exI [of _ "rest @ b"] exI [of _ p]
        exI [of _ metas] exI [of _ "page_plan env H metas"]) simp
  qed
  with assms sent show ?thesis by (auto simp: settled_def as_sent_def)
qed

lemma Write_page:
  assumes "page_inv env body w i"
  shows "page_inv env body (rec_Write b w) (inj_Write env b i)"
proof -
  consider (stop) "ij_stop i \<noteq> None" | (settled) "ij_stop i = None" "settled env body w i" | (hold) "ij_stop i = None" "holding body w i"
    using assms by (auto simp: page_inv_def)
  then show ?thesis
  proof cases
    case stop
    then show ?thesis by (simp add: page_inv_def inj_Write_def)
  next
    case settled
    then have "inj_Write env b i = i\<lparr>ij_w := rec_Write b (ij_w i)\<rparr>" by (simp add: inj_Write_def settled_def)
    then show ?thesis using settled_more [OF settled(2), of b] by (simp add: page_inv_def)
  next
    case hold
    let ?i = "i\<lparr>ij_buf := ij_buf i @ b\<rparr>"
    have e: "inj_Write env b i = (if \<not> looksLikeDocument (ij_buf ?i) then giveUp (inj_note ''body-is-not-a-document'' ?i)
        else if headEnd (ie_lower env) (ij_buf ?i) \<noteq> None \<or> headBudget \<le> length (ij_buf ?i) then decide env ?i else ?i)"
      using hold by (simp add: inj_Write_def holding_def Let_def)
    show ?thesis
    proof (cases "looksLikeDocument (ij_buf ?i)")
      case True
      have "holding body (rec_Write b w) ?i" using hold True by (simp add: holding_def inj_Header_def rec_WriteHeader_sent)
      with True decide_settles [OF this, of env] show ?thesis unfolding e by (auto simp: page_inv_def)
    next
      case False
      have "settled env body (rec_Write b w) (giveUp (inj_note ''body-is-not-a-document'' ?i))"
        using hold by (auto simp: holding_def settled_def giveUp_def inj_note_def inj_send_def as_sent_def rec_WriteHeader_sent
            inj_Header_def Let_def)
      with False show ?thesis unfolding e by (simp add: page_inv_def)
    qed
  qed
qed

lemma Writes_page:
  "page_inv env body w i \<Longrightarrow> page_inv env body (foldl (\<lambda>w b. rec_Write b w) w bs) (foldl (\<lambda>i b. inj_Write env b i) i bs)"
  by (induction bs arbitrary: w i) (simp_all add: Write_page)

lemma finish_page:
  assumes "page_inv env body w i"
  shows "ij_stop (finish env i) \<noteq> None \<or> as_sent w (finish env i) \<or> with_script env body w (finish env i)"
proof -
  have d: "settled env body w j \<Longrightarrow> inj_send j = j" for j by (simp add: settled_def inj_send_def)
  consider (stop) "ij_stop i \<noteq> None" | (settled) "ij_stop i = None" "settled env body w i" | (hold) "ij_stop i = None" "holding body w i"
    using assms by (auto simp: page_inv_def)
  then show ?thesis
  proof cases
    case hold
    then have r: "\<not> ij_resolved i" by (simp add: holding_def)
    from decide_settles [OF hold(2), of env] show ?thesis
    proof (cases "ij_stop (decide env i) = None")
      case True
      with decide_settles [OF hold(2), of env] have s: "settled env body w (decide env i)" by simp
      with True hold r d [OF s] show ?thesis by (auto simp: finish_def settled_def)
    qed (simp add: finish_def hold r)
  next
    case settled
    with d [OF settled(2)] show ?thesis by (auto simp: finish_def settled_def)
  qed (simp add: finish_def)
qed

subsection \<open>The interim responses\<close>

lemma injector_ops_sel [simp]: "wr_Header (injector_ops env) = inj_Header" "wr_SetHeader (injector_ops env) = inj_SetHeader"
  "wr_WriteHeader (injector_ops env) = inj_WriteHeader" "wr_Write (injector_ops env) = inj_Write env"
  by (simp_all add: injector_ops_def)

lemma interims_through:
  "\<forall>(st, h)\<in>set xs. is_interim st \<Longrightarrow>
     foldl (proxy_interim (injector_ops env)) (newInjector w) xs = newInjector (foldl (proxy_interim recorder_writer) w xs)"
proof (induction xs arbitrary: w)
  case (Cons x xs)
  have "proxy_interim (injector_ops env) (newInjector w) x = newInjector (proxy_interim recorder_writer w x)"
    using Cons.prems by (auto simp: proxy_interim_def newInjector_def inj_SetHeader_def inj_WriteHeader_def inj_Header_def)
  then show ?case using Cons by simp
qed simp

lemma final_through:
  assumes "rec_sent w = None" and "\<not> is_interim st"
  shows "page_inv env (rec_body w) (rec_WriteHeader st (rec_SetHeader h w)) (inj_WriteHeader st (inj_SetHeader h (newInjector w)))"
  by (rule WriteHeader_page)
    (use assms in \<open>simp_all add: newInjector_def inj_SetHeader_def inj_Header_def rec_WriteHeader_sent\<close>)

lemma proxy_through:
  assumes "rec_sent w = None" and "\<forall>(st, h)\<in>set (up_Interim a). is_interim st"
    and "\<forall>st h bs. up_Final a = Some (st, h, bs) \<longrightarrow> \<not> is_interim st"
  shows "page_inv env (rec_body w) (proxy_serve recorder_writer a w) (proxy_serve (injector_ops env) a (newInjector w))"
proof -
  define v where "v = foldl (proxy_interim recorder_writer) w (up_Interim a)"
  have v: "rec_sent v = None" "rec_body v = rec_body w" using rec_wr.interims_sent [OF assms(1,2)] by (simp_all add: v_def)
  have h: "inj_Header (newInjector v) = rec_Header v" by (simp add: newInjector_def inj_Header_def)
  show ?thesis
  proof (cases "up_Final a")
    case None
    let ?h = "error_header (rec_Header v)"
    show ?thesis
      using Write_page [OF final_through [OF v(1), of 502 env ?h]] v h
      by (simp add: proxy_serve_def None interims_through [OF assms(2)] v_def [symmetric] http_Error_def Let_def is_interim_def)
  next
    case (Some f)
    then obtain st h' bs where f: "up_Final a = Some (st, h', bs)" by (cases f) auto
    show ?thesis
      using Writes_page [OF final_through [OF v(1) assms(3) [rule_format, OF f], of env "hdr_merge (rec_Header v) (modify_response h')"], of bs] v h
      by (simp add: proxy_serve_def f interims_through [OF assms(2)] v_def [symmetric] Let_def)
  qed
qed

subsection \<open>No panic\<close>

lemma giveUp_stop [simp]: "ij_stop (giveUp i) = ij_stop i" "ij_resolved (giveUp i)"
  by (simp_all add: giveUp_def inj_send_def Let_def)

lemma inject_stop [simp]: "ij_stop (inj_inject plan p i) = ij_stop i" "ij_resolved (inj_inject plan p i)"
  by (simp_all add: inj_inject_def Let_def)

lemma decide_runs:
  assumes "keeps_width (ie_lower env) (ij_buf i)" and "ij_stop i = None"
  shows "ij_stop (decide env i) = None \<and> ij_resolved (decide env i)"
proof -
  obtain q where q: "insertionPoint (ie_lower env) (ie_spare env) (ij_buf i) = Inr q"
    using insertion_from_sound [OF assms(1), of 0] assms(1) by (auto simp: insertionPoint_def)
  obtain ps where "metaPolicies (ie_lower env) (ij_buf i) = Some (Inr ps)"
    using meta_from_returns [OF assms(1), of 0] by (auto simp: metaPolicies_def)
  with q assms(2) show ?thesis by (auto simp: decide_def Let_def split: option.splits)
qed

definition undisturbed :: "bytes \<Rightarrow> injector \<Rightarrow> bool" where
  "undisturbed page i \<longleftrightarrow> ij_stop i = None \<and> ij_checked i \<and> (ij_resolved i \<or> ij_buf i = page)"

lemma giveUp_checked [simp]: "ij_checked (giveUp i) = ij_checked i" "ij_checked (inj_note why i) = ij_checked i"
  by (simp_all add: giveUp_def inj_send_def inj_note_def Let_def)

lemma decide_checked: "ij_checked (decide env i) = ij_checked i"
  by (simp add: decide_def inj_inject_def Let_def split: sum.splits option.splits)

lemma Write_runs:
  assumes "undisturbed page i" and "keeps_width (ie_lower env) (page @ b)"
  shows "undisturbed (page @ b) (inj_Write env b i)"
proof (cases "ij_resolved i")
  case True
  with assms(1) show ?thesis by (simp add: undisturbed_def inj_Write_def)
next
  case False
  let ?i = "i\<lparr>ij_buf := page @ b\<rparr>"
  have e: "inj_Write env b i = (if \<not> looksLikeDocument (page @ b) then giveUp (inj_note ''body-is-not-a-document'' ?i)
        else if headEnd (ie_lower env) (page @ b) \<noteq> None \<or> headBudget \<le> length (page @ b) then decide env ?i else ?i)"
    using False assms(1) by (simp add: inj_Write_def undisturbed_def Let_def)
  show ?thesis
    using decide_runs [of env ?i] assms by (auto simp: e undisturbed_def decide_checked inj_note_def)
qed

lemma Writes_run:
  "undisturbed page i \<Longrightarrow> \<forall>k. keeps_width (ie_lower env) (page @ concat (take k bs)) \<Longrightarrow>
     undisturbed (page @ concat bs) (foldl (\<lambda>i b. inj_Write env b i) i bs)"
proof (induction bs arbitrary: page i)
  case (Cons b bs)
  have "keeps_width (ie_lower env) (page @ b)" using Cons.prems(2) [rule_format, of "Suc 0"] by simp
  moreover have "\<forall>k. keeps_width (ie_lower env) ((page @ b) @ concat (take k bs))"
    using Cons.prems(2) [rule_format, of "Suc k" for k] by simp
  ultimately show ?case using Cons.IH [of "page @ b" "inj_Write env b i"] Write_runs [OF Cons.prems(1)] by simp
qed simp

lemma finish_runs:
  assumes "undisturbed page i" and "keeps_width (ie_lower env) page"
  shows "ij_stop (finish env i) = None"
  using assms decide_runs [of env i] by (auto simp: finish_def undisturbed_def inj_send_def Let_def)

lemma WriteHeader_runs: "\<not> is_interim st \<Longrightarrow> undisturbed [] (inj_WriteHeader st (inj_SetHeader h (newInjector w)))"
  by (simp add: undisturbed_def inj_WriteHeader_def newInjector_def inj_SetHeader_def inj_note_def Let_def)

lemma page_runs:
  assumes "\<forall>(st, h)\<in>set (up_Interim a). is_interim st" and "up_Final a = Some (st, h, bs)" and "\<not> is_interim st"
    and "\<forall>k. keeps_width (ie_lower env) (concat (take k bs))"
  shows "ij_stop (inject_page env a w) = None"
proof -
  define v where "v = foldl (proxy_interim recorder_writer) w (up_Interim a)"
  let ?i = "inj_WriteHeader st (inj_SetHeader (hdr_merge (rec_Header v) (modify_response h)) (newInjector v))"
  have "undisturbed (concat bs) (foldl (\<lambda>i b. inj_Write env b i) ?i bs)"
    using Writes_run [OF WriteHeader_runs [OF assms(3)], of env bs] assms(4) by simp
  moreover have "inj_Header (newInjector v) = rec_Header v" by (simp add: newInjector_def inj_Header_def)
  ultimately show ?thesis
    using finish_runs [of "concat bs" _ env] assms(4) [rule_format, of "length bs"]
    by (simp add: inject_page_def proxy_serve_def assms(2) interims_through [OF assms(1)] v_def [symmetric] Let_def)
qed

subsection \<open>Properties\<close>

text \<open>C12: a page that goes through the injector reaches the client as it would without it, or with the script of the
  plan inserted once, just past an opening \<open>head\<close> tag of its beginning, under the header that the plan prescribes; the
  latter only for a response that may be rewritten and whose head, with all its policies, was seen within the
  budget. The injector always answers, unless it stops on the page: it never does when the runes of the page's chunks keep
  their width when lowered.\<close>

theorem injected_page_intact:
  assumes "rec_sent w = None" and "\<forall>(st, h)\<in>set (up_Interim a). is_interim st"
    and "up_Final a = Some (st, h, bs)" and "\<not> is_interim st"
  shows "(ij_stop (inject_page env a w) \<noteq> None
      \<or> as_sent (proxy_serve recorder_writer a w) (inject_page env a w)
      \<or> with_script env (rec_body w) (proxy_serve recorder_writer a w) (inject_page env a w))
    \<and> ((\<forall>k. keeps_width (ie_lower env) (concat (take k bs))) \<longrightarrow> ij_stop (inject_page env a w) = None)"
proof
  show "ij_stop (inject_page env a w) \<noteq> None
      \<or> as_sent (proxy_serve recorder_writer a w) (inject_page env a w)
      \<or> with_script env (rec_body w) (proxy_serve recorder_writer a w) (inject_page env a w)"
    unfolding inject_page_def by (rule finish_page [OF proxy_through]) (use assms in auto)
qed (use page_runs [OF assms(2-4)] in blast)

text \<open>A page in two pieces, whose head comes in the second.\<close>

definition demo_env :: inject_env where
  "demo_env = \<lparr>ie_lower = (\<lambda>r. r), ie_sha = (\<lambda>x. x), ie_rand = ''0123456789abcdef'', ie_spare = 0\<rparr>"

definition demo_chunks :: "bytes list" where "demo_chunks = [''<html><he'', ''ad><title>x</title></head><body>'']"

definition demo_html :: upstream_answer where
  "demo_html = \<lparr>up_Interim = [], up_Final = Some (200, hdr_Set hdr_empty ''Content-Type'' ''text/html'', demo_chunks)\<rparr>"

lemma demo_chunks_keep: "keeps_width ul (concat (take k demo_chunks))"
proof -
  have "ascii_string (concat demo_chunks)" by code_simp
  moreover have "set (concat (take k demo_chunks)) \<subseteq> set (concat demo_chunks)"
    by (auto simp: demo_chunks_def take_Cons' split: if_splits)
  ultimately show ?thesis by (intro keeps_width_ascii_string) (auto simp: ascii_string_def list_all_iff)
qed

lemma injected_page_intact_witness:
  "ij_stop (inject_page demo_env demo_html new_recorder) = None
   \<and> (as_sent (proxy_serve recorder_writer demo_html new_recorder) (inject_page demo_env demo_html new_recorder)
      \<or> with_script demo_env [] (proxy_serve recorder_writer demo_html new_recorder) (inject_page demo_env demo_html new_recorder))"
  using injected_page_intact [of new_recorder demo_html 200 "hdr_Set hdr_empty ''Content-Type'' ''text/html''" demo_chunks demo_env]
    demo_chunks_keep [of "ie_lower demo_env"]
  by (auto simp: demo_html_def rec_sent_def rec_body_def new_recorder_def new_response_def)

text \<open>What it is: the script stands just past the opening tag.\<close>

lemma demo_page_facts:
  "responseSkipReason 200 (hdr_merge hdr_empty (modify_response (hdr_Set hdr_empty ''Content-Type'' ''text/html''))) = []"
  "looksLikeDocument ''<html><he''" "headEnd (\<lambda>r. r) ''<html><he'' = None"
  "looksLikeDocument (concat demo_chunks)" "headEnd (\<lambda>r. r) (concat demo_chunks) = Some 28"
  "insertionPoint (\<lambda>r. r) 0 (concat demo_chunks) = Inr (Some 12)"
  by code_simp+

lemma demo_page_metas: "metaPolicies (\<lambda>r. r) (concat demo_chunks) = Some (Inr [])"
  unfolding metaPolicies_def by (subst meta_from.simps) code_simp

lemma no_policies: "planCSP sha rnd [] [] [] = plan_skip\<lparr>pl_mode := ModeExternal\<rparr>"
  by (simp add: planCSP_def)

text \<open>What it is: the script stands just past the opening tag.\<close>

lemma demo_html_injected:
  "rec_body (ij_w (inject_page demo_env demo_html new_recorder)) =
     ''<html><head>'' @ externalTag @ ''<title>x</title></head><body>''"
proof -
  let ?h = "hdr_merge hdr_empty (modify_response (hdr_Set hdr_empty ''Content-Type'' ''text/html''))"
  let ?w = "rec_SetHeader ?h new_recorder"
  let ?i = "(newInjector ?w)\<lparr>ij_checked := True\<rparr>"
  have n: "rec_Header new_recorder = hdr_empty" "rec_body new_recorder = []"
    by (simp_all add: new_recorder_def new_response_def rec_Header_def rec_body_def)
  have 1: "inj_WriteHeader 200 (inj_SetHeader ?h (newInjector new_recorder)) = ?i"
    by (simp add: inj_WriteHeader_def inj_SetHeader_def newInjector_def inj_Header_def demo_page_facts Let_def)
  have 2: "inj_Write demo_env ''<html><he'' ?i = ?i\<lparr>ij_buf := ''<html><he''\<rparr>"
    using demo_page_facts(2,3) by (simp add: inj_Write_def newInjector_def demo_env_def headBudget_def)
  have v: "hdr_Values ?h csp = []" "hdr_Values ?h csp_report = []" by code_simp+
  let ?j = "?i\<lparr>ij_buf := concat demo_chunks\<rparr>"
  have 3: "inj_Write demo_env ''ad><title>x</title></head><body>'' (?i\<lparr>ij_buf := ''<html><he''\<rparr>) = decide demo_env ?j"
    using demo_page_facts(4,5) by (simp add: inj_Write_def newInjector_def demo_env_def demo_chunks_def)
  have 4: "decide demo_env ?j = inj_inject (plan_skip\<lparr>pl_mode := ModeExternal\<rparr>) 12 ?j"
    using demo_page_facts(5,6) demo_page_metas
    by (simp add: decide_def demo_env_def headBudget_def page_plan_def newInjector_def inj_Header_def v no_policies)
  have "inject_page demo_env demo_html new_recorder = finish demo_env (decide demo_env ?j)"
    using 1 2 3 n
    by (simp add: inject_page_def proxy_serve_def demo_html_def demo_chunks_def newInjector_def inj_Header_def)
  then show ?thesis unfolding 4
    by (simp add: finish_def inj_inject_def inj_send_def n newInjector_def plan_tag_def demo_chunks_def)
qed

text \<open>A short page in Latin-1, declared as such: the response is never sent.\<close>

lemma latin1_lower_title:
  assumes "ul rune_error = rune_error"
  shows "bytes_ToLower ul latin1_title = ''<html><head><title>'' @ concat (replicate 11 [CHR 0xEF, CHR 0xBF, CHR 0xBD])
     @ ''</title><meta charset=\"latin1\"></head>''"
proof -
  have "ascii_string ''<html><head><title>''" "ascii_string ''</title><meta charset=\"latin1\"></head>''" by code_simp+
  from latin1_page [where ul = ul, OF assms this] show ?thesis
    unfolding latin1_title_def rune_error_bytes by (simp, code_simp)
qed

lemma latin1_page_never_answered:
  assumes "ie_lower env rune_error = rune_error"
  shows "ij_stop (inject_page env \<lparr>up_Interim = [],
      up_Final = Some (200, hdr_Set hdr_empty ''Content-Type'' ''text/html; charset=iso-8859-1'', [latin1_title])\<rparr> new_recorder) = Some Diverged"
proof -
  let ?ul = "ie_lower env"
  let ?h = "hdr_merge hdr_empty (modify_response (hdr_Set hdr_empty ''Content-Type'' ''text/html; charset=iso-8859-1''))"
  have low: "str_index (bytes_ToLower ?ul latin1_title) ''<head'' = Some 6" "str_index (bytes_ToLower ?ul latin1_title) ''</head'' = Some 83"
    "str_index (bytes_ToLower ?ul latin1_title) ''<body'' = None"
    unfolding latin1_lower_title [where ul = ?ul, OF assms] by code_simp+
  have e: "headEnd ?ul latin1_title = Some 83" using low by (simp add: headEnd_def Let_def)
  have t: "take 6 latin1_title = ''<html>''" "latin1_title ! 11 = CHR ''>''" "str_index (drop 6 latin1_title) ''>'' = Some 5" "length latin1_title = 68"
    unfolding latin1_title_def by code_simp+
  have a: "ascii_string ''<html>''" by code_simp
  have "last_index (to_lower ''<html>'') ''<!--'' = None" by code_simp
  then have "last_index (bytes_ToLower ?ul ''<html>'') ''<!--'' = None" using a by (simp only: bytes_ToLower_def if_True)
  then have "in_comment ?ul (ie_spare env) latin1_title 6 = Inr False" using t by (simp add: in_comment_def slice_range_def)
  then have p: "insertionPoint ?ul (ie_spare env) latin1_title = Inr (Some 12)"
    unfolding insertionPoint_def using low t by (subst insertion_from.simps) (simp add: slice_from_def isTagNameEnd_def)
  note facts = latin1_title_hangs [where ul = ?ul, OF assms]
  have r: "responseSkipReason 200 ?h = []" by code_simp
  have n: "rec_Header new_recorder = hdr_empty" by (simp add: new_recorder_def new_response_def rec_Header_def)
  have d: "ij_stop (decide env i) = Some Diverged" if "ij_buf i = latin1_title" for i
    using that p e facts(2) by (simp add: decide_def headBudget_def)
  show ?thesis
    using r n e facts(1)
    by (simp add: inject_page_def proxy_serve_def newInjector_def inj_Header_def inj_SetHeader_def inj_WriteHeader_def
        inj_Write_def finish_def d Let_def)
qed

end
