(* ===== verification/Ladder.thy ===== *)
theory Ladder
  imports Pay Injector FreeDoor
begin

text \<open>
  The request path of \<open>internal/gate/gate.go\<close>: what the gate knows of a request (\<open>inspect\<close> of \<open>request.go\<close>), the
  claimed machine identities (\<open>identity.go\<close>), the ladder \<open>serve\<close> and \<open>ServeHTTP\<close> around it. The parts it calls are
  in the other theories. A request that panics or that never ends while its page is read leaves with \<open>Some\<close> stop. Logging is
  left out, except for what the gate remembers having warned about.
\<close>

subsection \<open>A request and its surroundings\<close>

record gate_request =
  gq_facts :: request_facts
  gq_clientIP :: addr
  gq_audience :: bytes
  gq_route :: "paid_route option"

definition gate_inspect :: "gate \<Rightarrow> gate_state \<Rightarrow> request \<Rightarrow> gate_request" where
  "gate_inspect g s r =
     \<lparr>gq_facts = inspectRequest r (crawler_Claim (st_crawlers s) (req_Get r ''User-Agent'')),
      gq_clientIP = (case ClientIP (g_match g) r of Inr ip \<Rightarrow> ip | Inl e \<Rightarrow> AddrInvalid),
      gq_audience = requestAudience r,
      gq_route = (if paymentsEnabled g then matchRoute g (req_Path r) else None)\<rparr>"

text \<open>Everything outside the gate that answers while the request is served.\<close>

record surroundings =
  su_host :: host
  su_pay :: pay_env
  su_resolver :: resolver
  su_slot :: bool
  su_inject :: inject_env
  su_upstream :: "request \<Rightarrow> upstream_answer"

text \<open>The state in which \<open>New\<close> leaves the gate.\<close>

definition new_state :: "act_log option \<Rightarrow> crawler_set \<Rightarrow> grants_bucket \<Rightarrow> (bytes \<Rightarrow> fac_state) \<Rightarrow> gate_state" where
  "new_state activity crawlers grants facs =
     \<lparr>st_met = newGateMetrics, st_activity = activity, st_crawlers = crawlers, st_grants = grants, st_payLimit = NewLimiter 6 6,
      st_facs = facs, st_pages = (\<lambda>_. None), st_skipReported = [], st_identityIPWarned = False\<rparr>"

type_synonym outcome = "served \<times> stop option"

definition finished :: "served \<Rightarrow> outcome" where "finished sv = (sv, None)"

text \<open>The answers of the gate itself, and the plain way to the upstream.\<close>

definition answered :: "decision \<Rightarrow> recorder \<Rightarrow> gate_state \<Rightarrow> outcome" where
  "answered d w s = finished (w, s, None, d)"

definition forwarded_as :: "gate \<Rightarrow> surroundings \<Rightarrow> decision \<Rightarrow> request \<Rightarrow> recorder \<Rightarrow> gate_state \<Rightarrow> outcome" where
  "forwarded_as g su d r w s =
     (let (w, s, out) = forward g (su_upstream su) recorder_writer r w s in finished (w, s, Some out, d))"

subsection \<open>Claimed identities\<close>

definition warnIdentityIP :: "gate_state \<Rightarrow> gate_state" where
  "warnIdentityIP s = s\<lparr>st_identityIPWarned := True\<rparr>"

text \<open>The state when the claim does not settle the request.\<close>

definition serveClaimedIdentity ::
  "gate \<Rightarrow> surroundings \<Rightarrow> gate_request \<Rightarrow> request \<Rightarrow> recorder \<Rightarrow> gate_state \<Rightarrow> outcome + gate_state" where
  "serveClaimedIdentity g su q r w s =
     (let crawler = fa_crawlerClaim (gq_facts q); hosted = fa_hostedClaim (gq_facts q) in
      if \<not> addr_IsValid (gq_clientIP q) \<and> (crawler \<noteq> [] \<or> hosted \<noteq> HostedNone) then Inr (warnIdentityIP s)
      else if crawler \<noteq> [] then
        (let (v, cs) = crawler_Verify (st_crawlers s) (su_resolver su) (su_slot su) (h_clock (su_host su) AtCrawler) crawler (gq_clientIP q);
             s = s\<lparr>st_crawlers := cs\<rparr>
         in case v of
              Verified \<Rightarrow> Inl (forwarded_as g su DecisionBypassCrawler (set_status (''bypass-crawler-'' @ crawler) r) w s)
            | Indeterminate \<Rightarrow> Inl (answered DecisionCrawlerVerificationUnavailable (serveCrawlerVerificationUnavailable w) s)
            | Unverified \<Rightarrow> Inl (answered DecisionCrawlerUnverified (serveStrictRefusal g r w) s))
      else if hosted \<noteq> HostedNone then
        (let verified = hosted_Verify (g_hosted g) hosted (gq_clientIP q) in
         if verified \<and> tr_AllowHostedFetchers (c_Triage (g_cfg g))
         then Inl (forwarded_as g su DecisionBypassHosted (set_status (''bypass-hosted-'' @ hosted_String hosted) r) w s)
         else Inl (answered (if verified then DecisionHostedRefusal else DecisionHostedUnverified) (serveStrictRefusal g r w) s))
      else Inr s)"

subsection \<open>An admitted page\<close>

definition noteInjectionSkipped :: "bytes \<Rightarrow> gate_state \<Rightarrow> gate_state" where
  "noteInjectionSkipped reason s =
     (if reason \<in> set (st_skipReported s) then s else s\<lparr>st_skipReported := st_skipReported s @ [reason]\<rparr>)"

definition identity_encoding :: "request \<Rightarrow> request" where
  "identity_encoding r = r\<lparr>req_Header := hdr_Set (req_Header r) ''Accept-Encoding'' ''identity''\<rparr>"

definition servePoWUpstream :: "gate \<Rightarrow> surroundings \<Rightarrow> gate_request \<Rightarrow> request \<Rightarrow> recorder \<Rightarrow> gate_state \<Rightarrow> outcome" where
  "servePoWUpstream g su q r w s =
     (let navigation = fa_navigation (gq_facts q) in
      if \<not> c_Inject (g_cfg g) then forwarded_as g su DecisionPassPoW r w s
      else if \<not> injectableRequest r navigation then
        forwarded_as g su DecisionPassPoW r w
          (if req_Method r = ''GET'' \<and> navigation then noteInjectionSkipped ''request-shape-not-injectable'' s else s)
      else
        (let (i, s, out) = forward g (su_upstream su) (injector_ops (su_inject su)) (identity_encoding r) (newInjector w) s;
             i = finish (su_inject su) i;
             s = foldl (\<lambda>s reason. noteInjectionSkipped reason s) s (ij_notes i)
         in ((ij_w i, s, Some out, DecisionPassPoW), ij_stop i)))"

subsection \<open>The ladder\<close>

text \<open>Headers that only the gate may set.\<close>

definition scrubbed :: "request \<Rightarrow> request" where
  "scrubbed r = r\<lparr>req_Header := hdr_Del_all (req_Header r) [''X-Anteroom-Status'', actionHeader, HeaderResponse, HeaderRequired]\<rparr>"

definition serve_pass :: "gate \<Rightarrow> surroundings \<Rightarrow> gate_request \<Rightarrow> request \<Rightarrow> pass \<Rightarrow> recorder \<Rightarrow> gate_state \<Rightarrow> outcome" where
  "serve_pass g su q r p w s =
     (let r = set_status (''pass-'' @ pass_Kind p) r;
          r = r\<lparr>req_Header := stripPassCookie (req_Header r)\<rparr>
      in if pass_Kind p = KindPaid then
           (let (p, s, out) = forward g (su_upstream su) paid_writer_ops r (new_paid_writer [] w) s
            in finished (pw_w p, s, Some out, DecisionPassPaid))
         else servePoWUpstream g su q r w s)"

definition serve_free :: "gate \<Rightarrow> surroundings \<Rightarrow> gate_request \<Rightarrow> request \<Rightarrow> recorder \<Rightarrow> gate_state \<Rightarrow> outcome" where
  "serve_free g su q r w s =
     (if fa_navigation (gq_facts q) then
        (let (w, cache) = serveWaitPage g (h_assets (su_host su)) (h_pages (su_host su)) r (st_pages s) w
         in answered DecisionWaitPage w (s\<lparr>st_pages := cache\<rparr>))
      else answered DecisionRefusal (serveRefusal g r w) s)"

definition serve_walled :: "gate \<Rightarrow> surroundings \<Rightarrow> gate_request \<Rightarrow> request \<Rightarrow> recorder \<Rightarrow> gate_state \<Rightarrow> outcome" where
  "serve_walled g su q r w s =
     (case (if paymentsEnabled g then gq_route q else None) of
        None \<Rightarrow> serve_free g su q r w s
      | Some rt \<Rightarrow>
         (case hdr_Values (req_Header r) HeaderSignature of
            [v] \<Rightarrow> finished (servePayment g (su_host su) (su_pay su) (su_upstream su) r rt v w s)
          | v # v' # vs \<Rightarrow>
              finished (pay_refuse g r (pr_rule rt) DecisionPayMalformed ''exactly one PAYMENT-SIGNATURE header is required'' 0 w s)
          | [] \<Rightarrow>
              if \<not> fa_navigation (gq_facts q)
              then finished (pay_refuse g r (pr_rule rt) DecisionPaymentRequired ''PAYMENT-SIGNATURE header is required'' 0 w s)
              else serve_free g su q r w s))"

definition serve :: "gate \<Rightarrow> surroundings \<Rightarrow> gate_request \<Rightarrow> request \<Rightarrow> recorder \<Rightarrow> gate_state \<Rightarrow> outcome" where
  "serve g su q r w s =
     (let r = scrubbed r; p = req_Path r in
      if p \<noteq> cleanPath p \<or> CHR 0x5C \<in> set p then
        answered DecisionNonCanonicalPath
          (http_Error recorder_writer ''bad request: non-canonical path'' 400 (noStore w)) s
      else if p \<noteq> HealthPath \<and> g_publicHosts g \<noteq> [] \<and> gq_audience q \<notin> set (g_publicHosts g) then
        answered DecisionUnknownAuthority
          (http_Error recorder_writer ''misdirected request: authority is not served here'' 421 (noStore w)) s
      else if has_prefix p gate_prefix then
        (let (w, s) = serveOwn g (su_host su) r w s in answered DecisionOwnEndpoint w s)
      else if match_Path (g_match g) p then forwarded_as g su DecisionBypassPath r w s
      else if addr_IsValid (gq_clientIP q) \<and> match_IP (g_match g) (gq_clientIP q) then forwarded_as g su DecisionBypassIP r w s
      else if fa_preflight (gq_facts q) then forwarded_as g su DecisionCORSPreflight r w s
      else
        (case serveClaimedIdentity g su q r w s of
           Inl res \<Rightarrow> res
         | Inr s \<Rightarrow>
            (case validPassAt g r (h_clock (su_host su) AtPass) of
               None \<Rightarrow> serve_walled g su q r w s
             | Some pass \<Rightarrow>
                if scopeCovers g pass p then serve_pass g su q r pass w s else serve_walled g su q r w s)))"

subsection \<open>The handler\<close>

definition on_met :: "(gate_metrics \<Rightarrow> gate_metrics) \<Rightarrow> gate_state \<Rightarrow> gate_state" where
  "on_met f s = s\<lparr>st_met := f (st_met s)\<rparr>"

definition count_request :: "decision \<Rightarrow> nat \<Rightarrow> gate_metrics \<Rightarrow> gate_metrics" where
  "count_request d n m = countBytes (m\<lparr>gm_requests := count_in (decision_String d) (gm_requests m)\<rparr>) d (of_nat n)"

definition in_flight :: "(gauge \<Rightarrow> gauge) \<Rightarrow> gate_metrics \<Rightarrow> gate_metrics" where
  "in_flight f m = m\<lparr>gm_inFlight := f (gm_inFlight m)\<rparr>"

text \<open>A panic unwinds to the deferred decrement; a request that never ends does not reach it.\<close>

definition ServeHTTP :: "gate \<Rightarrow> surroundings \<Rightarrow> request \<Rightarrow> gate_state \<Rightarrow> outcome" where
  "ServeHTTP g su r s =
     (let s = on_met (in_flight gauge_Inc) s;
          q = gate_inspect g s r;
          ((w, s, out, d), st) = serve g su q r new_recorder s
      in case st of
           None \<Rightarrow>
             (let s = on_met (count_request d (rec_n w)) s;
                  s = recordDecision (su_host su) d (gq_clientIP q) s
              in ((w, on_met (in_flight gauge_Dec) s, out, d), None))
         | Some Panicked \<Rightarrow> ((w, on_met (in_flight gauge_Dec) s, out, d), Some Panicked)
         | Some Diverged \<Rightarrow> ((w, s, out, d), Some Diverged))"


subsection \<open>Who reaches the upstream\<close>

text \<open>The headers that the gate sets or removes on a request's way; the status it writes.\<close>

definition gate_headers :: "bytes set" where
  "gate_headers = {''X-Anteroom-Status'', actionHeader, HeaderResponse, HeaderRequired, ''Cookie'', ''Accept-Encoding''}"

definition status_of :: "gate_request \<Rightarrow> decision \<Rightarrow> bytes list" where
  "status_of q d =
     (case d of
        DecisionPassPoW \<Rightarrow> [''pass-pow'']
      | DecisionPassPaid \<Rightarrow> [''pass-paid'']
      | DecisionBypassCrawler \<Rightarrow> [''bypass-crawler-'' @ fa_crawlerClaim (gq_facts q)]
      | DecisionBypassHosted \<Rightarrow> [''bypass-hosted-'' @ hosted_String (fa_hostedClaim (gq_facts q))]
      | _ \<Rightarrow> [])"

text \<open>\<open>r'\<close> is the request \<open>r\<close> with the gate's own marks.\<close>

definition marked :: "request \<Rightarrow> bytes list \<Rightarrow> request \<Rightarrow> bool" where
  "marked r status r' \<longleftrightarrow> r'\<lparr>req_Header := req_Header r\<rparr> = r
     \<and> (\<forall>k. k \<notin> gate_headers \<longrightarrow> hdr_Values (req_Header r') k = hdr_Values (req_Header r) k)
     \<and> hdr_Values (req_Header r') ''X-Anteroom-Status'' = status"

definition covering_pass :: "gate \<Rightarrow> surroundings \<Rightarrow> request \<Rightarrow> pass \<Rightarrow> bool" where
  "covering_pass g su r p \<longleftrightarrow> validPassAt g (scrubbed r) (h_clock (su_host su) AtPass) = Some p \<and> scopeCovers g p (req_Path r)"

definition paid_now :: "gate \<Rightarrow> surroundings \<Rightarrow> gate_state \<Rightarrow> request \<Rightarrow> bool" where
  "paid_now g su s r \<longleftrightarrow> paymentsEnabled g \<and>
     (\<exists>rt v p req pid gr. matchRoute g (req_Path r) = Some rt \<and> hdr_Values (req_Header r) HeaderSignature = [v]
        \<and> pay_precheck g (scrubbed r) (pr_rule rt) v = Inr (p, req, pid)
        \<and> backed g (su_host su) (su_pay su) (scrubbed r) rt s p req pid gr
        \<and> h_clock (su_host su) AtGrant < unix_time (g_ExpiresAt gr))"

text \<open>The reason behind each decision that lets a request through.\<close>

definition admitted :: "gate \<Rightarrow> surroundings \<Rightarrow> gate_state \<Rightarrow> request \<Rightarrow> decision \<Rightarrow> bool" where
  "admitted g su s r d \<longleftrightarrow>
     (let q = gate_inspect g s r; ip = gq_clientIP q in
      case d of
        DecisionBypassPath \<Rightarrow> match_Path (g_match g) (req_Path r)
      | DecisionBypassIP \<Rightarrow> addr_IsValid ip \<and> match_IP (g_match g) ip
      | DecisionCORSPreflight \<Rightarrow> isCORSPreflight r
      | DecisionBypassCrawler \<Rightarrow> addr_IsValid ip \<and> fst (crawler_Verify (st_crawlers s) (su_resolver su) (su_slot su)
            (h_clock (su_host su) AtCrawler) (crawler_Claim (st_crawlers s) (req_Get r ''User-Agent'')) ip) = Verified
      | DecisionBypassHosted \<Rightarrow> tr_AllowHostedFetchers (c_Triage (g_cfg g))
          \<and> hosted_Verify (g_hosted g) (hosted_Claim (req_Get r ''User-Agent'')) ip
      | DecisionPassPoW \<Rightarrow> (\<exists>p. covering_pass g su r p \<and> pass_Kind p = KindPoW)
      | DecisionPassPaid \<Rightarrow> (\<exists>p. covering_pass g su r p \<and> pass_Kind p = KindPaid) \<or> paid_now g su s r
      | _ \<Rightarrow> False)"

text \<open>What holds of every request before the first rung.\<close>

definition servable :: "gate \<Rightarrow> request \<Rightarrow> bool" where
  "servable g r \<longleftrightarrow> cleanPath (req_Path r) = req_Path r \<and> CHR 0x5C \<notin> set (req_Path r) \<and> \<not> has_prefix (req_Path r) gate_prefix
     \<and> (g_publicHosts g \<noteq> [] \<longrightarrow> requestAudience r \<in> set (g_publicHosts g))"

definition lawful :: "gate \<Rightarrow> surroundings \<Rightarrow> gate_state \<Rightarrow> request \<Rightarrow> outcome \<Rightarrow> bool" where
  "lawful g su s r = (\<lambda>((w', s', out, d), st).
     case out of
       None \<Rightarrow> \<not> upstream d \<and> st = None
     | Some o' \<Rightarrow> upstream d \<and> admitted g su s r d
         \<and> (\<exists>r'. o' = forwarded g r' \<and> marked r (status_of (gate_inspect g s r) d) r'))"

lemma scrubbed_facts [simp]:
  "req_Method (scrubbed r) = req_Method r" "req_Path (scrubbed r) = req_Path r" "req_Host (scrubbed r) = req_Host r"
  by (simp_all add: scrubbed_def)

lemma scrubbed_values: "hdr_Values (req_Header (scrubbed r)) k =
   (if k \<in> {''X-Anteroom-Status'', actionHeader, HeaderResponse, HeaderRequired} then [] else hdr_Values (req_Header r) k)"
  by (simp add: scrubbed_def hdr_Values_Del_all)

lemma gate_headers_status [simp]: "''X-Anteroom-Status'' \<in> gate_headers" "''Accept-Encoding'' \<in> gate_headers" "''Cookie'' \<in> gate_headers"
  by (simp_all add: gate_headers_def)

lemma marked_scrubbed: "marked r [] (scrubbed r)"
  unfolding marked_def scrubbed_values by (simp add: gate_headers_def) (simp add: scrubbed_def)

lemma marked_status: "marked r s0 r' \<Longrightarrow> marked r [v] (set_status v r')"
  by (auto simp: marked_def set_status_def)

lemma marked_strip: "marked r s0 r' \<Longrightarrow> marked r s0 (r'\<lparr>req_Header := stripPassCookie (req_Header r')\<rparr>)"
  unfolding marked_def by (auto simp: stripPassCookie_frame gate_headers_def)

lemma marked_identity: "marked r s0 r' \<Longrightarrow> marked r s0 (identity_encoding r')"
  by (auto simp: marked_def identity_encoding_def)

lemma lawful_answered: "\<not> upstream d \<Longrightarrow> lawful g su s r (answered d w s')"
  by (simp add: lawful_def answered_def finished_def)

lemma lawful_forwarded:
  assumes "upstream d" and "admitted g su s r d" and "marked r (status_of (gate_inspect g s r) d) r'"
  shows "lawful g su s r (forwarded_as g su d r' w s')"
  using assms by (auto simp: lawful_def forwarded_as_def forward_def finished_def Let_def)

lemma PoW_lawful:
  assumes "admitted g su s r DecisionPassPoW" and "marked r [''pass-pow''] r'"
  shows "lawful g su s r (servePoWUpstream g su q r' w s')"
proof -
  have "upstream DecisionPassPoW" "status_of (gate_inspect g s r) DecisionPassPoW = [''pass-pow'']"
    by (simp_all add: upstream_def status_of_def)
  with assms marked_identity [OF assms(2)] show ?thesis
    unfolding servePoWUpstream_def
    by (auto simp: Let_def intro!: lawful_forwarded) (auto simp: lawful_def forward_def Let_def)
qed

lemma covering_kind: "covering_pass g su r p \<Longrightarrow> pass_Kind p = KindPoW \<or> pass_Kind p = KindPaid"
  unfolding covering_pass_def using validPassAt_usable verified_kind by (fastforce simp: usable_pass_def)

lemma serve_pass_lawful:
  assumes "covering_pass g su r p"
  shows "lawful g su s r (serve_pass g su q (scrubbed r) p w s')"
proof -
  let ?r = "(set_status (''pass-'' @ pass_Kind p) (scrubbed r))"
  have m: "marked r [''pass-'' @ pass_Kind p] (?r\<lparr>req_Header := stripPassCookie (req_Header ?r)\<rparr>)"
    by (intro marked_strip marked_status [OF marked_scrubbed])
  show ?thesis
  proof (cases "pass_Kind p = KindPaid")
    case True
    have "admitted g su s r DecisionPassPaid" using assms True by (auto simp: admitted_def)
    with m True show ?thesis
      by (auto simp: serve_pass_def Let_def lawful_def forward_def finished_def upstream_def status_of_def KindPaid_def)
  next
    case False
    then have k: "pass_Kind p = KindPoW" using covering_kind [OF assms] by simp
    then have "admitted g su s r DecisionPassPoW" using assms by (auto simp: admitted_def)
    then show ?thesis
      using PoW_lawful [OF _ m [unfolded k KindPoW_def, simplified]] False k by (simp add: serve_pass_def Let_def KindPoW_def KindPaid_def)
  qed
qed

lemma serve_free_lawful: "lawful g su s r (serve_free g su q r' w s')"
  by (auto simp: serve_free_def upstream_def lawful_answered split: prod.splits intro!: lawful_answered)

lemma lawful_finished_refused:
  "refused g r' u w sv \<Longrightarrow> lawful g su s r (finished sv)"
  by (auto simp: refused_def lawful_def finished_def)

lemma backed_grants: "st_grants s' = st_grants s \<Longrightarrow> backed g hs pe r rt s' p req pid gr = backed g hs pe r rt s p req pid gr"
  by (simp add: backed_def)

lemma payment_lawful:
  assumes "matchRoute g (req_Path r) = Some rt" and "paymentsEnabled g" and "hdr_Values (req_Header (scrubbed r)) HeaderSignature = [v]"
    and "st_grants s' = st_grants s"
  shows "lawful g su s r (finished (servePayment g (su_host su) (su_pay su) (su_upstream su) (scrubbed r) rt v w s'))"
proof -
  have v: "hdr_Values (req_Header r) HeaderSignature = [v]"
    using assms(3) by (auto simp: scrubbed_values split: if_splits)
  from servePayment_cases [of g "scrubbed r" rt w "su_host su" "su_pay su" "su_upstream su" v s']
  consider (refused) "refused g (scrubbed r) (pr_rule rt) w (servePayment g (su_host su) (su_pay su) (su_upstream su) (scrubbed r) rt v w s')"
    | (pending) "pending g (scrubbed r) w (servePayment g (su_host su) (su_pay su) (su_upstream su) (scrubbed r) rt v w s')"
    | (passed) p req pid gr where "pay_precheck g (scrubbed r) (pr_rule rt) v = Inr (p, req, pid)"
        "backed g (su_host su) (su_pay su) (scrubbed r) rt s' p req pid gr"
        "passed g (su_host su) (scrubbed r) gr (servePayment g (su_host su) (su_pay su) (su_upstream su) (scrubbed r) rt v w s')"
    unfolding backed_def sold_def by blast
  then show ?thesis
  proof cases
    case refused
    then show ?thesis by (rule lawful_finished_refused)
  next
    case pending
    then show ?thesis by (auto simp: pending_def lawful_def finished_def)
  next
    case passed
    have "paid_now g su s r"
      unfolding paid_now_def using assms(1,2) v passed backed_grants [OF assms(4)] by (auto simp: passed_def)
    then have "admitted g su s r DecisionPassPaid" by (simp add: admitted_def)
    then show ?thesis
      using passed(3) marked_status [OF marked_scrubbed, of r "''pass-paid''"]
      by (auto simp: passed_def lawful_def finished_def status_of_def)
  qed
qed

lemma serve_walled_lawful:
  assumes "gq_route q = (if paymentsEnabled g then matchRoute g (req_Path r) else None)" and "st_grants s' = st_grants s"
  shows "lawful g su s r (serve_walled g su q (scrubbed r) w s')"
proof (cases "if paymentsEnabled g then gq_route q else None")
  case None
  then show ?thesis unfolding serve_walled_def by (simp only: option.case serve_free_lawful)
next
  case (Some rt)
  then have rt: "paymentsEnabled g" "gq_route q = Some rt" "matchRoute g (req_Path r) = Some rt" using assms(1) by (auto split: if_splits)
  have r: "lawful g su s r (finished (pay_refuse g (scrubbed r) (pr_rule rt) d msg 0 w s'))" if "\<not> upstream d" "d \<noteq> DecisionPayPending" for d msg
    by (rule lawful_finished_refused [OF pay_refuse_refused]) (rule that)+
  show ?thesis
    unfolding serve_walled_def using payment_lawful [OF rt(3,1) _ assms(2)] r serve_free_lawful
    by (auto simp: rt(1,2) split: list.split)
qed

lemma claimed_lawful:
  assumes "q = gate_inspect g s r"
  shows "case serveClaimedIdentity g su q (scrubbed r) w s of
     Inl res \<Rightarrow> lawful g su s r res
   | Inr s' \<Rightarrow> st_grants s' = st_grants s \<and> st_met s' = st_met s"
proof -
  have f: "fa_crawlerClaim (gq_facts q) = crawler_Claim (st_crawlers s) (req_Get r ''User-Agent'')"
    "fa_hostedClaim (gq_facts q) = hosted_Claim (req_Get r ''User-Agent'')"
    by (simp_all add: assms gate_inspect_def inspectRequest_def Let_def)
  have m: "marked r [v] (set_status v (scrubbed r))" for v by (rule marked_status [OF marked_scrubbed])
  let ?ip = "gq_clientIP q" and ?c = "fa_crawlerClaim (gq_facts q)" and ?h = "fa_hostedClaim (gq_facts q)"
  consider (unknown) "\<not> addr_IsValid ?ip" "?c \<noteq> [] \<or> ?h \<noteq> HostedNone" | (none) "?c = []" "?h = HostedNone"
    | (crawler) "addr_IsValid ?ip" "?c \<noteq> []" | (hosted) "addr_IsValid ?ip" "?c = []" "?h \<noteq> HostedNone" by blast
  then show ?thesis
  proof cases
    case unknown
    then show ?thesis by (auto simp: serveClaimedIdentity_def warnIdentityIP_def)
  next
    case none
    then show ?thesis by (simp add: serveClaimedIdentity_def)
  next
    case crawler
    let ?v = "crawler_Verify (st_crawlers s) (su_resolver su) (su_slot su) (h_clock (su_host su) AtCrawler) ?c ?ip"
    obtain v cs where v: "?v = (v, cs)" by force
    have a: "admitted g su s r DecisionBypassCrawler" if "v = Verified"
      using crawler(1) v that unfolding f(1) by (simp add: admitted_def Let_def assms)
    have st: "status_of (gate_inspect g s r) DecisionBypassCrawler = [''bypass-crawler-'' @ ?c]" by (simp add: status_of_def assms)
    have u: "upstream DecisionBypassCrawler" "\<not> upstream DecisionCrawlerVerificationUnavailable" "\<not> upstream DecisionCrawlerUnverified"
      by (simp_all add: upstream_def)
    show ?thesis
      using crawler v a m u by (cases v) (auto simp: serveClaimedIdentity_def st Let_def intro!: lawful_answered lawful_forwarded)
  next
    case hosted
    have a: "admitted g su s r DecisionBypassHosted" if "hosted_Verify (g_hosted g) ?h ?ip" "tr_AllowHostedFetchers (c_Triage (g_cfg g))"
      using that unfolding f(2) by (simp add: admitted_def Let_def assms)
    have st: "status_of (gate_inspect g s r) DecisionBypassHosted = [''bypass-hosted-'' @ hosted_String ?h]" by (simp add: status_of_def assms)
    have u: "upstream DecisionBypassHosted" "\<not> upstream DecisionHostedRefusal" "\<not> upstream DecisionHostedUnverified"
      by (simp_all add: upstream_def)
    show ?thesis
      using hosted a m u by (auto simp: serveClaimedIdentity_def st Let_def intro!: lawful_answered lawful_forwarded)
  qed
qed

lemma serve_lawful: "lawful g su s r (serve g su (gate_inspect g s r) r w s)"
proof -
  let ?q = "gate_inspect g s r"
  have u: "upstream DecisionBypassPath" "upstream DecisionBypassIP" "upstream DecisionCORSPreflight"
    "\<not> upstream DecisionNonCanonicalPath" "\<not> upstream DecisionUnknownAuthority" "\<not> upstream DecisionOwnEndpoint"
    by (simp_all add: upstream_def)
  have st: "status_of ?q DecisionBypassPath = []" "status_of ?q DecisionBypassIP = []" "status_of ?q DecisionCORSPreflight = []"
    by (simp_all add: status_of_def)
  have pre: "fa_preflight (gq_facts ?q) = isCORSPreflight r" by (simp add: gate_inspect_def inspectRequest_def Let_def)
  have rt: "gq_route ?q = (if paymentsEnabled g then matchRoute g (req_Path r) else None)" by (simp add: gate_inspect_def)
  have bypass: "match_Path (g_match g) (req_Path r) \<Longrightarrow> lawful g su s r (forwarded_as g su DecisionBypassPath (scrubbed r) w s)"
    "addr_IsValid (gq_clientIP ?q) \<Longrightarrow> match_IP (g_match g) (gq_clientIP ?q) \<Longrightarrow> lawful g su s r (forwarded_as g su DecisionBypassIP (scrubbed r) w s)"
    "isCORSPreflight r \<Longrightarrow> lawful g su s r (forwarded_as g su DecisionCORSPreflight (scrubbed r) w s)"
    by (rule lawful_forwarded; simp add: u st admitted_def Let_def marked_scrubbed)+
  have rest: "lawful g su s r (case serveClaimedIdentity g su ?q (scrubbed r) w s of
      Inl res \<Rightarrow> res
    | Inr s' \<Rightarrow>
       (case validPassAt g (scrubbed r) (h_clock (su_host su) AtPass) of
          None \<Rightarrow> serve_walled g su ?q (scrubbed r) w s'
        | Some pass \<Rightarrow>
           if scopeCovers g pass (req_Path r) then serve_pass g su ?q (scrubbed r) pass w s' else serve_walled g su ?q (scrubbed r) w s'))"
    using claimed_lawful [of ?q g s r su w, OF refl] serve_walled_lawful [OF rt, where s = s] serve_pass_lawful [where g = g and su = su and s = s and r = r]
    by (auto simp: covering_pass_def split: sum.splits option.split)
  show ?thesis
    unfolding serve_def Let_def scrubbed_facts pre
    using bypass rest u by (auto simp: lawful_answered split: prod.split)
qed

lemma serve_servable:
  assumes "serve g su (gate_inspect g s r) r w s = ((w', s', Some o', d), st)"
  shows "servable g r"
proof -
  have "has_prefix HealthPath gate_prefix" by (simp add: HealthPath_def)
  then show ?thesis
    using assms by (auto simp: serve_def servable_def answered_def finished_def gate_inspect_def Let_def split: if_splits prod.splits)
qed

subsection \<open>Properties\<close>

text \<open>C1: nothing passes the gate without a reason. A request reaches the upstream exactly when the rung that ended it
  is one of those that admit, and then its reason holds: the exempted path or range, a preflight, a crawler or
  hosted fetcher whose address was verified, a covering pass of the right kind, or a payment backed by a live
  grant. Its path was canonical and not the gate's own, its authority was served here, and what the upstream gets is the visitor's
  request with the gate's own headers for that rung, whatever the visitor put there.\<close>

theorem upstream_only_if_admitted:
  "case serve g su (gate_inspect g s r) r w s of ((w', s', out, d), st) \<Rightarrow>
     (case out of
        None \<Rightarrow> \<not> upstream d \<and> st = None
      | Some o' \<Rightarrow> upstream d \<and> servable g r \<and> admitted g su s r d
          \<and> (\<exists>r'. o' = forwarded g r' \<and> marked r (status_of (gate_inspect g s r) d) r'))"
proof -
  obtain w' s' out d st where S: "serve g su (gate_inspect g s r) r w s = ((w', s', out, d), st)"
    by (cases "serve g su (gate_inspect g s r) r w s") auto
  show ?thesis
    using serve_lawful [of g su s r w] serve_servable [of g su s r w w' s' _ d st] unfolding S lawful_def
    by (cases out) simp_all
qed

lemma scrubbed_same:
  "Cookies (req_Header (scrubbed r)) = Cookies (req_Header r)" "usable_pass g (scrubbed r) tm v p = usable_pass g r tm v p"
proof -
  have "hdr_Values (req_Header (scrubbed r)) ''Cookie'' = hdr_Values (req_Header r) ''Cookie''"
    "hdr_Values (req_Header (scrubbed r)) ''X-Forwarded-For'' = hdr_Values (req_Header r) ''X-Forwarded-For''"
    by (simp_all add: scrubbed_values actionHeader_def HeaderResponse_def HeaderRequired_def)
  moreover have "req_RemoteAddr (scrubbed r) = req_RemoteAddr r" by (simp add: scrubbed_def)
  ultimately show "Cookies (req_Header (scrubbed r)) = Cookies (req_Header r)"
    "usable_pass g (scrubbed r) tm v p = usable_pass g r tm v p"
    using clientPrefix_cong [OF ClientIP_cong, of "scrubbed r" r g] by (simp_all add: Cookies_def usable_pass_def requestAudience_def)
qed

lemma forwarded_as_out: "\<exists>w' s'. forwarded_as g su d r w s = ((w', s', Some (forwarded g r), d), None)"
  by (simp add: forwarded_as_def forward_def finished_def Let_def)

lemma serve_pass_out:
  "\<exists>w' s' o' d st. serve_pass g su q r p w s = ((w', s', Some o', d), st) \<and> d \<in> {DecisionPassPoW, DecisionPassPaid}"
  using forwarded_as_out unfolding serve_pass_def servePoWUpstream_def Let_def
  by (auto simp: forward_def finished_def Let_def) blast+

text \<open>No claim to an identity that the gate could check.\<close>

definition unclaimed :: "gate_request \<Rightarrow> bool" where
  "unclaimed q \<longleftrightarrow> \<not> addr_IsValid (gq_clientIP q) \<or> fa_crawlerClaim (gq_facts q) = [] \<and> fa_hostedClaim (gq_facts q) = HostedNone"

lemma unclaimed_passes: "unclaimed q \<Longrightarrow> \<exists>s'. serveClaimedIdentity g su q r w s = Inr s'"
  by (auto simp: unclaimed_def serveClaimedIdentity_def Let_def)

lemma covering_pass_enters:
  assumes "servable g r" and "unclaimed (gate_inspect g s r)"
    and pass: "validPassAt g (scrubbed r) (h_clock (su_host su) AtPass) = Some pass" "scopeCovers g pass (req_Path r)"
  shows "\<exists>w' s' o' d st. serve g su (gate_inspect g s r) r w s = ((w', s', Some o', d), st)
    \<and> d \<in> {DecisionBypassPath, DecisionBypassIP, DecisionCORSPreflight, DecisionPassPoW, DecisionPassPaid}"
proof -
  have a: "gq_audience (gate_inspect g s r) = requestAudience r" by (simp add: gate_inspect_def)
  obtain s' where c: "serveClaimedIdentity g su (gate_inspect g s r) (scrubbed r) w s = Inr s'" using unclaimed_passes [OF assms(2)] by blast
  let ?S = "serve g su (gate_inspect g s r) r w s"
  have gone: "\<not> (req_Path r \<noteq> HealthPath \<and> g_publicHosts g \<noteq> [] \<and> gq_audience (gate_inspect g s r) \<notin> set (g_publicHosts g))"
    "\<not> (req_Path r \<noteq> cleanPath (req_Path r) \<or> CHR 0x5C \<in> set (req_Path r))" "\<not> has_prefix (req_Path r) gate_prefix"
    using assms(1) a by (auto simp: servable_def)
  have "?S = (if match_Path (g_match g) (req_Path r) then forwarded_as g su DecisionBypassPath (scrubbed r) w s
      else if addr_IsValid (gq_clientIP (gate_inspect g s r)) \<and> match_IP (g_match g) (gq_clientIP (gate_inspect g s r))
        then forwarded_as g su DecisionBypassIP (scrubbed r) w s
      else if fa_preflight (gq_facts (gate_inspect g s r)) then forwarded_as g su DecisionCORSPreflight (scrubbed r) w s
      else serve_pass g su (gate_inspect g s r) (scrubbed r) pass w s')"
    unfolding serve_def Let_def scrubbed_facts if_not_P [OF gone(1)] if_not_P [OF gone(2)] if_not_P [OF gone(3)] c pass(1) sum.case option.case
      if_P [OF pass(2)] by (rule refl)
  then consider d where "?S = forwarded_as g su d (scrubbed r) w s" "d \<in> {DecisionBypassPath, DecisionBypassIP, DecisionCORSPreflight}"
    | "?S = serve_pass g su (gate_inspect g s r) (scrubbed r) pass w s'" by (auto split: if_splits)
  then show ?thesis
  proof cases
    case (1 d)
    obtain w' s'' where "forwarded_as g su d (scrubbed r) w s = ((w', s'', Some (forwarded g (scrubbed r)), d), None)"
      using forwarded_as_out by blast
    with 1 show ?thesis by auto
  next
    case 2
    then show ?thesis using serve_pass_out [of g su "gate_inspect g s r" "scrubbed r" pass w s'] by auto
  qed
qed

text \<open>C4: a pass opens the gate. Whoever presents a usable pass that covers the path, among whatever other cookies, for a path and an
  authority that the gate serves, and claims no machine identity, is let through: no wait page, no price.\<close>

theorem pass_holder_admitted:
  assumes "servable g r" and "unclaimed (gate_inspect g s r)"
    and "(cookieName, v) \<in> set (Cookies (req_Header r))" and "usable_pass g r (h_clock (su_host su) AtPass) v p"
    and "scopeCovers g p (req_Path r)"
  shows "\<exists>w' s' o' d st. serve g su (gate_inspect g s r) r w s = ((w', s', Some o', d), st)
    \<and> d \<in> {DecisionBypassPath, DecisionBypassIP, DecisionCORSPreflight, DecisionPassPoW, DecisionPassPaid}"
proof -
  obtain pass where "validPassAt g (scrubbed r) (h_clock (su_host su) AtPass) = Some pass" "scopeCovers g pass (req_Path r)"
    using scan_passes_cases [where fb = None and g = g and r = "scrubbed r" and tm = "h_clock (su_host su) AtPass"
        and cs = "Cookies (req_Header (scrubbed r))"] assms(3-5)
    by (auto simp: validPassAt_def scrubbed_same split: option.splits)
  then show ?thesis by (rule covering_pass_enters [OF assms(1,2)])
qed

text \<open>The visitor that holds the pass of the token theory asks for the front page.\<close>

definition demo_surroundings :: surroundings where
  "demo_surroundings = \<lparr>su_host = free_host, su_pay = \<lparr>pe_begin = demo_io, pe_commit = demo_io, pe_release = demo_io,
     pe_lease = None, pe_others = (\<lambda>b. b), pe_fac = Callback.demo_env []\<rparr>, su_resolver = demo_resolver, su_slot = True,
     su_inject = Injector.demo_env, su_upstream = (\<lambda>_. demo_html)\<rparr>"

definition demo_state :: gate_state where
  "demo_state = new_state None \<lparr>cs_providers = [], cs_cache = []\<rparr> (\<lambda>_. None) (\<lambda>_. snd (NewCallbackVerifier [] hdr_empty None))"

lemma demo_servable: "servable free_gate (with_cookie v demo_request)"
proof -
  have "req_Path (with_cookie v demo_request) = ''/''" "g_publicHosts free_gate = []"
    by (simp_all add: with_cookie_def demo_request_def free_gate_def demo_gate_def)
  moreover have "cleanPath ''/'' = ''/''" "\<not> has_prefix ''/'' gate_prefix" by code_simp+
  ultimately show ?thesis by (simp add: servable_def)
qed

lemma demo_unclaimed: "unclaimed (gate_inspect free_gate demo_state (with_cookie v demo_request))"
proof -
  have "req_Get (with_cookie v demo_request) ''User-Agent'' = []" by (simp add: with_cookie_def demo_request_def req_Get_def hdr_Get_Values)
  moreover have "hosted_Claim [] = HostedNone" by code_simp
  ultimately show ?thesis
    by (simp add: unclaimed_def gate_inspect_def inspectRequest_def demo_state_def new_state_def crawler_Claim_def Let_def)
qed

lemma demo_pass_present:
  "(cookieName, demo_cookie const_mac) \<in> set (Cookies (req_Header (with_cookie (demo_cookie const_mac) demo_request)))"
  using Cookies_pass [OF demo_variants(5) [unfolded presents_def]] Mint_cookie_safe [OF demo_mint] by simp

lemma demo_pass_everywhere: "scopeCovers free_gate demo_pass path"
proof -
  have "pass_Kind demo_pass = KindPoW" by code_simp
  with usable_pass_covers [OF demo_pass_usable] show ?thesis by blast
qed

lemma pass_holder_admitted_witness:
  "\<exists>w' s' o' d st. serve free_gate demo_surroundings (gate_inspect free_gate demo_state (with_cookie (demo_cookie const_mac) demo_request))
       (with_cookie (demo_cookie const_mac) demo_request) new_recorder demo_state = ((w', s', Some o', d), st)
     \<and> d \<in> {DecisionBypassPath, DecisionBypassIP, DecisionCORSPreflight, DecisionPassPoW, DecisionPassPaid}"
  by (rule pass_holder_admitted [OF demo_servable demo_unclaimed demo_pass_present _ demo_pass_everywhere])
    (use demo_pass_usable in \<open>simp add: demo_surroundings_def free_host_def\<close>)

subsection \<open>The accounts\<close>

text \<open>The metrics that only \<open>ServeHTTP\<close> touches.\<close>

definition accounts :: "gate_metrics \<Rightarrow> counter vec \<times> gauge \<times> counter \<times> counter \<times> counter" where
  "accounts m = (gm_requests m, gm_inFlight m, gm_challengeBytes m, gm_upstreamBytes m, gm_bytesTotal m)"

definition same_accounts :: "gate_state \<Rightarrow> gate_state \<Rightarrow> bool" where
  "same_accounts s s' \<longleftrightarrow> accounts (st_met s') = accounts (st_met s)"

lemma same_accounts_refl [simp, intro]: "same_accounts s s"
  by (simp add: same_accounts_def)

lemma same_accounts_trans: "same_accounts s t \<Longrightarrow> same_accounts t u \<Longrightarrow> same_accounts s u"
  by (simp add: same_accounts_def)

lemma same_accounts_fields [simp]:
  "same_accounts s (s\<lparr>st_grants := a\<rparr>)" "same_accounts s (s\<lparr>st_payLimit := b\<rparr>)" "same_accounts s (s\<lparr>st_facs := c\<rparr>)"
  "same_accounts s (s\<lparr>st_crawlers := d\<rparr>)" "same_accounts s (s\<lparr>st_pages := e\<rparr>)" "same_accounts s (s\<lparr>st_activity := f\<rparr>)"
  "same_accounts s (warnIdentityIP s)" "same_accounts s (noteInjectionSkipped why s)"
  by (simp_all add: same_accounts_def warnIdentityIP_def noteInjectionSkipped_def)

lemma forward_accounts: "forward g up ops r w s = (w', s', out) \<Longrightarrow> same_accounts s s'"
  by (auto simp: forward_def same_accounts_def accounts_def Let_def)

definition keeps_accounts :: "gate_state \<Rightarrow> served \<Rightarrow> bool" where
  "keeps_accounts s = (\<lambda>(w', s', out, d). same_accounts s s')"

lemma refuse_accounts [simp]: "keeps_accounts s (pay_refuse g r u d msg retry w s') = same_accounts s s'"
  by (simp add: keeps_accounts_def pay_refuse_def)

lemma PaidGrant_accounts: "keeps_accounts s (servePaidGrant g hs up r u gr w s)"
proof (cases "setPassCookie g r (h_clock hs AtMint) (paid_pass gr) (unix_time (g_ExpiresAt gr)) None")
  case (Inr c)
  let ?s = "s\<lparr>st_met := (st_met s)\<lparr>gm_minted := count_in ''paid'' (gm_minted (st_met s))\<rparr>\<rparr>"
  have "same_accounts s ?s" by (simp add: same_accounts_def accounts_def)
  with Inr show ?thesis
    by (auto simp: servePaidGrant_def keeps_accounts_def Let_def pay_refuse_def split: prod.split
        intro: same_accounts_trans dest: forward_accounts)
qed (simp add: servePaidGrant_def Let_def)

lemma keeps_trans: "same_accounts s t \<Longrightarrow> keeps_accounts t sv \<Longrightarrow> keeps_accounts s sv"
  by (auto simp: keeps_accounts_def same_accounts_def split: prod.splits)

lemma pay_settled_accounts: "keeps_accounts s (pay_settled g hs pe up r rt pid lease req res w s)"
proof -
  have "same_accounts s (s\<lparr>st_grants := db, st_met := countPaidValue g a n u (st_met s)\<rparr>)" for a n u db
    by (simp add: same_accounts_def accounts_def countPaidValue_def Let_def split: option.split)
  from keeps_trans [OF this PaidGrant_accounts] show ?thesis
    by (auto simp: pay_settled_def Let_def split: prod.split sum.split)
qed

lemma pay_verdict_accounts: "keeps_accounts s (pay_verdict_case g hs pe up r rt pid lease req res w s)"
  using pay_settled_accounts by (auto simp: pay_verdict_case_def keeps_accounts_def pay_refuse_def split: pay_verdict.split)

lemma pay_reserved_accounts: "keeps_accounts s (pay_reserved g hs pe up r rt p req pid lease w s)"
  using keeps_trans [OF _ pay_verdict_accounts]
  by (auto simp: pay_reserved_def Let_def same_accounts_def split: prod.split option.split)

lemma pay_release_accounts: "keeps_accounts s sv \<Longrightarrow> keeps_accounts s (pay_release pe pid lease sv)"
  by (auto simp: pay_release_def keeps_accounts_def same_accounts_def split: prod.splits)

lemma payment_accounts: "keeps_accounts s (servePayment g hs pe up r rt v w s)"
proof -
  have "keeps_accounts s (servePaidGrant g hs up r u gr w (s\<lparr>st_grants := db\<rparr>))"
    "keeps_accounts s (pay_reserved g hs pe up r rt p req pid lease w (s\<lparr>st_grants := db\<rparr>))" for u gr db p req pid lease
    by (rule keeps_trans [OF _ PaidGrant_accounts], simp) (rule keeps_trans [OF _ pay_reserved_accounts], simp)
  then show ?thesis
    unfolding servePayment_def Let_def
    by (auto split: sum.split prod.split begin_result.split intro!: pay_release_accounts)
qed

lemma own_accounts: "serveOwn g hs r w s = (w', s') \<Longrightarrow> same_accounts s s'"
  by (auto simp: serveOwn_def serveChallenge_def serveAnswer_def noteAnswer_def same_accounts_def accounts_def Let_def
      split: if_splits sum.splits option.splits prod.splits)

definition outcome_accounts :: "gate_state \<Rightarrow> outcome \<Rightarrow> bool" where
  "outcome_accounts s = (\<lambda>(sv, st). keeps_accounts s sv)"

lemma finished_accounts [simp]: "outcome_accounts s (finished sv) = keeps_accounts s sv"
  by (simp add: outcome_accounts_def finished_def)

lemma answered_accounts [simp]: "outcome_accounts s (answered d w s') = same_accounts s s'"
  by (simp add: answered_def keeps_accounts_def)

lemma outcome_trans: "same_accounts s t \<Longrightarrow> outcome_accounts t r \<Longrightarrow> outcome_accounts s r"
  using keeps_trans by (auto simp: outcome_accounts_def)

lemma forwarded_accounts: "outcome_accounts s (forwarded_as g su d r w s)"
  by (auto simp: forwarded_as_def keeps_accounts_def split: prod.split dest: forward_accounts)

lemma notes_accounts: "same_accounts s (foldl (\<lambda>s reason. noteInjectionSkipped reason s) s why)"
proof (induction why arbitrary: s)
  case (Cons x why)
  from same_accounts_trans [OF same_accounts_fields(8) Cons.IH] show ?case by simp
qed simp

lemma PoW_accounts: "outcome_accounts s (servePoWUpstream g su q r w s)"
proof (cases "c_Inject (g_cfg g) \<and> injectableRequest r (fa_navigation (gq_facts q))")
  case True
  obtain i s' out where f: "forward g (su_upstream su) (injector_ops (su_inject su)) (identity_encoding r) (newInjector w) s = (i, s', out)"
    by (rule prod_cases3)
  show ?thesis
    using True same_accounts_trans [OF forward_accounts [OF f] notes_accounts]
    by (simp add: servePoWUpstream_def f Let_def outcome_accounts_def keeps_accounts_def)
next
  case False
  then show ?thesis
    using forwarded_accounts outcome_trans [OF same_accounts_fields(8) forwarded_accounts]
    by (auto simp: servePoWUpstream_def Let_def)
qed

lemma serve_pass_accounts: "outcome_accounts s (serve_pass g su q r p w s)"
  using PoW_accounts by (auto simp: serve_pass_def Let_def keeps_accounts_def split: prod.split dest: forward_accounts)

lemma serve_walled_accounts: "outcome_accounts s (serve_walled g su q r w s)"
proof -
  have f: "outcome_accounts s (serve_free g su q r w s)"
    by (auto simp: serve_free_def split: prod.split)
  show ?thesis
    using f payment_accounts by (auto simp: serve_walled_def split: option.split list.split)
qed

lemma claimed_accounts:
  "case serveClaimedIdentity g su q r w s of Inl res \<Rightarrow> outcome_accounts s res | Inr s' \<Rightarrow> same_accounts s s'"
  using outcome_trans [OF _ forwarded_accounts]
  by (auto simp: serveClaimedIdentity_def Let_def split: prod.split verdict.split)

lemma serve_accounts: "outcome_accounts s (serve g su q r w s)"
proof -
  have rest: "outcome_accounts s (case serveClaimedIdentity g su q r' w s of
      Inl res \<Rightarrow> res
    | Inr s' \<Rightarrow>
       (case validPassAt g r' tm of
          None \<Rightarrow> serve_walled g su q r' w s'
        | Some pass \<Rightarrow> if scopeCovers g pass p then serve_pass g su q r' pass w s' else serve_walled g su q r' w s'))" for r' tm p
    using claimed_accounts [of s g su q r' w] outcome_trans [OF _ serve_pass_accounts] outcome_trans [OF _ serve_walled_accounts]
    by (auto split: sum.splits option.split)
  show ?thesis
    unfolding serve_def Let_def using rest forwarded_accounts by (auto split: prod.split dest: own_accounts)
qed

lemma recordDecision_accounts: "same_accounts s (recordDecision hs d ip s)"
  by (simp add: recordDecision_def)

lemma vec_With_update: "vec_With (vec_update v x f) x = f (vec_With v x)"
  by (cases "map_of (v_children v) x") (simp_all add: vec_update_def vec_With_def map_of_update)

lemma decision_String_inject: "decision_String d = decision_String d' \<longleftrightarrow> d = d'"
proof -
  have "inj_on decision_String (set all_decisions)"
    using decision_labels_distinct by (simp add: decisionLabels_def distinct_map)
  then show ?thesis using all_decisions_complete by (auto dest: inj_onD)
qed

text \<open>A gate that serves one request after another, each with its own surroundings.\<close>

fun serve_run :: "gate \<Rightarrow> gate_state \<Rightarrow> (surroundings \<times> request) list \<Rightarrow> gate_state \<times> outcome list" where
  "serve_run g s [] = (s, [])"
| "serve_run g s ((su, r) # es) =
     (let (sv, st) = ServeHTTP g su r s; (s', os) = serve_run g (fst (snd sv)) es in (s', (sv, st) # os))"

definition ended :: "(decision \<Rightarrow> bool) \<Rightarrow> outcome list \<Rightarrow> nat" where
  "ended P os = length (filter (\<lambda>((w, s, out, d), st). st = None \<and> P d) os)"

definition body_bytes :: "(decision \<Rightarrow> bool) \<Rightarrow> outcome list \<Rightarrow> nat" where
  "body_bytes P os = sum_list (map (\<lambda>((w, s, out, d), st). if st = None \<and> P d then rec_n w else 0) os)"

definition hanging :: "outcome list \<Rightarrow> nat" where
  "hanging os = length (filter (\<lambda>(sv, st). st = Some Diverged) os)"

definition registered :: "counter vec \<Rightarrow> bool" where
  "registered v \<longleftrightarrow> (\<forall>d. decision_String d \<in> fst ` set (v_children v))"

text \<open>The accounts of \<open>m'\<close> are those of \<open>m\<close> with the outcomes \<open>os\<close> added.\<close>

definition added :: "gate_metrics \<Rightarrow> outcome list \<Rightarrow> gate_metrics \<Rightarrow> bool" where
  "added m os m' \<longleftrightarrow>
     (\<forall>d. vec_With (gm_requests m') (decision_String d) = vec_With (gm_requests m) (decision_String d) + of_nat (ended (\<lambda>d'. d' = d) os))
     \<and> gm_inFlight m' = gm_inFlight m + of_nat (hanging os)
     \<and> gm_challengeBytes m' = gm_challengeBytes m + of_nat (body_bytes (\<lambda>d. \<not> upstream d) os)
     \<and> gm_upstreamBytes m' = gm_upstreamBytes m + of_nat (body_bytes upstream os)
     \<and> gm_bytesTotal m' = gm_bytesTotal m + of_nat (body_bytes (\<lambda>d. True) os)"

lemma added_accounts: "accounts m = accounts k \<Longrightarrow> accounts m' = accounts k' \<Longrightarrow> added m os m' = added k os k'"
  by (simp add: added_def accounts_def)

lemma added_append: "added m os m' \<Longrightarrow> added m' os' m'' \<Longrightarrow> added m (os @ os') m''"
  by (simp add: added_def ended_def body_bytes_def hanging_def)

lemma count_registered: "registered v \<Longrightarrow> registered (count_in label v)"
  using vec_update_series [where v = v and x = label and f = counter_Inc] by (simp add: registered_def count_in_def flip: set_map)

lemma count_requests:
  assumes "registered v"
  shows "vec_With (count_in (decision_String d) v) (decision_String d') = vec_With v (decision_String d') + (if d = d' then 1 else 0)"
proof (cases "d = d'")
  case True
  then show ?thesis by (simp add: count_in_def vec_With_update counter_Inc_def)
next
  case False
  then show ?thesis
    using assms vec_update_other [where x = "decision_String d" and v = v and y = "decision_String d'"]
    by (auto simp: count_in_def registered_def decision_String_inject)
qed

lemma ServeHTTP_adds:
  assumes "ServeHTTP g su r s = ((w, s', out, d), st)" and "registered (gm_requests (st_met s))"
  shows "added (st_met s) [((w, s', out, d), st)] (st_met s') \<and> registered (gm_requests (st_met s'))"
proof -
  let ?s = "on_met (in_flight gauge_Inc) s"
  obtain w1 s1 out1 d1 st1 where S: "serve g su (gate_inspect g ?s r) r new_recorder ?s = ((w1, s1, out1, d1), st1)"
    by (metis prod.exhaust)
  have a: "accounts (st_met s1) = accounts (in_flight gauge_Inc (st_met s))"
    using serve_accounts [of ?s g su "gate_inspect g ?s r" r new_recorder] unfolding S
    by (simp add: outcome_accounts_def keeps_accounts_def same_accounts_def on_met_def)
  have rd: "accounts (st_met (recordDecision hs d ip t)) = accounts (st_met t)" for hs d ip t
    using recordDecision_accounts by (simp add: same_accounts_def)
  let ?m = "in_flight gauge_Inc (st_met s)"
  have A: "registered (gm_requests (st_met s1))" "gm_requests (st_met s1) = gm_requests (st_met s)"
    "gm_inFlight (st_met s1) = gm_inFlight (st_met s) + 1"
    "gm_challengeBytes (st_met s1) = gm_challengeBytes (st_met s)" "gm_upstreamBytes (st_met s1) = gm_upstreamBytes (st_met s)"
    "gm_bytesTotal (st_met s1) = gm_bytesTotal (st_met s)"
    using a assms(2) by (simp_all add: accounts_def in_flight_def gauge_Inc_def)
  consider (ok) "st1 = None" | (panic) "st1 = Some Panicked" | (hang) "st1 = Some Diverged" by (cases st1) (auto intro: stop.exhaust)
  then show ?thesis
  proof cases
    case ok
    let ?t = "recordDecision (su_host su) d1 (gq_clientIP (gate_inspect g ?s r)) (on_met (count_request d1 (rec_n w1)) s1)"
    have e: "w = w1" "s' = on_met (in_flight gauge_Dec) ?t" "out = out1" "d = d1" "st = None"
      using assms(1) ok by (auto simp: ServeHTTP_def S Let_def)
    have t: "accounts (st_met ?t) = accounts (count_request d1 (rec_n w1) (st_met s1))" by (simp add: rd on_met_def)
    then show ?thesis
      using A(2-) count_requests [OF A(1)] count_registered [OF A(1)] unfolding e
      by (auto simp: added_def accounts_def count_request_def countBytes_def counter_Add_def on_met_def in_flight_def gauge_Dec_def
          ended_def body_bytes_def hanging_def Let_def split: if_splits)
  next
    case panic
    then have e: "s' = on_met (in_flight gauge_Dec) s1" "st = Some Panicked" using assms(1) by (simp_all add: ServeHTTP_def S Let_def)
    show ?thesis
      using A unfolding e by (simp add: added_def on_met_def in_flight_def gauge_Dec_def ended_def body_bytes_def hanging_def)
  next
    case hang
    then have e: "s' = s1" "st = Some Diverged" using assms(1) by (simp_all add: ServeHTTP_def S Let_def)
    show ?thesis using A unfolding e by (simp add: added_def ended_def body_bytes_def hanging_def)
  qed
qed

lemma serve_run_adds:
  "serve_run g s es = (s', os) \<Longrightarrow> registered (gm_requests (st_met s)) \<Longrightarrow> added (st_met s) os (st_met s')"
proof (induction es arbitrary: s s' os)
  case Nil
  then show ?case by (simp add: added_def ended_def body_bytes_def hanging_def)
next
  case (Cons e es)
  obtain su r w s1 out d st os' where e: "e = (su, r)" and S: "ServeHTTP g su r s = ((w, s1, out, d), st)"
    and R: "serve_run g s1 es = (s', os')" and o: "os = ((w, s1, out, d), st) # os'"
    using Cons.prems(1) by (cases e) (auto simp: Let_def split: prod.splits)
  note step = ServeHTTP_adds [OF S Cons.prems(2)]
  from added_append [OF conjunct1 [OF step] Cons.IH [OF R conjunct2 [OF step]]] show ?case by (simp add: o)
qed

text \<open>C23: the accounts balance. After any run of requests from the start of the gate, every decision's counter is the number of
  requests it ended, the bytes written are split between the upstream's answers and the gate's own with nothing
  counted twice or lost, and the requests in flight are those that hang (all modulo \<open>2 ^ 64\<close>).\<close>

theorem accounts_balance:
  "case serve_run g (new_state activity crawlers grants facs) es of (s, os) \<Rightarrow>
     (\<forall>d. vec_With (gm_requests (st_met s)) (decision_String d) = of_nat (ended (\<lambda>d'. d' = d) os))
     \<and> gm_upstreamBytes (st_met s) = of_nat (body_bytes upstream os)
     \<and> gm_challengeBytes (st_met s) = of_nat (body_bytes (\<lambda>d. \<not> upstream d) os)
     \<and> gm_bytesTotal (st_met s) = gm_upstreamBytes (st_met s) + gm_challengeBytes (st_met s)
     \<and> gm_inFlight (st_met s) = of_nat (hanging os)"
proof -
  let ?s = "new_state activity crawlers grants facs"
  obtain s os where R: "serve_run g ?s es = (s, os)" by force
  have "registered (gm_requests (st_met ?s))" using requests_registered by (simp add: registered_def new_state_def)
  note A = serve_run_adds [OF R this]
  have z: "vec_With (gm_requests newGateMetrics) (decision_String d) = 0" for d
    by (simp add: newGateMetrics_def new_vec_def vec_With_def map_of_map_restrict restrict_map_def o_def)
  have split: "body_bytes (\<lambda>d. True) os = body_bytes upstream os + body_bytes (\<lambda>d. \<not> upstream d) os"
    by (induction os) (auto simp: body_bytes_def)
  have i: "gm_inFlight newGateMetrics = 0" "gm_challengeBytes newGateMetrics = 0" "gm_upstreamBytes newGateMetrics = 0" "gm_bytesTotal newGateMetrics = 0"
    by (simp_all add: newGateMetrics_def)
  show ?thesis using A unfolding R by (simp add: added_def new_state_def z i split)
qed

subsection \<open>What the gate answers itself\<close>

definition uncached :: "recorder \<Rightarrow> bool" where
  "uncached w \<longleftrightarrow> (\<exists>st H. rec_sent w = Some (st, H) \<and> \<not> is_interim st
     \<and> hdr_Values H ''Cache-Control'' = [''no-store, no-cache, must-revalidate, max-age=0, private''])"

definition no_store :: "recorder \<Rightarrow> bool" where
  "no_store w \<longleftrightarrow> rec_sent w = None
     \<and> hdr_Values (rec_Header w) ''Cache-Control'' = [''no-store, no-cache, must-revalidate, max-age=0, private'']"

lemma w_Set_facts [simp]:
  "rec_sent (w_Set k v w) = rec_sent w" "rec_Header (w_Set k v w) = hdr_Set (rec_Header w) k v"
  "rec_sent (w_Add k v w) = rec_sent w" "rec_Header (w_Add k v w) = hdr_Add (rec_Header w) k v"
  by (simp_all add: w_Set_def w_Add_def)

lemma no_store_Set [simp]: "k \<noteq> ''Cache-Control'' \<Longrightarrow> no_store (w_Set k v w) = no_store w"
  "k \<noteq> ''Cache-Control'' \<Longrightarrow> no_store (w_Add k v w) = no_store w"
  by (auto simp: no_store_def)

lemma noStore_marks: "rec_sent w = None \<Longrightarrow> no_store (noStore w)"
  by (simp add: no_store_def noStore_def Let_def)

lemma no_store_sends: "no_store w \<Longrightarrow> \<not> is_interim st \<Longrightarrow> uncached (rec_Write b (rec_WriteHeader st w))"
  by (auto simp: no_store_def uncached_def rec_WriteHeader_sent)

lemma no_store_head: "no_store w \<Longrightarrow> \<not> is_interim st \<Longrightarrow> uncached (rec_WriteHeader st w)"
  by (auto simp: no_store_def uncached_def rec_WriteHeader_sent)

lemma no_store_error: "no_store w \<Longrightarrow> \<not> is_interim st \<Longrightarrow> uncached (http_Error recorder_writer msg st w)"
  by (auto simp: http_Error_def error_header_def no_store_def uncached_def rec_WriteHeader_sent Let_def)

lemma refusal_statuses [simp]: "\<not> is_interim 400" "\<not> is_interim 402" "\<not> is_interim 403" "\<not> is_interim 421" "\<not> is_interim 503"
  by (simp_all add: is_interim_def)

lemma gate_answers:
  assumes "rec_sent w = None"
  shows "uncached (servePaymentRequired g r u msg retry w)" "uncached (servePaymentPending g r res w)"
    "uncached (renderRefusal g r 403 w)" "uncached (serveRefusal g r w)" "uncached (serveCrawlerVerificationUnavailable w)"
    "uncached (fst (serveWaitPage g a pd r cache w))"
    "uncached (http_Error recorder_writer m 400 (noStore w))" "uncached (http_Error recorder_writer m 421 (noStore w))"
proof -
  note n = noStore_marks [OF assms]
  have p: "\<not> is_interim (pay_status g r)" by (simp add: pay_status_def)
  show "uncached (servePaymentRequired g r u msg retry w)" "uncached (servePaymentPending g r res w)"
    using n p by (auto simp: servePaymentRequired_def servePaymentPending_def Let_def HeaderRequired_def HeaderResponse_def intro!: no_store_sends)
  have c: "no_store (challengeRequired w)" using n by (simp add: challengeRequired_def actionHeader_def)
  have r: "uncached (renderRefusal g r st w)" if "\<not> is_interim st" for st
    using c that by (auto simp: renderRefusal_def Let_def intro!: no_store_sends)
  from r show "uncached (renderRefusal g r 403 w)" "uncached (serveRefusal g r w)" by (simp_all add: serveRefusal_def)
  show "uncached (serveCrawlerVerificationUnavailable w)"
    using n by (auto simp: serveCrawlerVerificationUnavailable_def Let_def actionHeader_def intro!: no_store_error)
  have h: "no_store (wait_headers w)" using c by (simp add: wait_headers_def Let_def)
  then show "uncached (fst (serveWaitPage g a pd r cache w))"
    by (auto simp: serveWaitPage_def Let_def split: prod.split intro!: no_store_sends no_store_head)
  show "uncached (http_Error recorder_writer m 400 (noStore w))" "uncached (http_Error recorder_writer m 421 (noStore w))"
    by (intro no_store_error n, simp)+
qed

text \<open>
  What the gate's own endpoints leave to a cache: the files it serves, the solver under the address that names it, and two
  kinds of errors, the refused method of all endpoints but two and the challenge that cannot be issued.
\<close>

definition own_kept :: "gate \<Rightarrow> request \<Rightarrow> int \<Rightarrow> bool" where
  "own_kept g r st \<longleftrightarrow>
     st = 200 \<and> (req_Path r \<in> {pathSW, pathRenew, pathInstructions, pathSchema} \<or> req_Path r = g_solverURL g \<and> req_RawQuery r = [])
     \<or> st = 405 \<and> req_Path r \<notin> {pathAnswer, pathUninstall}
     \<or> st = 500 \<and> req_Path r = pathChallenge"

definition own_uncached :: "gate \<Rightarrow> request \<Rightarrow> recorder \<Rightarrow> bool" where
  "own_uncached g r w \<longleftrightarrow> (\<exists>st H. rec_sent w = Some (st, H) \<and> \<not> is_interim st
     \<and> (own_kept g r st \<or> hdr_Values H ''Cache-Control'' = [''no-store, no-cache, must-revalidate, max-age=0, private'']))"

lemma uncached_own: "uncached w \<Longrightarrow> own_uncached g r w"
  by (auto simp: uncached_def own_uncached_def)

lemma no_store_writes: "no_store w \<Longrightarrow> uncached (rec_Write b w)"
  by (auto simp: no_store_def uncached_def rec_WriteHeader_sent is_interim_def)

lemma kept_writes: "rec_sent w = None \<Longrightarrow> own_kept g r 200 \<Longrightarrow> own_uncached g r (rec_Write b w)"
  by (auto simp: own_uncached_def rec_WriteHeader_sent is_interim_def)

lemma kept_error: "rec_sent w = None \<Longrightarrow> own_kept g r st \<Longrightarrow> \<not> is_interim st \<Longrightarrow> own_uncached g r (http_Error recorder_writer msg st w)"
  by (auto simp: http_Error_def error_header_def own_uncached_def rec_WriteHeader_sent Let_def)

lemma own_paths [simp]:
  "pathChallenge \<noteq> pathAnswer" "pathSW \<noteq> pathAnswer" "pathRenew \<noteq> pathAnswer" "pathInstructions \<noteq> pathAnswer" "pathSchema \<noteq> pathAnswer"
  "HealthPath \<noteq> pathAnswer" "pathChallenge \<noteq> pathUninstall" "pathSW \<noteq> pathUninstall" "pathRenew \<noteq> pathUninstall"
  "pathInstructions \<noteq> pathUninstall" "pathSchema \<noteq> pathUninstall" "HealthPath \<noteq> pathUninstall"
  by code_simp+

lemma answer_statuses:
  "answer_result g hs r = Inl (outcome, st, msg) \<Longrightarrow> \<not> is_interim st"
  by (auto simp: answer_result_def renewal_root_def redeem_def is_interim_def Let_def split: option.splits sum.splits if_splits prod.splits)

lemma serveAnswer_uncached:
  assumes "rec_sent w = None" shows "uncached (fst (serveAnswer g hs r w s))"
proof -
  let ?w = "w_Set ''Content-Type'' ''application/json'' (noStore w)"
  have n: "no_store ?w" using noStore_marks [OF assms] by simp
  have e: "uncached (rec_Write b (rec_WriteHeader st ?w))" if "\<not> is_interim st" for b st by (rule no_store_sends [OF n that])
  have ok: "uncached (rec_Write b (w_Add ''Set-Cookie'' c ?w))" for b c using n by (intro no_store_writes) simp
  have "\<not> is_interim 405" by (simp add: is_interim_def)
  with e ok answer_statuses [of g hs r] show ?thesis by (auto simp: serveAnswer_def Let_def split: sum.split)
qed

lemma serveChallenge_uncached:
  assumes "rec_sent w = None" and "req_Path r = pathChallenge" shows "own_uncached g r (fst (serveChallenge g hs r w s))"
proof -
  have e: "own_uncached g r (http_Error recorder_writer m st w)" if "st = 405 \<or> st = 500" for m st
    using that assms by (intro kept_error) (auto simp: own_kept_def is_interim_def)
  have "own_uncached g r (rec_Write b (w_Set ''Content-Type'' ''application/json'' (noStore w)))" for b
    using noStore_marks [OF assms(1)] by (intro uncached_own no_store_writes) simp
  with e show ?thesis by (simp add: serveChallenge_def get_only_def split: sum.split)
qed

text \<open>The refusal of a method says nothing of caches, although the comment of the endpoints says that all responses are no-store.\<close>

lemma refused_method_unmarked:
  assumes "rec_sent w = None" and "hdr_Values (rec_Header w) ''Cache-Control'' = []" and "req_Method r \<noteq> ''GET''"
  shows "\<exists>H. rec_sent (fst (serveChallenge g hs r w s)) = Some (405, H) \<and> hdr_Values H ''Cache-Control'' = []"
  using assms by (simp add: serveChallenge_def get_only_def http_Error_def error_header_def rec_WriteHeader_sent is_interim_def Let_def)

text \<open>The endpoints that take \<open>GET\<close> and \<open>HEAD\<close>: a file that may be kept, or an answer marked.\<close>

lemma files_uncached:
  assumes "rec_sent w = None"
  shows "req_Path r = HealthPath \<Longrightarrow> own_uncached g r (serveHealthz r w)"
    "req_Path r = pathSW \<Longrightarrow> own_uncached g r (serveSW a r w)"
    "req_Path r = pathRenew \<Longrightarrow> own_uncached g r (serveRenew a r w)"
    "own_uncached g r (serveUninstall a r w)"
    "req_Path r = pathInstructions \<Longrightarrow> own_uncached g r (serveInstructions r w)"
    "req_Path r = pathSchema \<Longrightarrow> own_uncached g r (serveSchema r w)"
    "req_Path r \<notin> {pathAnswer, pathUninstall} \<Longrightarrow> own_uncached g r (serveSolver g r w)"
proof -
  note n = noStore_marks [OF assms]
  have e: "own_uncached g r (get_only w)" if "req_Path r \<notin> {pathAnswer, pathUninstall}"
    using assms that unfolding get_only_def by (intro kept_error) (simp_all add: own_kept_def is_interim_def)
  have u: "own_uncached g r (get_only (noStore w))"
    using n unfolding get_only_def by (intro uncached_own no_store_error) (simp_all add: is_interim_def)
  show "req_Path r = HealthPath \<Longrightarrow> own_uncached g r (serveHealthz r w)"
    using e n by (auto simp: serveHealthz_def intro!: uncached_own no_store_writes)
  show "req_Path r = pathSW \<Longrightarrow> own_uncached g r (serveSW a r w)"
    using e assms by (auto simp: serveSW_def own_kept_def intro!: kept_writes)
  show "req_Path r = pathRenew \<Longrightarrow> own_uncached g r (serveRenew a r w)"
    using e assms by (auto simp: serveRenew_def own_kept_def intro!: kept_writes)
  show "own_uncached g r (serveUninstall a r w)"
    using u n by (auto simp: serveUninstall_def intro!: uncached_own no_store_writes)
  show "req_Path r = pathInstructions \<Longrightarrow> own_uncached g r (serveInstructions r w)"
    using e assms by (auto simp: serveInstructions_def own_kept_def intro!: kept_writes)
  show "req_Path r = pathSchema \<Longrightarrow> own_uncached g r (serveSchema r w)"
    using e assms by (auto simp: serveSchema_def own_kept_def intro!: kept_writes)
  have "own_uncached g r (rec_Write b (noStore (w_Set k v w)))" for k v b
    using assms by (intro uncached_own no_store_writes noStore_marks) simp
  moreover have "own_uncached g r (rec_Write b (w_Set k v (w_Set k' v' w)))" if "req_Path r = g_solverURL g" "req_RawQuery r = []" for k v k' v' b
    using assms that by (intro kept_writes) (simp_all add: own_kept_def)
  ultimately show "own_uncached g r (serveSolver g r w)" if "req_Path r \<notin> {pathAnswer, pathUninstall}"
    using e [OF that] by (simp add: serveSolver_def Let_def)
qed

lemma serveOwn_uncached:
  assumes "rec_sent w = None" shows "own_uncached g r (fst (serveOwn g hs r w s))"
proof -
  have "own_uncached g r (http_NotFound (noStore w))"
    using noStore_marks [OF assms] unfolding http_NotFound_def by (intro uncached_own no_store_error) (simp_all add: is_interim_def)
  moreover have "own_uncached g r (fst (serveAnswer g hs r w s))" by (rule uncached_own [OF serveAnswer_uncached [OF assms]])
  ultimately show ?thesis
    using serveChallenge_uncached [OF assms] files_uncached [OF assms, where g = g and r = r]
    by (auto simp: serveOwn_def Let_def)
qed

definition outcome_uncached :: "gate \<Rightarrow> request \<Rightarrow> outcome \<Rightarrow> bool" where
  "outcome_uncached g r = (\<lambda>((w', s', out, d), st). out = None \<longrightarrow> (if d = DecisionOwnEndpoint then own_uncached g r w' else uncached w'))"

lemma uncached_answered: "uncached w \<Longrightarrow> outcome_uncached g0 r0 (answered d w s)"
  by (simp add: outcome_uncached_def answered_def finished_def uncached_own)

lemma uncached_forwarded: "outcome_uncached g0 r0 (forwarded_as g su d r w s)"
  using forwarded_as_out [of g su d r w s] by (auto simp: outcome_uncached_def)

lemma uncached_payment:
  assumes "rec_sent w = None"
  shows "outcome_uncached g0 r0 (finished (servePayment g hs pe up r rt v w s))"
  using servePayment_cases [of g r rt w hs pe up v s] gate_answers(1,2) [OF assms]
  by (auto simp: outcome_uncached_def finished_def refused_def pending_def sold_def passed_def uncached_own split: prod.splits)

lemma uncached_refuse: "rec_sent w = None \<Longrightarrow> outcome_uncached g0 r0 (finished (pay_refuse g r u d msg retry w s))"
  by (simp add: outcome_uncached_def finished_def pay_refuse_def gate_answers uncached_own)

lemma uncached_free: "rec_sent w = None \<Longrightarrow> outcome_uncached g0 r0 (serve_free g su q r w s)"
  using gate_answers(6) [of w g "h_assets (su_host su)" "h_pages (su_host su)" r "st_pages s"]
  by (cases "serveWaitPage g (h_assets (su_host su)) (h_pages (su_host su)) r (st_pages s) w")
    (auto simp: serve_free_def gate_answers intro!: uncached_answered)

lemma uncached_walled: "rec_sent w = None \<Longrightarrow> outcome_uncached g0 r0 (serve_walled g su q r w s)"
  by (auto simp: serve_walled_def uncached_free uncached_payment uncached_refuse split: option.split list.split)

lemma uncached_pass: "outcome_uncached g0 r0 (serve_pass g su q r p w s)"
  using serve_pass_out [of g su q r p w s] by (auto simp: outcome_uncached_def)

lemma uncached_claimed: "rec_sent w = None \<Longrightarrow> case serveClaimedIdentity g su q r w s of Inl res \<Rightarrow> outcome_uncached g0 r0 res | Inr s' \<Rightarrow> True"
  by (auto simp: serveClaimedIdentity_def serveStrictRefusal_def Let_def uncached_forwarded gate_answers split: prod.split verdict.split
      intro!: uncached_answered)

text \<open>C24: what a cache may keep of the gate's own word. Every answer that the ladder gives itself, whether an error, a wall,
  a price, a pending transaction or a refused identity, goes out with a header that forbids storing it, so no cache can serve one
  visitor's wall to another, or keep it after a pass was earned; and so does what the gate's own endpoints say, with these exceptions: the service
  worker, the renewal script, the instructions, the schema, the solver under the address that names its bytes, the
  refusal of a method (except where answers are posted and at the uninstall page), and the error when no challenge can be issued.\<close>

theorem gate_answers_not_cached:
  assumes "rec_sent w = None"
  shows "case serve g su q r w s of ((w', s', out, d), st) \<Rightarrow>
    out \<noteq> None \<or> (\<exists>status H. rec_sent w' = Some (status, H) \<and> \<not> is_interim status
      \<and> (hdr_Values H ''Cache-Control'' = [''no-store, no-cache, must-revalidate, max-age=0, private'']
         \<or> d = DecisionOwnEndpoint
           \<and> (status = 200 \<and> (req_Path r \<in> {pathSW, pathRenew, pathInstructions, pathSchema}
                             \<or> req_Path r = g_solverURL g \<and> req_RawQuery r = [])
              \<or> status = 405 \<and> req_Path r \<notin> {pathAnswer, pathUninstall}
              \<or> status = 500 \<and> req_Path r = pathChallenge)))"
proof -
  have rest: "outcome_uncached g r (case serveClaimedIdentity g su q r' w s of
      Inl res \<Rightarrow> res
    | Inr s' \<Rightarrow>
       (case validPassAt g r' tm of
          None \<Rightarrow> serve_walled g su q r' w s'
        | Some pass \<Rightarrow> if scopeCovers g pass p then serve_pass g su q r' pass w s' else serve_walled g su q r' w s'))" for r' tm p
    using uncached_claimed [OF assms, where g = g and su = su and q = q and r = r' and s = s] uncached_walled [OF assms] uncached_pass
    by (auto split: sum.splits option.split)
  have "own_kept g (scrubbed r) st = own_kept g r st" for st by (simp add: own_kept_def scrubbed_def)
  then have own: "outcome_uncached g r (answered DecisionOwnEndpoint w' s')" if "serveOwn g hs (scrubbed r) w s = (w', s')" for hs w' s'
    using serveOwn_uncached [OF assms, of g "scrubbed r" hs s] that
    by (auto simp: outcome_uncached_def answered_def finished_def own_uncached_def)
  have "outcome_uncached g r (serve g su q r w s)"
    unfolding serve_def Let_def using rest uncached_forwarded own
    by (auto simp: gate_answers [OF assms] split: prod.split intro!: uncached_answered)
  then show ?thesis by (auto simp: outcome_uncached_def uncached_def own_uncached_def own_kept_def split: if_splits)
qed

lemma gate_answers_not_cached_witness:
  "\<forall>q. case serve free_gate demo_surroundings q (demo_request\<lparr>req_Path := ''//''\<rparr>) new_recorder demo_state of ((w', s', out, d), st) \<Rightarrow>
    out = None \<and> d = DecisionNonCanonicalPath \<and> (\<exists>status H. rec_sent w' = Some (status, H) \<and> \<not> is_interim status
      \<and> hdr_Values H ''Cache-Control'' = [''no-store, no-cache, must-revalidate, max-age=0, private''])"
proof
  fix q
  have "cleanPath ''//'' = ''/''" by code_simp
  then have s: "serve free_gate demo_surroundings q (demo_request\<lparr>req_Path := ''//''\<rparr>) new_recorder demo_state = answered DecisionNonCanonicalPath
      (http_Error recorder_writer ''bad request: non-canonical path'' 400 (noStore new_recorder)) demo_state"
    by (simp add: serve_def)
  have "rec_sent new_recorder = None" by (simp add: rec_sent_def new_recorder_def new_response_def)
  from gate_answers_not_cached [OF this, where g = free_gate and su = demo_surroundings and q = q and r = "demo_request\<lparr>req_Path := ''//''\<rparr>" and s = demo_state]
  show "case serve free_gate demo_surroundings q (demo_request\<lparr>req_Path := ''//''\<rparr>) new_recorder demo_state of ((w', s', out, d), st) \<Rightarrow>
      out = None \<and> d = DecisionNonCanonicalPath \<and> (\<exists>status H. rec_sent w' = Some (status, H) \<and> \<not> is_interim status
        \<and> hdr_Values H ''Cache-Control'' = [''no-store, no-cache, must-revalidate, max-age=0, private''])"
    unfolding s by (simp add: answered_def finished_def)
qed

end
