(* ===== verification/Build.thy ===== *)
theory Build
  imports Ladder
begin

text \<open>
  \<open>New\<close> of \<open>internal/gate/gate.go\<close>: a gate and its first state from a configuration. HMAC, SHA-256 and \<open>math.Exp2\<close>, the
  embedded files, the disk behind the grant store and the order in which Go lists the keys of a header map come from outside.
\<close>

subsection \<open>Building\<close>

record build_env =
  bd_host :: host_env
  bd_hm :: mac_fun
  bd_sha :: "bytes \<Rightarrow> bytes"
  bd_exp2 :: "rat \<Rightarrow> rat"
  bd_assets :: assets
  bd_ranges :: "bytes \<Rightarrow> bytes"
  bd_hosted :: "hosted_provider \<Rightarrow> bytes list"
  bd_store :: store_io
  bd_grants :: grants_bucket
  bd_names :: "header \<Rightarrow> bytes list"

datatype build_error =
    BuildConfig config_error
  | BuildToken token_error
  | BuildChallenge challenge_error
  | BuildBypass bypass_error
  | BuildIdentity identity_error
  | BuildStore store_error

definition float_threshold :: "(rat \<Rightarrow> rat) \<Rightarrow> go_float \<Rightarrow> challenge_error + bytes" where
  "float_threshold exp2 d = (case d of FNum q \<Rightarrow> challenge_Threshold exp2 q | _ \<Rightarrow> Inl ChErrRange)"

definition rail_identity :: "build_env \<Rightarrow> rail \<Rightarrow> bytes" where
  "rail_identity bd rl = facilitatorIdentity (rl_Facilitator rl) (bd_names bd (rl_FacilitatorHeader rl)) (rl_FacilitatorHeader rl)"

definition new_breaker :: breaker where
  "new_breaker = NewBreaker breakerThreshold breakerWindow breakerCooldown"

definition rail_verifier :: "rail \<Rightarrow> callback_verifier" where
  "rail_verifier rl = fst (NewCallbackVerifier (rl_Facilitator rl) (rl_FacilitatorHeader rl) (Some new_breaker))"

text \<open>\<open>groups\<close> are the verifiers made so far, by identity.\<close>

fun build_verifiers :: "build_env \<Rightarrow> (bytes \<times> callback_verifier) list \<Rightarrow> rail list \<Rightarrow> (bytes \<times> bytes \<times> callback_verifier) list" where
  "build_verifiers bd groups [] = []"
| "build_verifiers bd groups (rl # rls) =
     (let key = rail_identity bd rl;
          groups = (if map_of groups key = None then (key, rail_verifier rl) # groups else groups)
      in (rl_Network rl, key, the (map_of groups key)) # build_verifiers bd groups rls)"

definition build_payments :: "build_env \<Rightarrow> payments option \<Rightarrow> build_error + (bytes \<times> bytes \<times> callback_verifier) list \<times> grants_bucket" where
  "build_payments bd p =
     (case p of
        None \<Rightarrow> Inr ([], bd_grants bd)
      | Some p \<Rightarrow>
         (case NewGrantStore (bd_store bd) (py_StateFile p) (bd_grants bd) of
            (Inl e, db) \<Rightarrow> Inl (BuildStore e)
          | (Inr _, db) \<Rightarrow> Inr (build_verifiers bd [] (py_Rails p), db)))"

definition build_activity :: "activity_cfg option \<Rightarrow> act_log option" where
  "build_activity a = (case a of None \<Rightarrow> None | Some a \<Rightarrow> Some (activity_New (ac_TTL a) (ac_MaxIPs a)))"

definition gate_New :: "build_env \<Rightarrow> config \<Rightarrow> build_error + gate \<times> gate_state" where
  "gate_New bd c =
     (case config_Keys (c_HMACKeys c) of
        Inl e \<Rightarrow> Inl (BuildConfig e)
      | Inr ks \<Rightarrow>
     (case NewKeyring ks of
        Inl e \<Rightarrow> Inl (BuildToken e)
      | Inr keyring \<Rightarrow>
     (case NewIssuer ks of
        Inl e \<Rightarrow> Inl (BuildChallenge e)
      | Inr issuer \<Rightarrow>
     (case float_threshold (bd_exp2 bd) (c_Difficulty c) of
        Inl e \<Rightarrow> Inl (BuildChallenge e)
      | Inr at' \<Rightarrow>
     (case float_threshold (bd_exp2 bd) (c_RenewDifficulty c) of
        Inl e \<Rightarrow> Inl (BuildChallenge e)
      | Inr rt \<Rightarrow>
     (case bypass_New (bc_Paths (c_Bypass c)) (bc_CIDRs (c_Bypass c)) (c_TrustedProxies c) of
        Inl e \<Rightarrow> Inl (BuildBypass e)
      | Inr match \<Rightarrow>
     (case compilePaidRoutes (bd_sha bd) (c_Payments c) of
        Inl e \<Rightarrow> Inl (BuildBypass e)
      | Inr routes \<Rightarrow>
     (case UpstreamURL (bd_host bd) c of
        Inl e \<Rightarrow> Inl (BuildConfig e)
      | Inr u \<Rightarrow>
     (case crawler_New (bd_ranges bd) (bc_VerifiedCrawlers (c_Bypass c)) of
        Inl e \<Rightarrow> Inl (BuildIdentity e)
      | Inr crawlers \<Rightarrow>
     (case hosted_New (bd_hosted bd) of
        Inl e \<Rightarrow> Inl (BuildIdentity e)
      | Inr hosted \<Rightarrow>
     (case build_payments bd (c_Payments c) of
        Inl e \<Rightarrow> Inl e
      | Inr (verifiers, db) \<Rightarrow>
         (let (js, url) = buildSolver (bd_sha bd) (bd_assets bd) (c_AllowInsecureContext c) in
          Inr (\<lparr>g_cfg = c, g_hm = bd_hm bd, g_sha = bd_sha bd, g_keyring = keyring, g_issuer = issuer,
                 g_admit = \<lparr>prof_Kind = KindAdmit, prof_TTL = c_PassTTL c, prof_Threshold = at'\<rparr>,
                 g_renew = \<lparr>prof_Kind = KindRenew, prof_TTL = c_PassTTL c, prof_Threshold = rt\<rparr>,
                 g_match = match, g_publicHosts = map normalizeAuthority (c_PublicHosts c), g_routes = routes,
                 g_hosted = hosted, g_verifiers = verifiers, g_solverJS = js, g_solverURL = url\<rparr>,
               new_state (build_activity (c_Activity c)) crawlers db
                 (\<lambda>_. snd (NewCallbackVerifier [] hdr_empty (Some new_breaker))))))))))))))))"


subsection \<open>A gate built from a validated configuration\<close>

lemma key_list_ok:
  "keys_error ks = None \<Longrightarrow> \<exists>hks. config_Keys ks = Inr hks \<and> map Kid hks = map kc_Kid ks
     \<and> (\<forall>k\<in>set hks. Kid k \<noteq> [] \<and> 16 \<le> length (KeyBytes k))"
  by (induction ks) (auto split: if_splits option.splits)

lemma add_keys_ok:
  "distinct (map Kid ks) \<Longrightarrow> \<forall>k\<in>set ks. Kid k \<noteq> [] \<and> 16 \<le> length (KeyBytes k) \<Longrightarrow> \<forall>k\<in>set ks. keys kr (Kid k) = None \<Longrightarrow>
     \<exists>kr'. add_keys kr ks = Inr kr'"
proof (induction ks arbitrary: kr)
  case (Cons k ks)
  have "\<forall>k'\<in>set ks. keys (kr\<lparr>keys := (keys kr)(Kid k \<mapsto> KeyBytes k)\<rparr>) (Kid k') = None"
    using Cons.prems by (auto simp: image_iff)
  from Cons.IH [OF _ _ this] Cons.prems show ?case by auto
qed simp

lemma NewKeyring_returns:
  assumes "ks \<noteq> []" "distinct (map Kid ks)" "\<forall>k\<in>set ks. Kid k \<noteq> [] \<and> 16 \<le> length (KeyBytes k)"
  shows "\<exists>kr. NewKeyring ks = Inr kr"
  using add_keys_ok [OF assms(2,3), of "\<lparr>signKid = Kid (hd ks), keys = Map.empty\<rparr>"] assms(1)
  by (cases ks) (auto simp: NewKeyring_def simp del: add_keys.simps)

lemma NewIssuer_returns:
  "ks \<noteq> [] \<Longrightarrow> \<forall>k\<in>set ks. Kid k \<noteq> [] \<and> 16 \<le> length (KeyBytes k) \<Longrightarrow> NewIssuer ks = Inr ks"
  by (auto simp: NewIssuer_def list_ex_iff)

lemma threshold_returns:
  "0 \<le> q \<Longrightarrow> q \<le> 255 \<Longrightarrow> \<exists>t. float_threshold exp2 (FNum q) = Inr t \<and> length t = thresholdLen"
  by (simp add: float_threshold_def challenge_Threshold_def Let_def thresholdLen_def)

lemma compile_returns: "\<forall>r\<in>set rs. \<exists>m. bypass_New (ru_Paths r) [] [] = Inr m \<Longrightarrow> \<exists>rts. compile_routes sha rs = Inr rts"
  by (induction rs) (auto split: sum.splits)

text \<open>What validation leaves in the configuration.\<close>

lemma validated:
  assumes "config_validate he c0 = Inr c"
  shows "\<exists>u. UpstreamURL he c = Inr u" "\<exists>m. bypass_New (bc_Paths (c_Bypass c)) (bc_CIDRs (c_Bypass c)) (c_TrustedProxies c) = Inr m"
    "\<forall>p. c_Payments c = Some p \<longrightarrow> (\<exists>p0. payments_validate he p0 = Inr p)"
    "c_HMACKeys c0 \<noteq> [] \<Longrightarrow> keys_error (c_HMACKeys c) = None"
    "c_HMACKeys c0 = [] \<Longrightarrow> \<exists>raw. he_Rand he = Some raw \<and> c_HMACKeys c = [\<lparr>kc_Kid = ''auto'', kc_Key = b64_encode StdEncoding raw\<rparr>]"
proof -
  from assms obtain c1 c2 where k: "config_checks he c0 = None" "auto_key he c0 = Inr c1"
    and pay: "(case c_Payments c1 of None \<Rightarrow> Inr c1
        | Some p \<Rightarrow> (case payments_validate he p of Inl e \<Rightarrow> Inl e | Inr p' \<Rightarrow> Inr (c1\<lparr>c_Payments := Some p'\<rparr>))) = Inr c2"
    and act: "(case c_Activity c2 of None \<Rightarrow> Inr c2
        | Some a \<Rightarrow> (case activity_validate a of Inl e \<Rightarrow> Inl e | Inr a' \<Rightarrow> Inr (c2\<lparr>c_Activity := Some a'\<rparr>))) = Inr c"
    unfolding config_validate_def case_sum_Inr case_option_error_Inr by blast
  have c2: "c_Upstream c2 = c_Upstream c1" "c_Bypass c2 = c_Bypass c1" "c_TrustedProxies c2 = c_TrustedProxies c1" "c_HMACKeys c2 = c_HMACKeys c1"
    "\<forall>p. c_Payments c2 = Some p \<longrightarrow> (\<exists>p0. payments_validate he p0 = Inr p)"
    using pay by (auto split: option.splits)
  have c3: "c_Upstream c = c_Upstream c2" "c_Bypass c = c_Bypass c2" "c_TrustedProxies c = c_TrustedProxies c2" "c_HMACKeys c = c_HMACKeys c2"
    "c_Payments c = c_Payments c2"
    using act by (auto split: option.splits)
  have c: "c_Upstream c = c_Upstream c1" "c_Bypass c = c_Bypass c1" "c_TrustedProxies c = c_TrustedProxies c1" "c_HMACKeys c = c_HMACKeys c1"
    and p: "\<forall>p. c_Payments c = Some p \<longrightarrow> (\<exists>p0. payments_validate he p0 = Inr p)"
    using c2 c3 by simp_all
  from k(2) have c1: "c_Upstream c1 = c_Upstream c0" "c_Bypass c1 = c_Bypass c0" "c_TrustedProxies c1 = c_TrustedProxies c0"
    "c_HMACKeys c0 \<noteq> [] \<Longrightarrow> c_HMACKeys c1 = c_HMACKeys c0"
    "c_HMACKeys c0 = [] \<Longrightarrow> \<exists>raw. he_Rand he = Some raw \<and> c_HMACKeys c1 = [\<lparr>kc_Kid = ''auto'', kc_Key = b64_encode StdEncoding raw\<rparr>]"
    by (auto simp: auto_key_def split: if_splits option.splits)
  have u: "\<exists>u. UpstreamURL he c0 = Inr u" and b: "\<exists>m. bypass_New (bc_Paths (c_Bypass c0)) (bc_CIDRs (c_Bypass c0)) (c_TrustedProxies c0) = Inr m"
    and e: "keys_error (c_HMACKeys c0) = None"
    using k(1) by (auto simp: config_checks_def split: if_splits sum.splits option.splits)
  have s: "UpstreamURL he c = UpstreamURL he c0" using c c1 by (simp add: UpstreamURL_def UpstreamSocket_def)
  show "\<exists>u. UpstreamURL he c = Inr u" using u s by simp
  show "\<exists>m. bypass_New (bc_Paths (c_Bypass c)) (bc_CIDRs (c_Bypass c)) (c_TrustedProxies c) = Inr m" using b c c1 by simp
  show "\<forall>p. c_Payments c = Some p \<longrightarrow> (\<exists>p0. payments_validate he p0 = Inr p)" by (rule p)
  show "c_HMACKeys c0 \<noteq> [] \<Longrightarrow> keys_error (c_HMACKeys c) = None" using e c c1 by simp
  show "c_HMACKeys c0 = [] \<Longrightarrow> \<exists>raw. he_Rand he = Some raw \<and> c_HMACKeys c = [\<lparr>kc_Kid = ''auto'', kc_Key = b64_encode StdEncoding raw\<rparr>]"
    using c c1 by simp
qed

subsection \<open>Verifiers and credentials\<close>

definition credential_pairs :: "bytes list \<Rightarrow> header \<Rightarrow> (bytes \<times> bytes) list" where
  "credential_pairs names h = concat (map (\<lambda>k. map (Pair k) (hdr_Values h k)) (sort names))"

text \<open>The names are those of the map, in some order; nothing in the rail contains a NUL.\<close>

definition keys_listed :: "build_env \<Rightarrow> rail \<Rightarrow> bool" where
  "keys_listed bd rl \<longleftrightarrow> distinct (bd_names bd (rl_FacilitatorHeader rl))
     \<and> set (bd_names bd (rl_FacilitatorHeader rl)) = {k. hdr_Values (rl_FacilitatorHeader rl) k \<noteq> []}"

definition nul_free :: "rail \<Rightarrow> bool" where
  "nul_free rl \<longleftrightarrow> CHR 0x00 \<notin> set (rl_Facilitator rl)
     \<and> (\<forall>k. \<forall>v\<in>set (hdr_Values (rl_FacilitatorHeader rl) k). CHR 0x00 \<notin> set k \<and> CHR 0x00 \<notin> set v)"

lemma split_on_cons: "c \<notin> set a \<Longrightarrow> split_on c (a @ c # b) = a # split_on c b"
  by (induction a) auto

lemma concat_pairs:
  "concat (map (\<lambda>k. concat (map (\<lambda>v. nul @ k @ nul @ v) (hdr_Values h k))) ks)
     = concat (map (\<lambda>(k, v). nul @ k @ nul @ v) (concat (map (\<lambda>k. map (Pair k) (hdr_Values h k)) ks)))"
  by (induction ks) (simp_all add: comp_def)

lemma split_pairs:
  "CHR 0x00 \<notin> set b \<Longrightarrow> \<forall>(k, v)\<in>set ps. CHR 0x00 \<notin> set k \<and> CHR 0x00 \<notin> set v \<Longrightarrow>
     split_on (CHR 0x00) (b @ concat (map (\<lambda>(k, v). nul @ k @ nul @ v) ps)) = b # concat (map (\<lambda>(k, v). [k, v]) ps)"
proof (induction ps arbitrary: b)
  case Nil
  then show ?case by (simp add: split_on_no_sep)
next
  case (Cons p ps)
  obtain k v where p: "p = (k, v)" by force
  with Cons.IH [of v] Cons.prems show ?case by (simp add: nul_def split_on_cons)
qed

lemma pairs_flat: "concat (map (\<lambda>(k, v). [k, v]) ps) = concat (map (\<lambda>(k, v). [k, v]) qs) \<Longrightarrow> ps = qs"
proof (induction ps arbitrary: qs)
  case Nil
  then show ?case by (cases qs) auto
next
  case (Cons p ps)
  then show ?case by (cases qs) (auto split: prod.splits)
qed

lemma pairs_of: "distinct ks \<Longrightarrow>
   map snd (filter (\<lambda>p. fst p = k) (concat (map (\<lambda>k. map (Pair k) (hdr_Values h k)) ks))) = (if k \<in> set ks then hdr_Values h k else [])"
proof (induction ks)
  case (Cons a ks)
  have "filter (\<lambda>p. fst p = k) (map (Pair a) vs) = (if a = k then map (Pair a) vs else [])" for vs :: "bytes list" by (induction vs) auto
  with Cons show ?case by (auto simp: comp_def)
qed simp

lemma trim_suffix_set: "set (trim_suffix s p) \<subseteq> set s"
  by (auto simp: trim_suffix_def dest: in_set_takeD)

lemma rail_identity_inject:
  assumes "keys_listed bd a" "keys_listed bd b" "nul_free a" "nul_free b" and "rail_identity bd a = rail_identity bd b"
  shows "trim_suffix (rl_Facilitator a) ''/'' = trim_suffix (rl_Facilitator b) ''/'' \<and> rl_FacilitatorHeader a = rl_FacilitatorHeader b"
proof -
  let ?p = "\<lambda>rl. credential_pairs (bd_names bd (rl_FacilitatorHeader rl)) (rl_FacilitatorHeader rl)"
  have i: "rail_identity bd rl = trim_suffix (rl_Facilitator rl) ''/'' @ concat (map (\<lambda>(k, v). nul @ k @ nul @ v) (?p rl))" for rl
    by (simp only: rail_identity_def facilitatorIdentity_def concat_pairs credential_pairs_def)
  have s: "split_on (CHR 0x00) (rail_identity bd rl) = trim_suffix (rl_Facilitator rl) ''/'' # concat (map (\<lambda>(k, v). [k, v]) (?p rl))"
    if "nul_free rl" for rl
    unfolding i using that trim_suffix_set by (intro split_pairs) (fastforce simp: nul_free_def credential_pairs_def)+
  have e: "trim_suffix (rl_Facilitator a) ''/'' = trim_suffix (rl_Facilitator b) ''/''" "?p a = ?p b"
    using s [OF assms(3)] s [OF assms(4)] assms(5) pairs_flat [of "?p a" "?p b"] by simp_all
  have v: "hdr_Values (rl_FacilitatorHeader rl) k = map snd (filter (\<lambda>p. fst p = k) (?p rl))" if "keys_listed bd rl" for rl k
    using that unfolding credential_pairs_def by (subst pairs_of) (auto simp: keys_listed_def)
  have "rl_FacilitatorHeader a = rl_FacilitatorHeader b"
    by (rule hdr_eqI) (simp only: v [OF assms(1)] v [OF assms(2)] e(2))
  with e(1) show ?thesis ..
qed

definition group_ok :: "build_env \<Rightarrow> rail set \<Rightarrow> (bytes \<times> callback_verifier) list \<Rightarrow> bool" where
  "group_ok bd R groups \<longleftrightarrow> (\<forall>key v. map_of groups key = Some v \<longrightarrow> (\<exists>rl\<in>R. key = rail_identity bd rl \<and> v = rail_verifier rl))"

lemma build_verifiers_facts:
  "group_ok bd R groups \<Longrightarrow> set rls \<subseteq> R \<Longrightarrow>
     list_all2 (\<lambda>rl (n, key, v). n = rl_Network rl \<and> key = rail_identity bd rl
         \<and> (\<exists>rl'\<in>R. rail_identity bd rl' = key \<and> v = rail_verifier rl')) rls (build_verifiers bd groups rls)"
proof (induction rls arbitrary: groups)
  case (Cons rl rls)
  let ?g = "if map_of groups (rail_identity bd rl) = None then (rail_identity bd rl, rail_verifier rl) # groups else groups"
  have g: "group_ok bd R ?g" using Cons.prems by (auto simp: group_ok_def)
  obtain v where v: "map_of ?g (rail_identity bd rl) = Some v" by (cases "map_of groups (rail_identity bd rl)") auto
  have "\<exists>rl'\<in>R. rail_identity bd rl' = rail_identity bd rl \<and> v = rail_verifier rl'"
    using g v unfolding group_ok_def by metis
  with Cons.IH [OF g] Cons.prems(2) v show ?case by (simp add: Let_def)
qed simp

lemma list_all2_map_of:
  "list_all2 (\<lambda>x (n, y). n = f x \<and> P x y) xs ys \<Longrightarrow> distinct (map f xs) \<Longrightarrow> x \<in> set xs \<Longrightarrow> \<exists>y. map_of ys (f x) = Some y \<and> P x y"
proof (induction xs ys rule: list_all2_induct)
  case (Cons a xs b ys)
  then show ?case by (cases "x = a") (auto split: prod.splits simp: image_iff)
qed simp

lemma rail_verifier_fields: "cv_base (rail_verifier rl) = trim_suffix (rl_Facilitator rl) ''/''" "cv_headers (rail_verifier rl) = rl_FacilitatorHeader rl"
  by (simp_all add: rail_verifier_def NewCallbackVerifier_def)

lemma rail_verifiers:
  assumes "distinct (map rl_Network rails)" and "\<forall>rl\<in>set rails. keys_listed bd rl \<and> nul_free rl" and "rl \<in> set rails"
  shows "\<exists>v. map_of (build_verifiers bd [] rails) (rl_Network rl) = Some (rail_identity bd rl, v)
    \<and> cv_base v = trim_suffix (rl_Facilitator rl) ''/'' \<and> cv_headers v = rl_FacilitatorHeader rl"
proof -
  have "group_ok bd (set rails) []" by (simp add: group_ok_def)
  from build_verifiers_facts [OF this subset_refl]
  have "list_all2 (\<lambda>rl (n, y). n = rl_Network rl \<and> (fst y = rail_identity bd rl
      \<and> (\<exists>rl'\<in>set rails. rail_identity bd rl' = fst y \<and> snd y = rail_verifier rl'))) rails (build_verifiers bd [] rails)"
    by (rule list_all2_mono) auto
  from list_all2_map_of [OF this assms(1,3)] obtain y rl' where y: "map_of (build_verifiers bd [] rails) (rl_Network rl) = Some y"
    "fst y = rail_identity bd rl" "rl' \<in> set rails" "rail_identity bd rl' = fst y" "snd y = rail_verifier rl'" by blast
  then have "rail_identity bd rl' = rail_identity bd rl" by simp
  with rail_identity_inject [of bd rl' rl] assms(2,3) y(3)
  have "trim_suffix (rl_Facilitator rl') ''/'' = trim_suffix (rl_Facilitator rl) ''/''" "rl_FacilitatorHeader rl' = rl_FacilitatorHeader rl" by simp_all
  with y show ?thesis by (cases y) (auto simp: rail_verifier_fields)
qed

text \<open>The comment on \<open>facilitatorIdentity\<close> says that a NUL cannot appear in a validated header; nothing refuses one in a value.\<close>

lemma nul_header_accepted:
  "parseHeaderList he [''A: x'' @ [CHR 0x00] @ ''B'' @ [CHR 0x00] @ ''y''] key
     = Inr (hdr_Set hdr_empty ''A'' (''x'' @ [CHR 0x00] @ ''B'' @ [CHR 0x00] @ ''y''))"
proof -
  let ?e = "''A: x'' @ [CHR 0x00] @ ''B'' @ [CHR 0x00] @ ''y''" and ?v = "''x'' @ [CHR 0x00] @ ''B'' @ [CHR 0x00] @ ''y''"
  have 1: "os_Expand (he_Getenv he) ?e = (?e, [])" by (simp add: os_Expand.simps)
  have 2: "cut CHR '':'' ?e = (''A'', CHR '' '' # ?v, True)" "trim_space (CHR '' '' # ?v) = ?v" "trim_space ''A'' = ''A''" "is_token ''A''"
    "CanonicalHeaderKey ''A'' = ''A''" "''A'' \<notin> set facilitatorReservedHeaders" by code_simp+
  show ?thesis using 1 2 by (simp add: parseHeaderList_def)
qed

subsection \<open>Properties\<close>

lemma validated_keys:
  assumes "config_validate he c0 = Inr c" and "\<forall>raw. he_Rand he = Some raw \<longrightarrow> 16 \<le> length raw"
  shows "\<exists>ks. config_Keys (c_HMACKeys c) = Inr ks \<and> ks \<noteq> [] \<and> map Kid ks = map kc_Kid (c_HMACKeys c)
    \<and> (\<forall>k\<in>set ks. Kid k \<noteq> [] \<and> 16 \<le> length (KeyBytes k))"
proof (cases "c_HMACKeys c0 = []")
  case True
  then obtain raw where raw: "he_Rand he = Some raw" and k: "c_HMACKeys c = [\<lparr>kc_Kid = ''auto'', kc_Key = b64_encode StdEncoding raw\<rparr>]"
    using validated(5) [OF assms(1)] by blast
  then show ?thesis using assms(2) by (simp add: decodeB64_def b64_decode_encode)
next
  case False
  have "c_HMACKeys c \<noteq> []" using config_validate_bounds [OF assms(1)] by blast
  with key_list_ok [OF validated(4) [OF assms(1) False]] show ?thesis by force
qed

lemma validated_payments:
  assumes "config_validate he c0 = Inr c" and "c_Payments c = Some p"
  shows "distinct (map rl_Network (py_Rails p))" "\<forall>r\<in>set (py_Rules p). \<exists>m. bypass_New (ru_Paths r) [] [] = Inr m"
proof -
  from validated(3) [OF assms(1)] assms(2) obtain p0 where "payments_validate he p0 = Inr p" by blast
  from payments_validate_Inr [OF this] obtain g where
    g: "parseHeaderList he (py_FacilitatorHeaders p0) ''facilitator_headers'' = Inr g" "py_PayTo p0 \<noteq> []"
    and v: "validate_rails he p0 g [] (py_Rails p0) = Inr (py_Rails p)" "validate_rules (py_Rails p) [] (py_Rules p0) = Inr (py_Rules p)" by blast
  note ra = validate_rails_facts [OF v(1) g(2) g(1)] and ru = validate_rules_facts [OF v(2)]
  have "map rl_Network (py_Rails p) = map rl_Network (py_Rails p0)"
    using ra by (intro nth_equalityI) (auto simp: list_all2_conv_all_nth rail_valid_def)
  then show "distinct (map rl_Network (py_Rails p))" using ra by simp
  show "\<forall>r\<in>set (py_Rules p). \<exists>m. bypass_New (ru_Paths r) [] [] = Inr m"
    using ru by (auto simp: list_all2_conv_all_nth in_set_conv_nth rule_valid_def)
qed

lemma verifier_networks: "map fst (build_verifiers bd groups rls) = map rl_Network rls"
  by (induction rls arbitrary: groups) (simp_all add: Let_def)

text \<open>With readable range files and a writable store, no call of \<open>New\<close> fails on a validated configuration.\<close>

lemma gate_New_returns:
  assumes "config_validate (bd_host bd) c0 = Inr c" and "\<forall>raw. he_Rand (bd_host bd) = Some raw \<longrightarrow> 16 \<le> length raw"
    and "distinct (map kc_Kid (c_HMACKeys c))"
    and "crawler_New (bd_ranges bd) (bc_VerifiedCrawlers (c_Bypass c)) = Inr crawlers" and "hosted_New (bd_hosted bd) = Inr hosted"
    and "\<forall>p. c_Payments c = Some p \<longrightarrow> py_StateFile p \<noteq> [] \<and> open_ok (bd_store bd) \<and> commit_ok (bd_store bd)"
  shows "\<exists>g s ks ta tr. gate_New bd c = Inr (g, s) \<and> ks \<noteq> [] \<and> map Kid ks = map kc_Kid (c_HMACKeys c)
    \<and> NewKeyring ks = Inr (g_keyring g) \<and> g_issuer g = ks \<and> g_hm g = bd_hm bd \<and> g_sha g = bd_sha bd
    \<and> g_admit g = \<lparr>prof_Kind = KindAdmit, prof_TTL = c_PassTTL c, prof_Threshold = ta\<rparr> \<and> length ta = thresholdLen
    \<and> g_renew g = \<lparr>prof_Kind = KindRenew, prof_TTL = c_PassTTL c, prof_Threshold = tr\<rparr> \<and> length tr = thresholdLen
    \<and> g_cfg g = c \<and> st_crawlers s = crawlers
    \<and> (\<forall>p. c_Payments c = Some p \<longrightarrow> map pr_rule (g_routes g) = py_Rules p \<and> map fst (g_verifiers g) = map rl_Network (py_Rails p))"
proof -
  obtain ks where ks: "config_Keys (c_HMACKeys c) = Inr ks" "ks \<noteq> []" "map Kid ks = map kc_Kid (c_HMACKeys c)"
    "\<forall>k\<in>set ks. Kid k \<noteq> [] \<and> 16 \<le> length (KeyBytes k)" using validated_keys [OF assms(1,2)] by blast
  obtain kr where kr: "NewKeyring ks = Inr kr" using NewKeyring_returns [OF ks(2) _ ks(4)] ks(3) assms(3) by auto
  note iss = NewIssuer_returns [OF ks(2,4)]
  obtain d r where d: "c_Difficulty c = FNum d" "c_RenewDifficulty c = FNum r" "4 \<le> d" "d \<le> 255" "0 \<le> r" "r \<le> d" "second \<le> c_PassTTL c"
    using config_validate_bounds [OF assms(1)] by blast
  obtain ta where ta: "float_threshold (bd_exp2 bd) (FNum d) = Inr ta" "length ta = thresholdLen"
    using threshold_returns [of d "bd_exp2 bd"] d by auto
  obtain tr where tr: "float_threshold (bd_exp2 bd) (FNum r) = Inr tr" "length tr = thresholdLen"
    using threshold_returns [of r "bd_exp2 bd"] d by auto
  obtain m where m: "bypass_New (bc_Paths (c_Bypass c)) (bc_CIDRs (c_Bypass c)) (c_TrustedProxies c) = Inr m" using validated(2) [OF assms(1)] by blast
  obtain rts where rts: "compilePaidRoutes (bd_sha bd) (c_Payments c) = Inr rts"
    using compile_returns validated_payments(2) [OF assms(1)] by (cases "c_Payments c") (fastforce simp: compilePaidRoutes_def)+
  obtain u where u: "UpstreamURL (bd_host bd) c = Inr u" using validated(1) [OF assms(1)] by blast
  obtain vs db where vs: "build_payments bd (c_Payments c) = Inr (vs, db)"
    and vsn: "\<forall>p. c_Payments c = Some p \<longrightarrow> map fst vs = map rl_Network (py_Rails p)"
    using assms(6) by (cases "c_Payments c") (auto simp: build_payments_def NewGrantStore_def store_update_def verifier_networks)
  obtain js url where js: "buildSolver (bd_sha bd) (bd_assets bd) (c_AllowInsecureContext c) = (js, url)" by force
  have "\<forall>p. c_Payments c = Some p \<longrightarrow> map pr_rule rts = py_Rules p"
    using rts compile_routes_facts by (auto simp: compilePaidRoutes_def)
  then show ?thesis
    using ks(1) kr iss ta tr m rts u assms(4,5) vs js ks(2,3) vsn by (simp add: gate_New_def d new_state_def)
qed

text \<open>
  Validation does not compare the names of the keys, the keyring does: a file that names two keys alike is valid and
  cannot be run.
\<close>

lemma gate_New_same_kid:
  assumes "config_validate (bd_host bd) c0 = Inr c" and "\<forall>raw. he_Rand (bd_host bd) = Some raw \<longrightarrow> 16 \<le> length raw"
    and "\<not> distinct (map kc_Kid (c_HMACKeys c))"
  shows "\<exists>e. gate_New bd c = Inl (BuildToken e)"
proof -
  obtain ks where ks: "config_Keys (c_HMACKeys c) = Inr ks" "map Kid ks = map kc_Kid (c_HMACKeys c)"
    using validated_keys [OF assms(1,2)] by blast
  then have "\<not> distinct (map Kid ks)" using assms(3) by simp
  then obtain e where "NewKeyring ks = Inl e" using NewKeyring_keys [of ks] by (cases "NewKeyring ks") auto
  then show ?thesis using ks(1) by (simp add: gate_New_def)
qed

text \<open>C31: what validation accepts can be run exactly when no two keys have one name. From a validated configuration with readable embedded
  range files and a writable grant store, \<open>New\<close> builds a gate if the names of the keys differ: its keyring, challenge profiles and digests are of
  the form that every other property of the gate relies on (the names of the keys being ASCII), each pricing rule has its route and each rail its verifier.
  If two names are equal, which validation does not notice, \<open>New\<close> gives the keyring's error.\<close>

theorem New_builds:
  assumes "config_validate (bd_host bd) c0 = Inr c" and "\<forall>raw. he_Rand (bd_host bd) = Some raw \<longrightarrow> 16 \<le> length raw"
    and "\<forall>k\<in>set (c_HMACKeys c). ascii_string (kc_Kid k)"
    and "\<forall>k m. length (bd_hm bd k m) = macLen" and "\<forall>b. length (bd_sha bd b) = 32" and "in_int64 (c_PassTTL c)"
    and "crawler_New (bd_ranges bd) (bc_VerifiedCrawlers (c_Bypass c)) = Inr crawlers" and "hosted_New (bd_hosted bd) = Inr hosted"
    and "\<forall>p. c_Payments c = Some p \<longrightarrow> py_StateFile p \<noteq> [] \<and> open_ok (bd_store bd) \<and> commit_ok (bd_store bd)"
  shows "(distinct (map kc_Kid (c_HMACKeys c)) \<longrightarrow>
      (\<exists>g s. gate_New bd c = Inr (g, s) \<and> gate_ok g \<and> g_cfg g = c \<and> st_crawlers s = crawlers
        \<and> (\<forall>p. c_Payments c = Some p \<longrightarrow> map pr_rule (g_routes g) = py_Rules p \<and> map fst (g_verifiers g) = map rl_Network (py_Rails p))))
    \<and> (\<not> distinct (map kc_Kid (c_HMACKeys c)) \<longrightarrow> (\<exists>e. gate_New bd c = Inl (BuildToken e)))"
proof (intro conjI impI)
  assume dist: "distinct (map kc_Kid (c_HMACKeys c))"
  obtain g s ks ta tr where N: "gate_New bd c = Inr (g, s)" and ks: "ks \<noteq> []" "map Kid ks = map kc_Kid (c_HMACKeys c)"
    and kr: "NewKeyring ks = Inr (g_keyring g)" and g: "g_issuer g = ks" "g_hm g = bd_hm bd" "g_sha g = bd_sha bd"
    "g_admit g = \<lparr>prof_Kind = KindAdmit, prof_TTL = c_PassTTL c, prof_Threshold = ta\<rparr>"
    "g_renew g = \<lparr>prof_Kind = KindRenew, prof_TTL = c_PassTTL c, prof_Threshold = tr\<rparr>"
    "g_cfg g = c" "st_crawlers s = crawlers" and t: "length ta = thresholdLen" "length tr = thresholdLen"
    and p: "\<forall>p. c_Payments c = Some p \<longrightarrow> map pr_rule (g_routes g) = py_Rules p \<and> map fst (g_verifiers g) = map rl_Network (py_Rails p)"
    using gate_New_returns [OF assms(1,2) dist assms(7-9)] by blast
  have "second \<le> c_PassTTL c" using config_validate_bounds [OF assms(1)] by blast
  then have ttl: "0 < c_PassTTL c" by (simp add: second_def)
  have "signKid (g_keyring g) = Kid (hd ks)" using NewKeyring_keys [OF kr] by blast
  then have "signKid (g_keyring g) \<in> set (map Kid ks)" using ks(1) by simp
  then have "ascii_string (signKid (g_keyring g))" using assms(3) unfolding ks(2) by auto
  then have "gate_ok g"
    using NewKeyring_ok [OF kr] ks(1) assms(4-6) t ttl
    by (simp add: gate_ok_def g profile_wf_def profile_validate_def)
  with N g p show "\<exists>g s. gate_New bd c = Inr (g, s) \<and> gate_ok g \<and> g_cfg g = c \<and> st_crawlers s = crawlers
      \<and> (\<forall>p. c_Payments c = Some p \<longrightarrow> map pr_rule (g_routes g) = py_Rules p \<and> map fst (g_verifiers g) = map rl_Network (py_Rails p))"
    by blast
qed (rule gate_New_same_kid [OF assms(1,2)])

text \<open>
  The key of a verifier joins names and values with NUL. A value with a NUL in it, which the parser of the headers accepts,
  can give two rails one key; the second rail's payments then carry the first rail's credential.
\<close>

definition nul_value :: bytes where "nul_value = ''x'' @ nul @ ''B'' @ nul @ ''y''"

lemma nul_value_accepted: "parseHeaderList demo_host [''a: '' @ nul_value] key = Inr (hdr_Set hdr_empty ''A'' nul_value)"
proof -
  have 1: "os_Expand (he_Getenv demo_host) (''a: '' @ nul_value) = (''a: '' @ nul_value, [])"
    "cut CHR '':'' (''a: '' @ nul_value) = (''a'', CHR 0x20 # nul_value, True)" "trim_space (CHR 0x20 # nul_value) = nul_value"
    "trim_space ''a'' = ''a''" "is_token ''a''" "CanonicalHeaderKey ''a'' = ''A''" "''A'' \<notin> set facilitatorReservedHeaders" "nul_value \<noteq> []"
    by code_simp+
  then show ?thesis by (simp add: parseHeaderList_def)
qed

lemma nul_value_crosses_rails:
  assumes "rl_Facilitator a = rl_Facilitator b" and "rl_FacilitatorHeader a = hdr_Set hdr_empty ''A'' nul_value"
    and "rl_FacilitatorHeader b = hdr_Set (hdr_Set hdr_empty ''A'' ''x'') ''B'' ''y''"
    and "bd_names bd (rl_FacilitatorHeader a) = [''A'']" and "bd_names bd (rl_FacilitatorHeader b) = [''A'', ''B'']"
  shows "rail_identity bd a = rail_identity bd b \<and> rl_FacilitatorHeader a \<noteq> rl_FacilitatorHeader b
    \<and> map snd (build_verifiers bd [] [a, b]) = replicate 2 (rail_identity bd b, rail_verifier a)"
proof -
  have "sort [''A'', ''B''] = [''A'', ''B'']" by code_simp
  then have "rail_identity bd a = rail_identity bd b"
    using assms(4,5) by (simp add: rail_identity_def facilitatorIdentity_def assms(1-3)) (simp add: nul_value_def)
  moreover have "hdr_Values (rl_FacilitatorHeader a) ''B'' \<noteq> hdr_Values (rl_FacilitatorHeader b) ''B''" by (simp add: assms)
  then have "rl_FacilitatorHeader a \<noteq> rl_FacilitatorHeader b" by metis
  ultimately show ?thesis by (simp add: Let_def numeral_2_eq_2)
qed

text \<open>C32: no credential crosses rails, as long as no facilitator address and no credential header contains a NUL, which validation does not
  see to. In a gate built from such a validated configuration, each rail's payments go to the facilitator
  that the rail names and carry that rail's credential headers and no other rail's; rails share a verifier's breaker and slots exactly when
  facilitator and headers are the same.\<close>

theorem rail_credentials_apart:
  assumes "config_validate (bd_host bd) c0 = Inr c" and "gate_New bd c = Inr (g, s)" and "c_Payments c = Some p"
    and "\<forall>rl\<in>set (py_Rails p). keys_listed bd rl \<and> nul_free rl" and "a \<in> set (py_Rails p)" and "b \<in> set (py_Rails p)"
  shows "\<exists>i v j w. verifierFor g (rl_Network a) = Some (i, v) \<and> verifierFor g (rl_Network b) = Some (j, w)
    \<and> cv_base v = trim_suffix (rl_Facilitator a) ''/'' \<and> cv_headers v = rl_FacilitatorHeader a
    \<and> cv_base w = trim_suffix (rl_Facilitator b) ''/'' \<and> cv_headers w = rl_FacilitatorHeader b
    \<and> (i = j \<longleftrightarrow> cv_base v = cv_base w \<and> cv_headers v = cv_headers w)"
proof -
  note dn = validated_payments(1) [OF assms(1,3)]
  obtain js url where js: "buildSolver (bd_sha bd) (bd_assets bd) (c_AllowInsecureContext c) = (js, url)" by force
  obtain vs db where vs: "build_payments bd (c_Payments c) = Inr (vs, db)" "g_verifiers g = vs"
    using assms(2) by (auto simp: gate_New_def js split: sum.splits)
  obtain r db' where n: "NewGrantStore (bd_store bd) (py_StateFile p) (bd_grants bd) = (r, db')" by force
  have v: "g_verifiers g = build_verifiers bd [] (py_Rails p)"
    using vs by (auto simp: build_payments_def assms(3) n split: sum.splits)
  have "rail_identity bd a = rail_identity bd b \<longleftrightarrow>
      trim_suffix (rl_Facilitator a) ''/'' = trim_suffix (rl_Facilitator b) ''/'' \<and> rl_FacilitatorHeader a = rl_FacilitatorHeader b"
    using rail_identity_inject [of bd a b] assms(4-6) by (auto simp: rail_identity_def facilitatorIdentity_def)
  with rail_verifiers [OF dn assms(4,5)] rail_verifiers [OF dn assms(4,6)] show ?thesis
    unfolding verifierFor_def v by (elim exE conjE) (intro exI conjI, assumption+, simp_all)
qed

subsection \<open>A gate with two facilitators\<close>

definition demo_pricing :: payments where
  "demo_pricing = demo_payments\<lparr>py_Facilitator := ''https://f/'', py_FacilitatorHeaders := [''a: x''], py_StateFile := ''/g.db'',
     py_Rails := [demo_rail_cfg, demo_rail_cfg\<lparr>rl_Network := ''eip155:2'', rl_Facilitator := ''https://own''\<rparr>]\<rparr>"

definition demo_file :: config where
  "demo_file = defaults\<lparr>c_Upstream := ''u'', c_HMACKeys := [\<lparr>kc_Kid = ''k1'', kc_Key = b64_encode StdEncoding (replicate 16 (CHR ''k''))\<rparr>],
     c_Payments := Some demo_pricing\<rparr>"

definition demo_ranges :: bytes where
  "demo_ranges = ''{'' @ [CHR 0x22] @ ''prefixes'' @ [CHR 0x22] @ '':[{'' @ [CHR 0x22] @ ''ipv4Prefix'' @ [CHR 0x22] @ '':'' @ [CHR 0x22] @ ''9.0.0.0/8'' @ [CHR 0x22] @ ''}]}''"

definition demo_build :: build_env where
  "demo_build = \<lparr>bd_host = demo_host, bd_hm = (\<lambda>_ _. replicate macLen (CHR ''m'')), bd_sha = (\<lambda>_. replicate 32 (CHR ''h'')), bd_exp2 = (\<lambda>_. 1),
     bd_assets = \<lparr>as_header = [], as_footer = [], as_core = [], as_page = [], as_swShell = [], as_sha256Vendor = [],
       as_sha256 = [], as_renew = [], as_uninstall = []\<rparr>,
     bd_ranges = (\<lambda>_. []), bd_hosted = (\<lambda>_. [demo_ranges]), bd_store = \<lparr>open_ok = True, commit_ok = True\<rparr>, bd_grants = Map.empty,
     bd_names = (\<lambda>h. if hdr_Values h ''A'' = [] then [] else [''A''])\<rparr>"

lemma demo_header: "parseHeaderList demo_host [''a: x''] key = Inr (hdr_Set hdr_empty ''A'' ''x'')"
proof -
  have 1: "os_Expand (he_Getenv demo_host) ''a: x'' = (''a: x'', [])" "cut CHR '':'' ''a: x'' = (''a'', '' x'', True)" "trim_space '' x'' = ''x''"
    "trim_space ''a'' = ''a''" "is_token ''a''" "CanonicalHeaderKey ''a'' = ''A''" "''A'' \<notin> set facilitatorReservedHeaders" by code_simp+
  then show ?thesis by (simp add: parseHeaderList_def)
qed

definition demo_priced :: "payments \<Rightarrow> bool" where
  "demo_priced p \<longleftrightarrow> py_StateFile p = ''/g.db''
     \<and> map (\<lambda>rl. (rl_Network rl, rl_Facilitator rl)) (py_Rails p) = [(''eip155:1'', ''https://f/''), (''eip155:2'', ''https://own'')]
     \<and> map rl_FacilitatorHeader (py_Rails p) = [hdr_Set hdr_empty ''A'' ''x'', hdr_empty]"

lemma demo_file_ok: "\<exists>p. config_validate demo_host demo_file = Inr (demo_file\<lparr>c_Payments := Some p\<rparr>) \<and> demo_priced p"
proof -
  have p0: "case payments_validate demo_host demo_pricing of Inl _ \<Rightarrow> False | Inr p \<Rightarrow> py_StateFile p = ''/g.db''
      \<and> map (\<lambda>rl. (rl_Network rl, rl_Facilitator rl)) (py_Rails p) = [(''eip155:1'', ''https://f/''), (''eip155:2'', ''https://own'')]"
    by code_simp
  then obtain p where p: "payments_validate demo_host demo_pricing = Inr p" by (auto split: sum.splits)
  have k: "config_checks demo_host demo_file = None" by code_simp
  have "auto_key demo_host demo_file = Inr demo_file" by (simp add: auto_key_def demo_file_def)
  with k p have "config_validate demo_host demo_file = Inr (demo_file\<lparr>c_Payments := Some p\<rparr>)"
    by (simp add: config_validate_def) (simp add: demo_file_def defaults_def)
  moreover from payments_validate_Inr [OF p] obtain g where g: "parseHeaderList demo_host (py_FacilitatorHeaders demo_pricing) ''facilitator_headers'' = Inr g"
    "py_PayTo demo_pricing \<noteq> []" "validate_rails demo_host demo_pricing g [] (py_Rails demo_pricing) = Inr (py_Rails p)" by blast
  from validate_rails_facts [OF g(3,2,1)] have "list_all2 (rail_credential_ok demo_host demo_pricing) (py_Rails demo_pricing) (py_Rails p)"
    by (auto elim!: list_all2_mono simp: rail_valid_def)
  then have "map rl_FacilitatorHeader (py_Rails p) = [hdr_Set hdr_empty ''A'' ''x'', hdr_empty]"
    by (auto simp: demo_pricing_def demo_rail_cfg_def list_all2_Cons1 rail_credential_ok_def demo_header) (simp_all add: parseHeaderList_def)
  ultimately show ?thesis using p0 p by (intro exI [where x = p]) (simp add: demo_priced_def)
qed

text \<open>Two keys under one name: valid, and refused by the keyring.\<close>

definition twin_file :: config where
  "twin_file = demo_file\<lparr>c_HMACKeys := [\<lparr>kc_Kid = ''k1'', kc_Key = b64_encode StdEncoding (replicate 16 (CHR ''k''))\<rparr>,
     \<lparr>kc_Kid = ''k1'', kc_Key = b64_encode StdEncoding (replicate 16 (CHR ''q''))\<rparr>], c_Payments := None\<rparr>"

lemma twin_file_ok: "config_validate demo_host twin_file = Inr twin_file" "\<not> distinct (map kc_Kid (c_HMACKeys twin_file))"
proof -
  have "config_checks demo_host twin_file = None" by code_simp
  moreover have "auto_key demo_host twin_file = Inr twin_file" by (simp add: auto_key_def twin_file_def)
  ultimately show "config_validate demo_host twin_file = Inr twin_file"
    by (simp add: config_validate_def) (simp add: twin_file_def demo_file_def defaults_def)
qed (simp add: twin_file_def)

lemma demo_hosted_ok: "\<exists>h. hosted_New (bd_hosted demo_build) = Inr h"
proof -
  have "is_ok (hosted_New (bd_hosted demo_build))" by code_simp
  then show ?thesis by (simp add: is_ok_iff)
qed

lemma demo_hash: "length (bd_hm demo_build k m) = macLen" "length (bd_sha demo_build b) = 32"
  by (simp_all add: demo_build_def)


lemma demo_gate:
  assumes "demo_priced p"
  shows "map rl_Network (py_Rails p) = [''eip155:1'', ''eip155:2'']" "py_StateFile p \<noteq> []"
    "bd_host demo_build = demo_host" "\<forall>raw. he_Rand (bd_host demo_build) = Some raw \<longrightarrow> 16 \<le> length raw"
    "crawler_New (bd_ranges demo_build) (bc_VerifiedCrawlers (c_Bypass (demo_file\<lparr>c_Payments := Some p\<rparr>))) = Inr \<lparr>cs_providers = [], cs_cache = []\<rparr>"
    "distinct (map kc_Kid (c_HMACKeys (demo_file\<lparr>c_Payments := Some p\<rparr>)))"
    "\<forall>q. c_Payments (demo_file\<lparr>c_Payments := Some p\<rparr>) = Some q \<longrightarrow> py_StateFile q \<noteq> [] \<and> open_ok (bd_store demo_build) \<and> commit_ok (bd_store demo_build)"
proof -
  have "map rl_Network (py_Rails p) = map fst (map (\<lambda>rl. (rl_Network rl, rl_Facilitator rl)) (py_Rails p))" unfolding map_map comp_def fst_conv ..
  with assms show "map rl_Network (py_Rails p) = [''eip155:1'', ''eip155:2'']" unfolding demo_priced_def by simp
qed (use assms in \<open>simp_all add: demo_priced_def demo_build_def demo_host_def demo_file_def defaults_def crawler_New_def\<close>)

text \<open>The two rails have two verifiers, the first with the header and the second without; the file with two equal names is refused.\<close>

lemma New_builds_witness:
  "(\<exists>p g s. gate_New demo_build (demo_file\<lparr>c_Payments := Some p\<rparr>) = Inr (g, s) \<and> gate_ok g
     \<and> map fst (g_verifiers g) = [''eip155:1'', ''eip155:2''])
   \<and> (\<exists>e. gate_New demo_build twin_file = Inl (BuildToken e))"
proof
  obtain p where c: "config_validate demo_host demo_file = Inr (demo_file\<lparr>c_Payments := Some p\<rparr>)" and p: "demo_priced p"
    using demo_file_ok by (elim exE conjE)
  obtain h where h: "hosted_New (bd_hosted demo_build) = Inr h" using demo_hosted_ok ..
  note d = demo_gate [OF p]
  have k: "\<forall>k\<in>set (c_HMACKeys (demo_file\<lparr>c_Payments := Some p\<rparr>)). ascii_string (kc_Kid k)" "\<forall>k\<in>set (c_HMACKeys twin_file). ascii_string (kc_Kid k)"
    by (simp_all add: demo_file_def twin_file_def ascii_string_def ascii_char_def byte_val_def)
  have t: "in_int64 (c_PassTTL (demo_file\<lparr>c_Payments := Some p\<rparr>))" "in_int64 (c_PassTTL twin_file)"
    by (simp_all add: demo_file_def twin_file_def defaults_def in_int64_def second_def min_int64_def max_int64_def)
  from New_builds [OF _ d(4) k(1) _ _ t(1) d(5) h d(7)] c d(6) demo_hash obtain g s where
    "gate_New demo_build (demo_file\<lparr>c_Payments := Some p\<rparr>) = Inr (g, s)" "gate_ok g" "map fst (g_verifiers g) = map rl_Network (py_Rails p)"
    unfolding d(3) by fastforce
  with d(1) show "\<exists>p g s. gate_New demo_build (demo_file\<lparr>c_Payments := Some p\<rparr>) = Inr (g, s) \<and> gate_ok g
     \<and> map fst (g_verifiers g) = [''eip155:1'', ''eip155:2'']" by (intro exI conjI) simp_all
  have "crawler_New (bd_ranges demo_build) (bc_VerifiedCrawlers (c_Bypass twin_file)) = Inr \<lparr>cs_providers = [], cs_cache = []\<rparr>"
    by (simp add: twin_file_def demo_file_def defaults_def crawler_New_def)
  from New_builds [OF _ d(4) k(2) _ _ t(2) this h, of twin_file] twin_file_ok demo_hash
  show "\<exists>e. gate_New demo_build twin_file = Inl (BuildToken e)" unfolding d(3) by (simp add: twin_file_def)
qed

lemma rail_credentials_apart_witness:
  "\<exists>g (a::rail) (b::rail) i v j w. verifierFor g (rl_Network a) = Some (i, v) \<and> verifierFor g (rl_Network b) = Some (j, w) \<and> i \<noteq> j
     \<and> cv_base v = ''https://f'' \<and> hdr_Values (cv_headers v) ''A'' = [''x''] \<and> cv_base w = ''https://own'' \<and> cv_headers w = hdr_empty"
proof -
  obtain p where c: "config_validate demo_host demo_file = Inr (demo_file\<lparr>c_Payments := Some p\<rparr>)" and p: "demo_priced p"
    using demo_file_ok by (elim exE conjE)
  obtain h where h: "hosted_New (bd_hosted demo_build) = Inr h" using demo_hosted_ok ..
  note d = demo_gate [OF p]
  from gate_New_returns [OF _ d(4,6,5) h d(7)] c obtain g s where g: "gate_New demo_build (demo_file\<lparr>c_Payments := Some p\<rparr>) = Inr (g, s)"
    unfolding d(3) by blast
  obtain a b where ab: "py_Rails p = [a, b]" "rl_Facilitator a = ''https://f/''" "rl_Facilitator b = ''https://own''"
    "rl_FacilitatorHeader a = hdr_Set hdr_empty ''A'' ''x''" "rl_FacilitatorHeader b = hdr_empty"
    using p unfolding demo_priced_def by (auto simp: map_eq_Cons_conv)
  have l: "\<forall>rl\<in>set (py_Rails p). keys_listed demo_build rl \<and> nul_free rl"
    by (auto simp: ab keys_listed_def nul_free_def demo_build_def hdr_Values_def hdr_Set_def hdr_empty_def split: if_splits)
  have t: "trim_suffix ''https://f/'' ''/'' = ''https://f''" "trim_suffix ''https://own'' ''/'' = ''https://own''" by code_simp+
  have "c_Payments (demo_file\<lparr>c_Payments := Some p\<rparr>) = Some p" by simp
  from rail_credentials_apart [OF _ g this l, of demo_file a b, unfolded d(3), OF c] obtain i v j w where
    v: "verifierFor g (rl_Network a) = Some (i, v)" "verifierFor g (rl_Network b) = Some (j, w)" "cv_base v = ''https://f''" "cv_base w = ''https://own''"
      "cv_headers v = hdr_Set hdr_empty ''A'' ''x''" "cv_headers w = hdr_empty" "i = j \<longleftrightarrow> cv_base v = cv_base w \<and> cv_headers v = cv_headers w"
    unfolding ab t by auto
  then have "verifierFor g (rl_Network a) = Some (i, v) \<and> verifierFor g (rl_Network b) = Some (j, w) \<and> i \<noteq> j
     \<and> cv_base v = ''https://f'' \<and> hdr_Values (cv_headers v) ''A'' = [''x''] \<and> cv_base w = ''https://own'' \<and> cv_headers w = hdr_empty" by simp
  then show ?thesis by (intro exI)
qed

end
