(* ===== verification/Startup.thy ===== *)
theory Startup
  imports Build
begin

text \<open>
  \<open>config.Load\<close> and \<open>cmd/anteroom/main.go\<close>: from the file to a process that listens, serves and stops. Parsing the TOML, the working
  directory, binding a port, the health probe's answer, which of a failing server and a signal comes first, and whether a shutdown finishes
  within its grace come from outside. A run gives its error, if any, and what it did with its listeners and servers, in order.
\<close>

subsection \<open>Paths of the file system\<close>

definition filepath_IsAbs :: "bytes \<Rightarrow> bool" where
  "filepath_IsAbs p \<longleftrightarrow> has_prefix p ''/''"

definition filepath_Join :: "bytes \<Rightarrow> bytes \<Rightarrow> bytes" where
  "filepath_Join a b = (if a \<noteq> [] then path_Clean (a @ ''/'' @ b) else if b \<noteq> [] then path_Clean b else [])"

definition filepath_Dir :: "bytes \<Rightarrow> bytes" where
  "filepath_Dir p = path_Clean (case last_index p ''/'' of None \<Rightarrow> [] | Some i \<Rightarrow> take (Suc i) p)"

definition filepath_Abs :: "bytes option \<Rightarrow> bytes \<Rightarrow> bytes option" where
  "filepath_Abs wd p = (if filepath_IsAbs p then Some (path_Clean p) else map_option (\<lambda>wd. filepath_Join wd p) wd)"

subsection \<open>Loading\<close>

record toml_meta =
  tm_Keys :: "bytes list list"
  tm_Undecoded :: "bytes list list"

record load_env =
  ld_host :: host_env
  ld_Decode :: "bytes \<Rightarrow> config \<Rightarrow> (config \<times> toml_meta) option"
  ld_keyString :: "bytes list \<Rightarrow> bytes"
  ld_Getwd :: "bytes option"

definition place_state_file :: "bytes option \<Rightarrow> bytes \<Rightarrow> config \<Rightarrow> config_error + config" where
  "place_state_file wd path c =
     (case c_Payments c of
        None \<Rightarrow> Inr c
      | Some p \<Rightarrow>
         (case filepath_Abs wd path of
            None \<Rightarrow> Inl (ErrConfig ''resolve'')
          | Some configPath \<Rightarrow>
             (let f = (if py_StateFile p = [] then filepath_Join (filepath_Dir configPath) ''anteroom-payments.db''
                       else if \<not> filepath_IsAbs (py_StateFile p) then filepath_Join (filepath_Dir configPath) (py_StateFile p)
                       else py_StateFile p)
              in Inr (c\<lparr>c_Payments := Some (p\<lparr>py_StateFile := f\<rparr>)\<rparr>))))"

definition config_Load :: "load_env \<Rightarrow> bytes \<Rightarrow> config_error + config" where
  "config_Load ld path =
     (case ld_Decode ld path defaults of
        None \<Rightarrow> Inl (ErrConfig path)
      | Some (c, meta) \<Rightarrow>
         (case validateConfigKeys (ld_keyString ld) (tm_Keys meta) of
            Some e \<Rightarrow> Inl e
          | None \<Rightarrow>
             if tm_Undecoded meta \<noteq> [] then Inl (ErrConfig ''unknown key(s)'')
             else
               (case place_state_file (ld_Getwd ld) path (applyEnv (ld_host ld) c) of
                  Inl e \<Rightarrow> Inl e
                | Inr c \<Rightarrow> config_validate (ld_host ld) c)))"

subsection \<open>Binding\<close>

datatype listen_error = ListenPermission | ListenFailed

datatype bind_error = BindAsIs listen_error | BindPrivileged int

definition strconv_Atoi :: "bytes \<Rightarrow> int option" where
  "strconv_Atoi s =
     (case s of
        [] \<Rightarrow> None
      | c # r \<Rightarrow> if c = CHR ''+'' then (if all_digits r then parse_int64 r else None) else parse_int64 s)"

definition bindError :: "bytes \<Rightarrow> listen_error \<Rightarrow> bind_error" where
  "bindError addr err =
     (if err \<noteq> ListenPermission then BindAsIs err
      else
        (case SplitHostPort addr of
           None \<Rightarrow> BindAsIs err
         | Some (_, port) \<Rightarrow>
            (case strconv_Atoi port of
               None \<Rightarrow> BindAsIs err
             | Some n \<Rightarrow> if n \<le> 0 \<or> 1024 \<le> n then BindAsIs err else BindPrivileged n)))"

text \<open>\<open>isLoopback\<close> of the command, which decides the warning on an exposed admin listener.\<close>

definition listen_isLoopback :: "bytes \<Rightarrow> bool" where
  "listen_isLoopback host =
     (if host = ''localhost'' then True
      else (case ParseAddr host of None \<Rightarrow> False | Some ip \<Rightarrow> \<not> addr_hasZone ip \<and> is_loopback ip))"

definition admin_exposed :: "config \<Rightarrow> bool" where
  "admin_exposed c = (case SplitHostPort (c_AdminListen c) of None \<Rightarrow> False | Some (host, _) \<Rightarrow> \<not> listen_isLoopback host)"

subsection \<open>The health probe\<close>

datatype health_error = HealthListen | HealthRequest | HealthFetch | HealthStatus int

definition JoinHostPort :: "bytes \<Rightarrow> bytes \<Rightarrow> bytes" where
  "JoinHostPort host port = (if CHR '':'' \<in> set host then ''['' @ host @ '']:'' @ port else host @ '':'' @ port)"

definition health_URL :: "bytes \<Rightarrow> bytes option" where
  "health_URL listen =
     (case SplitHostPort listen of
        None \<Rightarrow> None
      | Some (host, port) \<Rightarrow>
         (let host = (if host \<in> {[], ''0.0.0.0'', ''::'', ''[::]''} then ''127.0.0.1'' else host)
          in Some (''http://'' @ JoinHostPort host port @ HealthPath)))"

definition healthcheck :: "(bytes \<Rightarrow> bool) \<Rightarrow> (bytes \<Rightarrow> int option) \<Rightarrow> bytes \<Rightarrow> health_error option" where
  "healthcheck request_ok fetch listen =
     (case health_URL listen of
        None \<Rightarrow> Some HealthListen
      | Some url \<Rightarrow>
         if \<not> request_ok url then Some HealthRequest
         else (case fetch url of None \<Rightarrow> Some HealthFetch | Some status \<Rightarrow> if status \<noteq> 200 then Some (HealthStatus status) else None))"

subsection \<open>A run\<close>

datatype server = GateServer | AdminServer

datatype run_event = Bound server | Unbound server | Serving server | Draining server | Closed server

datatype run_end = ServerFailed server | Signalled

datatype run_error = RunConfig config_error | RunHealth health_error | RunBuild build_error | RunBind bind_error | RunServe server

record run_env =
  rn_load :: load_env
  rn_path :: bytes
  rn_check :: bool
  rn_requestOk :: "bytes \<Rightarrow> bool"
  rn_fetch :: "bytes \<Rightarrow> int option"
  rn_build :: build_env
  rn_Listen :: "bytes \<Rightarrow> listen_error option"
  rn_end :: run_end
  rn_drained :: "server \<Rightarrow> bool"

definition stop_server :: "run_env \<Rightarrow> server \<Rightarrow> run_event list" where
  "stop_server e s = Draining s # (if rn_drained e s then [] else [Closed s])"

text \<open>Both servers are started, the admin's first, and stopped in the same order.\<close>

definition run_servers :: "run_env \<Rightarrow> server list \<Rightarrow> run_error option \<times> run_event list" where
  "run_servers e ss =
     (case rn_end e of
        ServerFailed s \<Rightarrow> (Some (RunServe s), map Serving ss)
      | Signalled \<Rightarrow> (None, map Serving ss @ concat (map (stop_server e) ss)))"

definition run_listeners :: "run_env \<Rightarrow> config \<Rightarrow> run_error option \<times> run_event list" where
  "run_listeners e c =
     (case rn_Listen e (c_Listen c) of
        Some err \<Rightarrow> (Some (RunBind (bindError (c_Listen c) err)), [])
      | None \<Rightarrow>
         if c_AdminListen c \<noteq> [] then
           (case rn_Listen e (c_AdminListen c) of
              Some err \<Rightarrow> (Some (RunBind (bindError (c_AdminListen c) err)), [Bound GateServer, Unbound GateServer])
            | None \<Rightarrow> (case run_servers e [AdminServer, GateServer] of (er, es) \<Rightarrow> (er, [Bound GateServer, Bound AdminServer] @ es)))
         else (case run_servers e [GateServer] of (er, es) \<Rightarrow> (er, Bound GateServer # es)))"

definition run :: "run_env \<Rightarrow> run_error option \<times> run_event list" where
  "run e =
     (case config_Load (rn_load e) (rn_path e) of
        Inl er \<Rightarrow> (Some (RunConfig er), [])
      | Inr c \<Rightarrow>
         if rn_check e then (map_option RunHealth (healthcheck (rn_requestOk e) (rn_fetch e) (c_Listen c)), [])
         else (case gate_New (rn_build e) c of
                 Inl er \<Rightarrow> (Some (RunBuild er), [])
               | Inr _ \<Rightarrow> run_listeners e c))"

definition exit_code :: "run_env \<Rightarrow> int" where
  "exit_code e = (if fst (run e) \<noteq> None then 1 else 0)"


subsection \<open>The grant store's path is absolute\<close>

lemma rooted_Clean: "filepath_IsAbs p \<Longrightarrow> filepath_IsAbs (path_Clean p)"
  by (cases p) (auto simp: filepath_IsAbs_def path_Clean_def Let_def has_prefix_iff)

lemma rooted_append: "filepath_IsAbs a \<Longrightarrow> filepath_IsAbs (a @ b)"
  by (auto simp: filepath_IsAbs_def has_prefix_iff)

lemma rooted_Join: "filepath_IsAbs a \<Longrightarrow> filepath_IsAbs (filepath_Join a b)"
  by (auto simp: filepath_Join_def intro!: rooted_Clean rooted_append) (simp add: filepath_IsAbs_def has_prefix_iff)

lemma rooted_Dir:
  assumes "filepath_IsAbs p" shows "filepath_IsAbs (filepath_Dir p)"
proof -
  from assms obtain q where p: "p = CHR ''/'' # q" by (auto simp: filepath_IsAbs_def has_prefix_iff)
  obtain i where "last_index p ''/'' = Some i"
    using p by (cases "last_index q ''/''") (auto simp: has_prefix_iff)
  moreover have "filepath_IsAbs (take (Suc i) p)" using p by (simp add: filepath_IsAbs_def has_prefix_iff)
  ultimately show ?thesis by (simp add: filepath_Dir_def rooted_Clean del: last_index.simps)
qed

lemma rooted_Abs: "filepath_Abs wd p = Some q \<Longrightarrow> \<forall>d. wd = Some d \<longrightarrow> filepath_IsAbs d \<Longrightarrow> filepath_IsAbs q"
  by (auto simp: filepath_Abs_def rooted_Clean rooted_Join split: if_splits)

lemma state_file_placed:
  assumes "place_state_file wd path c = Inr c'" and "\<forall>d. wd = Some d \<longrightarrow> filepath_IsAbs d" and "c_Payments c' = Some p"
  shows "filepath_IsAbs (py_StateFile p)"
proof (cases "c_Payments c")
  case (Some p0)
  with assms(1) obtain q where q: "filepath_Abs wd path = Some q" by (auto simp: place_state_file_def split: option.splits)
  then have "filepath_IsAbs (filepath_Join (filepath_Dir q) f)" for f using rooted_Abs assms(2) rooted_Dir rooted_Join by blast
  with assms(1,3) Some q show ?thesis by (auto simp: place_state_file_def Let_def)
qed (use assms in \<open>auto simp: place_state_file_def\<close>)

lemma payments_validate_file: "payments_validate he p = Inr p' \<Longrightarrow> py_StateFile p' = py_StateFile p"
  unfolding payments_validate_def Let_def guard_Inr case_sum_Inr case_option_error_Inr by auto

lemma config_validate_file:
  assumes "config_validate he c0 = Inr c" and "c_Payments c = Some p"
  shows "\<exists>p0. c_Payments c0 = Some p0 \<and> py_StateFile p = py_StateFile p0"
proof -
  from assms(1) obtain c1 c2 where k: "auto_key he c0 = Inr c1"
    and pay: "(case c_Payments c1 of None \<Rightarrow> Inr c1
        | Some p \<Rightarrow> (case payments_validate he p of Inl e \<Rightarrow> Inl e | Inr p' \<Rightarrow> Inr (c1\<lparr>c_Payments := Some p'\<rparr>))) = Inr c2"
    and act: "(case c_Activity c2 of None \<Rightarrow> Inr c2
        | Some a \<Rightarrow> (case activity_validate a of Inl e \<Rightarrow> Inl e | Inr a' \<Rightarrow> Inr (c2\<lparr>c_Activity := Some a'\<rparr>))) = Inr c"
    unfolding config_validate_def case_sum_Inr case_option_error_Inr by blast
  have "c_Payments c = c_Payments c2" using act by (auto split: option.splits)
  moreover have "c_Payments c1 = c_Payments c0" using k by (auto simp: auto_key_def split: if_splits option.splits)
  ultimately show ?thesis using pay payments_validate_file assms(2) by (auto split: option.splits sum.splits)
qed

lemma config_Load_Inr:
  assumes "config_Load ld path = Inr c"
  shows "\<exists>c0. config_validate (ld_host ld) c0 = Inr c \<and> (\<exists>c1. place_state_file (ld_Getwd ld) path c1 = Inr c0)"
  using assms unfolding config_Load_def by (auto split: option.splits if_splits sum.splits)

lemma loaded_state_file:
  assumes "config_Load ld path = Inr c" and "\<forall>d. ld_Getwd ld = Some d \<longrightarrow> filepath_IsAbs d" and "c_Payments c = Some p"
  shows "filepath_IsAbs (py_StateFile p)"
proof -
  from config_Load_Inr [OF assms(1)] obtain c0 c1 where c: "config_validate (ld_host ld) c0 = Inr c" "place_state_file (ld_Getwd ld) path c1 = Inr c0" by blast
  from config_validate_file [OF c(1) assms(3)] state_file_placed [OF c(2) assms(2)] show ?thesis by force
qed

subsection \<open>What a run does\<close>

lemma run_servers_events:
  assumes "run_servers e ss = (er, es)"
  shows "set es \<inter> range Serving = Serving ` set ss" "set es \<inter> range Bound = {}"
    "er = (case rn_end e of ServerFailed s \<Rightarrow> Some (RunServe s) | Signalled \<Rightarrow> None)"
    "rn_end e = Signalled \<Longrightarrow> Draining s \<in> set es \<longleftrightarrow> s \<in> set ss"
    "Closed s \<in> set es \<longleftrightarrow> rn_end e = Signalled \<and> s \<in> set ss \<and> \<not> rn_drained e s"
  using assms by (auto simp: run_servers_def stop_server_def split: run_end.splits if_splits)

text \<open>Nothing is served before every listener is bound, and a run that was not asked to stop ends in an error.\<close>

lemma run_listeners_events:
  assumes "rn_Listen e (c_Listen c) = None" and "c_AdminListen c \<noteq> [] \<longrightarrow> rn_Listen e (c_AdminListen c) = None"
  shows "\<exists>bs es. run_listeners e c = (case rn_end e of ServerFailed s \<Rightarrow> Some (RunServe s) | Signalled \<Rightarrow> None, bs @ es)
    \<and> set bs \<subseteq> range Bound \<and> set es \<inter> range Bound = {}
    \<and> (\<forall>s. (Bound s \<in> set bs \<longleftrightarrow> s = GateServer \<or> c_AdminListen c \<noteq> []) \<and> (Serving s \<in> set es \<longleftrightarrow> Bound s \<in> set bs)
       \<and> (rn_end e = Signalled \<and> Bound s \<in> set bs \<longrightarrow> Draining s \<in> set es \<and> (rn_drained e s \<or> Closed s \<in> set es)))"
proof -
  define ss where "ss = (if c_AdminListen c \<noteq> [] then [AdminServer, GateServer] else [GateServer])"
  define bs where "bs = (if c_AdminListen c \<noteq> [] then [Bound GateServer, Bound AdminServer] else [Bound GateServer])"
  obtain er es where r: "run_servers e ss = (er, es)" by force
  have run: "run_listeners e c = (er, bs @ es)" using assms r by (auto simp: run_listeners_def ss_def bs_def)
  note v = run_servers_events [OF r]
  have "s \<in> set ss \<longleftrightarrow> s = GateServer \<or> c_AdminListen c \<noteq> []" "Bound s \<in> set bs \<longleftrightarrow> s = GateServer \<or> c_AdminListen c \<noteq> []" for s
    by (cases s; auto simp: ss_def bs_def)+
  moreover have "set bs \<subseteq> range Bound" by (auto simp: bs_def)
  moreover have "Serving s \<in> set es \<longleftrightarrow> s \<in> set ss" for s using v(1) by auto
  ultimately show ?thesis using run v(2-5) by (intro exI [of _ bs] exI [of _ es]) auto
qed

text \<open>C30: a configuration that loads is served exactly when no two keys have one name. Let \<open>Load\<close> accept the file, the embedded ranges be readable,
  the grant store writable and the ports free. If the names of the keys differ, the process builds its gate and serves: every listener is bound before any
  server starts, the admin's exactly when configured, and the grant store's path is absolute. The process exits 0 exactly when a
  signal stopped it, and then every server is told to drain and, past the grace, closed. If two names are equal, which \<open>Load\<close> does not
  notice, the process exits 1 with the keyring's error and has bound nothing.\<close>

theorem loaded_config_serves:
  assumes "config_Load (rn_load e) (rn_path e) = Inr c" and "\<not> rn_check e" and "bd_host (rn_build e) = ld_host (rn_load e)"
    and "\<forall>raw. he_Rand (ld_host (rn_load e)) = Some raw \<longrightarrow> 16 \<le> length raw"
    and "crawler_New (bd_ranges (rn_build e)) (bc_VerifiedCrawlers (c_Bypass c)) = Inr crawlers"
    and "hosted_New (bd_hosted (rn_build e)) = Inr hosted"
    and "open_ok (bd_store (rn_build e))" and "commit_ok (bd_store (rn_build e))"
    and "\<forall>d. ld_Getwd (rn_load e) = Some d \<longrightarrow> filepath_IsAbs d"
    and "rn_Listen e (c_Listen c) = None" and "c_AdminListen c \<noteq> [] \<longrightarrow> rn_Listen e (c_AdminListen c) = None"
  shows "(distinct (map kc_Kid (c_HMACKeys c)) \<longrightarrow>
      (\<exists>bs es. run e = (case rn_end e of ServerFailed s \<Rightarrow> Some (RunServe s) | Signalled \<Rightarrow> None, bs @ es)
        \<and> set bs \<subseteq> range Bound \<and> set es \<inter> range Bound = {}
        \<and> (\<forall>s. (Bound s \<in> set bs \<longleftrightarrow> s = GateServer \<or> c_AdminListen c \<noteq> []) \<and> (Serving s \<in> set es \<longleftrightarrow> Bound s \<in> set bs)
           \<and> (rn_end e = Signalled \<and> Bound s \<in> set bs \<longrightarrow> Draining s \<in> set es \<and> (rn_drained e s \<or> Closed s \<in> set es)))
        \<and> (exit_code e = 0 \<longleftrightarrow> rn_end e = Signalled) \<and> (\<forall>p. c_Payments c = Some p \<longrightarrow> filepath_IsAbs (py_StateFile p))))
    \<and> (\<not> distinct (map kc_Kid (c_HMACKeys c)) \<longrightarrow> exit_code e = 1 \<and> (\<exists>er. run e = (Some (RunBuild (BuildToken er)), [])))"
proof (intro conjI [where P = "distinct (map kc_Kid (c_HMACKeys c)) \<longrightarrow> P" for P] impI)
  assume dist: "distinct (map kc_Kid (c_HMACKeys c))"
  from config_Load_Inr [OF assms(1)] obtain c0 where v: "config_validate (bd_host (rn_build e)) c0 = Inr c" using assms(3) by auto
  have f: "\<forall>p. c_Payments c = Some p \<longrightarrow> filepath_IsAbs (py_StateFile p)" using loaded_state_file [OF assms(1,9)] by blast
  then have "\<forall>p. c_Payments c = Some p \<longrightarrow> py_StateFile p \<noteq> []" by (auto simp: filepath_IsAbs_def has_prefix_iff)
  then obtain g s where "gate_New (rn_build e) c = Inr (g, s)"
    using gate_New_returns [OF v _ dist assms(5,6)] assms(3,4,7,8) by auto
  then have r: "run e = run_listeners e c" using assms(1,2) by (simp add: run_def)
  then have x: "exit_code e = 0 \<longleftrightarrow> rn_end e = Signalled"
    using run_listeners_events [OF assms(10,11)] by (auto simp: exit_code_def split: run_end.splits)
  show "\<exists>bs es. run e = (case rn_end e of ServerFailed s \<Rightarrow> Some (RunServe s) | Signalled \<Rightarrow> None, bs @ es)
        \<and> set bs \<subseteq> range Bound \<and> set es \<inter> range Bound = {}
        \<and> (\<forall>s. (Bound s \<in> set bs \<longleftrightarrow> s = GateServer \<or> c_AdminListen c \<noteq> []) \<and> (Serving s \<in> set es \<longleftrightarrow> Bound s \<in> set bs)
           \<and> (rn_end e = Signalled \<and> Bound s \<in> set bs \<longrightarrow> Draining s \<in> set es \<and> (rn_drained e s \<or> Closed s \<in> set es)))
        \<and> (exit_code e = 0 \<longleftrightarrow> rn_end e = Signalled) \<and> (\<forall>p. c_Payments c = Some p \<longrightarrow> filepath_IsAbs (py_StateFile p))"
    using run_listeners_events [OF assms(10,11)] f x unfolding r by blast
next
  assume "\<not> distinct (map kc_Kid (c_HMACKeys c))"
  moreover from config_Load_Inr [OF assms(1)] obtain c0 where "config_validate (bd_host (rn_build e)) c0 = Inr c" using assms(3) by auto
  ultimately obtain er where "gate_New (rn_build e) c = Inl (BuildToken er)" using gate_New_same_kid assms(3,4) by metis
  then have "run e = (Some (RunBuild (BuildToken er)), [])" using assms(1,2) by (simp add: run_def)
  then show "exit_code e = 1 \<and> (\<exists>er. run e = (Some (RunBuild (BuildToken er)), []))" by (simp add: exit_code_def)
qed

definition demo_start :: run_env where
  "demo_start = \<lparr>rn_load = \<lparr>ld_host = demo_host, ld_Decode = (\<lambda>_ _. Some (demo_file, \<lparr>tm_Keys = [], tm_Undecoded = []\<rparr>)),
       ld_keyString = join ''.'', ld_Getwd = Some ''/srv''\<rparr>,
     rn_path = ''/etc/anteroom.toml'', rn_check = False, rn_requestOk = (\<lambda>_. True), rn_fetch = (\<lambda>_. Some 200), rn_build = demo_build,
     rn_Listen = (\<lambda>_. None), rn_end = Signalled, rn_drained = (\<lambda>_. True)\<rparr>"

lemma demo_loads: "\<exists>p. config_Load (rn_load demo_start) (rn_path demo_start) = Inr (demo_file\<lparr>c_Payments := Some p\<rparr>) \<and> demo_priced p"
proof -
  have "applyEnv demo_host demo_file = demo_file" by (simp add: applyEnv_def demo_host_def override_def demo_file_def defaults_def)
  moreover have "place_state_file (Some ''/srv'') ''/etc/anteroom.toml'' demo_file = Inr demo_file"
    by (simp add: place_state_file_def demo_file_def demo_pricing_def filepath_Abs_def filepath_IsAbs_def has_prefix_iff)
  ultimately show ?thesis using demo_file_ok by (simp add: config_Load_def demo_start_def validateConfigKeys_def)
qed

text \<open>The same process with the file that names two keys alike.\<close>

definition twin_start :: run_env where
  "twin_start = demo_start\<lparr>rn_load := (rn_load demo_start)\<lparr>ld_Decode := (\<lambda>_ _. Some (twin_file, \<lparr>tm_Keys = [], tm_Undecoded = []\<rparr>))\<rparr>\<rparr>"

lemma twin_loads: "config_Load (rn_load twin_start) (rn_path twin_start) = Inr twin_file"
proof -
  have "applyEnv demo_host twin_file = twin_file" by (simp add: applyEnv_def demo_host_def override_def twin_file_def demo_file_def defaults_def)
  moreover have "place_state_file (Some ''/srv'') ''/etc/anteroom.toml'' twin_file = Inr twin_file" by (simp add: place_state_file_def twin_file_def)
  ultimately show ?thesis using twin_file_ok(1) by (simp add: config_Load_def twin_start_def demo_start_def validateConfigKeys_def)
qed

lemma loaded_config_serves_witness:
  "exit_code demo_start = 0 \<and> (\<exists>es. run demo_start = (None, es) \<and> Serving GateServer \<in> set es) \<and> exit_code twin_start = 1"
proof -
  obtain p where p: "config_Load (rn_load demo_start) (rn_path demo_start) = Inr (demo_file\<lparr>c_Payments := Some p\<rparr>)" "demo_priced p"
    using demo_loads by (elim exE conjE)
  obtain h where h: "hosted_New (bd_hosted demo_build) = Inr h" using demo_hosted_ok ..
  note d = demo_gate [OF p(2)]
  have s: "rn_build e = demo_build" "ld_host (rn_load e) = demo_host" "\<not> rn_check e" "rn_end e = Signalled"
    "\<forall>d. ld_Getwd (rn_load e) = Some d \<longrightarrow> filepath_IsAbs d" "rn_Listen e a = None" if "e = demo_start \<or> e = twin_start" for e a
    using that by (auto simp: demo_start_def twin_start_def filepath_IsAbs_def has_prefix_iff)
  have b: "open_ok (bd_store demo_build)" "commit_ok (bd_store demo_build)" by (simp_all add: demo_build_def)
  note sd = s [of demo_start, simplified] and st = s [of twin_start, simplified]
  from loaded_config_serves [OF p(1) sd(3), unfolded sd(1,2), OF d(3) d(4) [unfolded d(3)] d(5) h b sd(5) sd(6)] sd(4,6) d(6)
  obtain bs es where "run demo_start = (None, bs @ es)" "exit_code demo_start = 0" "Serving GateServer \<in> set es" by auto
  moreover have "crawler_New (bd_ranges demo_build) (bc_VerifiedCrawlers (c_Bypass twin_file)) = Inr \<lparr>cs_providers = [], cs_cache = []\<rparr>"
    by (simp add: twin_file_def demo_file_def defaults_def crawler_New_def)
  from loaded_config_serves [OF twin_loads st(3), unfolded st(1,2), OF d(3) d(4) [unfolded d(3)] this h b st(5) st(6)] st(6) twin_file_ok(2)
  have "exit_code twin_start = 1" by blast
  ultimately show ?thesis by auto
qed

text \<open>The probe asks the port that the gate binds, on the loopback address when it listens everywhere.\<close>

lemma health_URL_examples:
  "health_URL '':8080'' = Some (''http://127.0.0.1:8080'' @ HealthPath)" "health_URL ''[::]:80'' = Some (''http://127.0.0.1:80'' @ HealthPath)"
  "health_URL ''10.0.0.7:80'' = Some (''http://10.0.0.7:80'' @ HealthPath)" "health_URL ''[::1]:80'' = Some (''http://[::1]:80'' @ HealthPath)"
  "bindError '':443'' ListenPermission = BindPrivileged 443" "bindError '':8080'' ListenPermission = BindAsIs ListenPermission"
  by code_simp+

end
