(* ===== verification/Client.thy ===== *)
theory Client
  imports Startup
begin

text \<open>
  The client of the acceptance suite (\<open>acceptance/harness/client.go\<close>): an HTTP client with a cookie jar, aimed at one
  deployment. \<open>net/http\<close>'s client and \<open>cookiejar\<close> are modelled as far as the suite uses them: cookies without a
  \<open>Domain\<close> or \<open>Expires\<close> attribute, no redirects. \<open>url.Parse\<close> and \<open>URL.String\<close> are parameters, and so is the
  network: a world that answers requests and is asked for the time.
\<close>

subsection \<open>Requests, responses and the network\<close>

record url =
  ur_Scheme :: bytes
  ur_Host :: bytes
  ur_Path :: bytes
  ur_EscapedPath :: bytes
  ur_RawQuery :: bytes

record url_ops =
  url_Parse :: "bytes \<Rightarrow> url option"
  url_String :: "url \<Rightarrow> bytes"

record client_request =
  cq_Method :: bytes
  cq_URL :: url
  cq_Host :: bytes
  cq_Header :: header
  cq_Body :: "bytes option"

record client_response =
  rs_StatusCode :: int
  rs_Header :: header
  rs_Body :: bytes
  rs_ReadErr :: bool

record 'w network =
  nw_Now :: "'w \<Rightarrow> time \<times> 'w"
  nw_RoundTrip :: "client_request \<Rightarrow> 'w \<Rightarrow> (bytes + client_response) \<times> 'w"
  nw_Sleep :: "duration \<Rightarrow> 'w \<Rightarrow> bool \<times> 'w"

datatype client_error =
    ErrURL
  | ErrTransport bytes
  | ErrRead
  | ErrStatus int bytes
  | ErrJSON int
  | ErrThresholdLength nat
  | ErrThresholdHex
  | ErrNoNonce nat
  | ErrRefused int bytes
  | ErrOverran nat
  | ErrNoPass "client_error option"
  | ErrContext

subsection \<open>The cookie jar\<close>

text \<open>A cookie as a \<open>Set-Cookie\<close> line gives it. A \<open>MaxAge\<close> of 0 is none, a negative one deletes the cookie.\<close>

record received_cookie =
  rc_Name :: bytes
  rc_Value :: bytes
  rc_Path :: bytes
  rc_MaxAge :: int
  rc_Secure :: bool

definition set_MaxAge :: "bytes \<Rightarrow> received_cookie \<Rightarrow> received_cookie" where
  "set_MaxAge val c =
     (case strconv_Atoi val of
        None \<Rightarrow> c
      | Some n \<Rightarrow>
          if n \<noteq> 0 \<and> take 1 val = ''0'' then c
          else c\<lparr>rc_MaxAge := (if n \<le> 0 then -1 else n)\<rparr>)"

definition cookie_attribute :: "received_cookie \<Rightarrow> bytes \<Rightarrow> received_cookie" where
  "cookie_attribute c part =
     (let part = trim_space part in
      if part = [] then c
      else
        (let (attr, val, _) = cut CHR ''='' part; attr = to_lower attr in
         if \<not> list_all valid_cookie_byte val then c
         else if attr = ''secure'' then c\<lparr>rc_Secure := True\<rparr>
         else if attr = ''max-age'' then set_MaxAge val c
         else if attr = ''path'' then c\<lparr>rc_Path := val\<rparr>
         else c))"

definition parse_set_cookie :: "bytes \<Rightarrow> received_cookie option" where
  "parse_set_cookie line =
     (let parts = split_on CHR '';'' (trim_space line); p = trim_space (hd parts) in
      if CHR ''='' \<notin> set p then None
      else
        (case parse_cookie p of
           None \<Rightarrow> None
         | Some (name, v) \<Rightarrow>
             Some (foldl cookie_attribute
               \<lparr>rc_Name = name, rc_Value = v, rc_Path = [], rc_MaxAge = 0, rc_Secure = False\<rparr> (tl parts))))"

definition response_cookies :: "header \<Rightarrow> received_cookie list" where
  "response_cookies h = List.map_filter parse_set_cookie (hdr_Values h ''Set-Cookie'')"

record jar_entry =
  je_Host :: bytes
  je_Path :: bytes
  je_Name :: bytes
  je_Value :: bytes
  je_Secure :: bool
  je_Expires :: "time option"

text \<open>The entries in the order in which they were created.\<close>

type_synonym jar = "jar_entry list"

definition jar_host :: "bytes \<Rightarrow> bytes" where
  "jar_host h = to_lower (case SplitHostPort h of Some (name, port) \<Rightarrow> name | None \<Rightarrow> h)"

definition default_path :: "bytes \<Rightarrow> bytes" where
  "default_path p =
     (if \<not> has_prefix p ''/'' then ''/''
      else (case last_index p ''/'' of None \<Rightarrow> ''/'' | Some i \<Rightarrow> if i = 0 then ''/'' else take i p))"

definition same_id :: "jar_entry \<Rightarrow> jar_entry \<Rightarrow> bool" where
  "same_id e e' \<longleftrightarrow> je_Host e = je_Host e' \<and> je_Path e = je_Path e' \<and> je_Name e = je_Name e'"

fun jar_put :: "jar_entry \<Rightarrow> jar \<Rightarrow> jar" where
  "jar_put e [] = [e]"
| "jar_put e (e' # es) = (if same_id e e' then e # es else e' # jar_put e es)"

definition jar_set :: "url \<Rightarrow> time \<Rightarrow> jar \<Rightarrow> received_cookie \<Rightarrow> jar" where
  "jar_set u now jar c =
     (let e = \<lparr>je_Host = jar_host (ur_Host u),
               je_Path = (if has_prefix (rc_Path c) ''/'' then rc_Path c else default_path (ur_Path u)),
               je_Name = rc_Name c, je_Value = rc_Value c, je_Secure = rc_Secure c,
               je_Expires = (if 0 < rc_MaxAge c then Some (now + rc_MaxAge c * second) else None)\<rparr>
      in if rc_MaxAge c < 0 then filter (\<lambda>e'. \<not> same_id e e') jar else jar_put e jar)"

definition has_http_scheme :: "url \<Rightarrow> bool" where
  "has_http_scheme u \<longleftrightarrow> ur_Scheme u = ''http'' \<or> ur_Scheme u = ''https''"

definition jar_SetCookies :: "url \<Rightarrow> time \<Rightarrow> received_cookie list \<Rightarrow> jar \<Rightarrow> jar" where
  "jar_SetCookies u now cs jar = (if has_http_scheme u then foldl (jar_set u now) jar cs else jar)"

definition path_match :: "bytes \<Rightarrow> bytes \<Rightarrow> bool" where
  "path_match path p \<longleftrightarrow> path = p \<or> has_prefix path p \<and> (has_suffix p ''/'' \<or> take 1 (drop (length p) path) = ''/'')"

definition should_send :: "url \<Rightarrow> time \<Rightarrow> jar_entry \<Rightarrow> bool" where
  "should_send u now e \<longleftrightarrow>
     (case je_Expires e of None \<Rightarrow> True | Some t \<Rightarrow> now < t) \<and> je_Host e = jar_host (ur_Host u)
     \<and> path_match (if ur_Path u = [] then ''/'' else ur_Path u) (je_Path e) \<and> (je_Secure e \<longrightarrow> ur_Scheme u = ''https'')"

text \<open>The longest path first, then the oldest.\<close>

definition jar_Cookies :: "url \<Rightarrow> time \<Rightarrow> jar \<Rightarrow> (bytes \<times> bytes) list" where
  "jar_Cookies u now jar =
     (if has_http_scheme u
      then map (\<lambda>e. (je_Name e, je_Value e)) (sort_key (\<lambda>e. - int (length (je_Path e))) (filter (should_send u now) jar))
      else [])"

text \<open>\<open>Request.AddCookie\<close>; a value with a space or a comma is quoted.\<close>

definition AddCookie :: "header \<Rightarrow> bytes \<times> bytes \<Rightarrow> header" where
  "AddCookie h = (\<lambda>(name, v).
     let v = filter valid_cookie_byte v;
         v = (if CHR '' '' \<in> set v \<or> CHR '','' \<in> set v then [CHR 0x22] @ v @ [CHR 0x22] else v);
         c = name @ ''='' @ v; old = hdr_Get h ''Cookie''
     in hdr_Set h ''Cookie'' (if old = [] then c else old @ ''; '' @ c))"

subsection \<open>The client\<close>

record client =
  cl_base :: url
  cl_jar :: jar

definition DefaultUserAgent :: bytes where
  "DefaultUserAgent = ''Mozilla/5.0 (acceptance) AppleWebKit/537.36 Chrome/120 Safari/537.36''"

type_synonym request_option = "client_request \<Rightarrow> client_request"

definition Header :: "bytes \<Rightarrow> bytes \<Rightarrow> request_option" where
  "Header k v r = r\<lparr>cq_Header := hdr_Set (cq_Header r) k v\<rparr>"

definition Host :: "bytes \<Rightarrow> request_option" where
  "Host v r = r\<lparr>cq_Host := v\<rparr>"

definition Browser :: request_option where
  "Browser r = Header ''User-Agent'' DefaultUserAgent
     (Header ''Accept'' ''text/html,application/xhtml+xml,application/xml;q=0.9,*/*;q=0.8''
     (Header ''Sec-Fetch-Dest'' ''document'' (Header ''Sec-Fetch-Mode'' ''navigate'' r)))"

definition NewClient :: "url_ops \<Rightarrow> bytes \<Rightarrow> client option" where
  "NewClient ops base = map_option (\<lambda>u. \<lparr>cl_base = u, cl_jar = []\<rparr>) (url_Parse ops base)"

definition URL :: "url_ops \<Rightarrow> client \<Rightarrow> bytes \<Rightarrow> bytes" where
  "URL ops c path =
     (if has_prefix path ''http://'' \<or> has_prefix path ''https://'' then path
      else trim_suffix (url_String ops (cl_base c)) ''/'' @ path)"

text \<open>\<open>http.Client.Do\<close> with a jar and no redirects.\<close>

definition cookie_url :: "client_request \<Rightarrow> url" where
  "cookie_url r = (if cq_Host r = [] then cq_URL r else (cq_URL r)\<lparr>ur_Host := cq_Host r\<rparr>)"

definition http_Do ::
  "'w network \<Rightarrow> client \<Rightarrow> client_request \<Rightarrow> 'w \<Rightarrow> (client_error + client_response) \<times> client \<times> 'w" where
  "http_Do net c r w =
     (let u = cookie_url r;
          (now, w) = nw_Now net w;
          r = r\<lparr>cq_Header := foldl AddCookie (cq_Header r) (jar_Cookies u now (cl_jar c))\<rparr>;
          (res, w) = nw_RoundTrip net r w
      in case res of
           Inl e \<Rightarrow> (Inl (ErrTransport e), c, w)
         | Inr resp \<Rightarrow>
             (let cs = response_cookies (rs_Header resp);
                  (c, w) = (if cs = [] then (c, w)
                            else (let (now, w) = nw_Now net w in (c\<lparr>cl_jar := jar_SetCookies u now cs (cl_jar c)\<rparr>, w)))
              in (if rs_ReadErr resp then Inl ErrRead else Inr resp, c, w)))"

definition Do :: "url_ops \<Rightarrow> 'w network \<Rightarrow> client \<Rightarrow> bytes \<Rightarrow> bytes \<Rightarrow> bytes option \<Rightarrow> request_option list \<Rightarrow> 'w
    \<Rightarrow> (client_error + client_response) \<times> client \<times> 'w" where
  "Do ops net c meth path body opts w =
     (case url_Parse ops (URL ops c path) of
        None \<Rightarrow> (Inl ErrURL, c, w)
      | Some u \<Rightarrow>
         (let r = foldl (\<lambda>r opt. opt r)
                    \<lparr>cq_Method = meth, cq_URL = u, cq_Host = ur_Host u, cq_Header = hdr_empty, cq_Body = body\<rparr> opts;
              r = (if hdr_Get (cq_Header r) ''User-Agent'' = [] then Header ''User-Agent'' DefaultUserAgent r else r)
          in http_Do net c r w))"

definition Get :: "url_ops \<Rightarrow> 'w network \<Rightarrow> client \<Rightarrow> bytes \<Rightarrow> request_option list \<Rightarrow> 'w
    \<Rightarrow> (client_error + client_response) \<times> client \<times> 'w" where
  "Get ops net c path opts w = Do ops net c ''GET'' path None opts w"

definition ClearCookies :: "client \<Rightarrow> client" where
  "ClearCookies c = c\<lparr>cl_jar := []\<rparr>"

definition client_Pass :: "'w network \<Rightarrow> client \<Rightarrow> 'w \<Rightarrow> bytes \<times> 'w" where
  "client_Pass net c w =
     (let (now, w) = nw_Now net w in
      (case find (\<lambda>(name, v). name = cookieName) (jar_Cookies (cl_base c) now (cl_jar c)) of
         None \<Rightarrow> [] | Some (name, v) \<Rightarrow> v, w))"

definition SendPass :: "'w network \<Rightarrow> client \<Rightarrow> 'w \<Rightarrow> request_option \<times> 'w" where
  "SendPass net c w =
     (let (v, w) = client_Pass net c w in
      (\<lambda>r. if v \<noteq> [] then Header ''Cookie'' (cookieName @ ''='' @ v) r else r, w))"

definition SetPass :: "'w network \<Rightarrow> client \<Rightarrow> bytes \<Rightarrow> 'w \<Rightarrow> client \<times> 'w" where
  "SetPass net c v w =
     (let (now, w) = nw_Now net w in
      (c\<lparr>cl_jar := jar_SetCookies (cl_base c) now
           [\<lparr>rc_Name = cookieName, rc_Value = v, rc_Path = ''/'', rc_MaxAge = 0, rc_Secure = False\<rparr>] (cl_jar c)\<rparr>, w))"

text \<open>
  \<open>WaitReady\<close> polls until the gate answers, the deadline passes or the context is done. The loop has no bound of its
  own: it ends with the clock.
\<close>

partial_function (option) wait_loop ::
  "url_ops \<Rightarrow> 'w network \<Rightarrow> time \<Rightarrow> client \<Rightarrow> client_error option \<Rightarrow> 'w \<Rightarrow> (client_error option \<times> client \<times> 'w) option" where
  "wait_loop ops net deadline c err w =
     (let (now, w) = nw_Now net w in
      if \<not> now < deadline then Some (err, c, w)
      else
        (let (res, c, w) = Get ops net c HealthPath [] w in
         if (case res of Inl e \<Rightarrow> False | Inr resp \<Rightarrow> rs_StatusCode resp = 200) then Some (None, c, w)
         else
           (let (over, w) = nw_Sleep net (200 * millisecond) w in
            if over then Some (Some ErrContext, c, w)
            else wait_loop ops net deadline c
              (Some (case res of Inl e \<Rightarrow> e | Inr resp \<Rightarrow> ErrStatus (rs_StatusCode resp) [])) w)))"

definition WaitReady ::
  "url_ops \<Rightarrow> 'w network \<Rightarrow> time option \<Rightarrow> client \<Rightarrow> 'w \<Rightarrow> (client_error option \<times> client \<times> 'w) option" where
  "WaitReady ops net deadline c w =
     (let (deadline, w) = (case deadline of
            Some t \<Rightarrow> (t, w) | None \<Rightarrow> (let (now, w) = nw_Now net w in (now + 30 * second, w)))
      in wait_loop ops net deadline c None w)"

subsection \<open>A pass in the jar\<close>

lemma parse_cookie_pass: "v \<noteq> [] \<Longrightarrow> list_all cookie_safe v \<Longrightarrow> parse_cookie (cookieName @ ''='' @ v) = Some (cookieName, v)"
proof -
  assume v: "v \<noteq> []" "list_all cookie_safe v"
  let ?p = "cookieName @ ''='' @ v"
  have "hdr_Values (hdr_Set hdr_empty ''Cookie'' ?p) ''Cookie'' = [?p]" by simp
  note c = Cookies_pass [OF this v]
  have "CHR '';'' \<notin> set cookieName" by code_simp
  with v(2) have "CHR '';'' \<notin> set ?p" by (auto simp: list_all_iff cookie_safe_def)
  from c split_on_no_sep [OF this] show ?thesis
    by (simp add: Cookies_def List.map_filter_def split: option.splits if_splits del: append_assoc)
qed

lemma trim_last: "s \<noteq> [] \<Longrightarrow> \<not> is_space (hd s) \<Longrightarrow> \<not> is_space (last s) \<Longrightarrow> trim_space (CHR '' '' # s) = s"
proof -
  assume "s \<noteq> []" "\<not> is_space (hd s)" "\<not> is_space (last s)"
  then have "trim_space s = s" by (intro trim_space_id) auto
  moreover have "is_space CHR '' ''" by code_simp
  ultimately show ?thesis by (simp add: trim_space_def trim_left_while_def)
qed

lemma attribute_parts:
  "cookie_attribute c '' Path=/'' = c\<lparr>rc_Path := ''/''\<rparr>" "cookie_attribute c '' HttpOnly'' = c"
  "cookie_attribute c '' Secure'' = c\<lparr>rc_Secure := True\<rparr>" "cookie_attribute c '' SameSite=Lax'' = c"
proof -
  have t: "trim_space '' Path=/'' = ''Path=/''" "trim_space '' HttpOnly'' = ''HttpOnly''" "trim_space '' Secure'' = ''Secure''"
    "trim_space '' SameSite=Lax'' = ''SameSite=Lax''" "cut CHR ''='' ''Path=/'' = (''Path'', ''/'', True)"
    "cut CHR ''='' ''HttpOnly'' = (''HttpOnly'', [], False)" "cut CHR ''='' ''Secure'' = (''Secure'', [], False)"
    "cut CHR ''='' ''SameSite=Lax'' = (''SameSite'', ''Lax'', True)" "to_lower ''Path'' = ''path''" "to_lower ''HttpOnly'' = ''httponly''"
    "to_lower ''Secure'' = ''secure''" "to_lower ''SameSite'' = ''samesite''" "list_all valid_cookie_byte ''/''" "list_all valid_cookie_byte ''Lax''"
    by code_simp+
  show "cookie_attribute c '' Path=/'' = c\<lparr>rc_Path := ''/''\<rparr>" "cookie_attribute c '' HttpOnly'' = c"
    "cookie_attribute c '' Secure'' = c\<lparr>rc_Secure := True\<rparr>" "cookie_attribute c '' SameSite=Lax'' = c"
    unfolding cookie_attribute_def t Let_def prod.case using t(13,14) by simp_all
qed

lemma show_nat_bytes: "c \<in> set (show_nat n) \<Longrightarrow> is_digit c"
  using show_nat_digits [of n] by (auto simp: all_digits_def list_all_iff)

lemma digit_no_space: "is_digit c \<Longrightarrow> \<not> is_space c \<and> valid_cookie_byte c \<and> c \<noteq> CHR ''-'' \<and> c \<noteq> CHR ''+'' \<and> c \<noteq> CHR '';''"
  by (auto simp: is_digit_def is_space_def valid_cookie_byte_def char_between_def byte_val_def)

lemma attribute_MaxAge:
  assumes "0 < n" and "in_int64 (int n)"
  shows "cookie_attribute c ('' Max-Age='' @ show_nat n) = c\<lparr>rc_MaxAge := int n\<rparr>"
proof -
  have d: "show_nat n \<noteq> []" "\<And>c. c \<in> set (show_nat n) \<Longrightarrow> is_digit c" using show_nat_bytes by auto
  have v: "list_all valid_cookie_byte (show_nat n)" using d digit_no_space by (auto simp: list_all_iff)
  have l: "\<not> is_space (last (''Max-Age='' @ show_nat n))" using d digit_no_space by simp
  have h: "\<not> is_space (hd (''Max-Age='' @ show_nat n))" by (simp add: is_space_def byte_val_def)
  have t: "trim_space ('' Max-Age='' @ show_nat n) = ''Max-Age='' @ show_nat n"
    using trim_last [OF _ h l] by simp
  have c: "cut CHR ''='' (''Max-Age'' @ CHR ''='' # show_nat n) = (''Max-Age'', show_nat n, True)" by (rule cut_append) code_simp
  have m: "to_lower ''Max-Age'' = ''max-age''" by code_simp
  obtain a as where s: "show_nat n = a # as" using d(1) by (cases "show_nat n") auto
  then have a: "a \<noteq> CHR ''+''" using d(2) [of a] digit_no_space by auto
  have "parse_int64 (show_int (int n)) = Some (int n)" by (rule parse_int64_show_int [OF assms(2)])
  then have "strconv_Atoi (show_nat n) = Some (int n)" using a by (simp add: strconv_Atoi_def s show_int_def)
  moreover have "take 1 (show_nat n) \<noteq> ''0''" using show_nat_first [of n] assms(1) by auto
  ultimately have "set_MaxAge (show_nat n) c = c\<lparr>rc_MaxAge := int n\<rparr>" using assms(1) by (simp add: set_MaxAge_def)
  moreover have "''Max-Age='' @ show_nat n = ''Max-Age'' @ CHR ''='' # show_nat n" by simp
  ultimately show ?thesis unfolding cookie_attribute_def t Let_def using c m v by simp
qed

text \<open>The \<open>Set-Cookie\<close> line of a pass reads back as the cookie.\<close>

lemma parse_pass_cookie:
  assumes "v \<noteq> []" and "list_all cookie_safe v" and "0 < n" and "in_int64 n"
  shows "parse_set_cookie (cookie_String \<lparr>sc_Name = cookieName, sc_Value = v, sc_Path = ''/'', sc_HttpOnly = True, sc_SameSiteLax = True,
      sc_Secure = sec, sc_MaxAge = n\<rparr>)
    = Some \<lparr>rc_Name = cookieName, rc_Value = v, rc_Path = ''/'', rc_MaxAge = n, rc_Secure = sec\<rparr>"
proof -
  let ?p = "cookieName @ ''='' @ v" and ?n = "show_nat (nat n)"
  let ?parts = "[?p, '' Path=/'', '' Max-Age='' @ ?n, '' HttpOnly''] @ (if sec then ['' Secure''] else []) @ ['' SameSite=Lax'']"
  let ?line = "cookie_String \<lparr>sc_Name = cookieName, sc_Value = v, sc_Path = ''/'', sc_HttpOnly = True, sc_SameSiteLax = True,
      sc_Secure = sec, sc_MaxAge = n\<rparr>"
  have name: "CHR '';'' \<notin> set cookieName" "\<not> is_space (hd (cookieName @ ''=''))" "cookieName \<noteq> []" by code_simp+
  have "filter valid_cookie_byte v = v" using assms(2) by (auto simp: filter_id_conv list_all_iff cookie_safe_def)
  then have l: "?line = join '';'' ?parts"
    using assms(3) by (simp add: cookie_String_def show_int_def)
  have "CHR '';'' \<notin> set ?n" using show_nat_bytes digit_no_space by blast
  moreover have p: "CHR '';'' \<notin> set ?p" using name(1) assms(2) by (auto simp: list_all_iff cookie_safe_def)
  ultimately have s: "split_on CHR '';'' ?line = ?parts"
    unfolding l by (intro split_on_join) (auto simp: list_all_iff)
  have "hd ?line = hd (cookieName @ ''='')" "last ?line = CHR ''x''" "?line \<noteq> []"
    using name(3) by (simp_all add: cookie_String_def)
  then have "trim_space ?line = ?line" using name(2) by (intro trim_space_id) (simp_all add: is_space_def byte_val_def)
  moreover have "trim_space ?p = ?p"
    using name(2,3) assms(1,2) by (intro trim_space_id) (auto simp: list_all_iff cookie_safe_def)
  moreover have "int (nat n) = n" using assms(3) by simp
  moreover note parse_cookie_pass [OF assms(1,2)] attribute_MaxAge [of "nat n"]
  ultimately show ?thesis
    using assms(3,4) unfolding parse_set_cookie_def Let_def by (simp add: s attribute_parts)
qed

text \<open>The jar with one pass sends it to every path of the host it came from, until it has expired.\<close>

definition pass_entry :: "url \<Rightarrow> bytes \<Rightarrow> bool \<Rightarrow> time \<Rightarrow> jar_entry" where
  "pass_entry u v sec t = \<lparr>je_Host = jar_host (ur_Host u), je_Path = ''/'', je_Name = cookieName, je_Value = v, je_Secure = sec,
     je_Expires = Some t\<rparr>"

lemma jar_set_pass:
  assumes "has_http_scheme u" and "0 < n"
  shows "jar_SetCookies u now [\<lparr>rc_Name = cookieName, rc_Value = v, rc_Path = ''/'', rc_MaxAge = n, rc_Secure = sec\<rparr>] []
    = [pass_entry u v sec (now + n * second)]"
  using assms by (simp add: jar_SetCookies_def jar_set_def pass_entry_def Let_def)

lemma jar_sends_pass:
  assumes "has_http_scheme u" and "ur_Host u = ur_Host u'" and "now < t" and "sec \<longrightarrow> ur_Scheme u = ''https''" and "has_prefix (ur_Path u) ''/''"
  shows "jar_Cookies u now [pass_entry u' v sec t] = [(cookieName, v)]"
proof -
  have "ur_Path u \<noteq> []" using assms(5) by (auto simp: has_prefix_def)
  moreover have "has_suffix ''/'' ''/''" by code_simp
  ultimately have "should_send u now (pass_entry u' v sec t)"
    using assms by (simp add: should_send_def pass_entry_def path_match_def)
  then show ?thesis using assms(1) by (simp add: jar_Cookies_def pass_entry_def)
qed

lemma AddCookie_pass:
  assumes "list_all cookie_safe v" and "hdr_Values h ''Cookie'' = []"
  shows "AddCookie h (cookieName, v) = hdr_Set h ''Cookie'' (cookieName @ ''='' @ v)"
proof -
  have "filter valid_cookie_byte v = v" using assms(1) by (auto simp: filter_id_conv list_all_iff cookie_safe_def)
  moreover have "is_space CHR '' ''" by code_simp
  then have "CHR '' '' \<notin> set v" "CHR '','' \<notin> set v" using assms(1) by (auto simp: list_all_iff cookie_safe_def)
  ultimately show ?thesis using assms(2) by (simp add: AddCookie_def Let_def hdr_Get_Values)
qed

text \<open>\<open>WaitReady\<close> ends once the clock has reached the deadline, whatever the gate answers: each sleep takes its time.\<close>

definition keeps_time :: "'w network \<Rightarrow> ('w \<Rightarrow> time) \<Rightarrow> bool" where
  "keeps_time net clock \<longleftrightarrow> (\<forall>w. fst (nw_Now net w) = clock w \<and> clock w \<le> clock (snd (nw_Now net w)))
     \<and> (\<forall>r w. clock w \<le> clock (snd (nw_RoundTrip net r w))) \<and> (\<forall>d w. clock w + d \<le> clock (snd (nw_Sleep net d w)))"

lemma keeps_timeD:
  assumes "keeps_time net clock"
  shows "fst (nw_Now net w) = clock w" "clock w \<le> clock (snd (nw_Now net w))" "clock w \<le> clock (snd (nw_RoundTrip net r w))"
    "clock w + d \<le> clock (snd (nw_Sleep net d w))"
  using assms unfolding keeps_time_def by simp_all

lemma http_Do_time:
  assumes "keeps_time net clock" and "http_Do net c r w = (res, c', w')"
  shows "clock w \<le> clock w'"
proof -
  obtain t w1 where n: "nw_Now net w = (t, w1)" by (cases "nw_Now net w")
  let ?r = "r\<lparr>cq_Header := foldl AddCookie (cq_Header r) (jar_Cookies (cookie_url r) t (cl_jar c))\<rparr>"
  obtain x w2 where x: "nw_RoundTrip net ?r w1 = (x, w2)" by (cases "nw_RoundTrip net ?r w1")
  obtain t' w3 where n': "nw_Now net w2 = (t', w3)" by (cases "nw_Now net w2")
  have "clock w \<le> clock w1" "clock w1 \<le> clock w2" "clock w2 \<le> clock w3"
    using keeps_timeD(2) [OF assms(1), of w] keeps_timeD(3) [OF assms(1), of w1 ?r] keeps_timeD(2) [OF assms(1), of w2] by (simp_all add: n x n')
  moreover have "w' = w2 \<or> w' = w3"
    using assms(2) by (auto simp: http_Do_def Let_def n x n' split: sum.splits if_splits)
  ultimately show ?thesis by auto
qed

lemma Get_time: "keeps_time net clock \<Longrightarrow> Get ops net c path opts w = (res, c', w') \<Longrightarrow> clock w \<le> clock w'"
  using http_Do_time by (fastforce simp: Get_def Do_def Let_def split: option.splits)

lemma wait_loop_ends:
  assumes "keeps_time net clock"
  shows "\<exists>res. wait_loop ops net deadline c err w = Some res"
proof (induction "nat (deadline - clock w)" arbitrary: c err w rule: less_induct)
  case less
  obtain now w1 where n: "nw_Now net w = (now, w1)" by fastforce
  obtain res c1 w2 where g: "Get ops net c HealthPath [] w1 = (res, c1, w2)" by (cases "Get ops net c HealthPath [] w1") auto
  obtain over w3 where z: "nw_Sleep net (200 * millisecond) w2 = (over, w3)" by fastforce
  have t: "now = clock w" "clock w \<le> clock w1" "clock w2 + 200 * millisecond \<le> clock w3"
    using keeps_timeD(1,2) [OF assms, of w] keeps_timeD(4) [OF assms, of w2 "200 * millisecond"] by (simp_all add: n z)
  with Get_time [OF assms g] have "clock w < clock w3" by (simp add: millisecond_def)
  then have "\<exists>res. wait_loop ops net deadline c err w3 = Some res" if "now < deadline" for c err
    using that t(1) by (intro less) simp
  then show ?case by (subst wait_loop.simps) (auto simp: n g z Let_def)
qed

lemma WaitReady_ends:
  assumes "keeps_time net clock"
  shows "\<exists>res. WaitReady ops net deadline c w = Some res"
proof -
  obtain t w1 where "(case deadline of Some t \<Rightarrow> (t, w) | None \<Rightarrow> (let (now, w) = nw_Now net w in (now + 30 * second, w))) = (t, w1)"
    by (cases "case deadline of Some t \<Rightarrow> (t, w) | None \<Rightarrow> (let (now, w) = nw_Now net w in (now + 30 * second, w))")
  then show ?thesis unfolding WaitReady_def Let_def by (simp only: prod.case wait_loop_ends [OF assms])
qed

text \<open>With a deadline that has passed it reports a ready gate without having asked it.\<close>

lemma WaitReady_unasked:
  assumes "nw_Now net w = (now, w1)" and "t \<le> now"
  shows "WaitReady ops net (Some t) c w = Some (None, c, w1)"
proof -
  have "\<not> now < t" using assms(2) by simp
  then show ?thesis
    unfolding WaitReady_def Let_def option.case prod.case by (subst wait_loop.simps) (simp only: assms(1) Let_def prod.case not_less if_not_P if_P)
qed

end
