(* ===== verification/Solver.thy ===== *)
theory Solver
  imports Client
begin

text \<open>
  The documented way through the gate (\<open>acceptance/harness/solver.go\<close>): fetch a challenge, search a nonce, submit it,
  retry once. The hash is a parameter. The client of the solver talks to the gate itself: the gate as a network
  (\<open>gate_network\<close>) answers each request with \<open>ServeHTTP\<close>.
\<close>

subsection \<open>The documents\<close>

record fetched_challenge =
  fc_Challenge :: bytes
  fc_Threshold :: bytes
  fc_Kind :: bytes
  fc_PassTTLMs :: int
  fc_DeadlineMs :: int

definition Deadline :: "fetched_challenge \<Rightarrow> time" where
  "Deadline ch = fc_DeadlineMs ch * millisecond"

definition zero_challenge :: fetched_challenge where
  "zero_challenge = \<lparr>fc_Challenge = [], fc_Threshold = [], fc_Kind = [], fc_PassTTLMs = 0, fc_DeadlineMs = 0\<rparr>"

definition unmarshal_challenge :: "bytes \<Rightarrow> fetched_challenge option" where
  "unmarshal_challenge body =
     (case json_parse body of
        Some JNull \<Rightarrow> Some zero_challenge
      | Some (JObj ms) \<Rightarrow>
         (case (dec_string [] (obj_values ''challenge'' ms), dec_string [] (obj_values ''threshold'' ms),
                dec_string [] (obj_values ''kind'' ms), dec_int64 0 (obj_values ''pass_ttl_ms'' ms),
                dec_int64 0 (obj_values ''deadline_unix_ms'' ms)) of
            (Some c, Some t, Some k, Some ttl, Some d) \<Rightarrow>
              Some \<lparr>fc_Challenge = c, fc_Threshold = t, fc_Kind = k, fc_PassTTLMs = ttl, fc_DeadlineMs = d\<rparr>
          | _ \<Rightarrow> None)
      | _ \<Rightarrow> None)"

record answer_doc =
  an_OK :: bool
  an_Kind :: bytes
  an_ExpUnixMs :: int
  an_Error :: bytes

definition zero_answer :: answer_doc where
  "zero_answer = \<lparr>an_OK = False, an_Kind = [], an_ExpUnixMs = 0, an_Error = []\<rparr>"

definition unmarshal_answer :: "bytes \<Rightarrow> answer_doc option" where
  "unmarshal_answer body =
     (case json_parse body of
        Some JNull \<Rightarrow> Some zero_answer
      | Some (JObj ms) \<Rightarrow>
         (case (dec_bool False (obj_values ''ok'' ms), dec_string [] (obj_values ''kind'' ms),
                dec_int64 0 (obj_values ''exp_unix_ms'' ms), dec_string [] (obj_values ''error'' ms)) of
            (Some b, Some k, Some e, Some m) \<Rightarrow>
              Some \<lparr>an_OK = b, an_Kind = k, an_ExpUnixMs = e, an_Error = m\<rparr>
          | _ \<Rightarrow> None)
      | _ \<Rightarrow> None)"

subsection \<open>The search\<close>

text \<open>\<open>hex.DecodeString\<close> and \<open>bytes.Compare\<close>.\<close>

fun hex_DecodeString :: "bytes \<Rightarrow> bytes option" where
  "hex_DecodeString [] = Some []"
| "hex_DecodeString [c] = None"
| "hex_DecodeString (a # b # s) =
     (case (hex_digit_val a, hex_digit_val b, hex_DecodeString s) of
        (Some x, Some y, Some r) \<Rightarrow> Some (val_byte (16 * x + y) # r) | _ \<Rightarrow> None)"

fun bytes_Compare :: "bytes \<Rightarrow> bytes \<Rightarrow> int" where
  "bytes_Compare [] [] = 0"
| "bytes_Compare [] (b # bs) = -1"
| "bytes_Compare (a # as) [] = 1"
| "bytes_Compare (a # as) (b # bs) =
     (if byte_val a < byte_val b then -1 else if byte_val b < byte_val a then 1 else bytes_Compare as bs)"

text \<open>The loop over \<open>n\<close>: \<open>k\<close> candidates are left.\<close>

fun search :: "(bytes \<Rightarrow> bytes) \<Rightarrow> bytes \<Rightarrow> bytes \<Rightarrow> nat \<Rightarrow> nat \<Rightarrow> nat option" where
  "search sha prefix threshold n 0 = None"
| "search sha prefix threshold n (Suc k) =
     (if bytes_Compare (sha (prefix @ show_nat n)) threshold < 0 then Some n else search sha prefix threshold (Suc n) k)"

text \<open>The nonce and the number of hashes.\<close>

definition SolveChallenge :: "(bytes \<Rightarrow> bytes) \<Rightarrow> fetched_challenge \<Rightarrow> nat \<Rightarrow> client_error + bytes \<times> nat" where
  "SolveChallenge sha ch maxAttempts =
     (case hex_DecodeString (fc_Threshold ch) of
        None \<Rightarrow> Inl ErrThresholdHex
      | Some threshold \<Rightarrow>
         (case search sha (fc_Challenge ch) threshold 0 maxAttempts of
            None \<Rightarrow> Inl (ErrNoNonce maxAttempts)
          | Some n \<Rightarrow> Inr (show_nat n, n + 1)))"

subsection \<open>The procedure\<close>

definition FetchChallenge ::
  "url_ops \<Rightarrow> 'w network \<Rightarrow> client \<Rightarrow> 'w \<Rightarrow> (client_error + fetched_challenge) \<times> client \<times> 'w" where
  "FetchChallenge ops net c w =
     (let (res, c, w) = Do ops net c ''GET'' pathChallenge None [] w
      in (case res of
            Inl e \<Rightarrow> Inl e
          | Inr resp \<Rightarrow>
              if rs_StatusCode resp \<noteq> 200 then Inl (ErrStatus (rs_StatusCode resp) (rs_Body resp))
              else
                (case unmarshal_challenge (rs_Body resp) of
                   None \<Rightarrow> Inl (ErrJSON (rs_StatusCode resp))
                 | Some ch \<Rightarrow>
                     if length (fc_Threshold ch) \<noteq> 64 then Inl (ErrThresholdLength (length (fc_Threshold ch)))
                     else Inr ch), c, w))"

definition SubmitAnswer ::
  "url_ops \<Rightarrow> 'w network \<Rightarrow> client \<Rightarrow> bytes \<Rightarrow> bytes \<Rightarrow> 'w \<Rightarrow> (client_error + answer_doc) \<times> client \<times> 'w" where
  "SubmitAnswer ops net c challenge nonce w =
     (let (res, c, w) = Do ops net c ''POST'' pathAnswer (Some (answer_body challenge nonce))
                          [Header ''Content-Type'' ''application/json''] w
      in (case res of
            Inl e \<Rightarrow> Inl e
          | Inr resp \<Rightarrow>
              (case unmarshal_answer (rs_Body resp) of
                 None \<Rightarrow> Inl (ErrJSON (rs_StatusCode resp))
               | Some a \<Rightarrow> if \<not> an_OK a then Inl (ErrRefused (rs_StatusCode resp) (an_Error a)) else Inr a), c, w))"

definition maxAttempts :: nat where "maxAttempts = 2 ^ 24"

text \<open>The attempts that are left, with the last error.\<close>

fun solve_attempts :: "(bytes \<Rightarrow> bytes) \<Rightarrow> url_ops \<Rightarrow> 'w network \<Rightarrow> nat list \<Rightarrow> client_error option \<Rightarrow> client \<Rightarrow> 'w
    \<Rightarrow> (client_error + answer_doc) \<times> client \<times> 'w" where
  "solve_attempts sha ops net [] err c w = (Inl (ErrNoPass err), c, w)"
| "solve_attempts sha ops net (a # as) err c w =
     (let (fetched, c, w) = FetchChallenge ops net c w in
      case fetched of
        Inl e \<Rightarrow> (Inl e, c, w)
      | Inr ch \<Rightarrow>
         (case SolveChallenge sha ch maxAttempts of
            Inl e \<Rightarrow> (Inl e, c, w)
          | Inr (nonce, tries) \<Rightarrow>
             (let (now, w) = nw_Now net w in
              if Deadline ch < now then solve_attempts sha ops net as (Some (ErrOverran (a + 1))) c w
              else
                (let (res, c, w) = SubmitAnswer ops net c (fc_Challenge ch) nonce w in
                 case res of
                   Inl e \<Rightarrow> solve_attempts sha ops net as (Some e) c w
                 | Inr out \<Rightarrow> (Inr out, c, w)))))"

definition Solve :: "(bytes \<Rightarrow> bytes) \<Rightarrow> url_ops \<Rightarrow> 'w network \<Rightarrow> client \<Rightarrow> 'w
    \<Rightarrow> (client_error + answer_doc) \<times> client \<times> 'w" where
  "Solve sha ops net c w = solve_attempts sha ops net [0, 1] None c w"

subsection \<open>The gate as the network\<close>

text \<open>
  How a request arrives: what \<open>net/http\<close>'s client writes, its server reads back. \<open>peer\<close> is the address of the
  connection. A body is announced with its length.
\<close>

definition arrive :: "bytes \<Rightarrow> client_request \<Rightarrow> request" where
  "arrive peer r =
     \<lparr>req_Method = cq_Method r, req_Path = ur_Path (cq_URL r), req_EscapedPath = ur_EscapedPath (cq_URL r),
      req_RawQuery = ur_RawQuery (cq_URL r), req_Host = (if cq_Host r = [] then ur_Host (cq_URL r) else cq_Host r),
      req_Header = (case cq_Body r of None \<Rightarrow> cq_Header r
                    | Some b \<Rightarrow> hdr_Set (cq_Header r) ''Content-Length'' (show_nat (length b))),
      req_RemoteAddr = peer, req_TLS = (ur_Scheme (cq_URL r) = ''https''),
      req_Body = (case cq_Body r of None \<Rightarrow> [] | Some b \<Rightarrow> b)\<rparr>"

text \<open>
  The world: the client's clock as a stream of readings, the gate with its surroundings at each request. A handler that
  panics or does not end leaves the client with an error.
\<close>

record gate_world =
  gw_clock :: "nat \<Rightarrow> time"
  gw_read :: nat
  gw_su :: "nat \<Rightarrow> surroundings"
  gw_served :: nat
  gw_state :: gate_state
  gw_outcomes :: "outcome list"

definition net_response :: "recorder \<Rightarrow> client_response" where
  "net_response rec =
     (let (status, h) = (case rp_Sent (rec_w rec) of None \<Rightarrow> (200, rp_Header (rec_w rec)) | Some sent \<Rightarrow> sent)
      in \<lparr>rs_StatusCode = status, rs_Header = h, rs_Body = rp_Body (rec_w rec), rs_ReadErr = False\<rparr>)"

definition gate_network :: "gate \<Rightarrow> bytes \<Rightarrow> gate_world network" where
  "gate_network g peer =
     \<lparr>nw_Now = (\<lambda>w. (gw_clock w (gw_read w), w\<lparr>gw_read := Suc (gw_read w)\<rparr>)),
      nw_RoundTrip = (\<lambda>r w.
        let ((rec, s, out, d), st) = ServeHTTP g (gw_su w (gw_served w)) (arrive peer r) (gw_state w);
            w = w\<lparr>gw_served := Suc (gw_served w), gw_state := s, gw_outcomes := gw_outcomes w @ [((rec, s, out, d), st)]\<rparr>
        in (case st of None \<Rightarrow> Inr (net_response rec) | Some stop \<Rightarrow> Inl ''EOF'', w)),
      nw_Sleep = (\<lambda>d w. (False, w))\<rparr>"

subsection \<open>The search finds the least nonce\<close>

lemma bytes_Compare_less: "length h = length t \<Longrightarrow> bytes_Compare h t < 0 \<longleftrightarrow> pow_compare h t = None"
  by (induction h t rule: list_induct2) simp_all

lemma search_Some:
  "search sha prefix threshold n k = Some m \<longleftrightarrow> n \<le> m \<and> m < n + k \<and> bytes_Compare (sha (prefix @ show_nat m)) threshold < 0
     \<and> (\<forall>i. n \<le> i \<and> i < m \<longrightarrow> \<not> bytes_Compare (sha (prefix @ show_nat i)) threshold < 0)"
proof (induction k arbitrary: n)
  case (Suc k)
  show ?case
  proof (cases "bytes_Compare (sha (prefix @ show_nat n)) threshold < 0")
    case True
    then show ?thesis by (auto simp: le_less)
  next
    case False
    then have "(\<forall>i. n \<le> i \<and> i < m \<longrightarrow> \<not> bytes_Compare (sha (prefix @ show_nat i)) threshold < 0)
        \<longleftrightarrow> (\<forall>i. Suc n \<le> i \<and> i < m \<longrightarrow> \<not> bytes_Compare (sha (prefix @ show_nat i)) threshold < 0)" for m
      by (metis Suc_le_eq le_less)
    with False Suc.IH [of "Suc n"] show ?thesis by (auto simp: le_less Suc_le_eq)
  qed
qed simp

lemma search_None:
  "search sha prefix threshold n k = None \<longleftrightarrow> (\<forall>m. n \<le> m \<and> m < n + k \<longrightarrow> \<not> bytes_Compare (sha (prefix @ show_nat m)) threshold < 0)"
proof (induction k arbitrary: n)
  case (Suc k)
  have "n \<le> m \<and> m < n + Suc k \<longleftrightarrow> m = n \<or> Suc n \<le> m \<and> m < Suc n + k" for m by auto
  then show ?case unfolding search.simps using Suc.IH [of "Suc n"] by auto
qed simp

lemma hex_DecodeString_encode: "hex_DecodeString (hex_encode s) = Some s"
proof (induction s)
  case (Cons c s)
  have "byte_val c < 256" by (simp add: byte_val_def)
  then have "byte_val c div 16 < 16" by linarith
  moreover have "val_byte (16 * (byte_val c div 16) + byte_val c mod 16) = c" by simp_all
  moreover have "byte_val c mod 16 < 16" by simp
  ultimately show ?case using Cons by (simp add: hex_encode_def hex_char_val)
qed (simp add: hex_encode_def)

lemma length_hex_encode: "length (hex_encode s) = 2 * length s"
  by (induction s) (simp_all add: hex_encode_def)

lemma ascii_hex_encode: "ascii_string (hex_encode s)"
proof (induction s)
  case (Cons c s)
  have "ascii_char (hex_char d)" if "d < 16" for d using that by (auto simp: hex_char_def ascii_char_def)
  moreover have "byte_val c < 256" by (simp add: byte_val_def)
  then have "byte_val c div 16 < 16" by linarith
  ultimately show ?case using Cons by (simp add: hex_encode_def)
qed (simp add: hex_encode_def)

text \<open>With any hash of the threshold's width: the nonce is the least that meets the threshold, and the count is one more.\<close>

lemma SolveChallenge_least:
  assumes "fc_Threshold ch = hex_encode threshold" and "\<And>b. length (sha b) = length threshold"
  shows "SolveChallenge sha ch k = Inr (nonce, tries) \<longleftrightarrow> (\<exists>n<k. nonce = show_nat n \<and> tries = n + 1
    \<and> CheckPoW sha (fc_Challenge ch) nonce threshold = None
    \<and> (\<forall>i<n. CheckPoW sha (fc_Challenge ch) (show_nat i) threshold \<noteq> None))"
proof -
  have "bytes_Compare (sha b) threshold < 0 \<longleftrightarrow> pow_compare (sha b) threshold = None" for b
    by (rule bytes_Compare_less [OF assms(2)])
  then have "search sha (fc_Challenge ch) threshold 0 k = Some n \<longleftrightarrow> n < k \<and> CheckPoW sha (fc_Challenge ch) (show_nat n) threshold = None
    \<and> (\<forall>i<n. CheckPoW sha (fc_Challenge ch) (show_nat i) threshold \<noteq> None)" for n
    by (auto simp: search_Some CheckPoW_def)
  then show ?thesis by (auto simp: SolveChallenge_def assms(1) hex_DecodeString_encode split: option.split)
qed

lemma SolveChallenge_fails:
  assumes "fc_Threshold ch = hex_encode threshold" and "\<And>b. length (sha b) = length threshold"
  shows "SolveChallenge sha ch k = Inl e \<longleftrightarrow> e = ErrNoNonce k \<and> (\<forall>n<k. CheckPoW sha (fc_Challenge ch) (show_nat n) threshold \<noteq> None)"
proof -
  have "bytes_Compare (sha b) threshold < 0 \<longleftrightarrow> pow_compare (sha b) threshold = None" for b
    by (rule bytes_Compare_less [OF assms(2)])
  then show ?thesis
    by (auto simp: SolveChallenge_def assms(1) hex_DecodeString_encode search_None search_Some CheckPoW_def split: option.split)
qed

subsection \<open>The gate's own endpoints on the wire\<close>

lemma own_served:
  assumes "cleanPath (req_Path r) = req_Path r" and "CHR 0x5C \<notin> set (req_Path r)" and "has_prefix (req_Path r) gate_prefix"
    and "g_publicHosts g \<noteq> [] \<longrightarrow> requestAudience r \<in> set (g_publicHosts g)"
  shows "serve g su (gate_inspect g s r) r w s
    = (let (w, s) = serveOwn g (su_host su) (scrubbed r) w s in answered DecisionOwnEndpoint w s)"
proof -
  have gone: "\<not> (req_Path r \<noteq> cleanPath (req_Path r) \<or> CHR 0x5C \<in> set (req_Path r))"
    "\<not> (req_Path r \<noteq> HealthPath \<and> g_publicHosts g \<noteq> [] \<and> gq_audience (gate_inspect g s r) \<notin> set (g_publicHosts g))"
    using assms by (auto simp: gate_inspect_def)
  show ?thesis unfolding serve_def Let_def scrubbed_facts if_not_P [OF gone(1)] if_not_P [OF gone(2)] if_P [OF assms(3)] by (rule refl)
qed

lemma recordDecision_crawlers [simp]: "st_crawlers (recordDecision hs d ip s) = st_crawlers s"
  by (simp add: recordDecision_def)

lemma on_met_crawlers [simp]: "st_crawlers (on_met f s) = st_crawlers s"
  by (simp add: on_met_def)

lemma noteAnswer_crawlers [simp]: "st_crawlers (noteAnswer g hs o' r s) = st_crawlers s"
  by (simp add: noteAnswer_def Let_def split: option.split sum.split)

lemma serveOwn_crawlers: "st_crawlers (snd (serveOwn g hs r w s)) = st_crawlers s"
  by (simp add: serveOwn_def serveChallenge_def serveAnswer_def Let_def split: sum.split prod.split)

lemma ServeHTTP_own:
  assumes "cleanPath (req_Path r) = req_Path r" and "CHR 0x5C \<notin> set (req_Path r)" and "has_prefix (req_Path r) gate_prefix"
    and "g_publicHosts g \<noteq> [] \<longrightarrow> requestAudience r \<in> set (g_publicHosts g)"
  shows "\<exists>s'. ServeHTTP g su r s
      = ((fst (serveOwn g (su_host su) (scrubbed r) new_recorder (on_met (in_flight gauge_Inc) s)), s', None, DecisionOwnEndpoint), None)
    \<and> st_crawlers s' = st_crawlers s"
proof -
  obtain w1 s1 where o: "serveOwn g (su_host su) (scrubbed r) new_recorder (on_met (in_flight gauge_Inc) s) = (w1, s1)"
    by (cases "serveOwn g (su_host su) (scrubbed r) new_recorder (on_met (in_flight gauge_Inc) s)")
  have "st_crawlers s1 = st_crawlers s"
    using serveOwn_crawlers [of g "su_host su" "scrubbed r" new_recorder "on_met (in_flight gauge_Inc) s"] by (simp add: o)
  then show ?thesis
    unfolding ServeHTTP_def Let_def own_served [OF assms] o by (simp add: answered_def finished_def)
qed

lemma endpoint_paths:
  "cleanPath pathChallenge = pathChallenge" "CHR 0x5C \<notin> set pathChallenge" "has_prefix pathChallenge gate_prefix"
  "cleanPath pathAnswer = pathAnswer" "CHR 0x5C \<notin> set pathAnswer" "has_prefix pathAnswer gate_prefix"
  "pathChallenge \<noteq> HealthPath" "pathAnswer \<noteq> HealthPath" "pathAnswer \<noteq> pathChallenge" "pathChallenge \<noteq> []" "pathAnswer \<noteq> []"
  by code_simp+

lemma served_challenge:
  assumes "req_Path r = pathChallenge" and "req_Method r = ''GET''" and "challenge_response g (h_rand hs) r (h_clock hs AtIssue) = Inr resp"
  shows "net_response (fst (serveOwn g hs r new_recorder s)) = \<lparr>rs_StatusCode = 200,
      rs_Header = rec_Header (w_Set ''Content-Type'' ''application/json'' (noStore new_recorder)),
      rs_Body = json_Encode (challengeResponse_json resp), rs_ReadErr = False\<rparr>"
proof -
  have "serveOwn g hs r new_recorder s = serveChallenge g hs r new_recorder s"
    unfolding serveOwn_def Let_def assms(1) using endpoint_paths(7) by simp
  then show ?thesis using assms(2,3)
    by (simp add: serveChallenge_def net_response_def rec_Write_def net_Write_def net_WriteHeader_def new_recorder_def new_response_def
        w_Set_def rec_SetHeader_def rec_Header_def noStore_def is_interim_def Let_def)
qed

lemma served_answer:
  assumes "req_Path r = pathAnswer" and "req_Method r = ''POST''" and "answer_result g hs r = Inr (kind, ex, issuedAt, ck)"
  shows "net_response (fst (serveOwn g hs r new_recorder s)) = \<lparr>rs_StatusCode = 200,
      rs_Header = rec_Header (w_Add ''Set-Cookie'' (cookie_String ck) (w_Set ''Content-Type'' ''application/json'' (noStore new_recorder))),
      rs_Body = json_Encode (answerResponse_json \<lparr>ar_OK = True, ar_Kind = kind, ar_ExpUnixMs = time_unix_milli ex, ar_Error = []\<rparr>),
      rs_ReadErr = False\<rparr>"
proof -
  have "serveOwn g hs r new_recorder s = serveAnswer g hs r new_recorder s"
    unfolding serveOwn_def Let_def assms(1) using endpoint_paths(8,9) by simp
  then show ?thesis using assms(2,3)
    by (simp add: serveAnswer_def net_response_def rec_Write_def net_Write_def net_WriteHeader_def new_recorder_def new_response_def
        w_Set_def w_Add_def rec_SetHeader_def rec_Header_def noStore_def is_interim_def Let_def)
qed

subsection \<open>The documents read back\<close>

lemma json_parse_Encode:
  assumes ok: "json_ok j" and deep: "json_depth j \<le> maxNestingDepth"
  shows "json_parse (json_Encode j) = Some j"
proof -
  have "p_value (2 * length (json_Encode j) + 2) (json_print j @ nl) = Some (j, nl)"
    using print_at [THEN conjunct1, unfolded print_value_at_def, rule_format, OF ok, of nl "2 * length (json_Encode j) + 2"]
    by (simp add: json_Encode_def nl_def num_stop_def is_digit_def byte_val_def del: p_value.simps)
  with deep show ?thesis by (simp add: json_parse_def json_Encode_def skip_ws_def nl_def json_space_def byte_val_def del: p_value.simps)
qed

lemma unmarshal_challenge_Encode:
  assumes "ascii_string (cr_Challenge r)" and "ascii_string (cr_Threshold r)" and "ascii_string (cr_Kind r)"
    and "in_int64 (cr_PassTTLMs r)" and "in_int64 (cr_DeadlineMs r)"
  shows "unmarshal_challenge (json_Encode (challengeResponse_json r)) = Some \<lparr>fc_Challenge = cr_Challenge r, fc_Threshold = cr_Threshold r,
      fc_Kind = cr_Kind r, fc_PassTTLMs = cr_PassTTLMs r, fc_DeadlineMs = cr_DeadlineMs r\<rparr>"
proof -
  let ?ks = "[''challenge'', ''threshold'', ''kind'', ''pass_ttl_ms'', ''deadline_unix_ms'']"
  have k: "list_all (\<lambda>k. list_all (\<lambda>k'. equal_fold k k' = (k = k')) ?ks) ?ks" by code_simp
  then have k': "equal_fold k k' = (k = k')" if "k \<in> set ?ks" "k' \<in> set ?ks" for k k' using that unfolding list_all_iff by blast
  have "list_all ascii_string ?ks" by code_simp
  then have "json_ok (challengeResponse_json r)" using assms(1-3) by (simp add: challengeResponse_json_def int_lit_show_int)
  moreover have "json_depth (challengeResponse_json r) \<le> maxNestingDepth" by (simp add: challengeResponse_json_def)
  ultimately have p: "json_parse (json_Encode (challengeResponse_json r)) = Some (challengeResponse_json r)" by (rule json_parse_Encode)
  show ?thesis
    unfolding unmarshal_challenge_def p using assms(4,5)
    by (simp add: challengeResponse_json_def obj_values_def k' parse_int64_show_int)
qed

lemma unmarshal_answer_Encode:
  assumes "ascii_string kind" and "kind \<noteq> []" and "in_int64 e"
  shows "unmarshal_answer (json_Encode (answerResponse_json \<lparr>ar_OK = True, ar_Kind = kind, ar_ExpUnixMs = e, ar_Error = []\<rparr>))
    = Some \<lparr>an_OK = True, an_Kind = kind, an_ExpUnixMs = e, an_Error = []\<rparr>"
proof -
  let ?ks = "[''ok'', ''kind'', ''exp_unix_ms'', ''error'']"
  have k: "list_all (\<lambda>k. list_all (\<lambda>k'. equal_fold k k' = (k = k')) ?ks) ?ks" by code_simp
  then have k': "equal_fold k k' = (k = k')" if "k \<in> set ?ks" "k' \<in> set ?ks" for k k' using that unfolding list_all_iff by blast
  have "list_all ascii_string ?ks" by code_simp
  then have "json_ok (answerResponse_json \<lparr>ar_OK = True, ar_Kind = kind, ar_ExpUnixMs = e, ar_Error = []\<rparr>)"
    using assms(1,2) by (simp add: answerResponse_json_def opt_str_def opt_int_def int_lit_show_int)
  moreover have "json_depth (answerResponse_json a) \<le> maxNestingDepth" for a
    by (simp add: answerResponse_json_def opt_str_def opt_int_def)
  ultimately have p: "json_parse (json_Encode (answerResponse_json \<lparr>ar_OK = True, ar_Kind = kind, ar_ExpUnixMs = e, ar_Error = []\<rparr>))
      = Some (answerResponse_json \<lparr>ar_OK = True, ar_Kind = kind, ar_ExpUnixMs = e, ar_Error = []\<rparr>)" by (rule json_parse_Encode)
  show ?thesis
    unfolding unmarshal_answer_def p using assms(2,3)
    by (simp add: answerResponse_json_def obj_values_def opt_str_def opt_int_def k' parse_int64_show_int)
qed

subsection \<open>A request of the client at the gate\<close>

text \<open>What \<open>Do\<close> has written when the jar's cookies are to be added.\<close>

definition asked :: "bytes \<Rightarrow> url \<Rightarrow> bytes option \<Rightarrow> request_option list \<Rightarrow> client_request" where
  "asked meth u body opts =
     (let r = foldl (\<lambda>r opt. opt r)
                \<lparr>cq_Method = meth, cq_URL = u, cq_Host = ur_Host u, cq_Header = hdr_empty, cq_Body = body\<rparr> opts
      in if hdr_Get (cq_Header r) ''User-Agent'' = [] then Header ''User-Agent'' DefaultUserAgent r else r)"

definition with_jar :: "client \<Rightarrow> time \<Rightarrow> client_request \<Rightarrow> client_request" where
  "with_jar c now r = r\<lparr>cq_Header := foldl AddCookie (cq_Header r) (jar_Cookies (cookie_url r) now (cl_jar c))\<rparr>"

text \<open>The world after a request that the gate answered, up to the reading of the clock.\<close>

definition served_by :: "gate \<Rightarrow> bytes \<Rightarrow> client_request \<Rightarrow> gate_world \<Rightarrow> outcome" where
  "served_by g peer r w = ServeHTTP g (gw_su w (gw_served w)) (arrive peer r) (gw_state w)"

definition world_after :: "outcome \<Rightarrow> gate_world \<Rightarrow> gate_world" where
  "world_after res w = w\<lparr>gw_read := Suc (gw_read w), gw_served := Suc (gw_served w), gw_state := fst (snd (fst res)),
     gw_outcomes := gw_outcomes w @ [res]\<rparr>"

lemma Do_gate:
  assumes "url_Parse ops (URL ops c path) = Some u"
    and "served_by g peer (with_jar c (gw_clock w (gw_read w)) (asked meth u body opts)) w = ((rec, s, out, d), None)"
    and "cs = response_cookies (rs_Header (net_response rec))"
  defines "w1 \<equiv> world_after ((rec, s, out, d), None) w"
  shows "Do ops (gate_network g peer) c meth path body opts w =
     (Inr (net_response rec),
      if cs = [] then c else c\<lparr>cl_jar := jar_SetCookies (cookie_url (asked meth u body opts)) (gw_clock w (Suc (gw_read w))) cs (cl_jar c)\<rparr>,
      if cs = [] then w1 else w1\<lparr>gw_read := Suc (Suc (gw_read w))\<rparr>)"
proof -
  have "\<not> rs_ReadErr (net_response rec)" by (simp add: net_response_def split: prod.split)
  moreover have "ServeHTTP g (gw_su w (gw_served w)) (arrive peer (with_jar c (gw_clock w (gw_read w)) (asked meth u body opts))) (gw_state w)
      = ((rec, s, out, d), None)" using assms(2) by (simp add: served_by_def)
  ultimately show ?thesis
    unfolding Do_def assms(1) option.case asked_def [symmetric, unfolded Let_def] Let_def http_Do_def gate_network_def
    by (simp add: with_jar_def assms(3) w1_def world_after_def)
qed

lemma Do_logs:
  assumes "url_Parse ops (URL ops c path) = Some u"
  shows "\<exists>res c' w'. Do ops (gate_network g peer) c meth path body opts w = (res, c', w')
    \<and> gw_outcomes w' = gw_outcomes w @ [served_by g peer (with_jar c (gw_clock w (gw_read w)) (asked meth u body opts)) w]"
proof -
  let ?o = "served_by g peer (with_jar c (gw_clock w (gw_read w)) (asked meth u body opts)) w"
  have S: "ServeHTTP g (gw_su w (gw_served w)) (arrive peer (with_jar c (gw_clock w (gw_read w)) (asked meth u body opts))) (gw_state w) = ?o"
    by (simp add: served_by_def)
  obtain rec s out d st where o: "?o = ((rec, s, out, d), st)" by (cases ?o) auto
  show ?thesis
    using S unfolding Do_def assms(1) option.case asked_def [symmetric, unfolded Let_def] Let_def http_Do_def gate_network_def o
    by (simp add: with_jar_def split: option.split)
qed

definition same_peer :: "request \<Rightarrow> request \<Rightarrow> bool" where
  "same_peer r r' \<longleftrightarrow> req_Host r = req_Host r' \<and> req_RemoteAddr r = req_RemoteAddr r'
     \<and> hdr_Values (req_Header r) ''X-Forwarded-For'' = hdr_Values (req_Header r') ''X-Forwarded-For''"

lemma same_peer_facts:
  assumes "same_peer r r'"
  shows "requestAudience r = requestAudience r'" "ClientIP m r = ClientIP m r'" "same_visitor g r r'" "visitor g r = visitor g r'"
proof -
  show a: "requestAudience r = requestAudience r'" "ClientIP m r = ClientIP m r'" for m
    using assms by (auto simp: same_peer_def requestAudience_def intro: ClientIP_cong)
  then have "clientPrefix g r = clientPrefix g r'" by (intro clientPrefix_cong)
  with a show "same_visitor g r r'" "visitor g r = visitor g r'" by (simp_all add: same_visitor_def visitor_def)
qed

lemma same_peer_scrubbed: "same_peer (scrubbed r) r"
  by (simp add: same_peer_def scrubbed_values actionHeader_def HeaderResponse_def HeaderRequired_def) (simp add: scrubbed_def)

text \<open>The requests of the procedure as they arrive.\<close>

definition asks_challenge :: "bytes \<Rightarrow> url \<Rightarrow> request" where
  "asks_challenge peer u = arrive peer (asked ''GET'' u None [])"

definition sends_answer :: "bytes \<Rightarrow> url \<Rightarrow> bytes \<Rightarrow> request" where
  "sends_answer peer u b = arrive peer (asked ''POST'' u (Some b) [Header ''Content-Type'' ''application/json''])"

lemma asked_cookieless [simp]: "hdr_Values (cq_Header (asked meth u body [])) ''Cookie'' = []"
  by (simp add: asked_def Header_def Let_def hdr_Values_def hdr_Set_def hdr_empty_def)

lemma asked_host: "cookie_url (asked meth u body opts) = u" if "opts = [] \<or> opts = [Header k v]"
  using that by (auto simp: cookie_url_def asked_def Header_def Let_def)

lemma asks_challenge_facts [simp]:
  "req_Path (asks_challenge peer u) = ur_Path u" "req_Method (asks_challenge peer u) = ''GET''" "req_RemoteAddr (asks_challenge peer u) = peer"
  "req_Host (asks_challenge peer u) = ur_Host u" "hdr_Values (req_Header (asks_challenge peer u)) ''X-Forwarded-For'' = []"
  "hdr_Values (req_Header (asks_challenge peer u)) ''Cookie'' = []"
  "hdr_Values (req_Header (asks_challenge peer u)) ''User-Agent'' = [DefaultUserAgent]"
  by (simp_all add: asks_challenge_def arrive_def asked_def Header_def Let_def hdr_Get_Values hdr_Values_def hdr_Set_def hdr_empty_def hdr_Get_def)

lemma sends_answer_facts [simp]:
  "req_Path (sends_answer peer u b) = ur_Path u" "req_Method (sends_answer peer u b) = ''POST''" "req_RemoteAddr (sends_answer peer u b) = peer"
  "req_Host (sends_answer peer u b) = ur_Host u" "hdr_Values (req_Header (sends_answer peer u b)) ''X-Forwarded-For'' = []"
  "hdr_Values (req_Header (sends_answer peer u b)) ''X-Forwarded-Proto'' = []" "req_Body (sends_answer peer u b) = b"
  "req_TLS (sends_answer peer u b) = (ur_Scheme u = ''https'')"
  by (simp_all add: sends_answer_def arrive_def asked_def Header_def Let_def hdr_Values_def hdr_Set_def hdr_empty_def hdr_Get_def)

lemma peers_alike:
  assumes "ur_Host u = ur_Host u'"
  shows "same_peer (asks_challenge peer u) (asks_challenge peer u')" "same_peer (sends_answer peer u b) (asks_challenge peer u')"
  using assms by (simp_all add: same_peer_def)

definition at_hand :: "nat \<Rightarrow> gate_world \<Rightarrow> gate_world \<Rightarrow> bool" where
  "at_hand n w w' \<longleftrightarrow> gw_clock w' = gw_clock w \<and> gw_su w' = gw_su w \<and> gw_read w' = gw_read w + n \<and> gw_served w' = Suc (gw_served w)
     \<and> st_crawlers (gw_state w') = st_crawlers (gw_state w)"

lemma hdr_own_cookies:
  "response_cookies (rec_Header (w_Set ''Content-Type'' ''application/json'' (noStore new_recorder))) = []"
  "hdr_Values (rec_Header (w_Add ''Set-Cookie'' line (w_Set ''Content-Type'' ''application/json'' (noStore new_recorder)))) ''Set-Cookie'' = [line]"
  by (simp_all add: response_cookies_def w_Set_def w_Add_def rec_SetHeader_def rec_Header_def noStore_def new_recorder_def new_response_def
      hdr_Values_def hdr_Set_def hdr_Add_def hdr_empty_def List.map_filter_simps)

text \<open>The first step: the challenge is fetched, and nothing else changes for the client.\<close>

lemma fetch_step:
  assumes "url_Parse ops (URL ops c pathChallenge) = Some u" and "ur_Path u = pathChallenge" and "cl_jar c = []"
    and "g_publicHosts g \<noteq> [] \<longrightarrow> requestAudience (asks_challenge peer u) \<in> set (g_publicHosts g)"
    and "challenge_response g (h_rand (su_host (gw_su w (gw_served w)))) (scrubbed (asks_challenge peer u))
           (h_clock (su_host (gw_su w (gw_served w))) AtIssue) = Inr resp"
    and "ascii_string (cr_Challenge resp)" and "ascii_string (cr_Threshold resp)" and "ascii_string (cr_Kind resp)"
    and "in_int64 (cr_PassTTLMs resp)" and "in_int64 (cr_DeadlineMs resp)" and "length (cr_Threshold resp) = 64"
  shows "\<exists>w'. FetchChallenge ops (gate_network g peer) c w = (Inr \<lparr>fc_Challenge = cr_Challenge resp, fc_Threshold = cr_Threshold resp,
      fc_Kind = cr_Kind resp, fc_PassTTLMs = cr_PassTTLMs resp, fc_DeadlineMs = cr_DeadlineMs resp\<rparr>, c, w') \<and> at_hand 1 w w'"
proof -
  let ?r = "asks_challenge peer u" and ?su = "gw_su w (gw_served w)"
  have "jar_Cookies x t (cl_jar c) = []" for x t by (simp add: jar_Cookies_def assms(3))
  then have j: "with_jar c t x = x" for t x by (simp add: with_jar_def)
  have p: "req_Path ?r = pathChallenge" by (simp add: assms(2))
  obtain s' where o: "ServeHTTP g ?su ?r (gw_state w) = ((fst (serveOwn g (su_host ?su) (scrubbed ?r) new_recorder
      (on_met (in_flight gauge_Inc) (gw_state w))), s', None, DecisionOwnEndpoint), None)" "st_crawlers s' = st_crawlers (gw_state w)"
    using ServeHTTP_own [of ?r g ?su "gw_state w"] endpoint_paths(1-3) assms(4) unfolding p by blast
  define rec where "rec = fst (serveOwn g (su_host ?su) (scrubbed ?r) new_recorder (on_met (in_flight gauge_Inc) (gw_state w)))"
  have sv: "served_by g peer (with_jar c (gw_clock w (gw_read w)) (asked ''GET'' u None [])) w = ((rec, s', None, DecisionOwnEndpoint), None)"
    using o(1) by (simp add: served_by_def j rec_def asks_challenge_def)
  have nr: "net_response rec = \<lparr>rs_StatusCode = 200, rs_Header = rec_Header (w_Set ''Content-Type'' ''application/json'' (noStore new_recorder)),
      rs_Body = json_Encode (challengeResponse_json resp), rs_ReadErr = False\<rparr>"
    unfolding rec_def using assms(5) by (intro served_challenge) (simp_all add: assms(2))
  note d = Do_gate [OF assms(1) sv refl, unfolded nr client_response.select_convs hdr_own_cookies(1) if_P [OF refl]]
  note b = unmarshal_challenge_Encode [OF assms(6-10)]
  show ?thesis
    unfolding FetchChallenge_def d using assms(11) o(2) b
    by (auto simp: at_hand_def world_after_def)
qed

text \<open>The third step: the answer is accepted, and the pass is in the jar.\<close>

lemma submit_step:
  assumes "url_Parse ops (URL ops c pathAnswer) = Some u" and "ur_Path u = pathAnswer" and "cl_jar c = []" and "has_http_scheme u"
    and "g_publicHosts g \<noteq> [] \<longrightarrow> requestAudience (sends_answer peer u (answer_body ch nonce)) \<in> set (g_publicHosts g)"
    and "answer_result g (su_host (gw_su w (gw_served w))) (scrubbed (sends_answer peer u (answer_body ch nonce)))
      = Inr (''admit'', ex, t, \<lparr>sc_Name = cookieName, sc_Value = v, sc_Path = ''/'', sc_HttpOnly = True, sc_SameSiteLax = True,
          sc_Secure = sec, sc_MaxAge = n\<rparr>)"
    and "v \<noteq> []" and "list_all cookie_safe v" and "0 < n" and "in_int64 n" and "in_int64 (time_unix_milli ex)"
  shows "\<exists>w'. SubmitAnswer ops (gate_network g peer) c ch nonce w = (Inr \<lparr>an_OK = True, an_Kind = ''admit'',
      an_ExpUnixMs = time_unix_milli ex, an_Error = []\<rparr>,
      c\<lparr>cl_jar := [pass_entry u v sec (gw_clock w (Suc (gw_read w)) + n * second)]\<rparr>, w') \<and> at_hand 2 w w'"
proof -
  let ?b = "answer_body ch nonce" and ?opts = "[Header ''Content-Type'' ''application/json'']"
  let ?r = "sends_answer peer u ?b" and ?su = "gw_su w (gw_served w)"
  let ?ck = "\<lparr>sc_Name = cookieName, sc_Value = v, sc_Path = ''/'', sc_HttpOnly = True, sc_SameSiteLax = True, sc_Secure = sec, sc_MaxAge = n\<rparr>"
  have "jar_Cookies x t (cl_jar c) = []" for x t by (simp add: jar_Cookies_def assms(3))
  then have j: "with_jar c t x = x" for t x by (simp add: with_jar_def)
  have p: "req_Path ?r = pathAnswer" by (simp add: assms(2))
  obtain s' where o: "ServeHTTP g ?su ?r (gw_state w) = ((fst (serveOwn g (su_host ?su) (scrubbed ?r) new_recorder
      (on_met (in_flight gauge_Inc) (gw_state w))), s', None, DecisionOwnEndpoint), None)" "st_crawlers s' = st_crawlers (gw_state w)"
    using ServeHTTP_own [of ?r g ?su "gw_state w"] endpoint_paths(4-6) assms(5) unfolding p by blast
  define rec where "rec = fst (serveOwn g (su_host ?su) (scrubbed ?r) new_recorder (on_met (in_flight gauge_Inc) (gw_state w)))"
  have sv: "served_by g peer (with_jar c (gw_clock w (gw_read w)) (asked ''POST'' u (Some ?b) ?opts)) w
      = ((rec, s', None, DecisionOwnEndpoint), None)"
    using o(1) by (simp add: served_by_def j rec_def sends_answer_def)
  have nr: "net_response rec = \<lparr>rs_StatusCode = 200,
      rs_Header = rec_Header (w_Add ''Set-Cookie'' (cookie_String ?ck) (w_Set ''Content-Type'' ''application/json'' (noStore new_recorder))),
      rs_Body = json_Encode (answerResponse_json \<lparr>ar_OK = True, ar_Kind = ''admit'', ar_ExpUnixMs = time_unix_milli ex, ar_Error = []\<rparr>),
      rs_ReadErr = False\<rparr>"
    unfolding rec_def using assms(6) by (intro served_answer) (simp_all add: assms(2))
  have cs: "[\<lparr>rc_Name = cookieName, rc_Value = v, rc_Path = ''/'', rc_MaxAge = n, rc_Secure = sec\<rparr>] = response_cookies (rs_Header (net_response rec))"
    unfolding response_cookies_def nr client_response.select_convs hdr_own_cookies(2)
    by (simp add: parse_pass_cookie [OF assms(7-10)] List.map_filter_simps)
  have u: "cookie_url (asked ''POST'' u (Some ?b) ?opts) = u" by (rule asked_host) simp
  note d = Do_gate [OF assms(1) sv cs, unfolded u assms(3) jar_set_pass [OF assms(4,9)] list.distinct(2) [THEN eq_False [THEN iffD2]] if_False]
  have k: "ascii_string ''admit''" "''admit'' \<noteq> []" by code_simp+
  note b = unmarshal_answer_Encode [OF k assms(11)]
  show ?thesis
    unfolding SubmitAnswer_def d using o(2)
    by (auto simp: at_hand_def world_after_def nr b)
qed

subsection \<open>From the first request to the page\<close>

lemma length_show_nat: "n < 10 ^ k \<Longrightarrow> length (show_nat n) \<le> max 1 k"
proof (induction k arbitrary: n)
  case 0
  then show ?case by (simp add: show_nat.simps)
next
  case (Suc k)
  show ?case
  proof (cases "n < 10")
    case True
    then show ?thesis by (simp add: show_nat.simps)
  next
    case False
    then have "k \<noteq> 0" using Suc.prems by (cases k) auto
    moreover have "n div 10 < 10 ^ k" using Suc.prems by simp
    from Suc.IH [OF this] have "length (show_nat (n div 10)) \<le> max 1 k" .
    ultimately show ?thesis using False by (subst show_nat.simps) simp
  qed
qed

lemma answer_short:
  assumes "ascii_string c" and "length c \<le> 200" and "n < maxAttempts"
  shows "length (answer_body c (show_nat n)) \<le> 4096" "ascii_string (show_nat n)"
proof -
  show a: "ascii_string (show_nat n)" by simp
  have "n < 10 ^ 8" using assms(3) by (simp add: maxAttempts_def)
  from length_show_nat [OF this] have "length (show_nat n) \<le> 8" by simp
  with length_escape_string [OF a] length_escape_string [OF assms(1)] assms(2)
  have "length (escape_string c) \<le> 1200" "length (escape_string (show_nat n)) \<le> 48" by auto
  moreover have "escape_string ''challenge'' = ''challenge''" "escape_string ''nonce'' = ''nonce''" by code_simp+
  ultimately show "length (answer_body c (show_nat n)) \<le> 4096" by (simp add: answer_body_def)
qed

definition reached :: "url_ops \<Rightarrow> client \<Rightarrow> bytes \<Rightarrow> url \<Rightarrow> bool" where
  "reached ops c path u \<longleftrightarrow> url_Parse ops (URL ops c path) = Some u \<and> ur_Path u = path
     \<and> ur_Host u = ur_Host (cl_base c) \<and> ur_Scheme u = ur_Scheme (cl_base c)"

definition su_at :: "gate_world \<Rightarrow> nat \<Rightarrow> surroundings" where "su_at w i = gw_su w (gw_served w + i)"
definition clock_at :: "gate_world \<Rightarrow> nat \<Rightarrow> time" where "clock_at w i = gw_clock w (gw_read w + i)"

text \<open>
  The clocks of the gate and of the client over the procedure: \<open>mint\<close> is when the pass is minted, \<open>ex\<close> when it expires. The
  client reads its clock for the jar of the first request, before it submits, twice when it submits and for the page.
\<close>

definition timely :: "gate \<Rightarrow> gate_world \<Rightarrow> bool" where
  "timely g w \<longleftrightarrow>
     (let issue = h_clock (su_host (su_at w 0)) AtIssue; t = unix_time (time_unix issue); ttl = prof_TTL (g_admit g); ex = t + ttl;
          mint = h_clock (su_host (su_at w 1)) AtMint; seen = h_clock (su_host (su_at w 2)) AtPass
      in in_int64 (time_unix issue) \<and> in_int64 (time_unix_milli ex) \<and> in_int64 (ttl + second) \<and> in_time (su_host (su_at w 1)) t ttl
         \<and> clock_at w 1 \<le> time_unix_milli ex * millisecond \<and> t \<le> mint \<and> mint \<le> clock_at w 3 \<and> clock_at w 4 < ex
         \<and> mint \<le> seen \<and> time_unix seen < time_unix ex)"

text \<open>The hash meets the threshold for some nonce in reach.\<close>

definition solvable :: "gate \<Rightarrow> bytes \<Rightarrow> bool" where
  "solvable g c \<longleftrightarrow> (\<exists>n<maxAttempts. CheckPoW (g_sha g) c (show_nat n) (prof_Threshold (g_admit g)) = None)"

lemma solve_in_reach:
  assumes "solvable g (fc_Challenge ch)" and "fc_Threshold ch = hex_encode (prof_Threshold (g_admit g))"
    and "\<forall>b. length (g_sha g b) = length (prof_Threshold (g_admit g))"
  shows "\<exists>n. SolveChallenge (g_sha g) ch maxAttempts = Inr (show_nat n, n + 1) \<and> n < maxAttempts
    \<and> CheckPoW (g_sha g) (fc_Challenge ch) (show_nat n) (prof_Threshold (g_admit g)) = None"
proof (cases "SolveChallenge (g_sha g) ch maxAttempts")
  case (Inl e)
  with SolveChallenge_fails [OF assms(2)] assms(1,3) show ?thesis by (auto simp: solvable_def)
next
  case (Inr a)
  obtain nonce tries where "a = (nonce, tries)" by (cases a)
  with Inr have "SolveChallenge (g_sha g) ch maxAttempts = Inr (nonce, tries)" by simp
  with SolveChallenge_least [where sha = "g_sha g" and ch = ch, OF assms(2)] assms(3)
  obtain n where "n < maxAttempts" "nonce = show_nat n" "tries = n + 1"
    "CheckPoW (g_sha g) (fc_Challenge ch) nonce (prof_Threshold (g_admit g)) = None" by blast
  then show ?thesis using \<open>SolveChallenge (g_sha g) ch maxAttempts = Inr (nonce, tries)\<close> by blast
qed

lemma challenge_issued:
  assumes "gate_ok g" and "Cookies (req_Header r) = []" and "length rnd = randLen"
  shows "\<exists>resp. challenge_response g (Some rnd) r now = Inr resp
    \<and> Issue (g_hm g) (g_issuer g) (Some rnd) now (requestAudience r) (g_admit g) = Inr (cr_Challenge resp, unix_time (time_unix now))
    \<and> cr_Threshold resp = hex_encode (prof_Threshold (g_admit g)) \<and> cr_Kind resp = ''admit''
    \<and> cr_PassTTLMs resp = go_div (prof_TTL (g_admit g)) millisecond
    \<and> cr_DeadlineMs resp = time_unix_milli (unix_time (time_unix now) + prof_TTL (g_admit g))
    \<and> ascii_string (cr_Challenge resp) \<and> length (cr_Challenge resp) \<le> 200 \<and> mayRenew g r now = None"
proof -
  have m: "mayRenew g r now = None" using assms(2) by (simp add: mayRenew_def validPassAt_def)
  have wf: "profile_wf (g_admit g)" "prof_Kind (g_admit g) = KindAdmit" "\<forall>k m. length (g_hm g k m) = macLen" "g_issuer g \<noteq> []"
    using assms(1) by (simp_all add: gate_ok_def)
  then have v: "profile_validate (g_admit g) = None" by (simp add: profile_wf_def)
  obtain k ks where "g_issuer g = k # ks" using wf(4) by (cases "g_issuer g") auto
  then obtain ch where i: "Issue (g_hm g) (g_issuer g) (Some rnd) now (requestAudience r) (g_admit g) = Inr (ch, unix_time (time_unix now))"
    using v by (auto simp: Issue_Inr_iff)
  moreover have "Kind_String KindAdmit = ''admit''" using kinds_differ by (simp add: Kind_String_def)
  moreover note length_challenge [OF i wf(1) assms(3) wf(3)]
  ultimately show ?thesis using m by (simp add: challenge_response_def challenge_profile_def Let_def wf(2))
qed

lemma pass_request:
  assumes "cl_jar c = [pass_entry u' v sec t]" and "ur_Host u' = ur_Host u" and "has_http_scheme u" and "now < t"
    and "sec \<longrightarrow> ur_Scheme u = ''https''" and "has_prefix (ur_Path u) ''/''" and "list_all cookie_safe v"
  shows "arrive peer (with_jar c now (asked ''GET'' u None [])) = with_cookie v (asks_challenge peer u)"
proof -
  let ?a = "asked ''GET'' u None []"
  have "jar_Cookies (cookie_url ?a) now (cl_jar c) = [(cookieName, v)]"
    using jar_sends_pass [OF assms(3) assms(2) [symmetric] assms(4-6)] by (simp add: asked_host assms(1))
  then have "with_jar c now ?a = ?a\<lparr>cq_Header := hdr_Set (cq_Header ?a) ''Cookie'' (cookieName @ ''='' @ v)\<rparr>"
    using AddCookie_pass [OF assms(7) asked_cookieless] by (simp add: with_jar_def)
  moreover have "cq_Body ?a = None" by (simp add: asked_def Header_def Let_def)
  ultimately show ?thesis by (simp add: with_cookie_def asks_challenge_def arrive_def)
qed

definition let_in :: "decision set" where
  "let_in = {DecisionBypassPath, DecisionBypassIP, DecisionCORSPreflight, DecisionPassPoW, DecisionPassPaid}"

lemma passed_in:
  assumes "servable g r" and "unclaimed (gate_inspect g s0 r)" and "st_crawlers s = st_crawlers s0"
    and "validPassAt g (scrubbed (with_cookie v r)) (h_clock (su_host su) AtPass) = Some q" and "scopeCovers g q (req_Path r)"
  shows "\<exists>rec s' o' d st. ServeHTTP g su (with_cookie v r) s = ((rec, s', Some o', d), st) \<and> d \<in> let_in"
proof -
  let ?r = "with_cookie v r" and ?s = "on_met (in_flight gauge_Inc) s"
  have c: "ClientIP m ?r = ClientIP m r" for m by (rule ClientIP_cong) (simp_all add: with_cookie_def)
  have p: "req_Path ?r = req_Path r" "req_Get ?r ''User-Agent'' = req_Get r ''User-Agent''"
    by (simp_all add: with_cookie_def req_Get_def hdr_Get_Values)
  have "servable g ?r" using assms(1) by (simp add: servable_def p demo_variants(1))
  moreover have "unclaimed (gate_inspect g ?s ?r)"
    using assms(2) by (simp add: unclaimed_def gate_inspect_def inspectRequest_def Let_def c p assms(3))
  ultimately obtain w1 s1 o1 d st where S: "serve g su (gate_inspect g ?s ?r) ?r new_recorder ?s = ((w1, s1, Some o1, d), st)" "d \<in> let_in"
    using covering_pass_enters [where g = g and su = su and s = ?s and r = ?r and w = new_recorder, OF _ _ assms(4)] assms(5)
    unfolding let_in_def p by blast
  have "ServeHTTP g su ?r s = (case st of
      None \<Rightarrow> ((w1, on_met (in_flight gauge_Dec) (recordDecision (su_host su) d (gq_clientIP (gate_inspect g ?s ?r)) (on_met (count_request d (rec_n w1)) s1)),
        Some o1, d), None)
    | Some Panicked \<Rightarrow> ((w1, on_met (in_flight gauge_Dec) s1, Some o1, d), Some Panicked)
    | Some Diverged \<Rightarrow> ((w1, s1, Some o1, d), Some Diverged))"
    by (simp only: ServeHTTP_def Let_def S(1) prod.case)
  then show ?thesis using S(2) by (auto split: option.splits stop.splits)
qed

lemma pass_lifetime:
  assumes "t \<le> mint" and "0 < time_unix mint" and "time_unix mint < time_unix (t + ttl)" and "in_int64 (ttl + second)"
  shows "0 < cookie_MaxAge mint (t + ttl)" "in_int64 (cookie_MaxAge mint (t + ttl))"
    "t + ttl \<le> mint + cookie_MaxAge mint (t + ttl) * second"
proof -
  have m: "mint < t + ttl" using assms(3) time_unix_mono [of "t + ttl" mint] by (meson leI not_less)
  then have i: "in_int64 (t + ttl - mint + second)" "in_int64 (t + ttl - mint)"
    using assms(1,4) by (simp_all add: in_int64_def min_int64_def max_int64_def second_def)
  show "t + ttl \<le> mint + cookie_MaxAge mint (t + ttl) * second" using cookie_outlives_pass [OF i] m by simp
  show p: "0 < cookie_MaxAge mint (t + ttl)" by (simp add: cookie_MaxAge_def Let_def)
  have "time_sub (t + ttl) mint = t + ttl - mint" using i(2) by (simp add: time_sub_exact)
  then have "cookie_MaxAge mint (t + ttl) \<le> max 1 ((t + ttl - mint + second - 1) div second + 30)"
    using m by (simp add: cookie_MaxAge_def Let_def go_div_def nanosecond_def passCookieGrace_def second_def)
  moreover have "(t + ttl - mint + second - 1) div second \<le> t + ttl - mint + second - 1"
    using m unfolding second_def by linarith
  moreover have "t + ttl - mint + second \<le> max_int64" using i(1) by (simp add: in_int64_def)
  ultimately show "in_int64 (cookie_MaxAge mint (t + ttl))" using p
    by (simp add: in_int64_def min_int64_def max_int64_def second_def)
qed

lemma challenge_fetched:
  assumes "gate_ok g" and "cl_jar c = []" and "url_Parse ops (URL ops c pathChallenge) = Some u" and "ur_Path u = pathChallenge"
    and "g_publicHosts g \<noteq> [] \<longrightarrow> requestAudience (asks_challenge peer u) \<in> set (g_publicHosts g)"
    and "h_rand (su_host (su_at w 0)) = Some rnd" and "length rnd = randLen"
  defines "now \<equiv> h_clock (su_host (su_at w 0)) AtIssue" and "r \<equiv> scrubbed (asks_challenge peer u)"
  assumes "in_int64 (time_unix_milli (unix_time (time_unix now) + prof_TTL (g_admit g)))"
  shows "\<exists>resp w' ch. challenge_response g (Some rnd) r now = Inr resp \<and> mayRenew g r now = None
    \<and> Issue (g_hm g) (g_issuer g) (Some rnd) now (requestAudience r) (g_admit g) = Inr (cr_Challenge resp, unix_time (time_unix now))
    \<and> ascii_string (cr_Challenge resp) \<and> length (cr_Challenge resp) \<le> 200
    \<and> FetchChallenge ops (gate_network g peer) c w = (Inr ch, c, w') \<and> at_hand 1 w w'
    \<and> fc_Challenge ch = cr_Challenge resp \<and> fc_Threshold ch = hex_encode (prof_Threshold (g_admit g))
    \<and> fc_DeadlineMs ch = time_unix_milli (unix_time (time_unix now) + prof_TTL (g_admit g))"
proof -
  have "hdr_Values (req_Header r) ''Cookie'' = []" by (simp add: r_def scrubbed_values actionHeader_def HeaderResponse_def HeaderRequired_def)
  then have "Cookies (req_Header r) = []" by (simp add: Cookies_def)
  from challenge_issued [OF assms(1) this assms(7), of now] obtain resp where resp:
    "challenge_response g (Some rnd) r now = Inr resp" "cr_Threshold resp = hex_encode (prof_Threshold (g_admit g))" "cr_Kind resp = ''admit''"
    "cr_PassTTLMs resp = go_div (prof_TTL (g_admit g)) millisecond"
    "cr_DeadlineMs resp = time_unix_milli (unix_time (time_unix now) + prof_TTL (g_admit g))"
    "ascii_string (cr_Challenge resp)" "length (cr_Challenge resp) \<le> 200" "mayRenew g r now = None"
    "Issue (g_hm g) (g_issuer g) (Some rnd) now (requestAudience r) (g_admit g) = Inr (cr_Challenge resp, unix_time (time_unix now))"
    by blast
  have wf: "profile_wf (g_admit g)" using assms(1) by (simp add: gate_ok_def)
  then have "0 < prof_TTL (g_admit g)" "in_int64 (prof_TTL (g_admit g))" "length (prof_Threshold (g_admit g)) = 32"
    by (auto simp: profile_wf_def profile_validate_def thresholdLen_def split: if_splits)
  then have "in_int64 (cr_PassTTLMs resp)" "length (cr_Threshold resp) = 64" "ascii_string (cr_Threshold resp)"
    unfolding resp(2,4) by (auto simp: go_div_def millisecond_def in_int64_def min_int64_def max_int64_def length_hex_encode ascii_hex_encode)
  moreover have "ascii_string (cr_Kind resp)" unfolding resp(3) by code_simp
  ultimately show ?thesis
    using fetch_step [OF assms(3,4,2,5), of w resp] resp assms(6,10) by (auto simp: su_at_def now_def r_def)
qed

lemma answer_TLS: "requestIsTLS m (scrubbed (sends_answer peer u b)) = (ur_Scheme u = ''https'')"
proof -
  have "req_Get (scrubbed (sends_answer peer u b)) ''X-Forwarded-Proto'' = []" "\<not> equal_fold [] ''https''"
    by (simp_all add: req_Get_def hdr_Get_Values scrubbed_values equal_fold_def to_lower_def actionHeader_def HeaderResponse_def HeaderRequired_def)
  moreover have "req_TLS (scrubbed r) = req_TLS r" for r by (simp add: scrubbed_def)
  ultimately show ?thesis by (simp add: requestIsTLS_def)
qed

text \<open>The answer in time is worth a cookie that outlives its pass, and the pass opens the site.\<close>

lemma pass_earned:
  fixes g peer u u1 u2 w rnd
  defines "r1 \<equiv> scrubbed (asks_challenge peer u1)" and "hs \<equiv> su_host (su_at w 1)" and "r2 \<equiv> \<lambda>b. scrubbed (sends_answer peer u2 b)"
    and "now \<equiv> h_clock (su_host (su_at w 0)) AtIssue" and "tm \<equiv> h_clock (su_host (su_at w 2)) AtPass"
  defines "t \<equiv> unix_time (time_unix now)"
  defines "ex \<equiv> t + prof_TTL (g_admit g)"
  assumes "gate_ok g" and "challenge_response g (Some rnd) r1 now = Inr resp" and "mayRenew g r1 now = None" and "length rnd = randLen"
    and "ascii_string (cr_Challenge resp)" and "length (cr_Challenge resp) \<le> 200" and "n < maxAttempts"
    and "CheckPoW (g_sha g) (cr_Challenge resp) (show_nat n) (prof_Threshold (g_admit g)) = None"
    and "ur_Host u1 = ur_Host u" and "ur_Host u2 = ur_Host u" and "visitor g (asks_challenge peer u)" and "timely g w"
  shows "\<exists>v k. v \<noteq> [] \<and> list_all cookie_safe v \<and> 0 < k \<and> in_int64 k \<and> ex \<le> h_clock hs AtMint + k * second
    \<and> answer_result g hs (r2 (answer_body (cr_Challenge resp) (show_nat n))) = Inr (''admit'', ex, t, \<lparr>sc_Name = cookieName, sc_Value = v,
        sc_Path = ''/'', sc_HttpOnly = True, sc_SameSiteLax = True, sc_Secure = (ur_Scheme u2 = ''https''), sc_MaxAge = k\<rparr>)
    \<and> (\<exists>q. validPassAt g (scrubbed (with_cookie v (asks_challenge peer u))) tm = Some q \<and> scopeCovers g q (ur_Path u))"
proof -
  let ?b = "answer_body (cr_Challenge resp) (show_nat n)" and ?r3 = "\<lambda>v. scrubbed (with_cookie v (asks_challenge peer u))"
  have time: "in_int64 (time_unix now)" "in_time hs t (prof_TTL (g_admit g))" "t \<le> h_clock hs AtMint" "h_clock hs AtMint \<le> tm"
    "time_unix tm < time_unix ex" "in_int64 (prof_TTL (g_admit g) + second)"
    using assms(19) by (simp_all add: timely_def Let_def now_def hs_def tm_def t_def ex_def)
  have peers: "same_visitor g (asks_challenge peer u) (asks_challenge peer u1)" "same_visitor g (asks_challenge peer u) (sends_answer peer u2 b)"
    "same_visitor g r (scrubbed r)" "same_visitor g r (with_cookie v r)" for b r v
    using same_peer_facts(3) [OF peers_alike(1) [OF assms(16)], of g] same_peer_facts(3) [OF peers_alike(2) [OF assms(17)], of g]
      same_peer_facts(3) [OF same_peer_scrubbed, of g r] by (simp_all add: same_visitor_def demo_variants)
  have vis: "visitor g (r2 ?b)" "same_visitor g r1 (r2 ?b)" "same_visitor g (r2 ?b) (?r3 v)" for v
    using assms(18) peers by (simp_all add: visitor_def same_visitor_def r1_def r2_def)
  have body: "req_Body (r2 ?b) = ?b" by (simp add: r2_def scrubbed_def)
  have short: "length (req_Body (r2 ?b)) \<le> 4096" "ascii_string (show_nat n)" unfolding body using answer_short assms(12-14) by blast+
  have "\<exists>ck. answer_result g hs (r2 ?b) = Inr (''admit'', ex, t, ck)
    \<and> (presents (?r3 v) (sc_Value ck) \<longrightarrow> (\<exists>q. validPassAt g (?r3 v) tm = Some q \<and> scopeCovers g q (req_Path (?r3 v))))" for v
    unfolding ex_def t_def
    by (rule solve_then_enter [OF assms(8,10,9,11) time(1) vis(1,2) body short(2,1) assms(15) time(2) [unfolded t_def] vis(3) time(4)
          time(5) [unfolded ex_def t_def]])
  then obtain ck where ck: "answer_result g hs (r2 ?b) = Inr (''admit'', ex, t, ck)"
    and opens: "presents (?r3 (sc_Value ck)) (sc_Value ck) \<Longrightarrow> \<exists>q. validPassAt g (?r3 (sc_Value ck)) tm = Some q
      \<and> scopeCovers g q (req_Path (?r3 (sc_Value ck)))"
    by (metis Inr_inject prod.inject)
  from ck obtain ra where set: "setPassCookie g (r2 ?b) (h_clock hs AtMint) pow_pass ex ra = Inr ck"
    unfolding answer_result_Inr redeem_Inr by blast
  then have m: "Mint (g_hm g) (g_keyring g) (stamped_pass g (r2 ?b) (h_clock hs AtMint) pow_pass ex ra) = Inr (sc_Value ck)"
    and f: "ck = \<lparr>sc_Name = cookieName, sc_Value = sc_Value ck, sc_Path = ''/'', sc_HttpOnly = True, sc_SameSiteLax = True,
      sc_Secure = (ur_Scheme u2 = ''https''), sc_MaxAge = cookie_MaxAge (h_clock hs AtMint) ex\<rparr>"
    unfolding setPassCookie_Inr by (simp_all add: r2_def answer_TLS)
  have life: "0 < cookie_MaxAge (h_clock hs AtMint) ex" "in_int64 (cookie_MaxAge (h_clock hs AtMint) ex)"
    "ex \<le> h_clock hs AtMint + cookie_MaxAge (h_clock hs AtMint) ex * second"
    using pass_lifetime [OF time(3) _ _ time(6)] time(2) by (simp_all add: in_time_def ex_def)
  have "presents (?r3 v) v" for v
    using demo_variants(5) by (simp add: presents_def scrubbed_values actionHeader_def HeaderResponse_def HeaderRequired_def)
  from opens [OF this] have "\<exists>q. validPassAt g (?r3 (sc_Value ck)) tm = Some q \<and> scopeCovers g q (ur_Path u)"
    by (simp add: with_cookie_def)
  with ck f Mint_cookie_safe [OF m] life show ?thesis
    by (intro exI [of _ "sc_Value ck"] exI [of _ "cookie_MaxAge (h_clock hs AtMint) ex"]) simp
qed

lemma Solve_once:
  assumes "FetchChallenge ops net c w = (Inr ch, c1, w1)" and "SolveChallenge sha ch maxAttempts = Inr (nonce, tries)"
    and "nw_Now net w1 = (now, w2)" and "now \<le> Deadline ch" and "SubmitAnswer ops net c1 (fc_Challenge ch) nonce w2 = (Inr a, c2, w3)"
  shows "Solve sha ops net c w = (Inr a, c2, w3)"
  using assms by (simp add: Solve_def)

text \<open>The last step: with the pass in the jar the page is asked for and let through.\<close>

lemma page_reached:
  assumes "url_Parse ops (URL ops c path) = Some u" and "cl_jar c = [pass_entry u' v sec t]" and "ur_Host u' = ur_Host u"
    and "has_http_scheme u" and "gw_clock w (gw_read w) < t" and "sec \<longrightarrow> ur_Scheme u = ''https''" and "has_prefix (ur_Path u) ''/''"
    and "list_all cookie_safe v" and "servable g (asks_challenge peer u)" and "unclaimed (gate_inspect g s0 (asks_challenge peer u))"
    and "st_crawlers (gw_state w) = st_crawlers s0" and "scopeCovers g q (ur_Path u)"
    and "validPassAt g (scrubbed (with_cookie v (asks_challenge peer u))) (h_clock (su_host (gw_su w (gw_served w))) AtPass) = Some q"
  shows "\<exists>res c' w' rec s o' d st. Get ops (gate_network g peer) c path [] w = (res, c', w')
    \<and> gw_outcomes w' = gw_outcomes w @ [((rec, s, Some o', d), st)] \<and> d \<in> let_in"
proof -
  note a = pass_request [OF assms(2-8), of peer]
  obtain rec s' o' d st where "ServeHTTP g (gw_su w (gw_served w)) (with_cookie v (asks_challenge peer u)) (gw_state w) = ((rec, s', Some o', d), st)"
    and d: "d \<in> let_in"
    using passed_in [OF assms(9-11,13)] assms(12) by auto
  then have "served_by g peer (with_jar c (gw_clock w (gw_read w)) (asked ''GET'' u None [])) w = ((rec, s', Some o', d), st)"
    by (simp add: served_by_def a)
  with Do_logs [OF assms(1), of g peer "''GET''" None "[]" w] d show ?thesis unfolding Get_def by metis
qed

text \<open>The procedure up to the pass in the jar, in the world as the solver leaves it.\<close>

lemma pass_obtained:
  assumes "gate_ok g" and "cl_jar c = []" and "has_http_scheme u2"
    and u1: "url_Parse ops (URL ops c pathChallenge) = Some u1" "ur_Path u1 = pathChallenge" "ur_Host u1 = ur_Host u"
    and u2: "url_Parse ops (URL ops c pathAnswer) = Some u2" "ur_Path u2 = pathAnswer" "ur_Host u2 = ur_Host u"
    and "visitor g (asks_challenge peer u)"
    and pub: "g_publicHosts g \<noteq> [] \<longrightarrow> requestAudience (asks_challenge peer u) \<in> set (g_publicHosts g)"
    and rnd: "h_rand (su_host (su_at w 0)) = Some rnd" "length rnd = randLen" and timely: "timely g w"
    and work: "\<forall>ch t. Issue (g_hm g) (g_issuer g) (Some rnd) (h_clock (su_host (su_at w 0)) AtIssue)
      (requestAudience (asks_challenge peer u)) (g_admit g) = Inr (ch, t) \<longrightarrow> solvable g ch"
  shows "\<exists>a v t q w'. Solve (g_sha g) ops (gate_network g peer) c w
      = (Inr a, c\<lparr>cl_jar := [pass_entry u2 v (ur_Scheme u2 = ''https'') t]\<rparr>, w')
    \<and> an_OK a \<and> an_Kind a = ''admit'' \<and> list_all cookie_safe v \<and> gw_clock w' (gw_read w') < t
    \<and> gw_su w' (gw_served w') = su_at w 2 \<and> st_crawlers (gw_state w') = st_crawlers (gw_state w)
    \<and> validPassAt g (scrubbed (with_cookie v (asks_challenge peer u))) (h_clock (su_host (su_at w 2)) AtPass) = Some q
    \<and> scopeCovers g q (ur_Path u)"
proof -
  have aud: "requestAudience (asks_challenge peer u1) = requestAudience (asks_challenge peer u)"
    "requestAudience (sends_answer peer u2 b) = requestAudience (asks_challenge peer u)"
    "requestAudience (scrubbed (asks_challenge peer u1)) = requestAudience (asks_challenge peer u)" for b
    using same_peer_facts(1) [OF peers_alike(1) [OF u1(3)]] same_peer_facts(1) [OF peers_alike(2) [OF u2(3)]]
      same_peer_facts(1) [OF same_peer_scrubbed] by simp_all
  let ?t = "unix_time (time_unix (h_clock (su_host (su_at w 0)) AtIssue))" and ?ttl = "prof_TTL (g_admit g)"
  have time: "in_int64 (time_unix_milli (?t + ?ttl))" "clock_at w 1 \<le> time_unix_milli (?t + ?ttl) * millisecond"
    "h_clock (su_host (su_at w 1)) AtMint \<le> clock_at w 3" "clock_at w 4 < ?t + ?ttl"
    using timely by (simp_all add: timely_def Let_def)
  from challenge_fetched [OF assms(1,2) u1(1,2) pub [folded aud(1)] rnd time(1)] obtain resp w1 ch where
    resp: "challenge_response g (Some rnd) (scrubbed (asks_challenge peer u1)) (h_clock (su_host (su_at w 0)) AtIssue) = Inr resp"
      "mayRenew g (scrubbed (asks_challenge peer u1)) (h_clock (su_host (su_at w 0)) AtIssue) = None"
      "ascii_string (cr_Challenge resp)" "length (cr_Challenge resp) \<le> 200" and sv: "solvable g (fc_Challenge ch)"
    and ch: "FetchChallenge ops (gate_network g peer) c w = (Inr ch, c, w1)" "at_hand 1 w w1" "fc_Challenge ch = cr_Challenge resp"
      "fc_Threshold ch = hex_encode (prof_Threshold (g_admit g))" "fc_DeadlineMs ch = time_unix_milli (?t + ?ttl)"
    using work unfolding aud(3) by metis
  obtain n where n: "SolveChallenge (g_sha g) ch maxAttempts = Inr (show_nat n, n + 1)" "n < maxAttempts"
    "CheckPoW (g_sha g) (cr_Challenge resp) (show_nat n) (prof_Threshold (g_admit g)) = None"
    using solve_in_reach [OF sv ch(4)] assms(1) ch(3) by (auto simp: gate_ok_def profile_wf_def thresholdLen_def)
  obtain v k q where v: "v \<noteq> []" "list_all cookie_safe v" "0 < k" "in_int64 k" "?t + ?ttl \<le> h_clock (su_host (su_at w 1)) AtMint + k * second"
    and ans: "answer_result g (su_host (su_at w 1)) (scrubbed (sends_answer peer u2 (answer_body (cr_Challenge resp) (show_nat n))))
      = Inr (''admit'', ?t + ?ttl, ?t, \<lparr>sc_Name = cookieName, sc_Value = v, sc_Path = ''/'', sc_HttpOnly = True, sc_SameSiteLax = True,
          sc_Secure = (ur_Scheme u2 = ''https''), sc_MaxAge = k\<rparr>)"
    and q: "validPassAt g (scrubbed (with_cookie v (asks_challenge peer u))) (h_clock (su_host (su_at w 2)) AtPass) = Some q"
      "scopeCovers g q (ur_Path u)"
    using pass_earned [OF assms(1) resp(1,2) rnd(2) resp(3,4) n(2,3) u1(3) u2(3) assms(10) timely] by blast
  define w2 where "w2 = w1\<lparr>gw_read := Suc (gw_read w1)\<rparr>"
  have w2: "gw_su w2 = gw_su w" "gw_clock w2 = gw_clock w" "gw_read w2 = gw_read w + 2" "gw_served w2 = gw_served w + 1"
    "st_crawlers (gw_state w2) = st_crawlers (gw_state w)" using ch(2) by (simp_all add: w2_def at_hand_def)
  have now: "nw_Now (gate_network g peer) w1 = (clock_at w 1, w2)" using ch(2) by (simp add: gate_network_def w2_def at_hand_def clock_at_def)
  have late: "clock_at w 1 \<le> Deadline ch" using time(2) ch(5) by (simp add: Deadline_def)
  have "answer_result g (su_host (gw_su w2 (gw_served w2))) (scrubbed (sends_answer peer u2 (answer_body (cr_Challenge resp) (show_nat n))))
      = Inr (''admit'', ?t + ?ttl, ?t, \<lparr>sc_Name = cookieName, sc_Value = v, sc_Path = ''/'', sc_HttpOnly = True, sc_SameSiteLax = True,
          sc_Secure = (ur_Scheme u2 = ''https''), sc_MaxAge = k\<rparr>)" using ans by (simp add: w2 su_at_def)
  from submit_step [OF u2(1,2) assms(2,3) _ this v(1-4) time(1)] pub aud(2) obtain w3 a where
    sub: "SubmitAnswer ops (gate_network g peer) c (fc_Challenge ch) (show_nat n) w2 = (Inr a,
        c\<lparr>cl_jar := [pass_entry u2 v (ur_Scheme u2 = ''https'') (gw_clock w2 (Suc (gw_read w2)) + k * second)]\<rparr>, w3)"
      "at_hand 2 w2 w3" "an_OK a" "an_Kind a = ''admit''" unfolding ch(3) by fastforce
  have "gw_clock w3 (gw_read w3) < gw_clock w2 (Suc (gw_read w2)) + k * second"
    using sub(2) time(3,4) v(5) by (simp add: at_hand_def w2 clock_at_def add.commute numeral_eq_Suc)
  moreover have "gw_su w3 (gw_served w3) = su_at w 2" "st_crawlers (gw_state w3) = st_crawlers (gw_state w)"
    using sub(2) by (simp_all add: at_hand_def w2 su_at_def numeral_eq_Suc)
  ultimately show ?thesis using Solve_once [OF ch(1) n(1) now late sub(1)] sub(3,4) v(2) q by blast
qed

text \<open>C5: the documented way works end to end. A client of the harness that starts without a pass and follows the
  instructions, fetching a challenge, counting up to the least nonce that meets the threshold and posting it in time, has a pass
  after one round, whatever state the gate is in; with the jar that the answer filled, its next request for any page the gate
  serves is let through.\<close>

theorem solver_gets_in:
  assumes "gate_ok g" and "cl_jar c = []" and "has_http_scheme (cl_base c)"
    and "reached ops c pathChallenge u1" and "reached ops c pathAnswer u2" and "reached ops c path u" and "has_prefix path ''/''"
    and "visitor g (asks_challenge peer u)" and "servable g (asks_challenge peer u)"
    and "unclaimed (gate_inspect g (gw_state w) (asks_challenge peer u))"
    and "h_rand (su_host (su_at w 0)) = Some rnd" and "length rnd = randLen" and "timely g w"
    and "\<forall>ch t. Issue (g_hm g) (g_issuer g) (Some rnd) (h_clock (su_host (su_at w 0)) AtIssue) (requestAudience (asks_challenge peer u))
      (g_admit g) = Inr (ch, t) \<longrightarrow> solvable g ch"
  shows "\<exists>a c' w' res c'' w'' rec s o' d st. Solve (g_sha g) ops (gate_network g peer) c w = (Inr a, c', w') \<and> an_OK a \<and> an_Kind a = ''admit''
    \<and> Get ops (gate_network g peer) c' path [] w' = (res, c'', w'')
    \<and> gw_outcomes w'' = gw_outcomes w' @ [((rec, s, Some o', d), st)] \<and> d \<in> let_in"
proof -
  have u1: "url_Parse ops (URL ops c pathChallenge) = Some u1" "ur_Path u1 = pathChallenge" "ur_Host u1 = ur_Host u"
    and u2: "url_Parse ops (URL ops c pathAnswer) = Some u2" "ur_Path u2 = pathAnswer" "ur_Host u2 = ur_Host u" "has_http_scheme u2"
    and u: "url_Parse ops (URL ops c path) = Some u" "ur_Path u = path" "ur_Scheme u = ur_Scheme u2" "has_http_scheme u"
    using assms(3-6) by (auto simp: reached_def has_http_scheme_def)
  have pub: "g_publicHosts g \<noteq> [] \<longrightarrow> requestAudience (asks_challenge peer u) \<in> set (g_publicHosts g)" using assms(9) by (simp add: servable_def)
  obtain a v t q w' where S: "Solve (g_sha g) ops (gate_network g peer) c w
      = (Inr a, c\<lparr>cl_jar := [pass_entry u2 v (ur_Scheme u2 = ''https'') t]\<rparr>, w')" "an_OK a" "an_Kind a = ''admit''"
    and w: "list_all cookie_safe v" "gw_clock w' (gw_read w') < t" "gw_su w' (gw_served w') = su_at w 2"
      "st_crawlers (gw_state w') = st_crawlers (gw_state w)"
    and q: "validPassAt g (scrubbed (with_cookie v (asks_challenge peer u))) (h_clock (su_host (su_at w 2)) AtPass) = Some q"
      "scopeCovers g q (ur_Path u)"
    using pass_obtained [OF assms(1,2) u2(4) u1 u2(1-3) assms(8) pub assms(11-14)] by blast
  let ?c = "c\<lparr>cl_jar := [pass_entry u2 v (ur_Scheme u2 = ''https'') t]\<rparr>"
  have "URL ops ?c path = URL ops c path" by (simp add: URL_def)
  then have p: "url_Parse ops (URL ops ?c path) = Some u" using u(1) by simp
  have j: "cl_jar ?c = [pass_entry u2 v (ur_Scheme u2 = ''https'') t]" by simp
  have "\<exists>res c'' w'' rec s o' d st. Get ops (gate_network g peer) ?c path [] w' = (res, c'', w'')
    \<and> gw_outcomes w'' = gw_outcomes w' @ [((rec, s, Some o', d), st)] \<and> d \<in> let_in"
    by (rule page_reached [OF p j u2(3) u(4) w(2) _ _ w(1) assms(9,10) w(4) q(2) q(1) [folded w(3)]]) (simp_all add: u(2,3) assms(7))
  with S show ?thesis by blast
qed

text \<open>The example gate, reached at \<open>http://example.com\<close> from \<open>192.0.2.7\<close>.\<close>

definition demo_urls :: url_ops where
  "demo_urls = \<lparr>url_Parse = (\<lambda>s. if has_prefix s ''http://example.com'' then Some \<lparr>ur_Scheme = ''http'', ur_Host = ''example.com'',
       ur_Path = drop 18 s, ur_EscapedPath = drop 18 s, ur_RawQuery = []\<rparr> else None),
     url_String = (\<lambda>u. ur_Scheme u @ ''://'' @ ur_Host u @ ur_Path u)\<rparr>"

definition demo_client :: client where
  "demo_client = \<lparr>cl_base = \<lparr>ur_Scheme = ''http'', ur_Host = ''example.com'', ur_Path = [], ur_EscapedPath = [], ur_RawQuery = []\<rparr>,
     cl_jar = []\<rparr>"

definition demo_url :: "bytes \<Rightarrow> url" where
  "demo_url path = \<lparr>ur_Scheme = ''http'', ur_Host = ''example.com'', ur_Path = path, ur_EscapedPath = path, ur_RawQuery = []\<rparr>"

definition demo_world :: gate_world where
  "demo_world = \<lparr>gw_clock = (\<lambda>_. unix_time 2000), gw_read = 0,
     gw_su = (\<lambda>_. demo_surroundings\<lparr>su_host := free_host\<lparr>h_rand := Some (replicate 16 CHR ''r'')\<rparr>\<rparr>),
     gw_served = 0, gw_state = demo_state, gw_outcomes = []\<rparr>"

lemma demo_NewClient: "NewClient demo_urls ''http://example.com'' = Some demo_client"
  by (simp add: NewClient_def demo_urls_def demo_client_def)

lemma demo_reached: "has_prefix path ''/'' \<Longrightarrow> reached demo_urls demo_client path (demo_url path)"
  by (auto simp: reached_def demo_urls_def demo_client_def demo_url_def URL_def has_prefix_iff trim_suffix_def has_suffix_def)

definition direct_request :: request where
  "direct_request = demo_request\<lparr>req_Header := hdr_empty, req_RemoteAddr := ''192.0.2.7:50000''\<rparr>"

lemma demo_asks: "visitor free_gate (asks_challenge ''192.0.2.7:50000'' (demo_url path))"
  "requestAudience (asks_challenge ''192.0.2.7:50000'' (demo_url path)) = ''example.com''"
proof -
  have "ClientIP demo_matcher direct_request = Inr (addr_Unmap (AddrV4 0xC0000207))" by code_simp
  moreover have "ClientIP demo_matcher demo_request = Inr (addr_Unmap (AddrV4 0xC0000207))" by code_simp
  moreover have "g_match free_gate = demo_matcher" by (simp add: free_gate_def demo_gate_def)
  ultimately have "clientPrefix free_gate direct_request = clientPrefix free_gate demo_request" by (intro clientPrefix_cong) simp
  moreover have "requestAudience direct_request = requestAudience demo_request" by (simp add: direct_request_def requestAudience_def)
  moreover have p: "same_peer (asks_challenge ''192.0.2.7:50000'' (demo_url path)) direct_request"
    by (simp add: same_peer_def demo_url_def direct_request_def demo_request_def)
  ultimately show "visitor free_gate (asks_challenge ''192.0.2.7:50000'' (demo_url path))"
    "requestAudience (asks_challenge ''192.0.2.7:50000'' (demo_url path)) = ''example.com''"
    using same_peer_facts(1,4) [OF p] demo_visits(1) [of "req_Body demo_request"] by (simp_all add: visitor_def demo_visitor)
qed

lemma demo_user_agent: "hosted_Claim DefaultUserAgent = HostedNone"
  by code_simp

lemma demo_timely: "timely free_gate demo_world"
proof -
  have f: "prof_TTL (g_admit free_gate) = hour" by (simp add: free_gate_def demo_gate_def demo_profile_def)
  have c: "h_clock (su_host (su_at demo_world i)) at' = unix_time 2000" "clock_at demo_world i = unix_time 2000" for i at'
    by (simp_all add: su_at_def clock_at_def demo_world_def free_host_def)
  show ?thesis
    unfolding timely_def Let_def f c in_time_def
    by (simp add: unix_time_def time_unix_def time_unix_milli_def second_def hour_def millisecond_def in_int64_def min_int64_def max_int64_def)
qed

lemma solver_gets_in_witness:
  "\<exists>a c' w' res c'' w'' rec s o' d st. Solve (g_sha free_gate) demo_urls (gate_network free_gate ''192.0.2.7:50000'') demo_client demo_world
      = (Inr a, c', w') \<and> an_OK a \<and> an_Kind a = ''admit''
    \<and> Get demo_urls (gate_network free_gate ''192.0.2.7:50000'') c' ''/'' [] w' = (res, c'', w'')
    \<and> gw_outcomes w'' = gw_outcomes w' @ [((rec, s, Some o', d), st)] \<and> d \<in> let_in"
proof (rule solver_gets_in [OF free_gate_ok _ _ demo_reached demo_reached demo_reached _ demo_asks(1)])
  let ?r = "asks_challenge ''192.0.2.7:50000'' (demo_url ''/'')"
  have "has_prefix gate_prefix ''/''" by code_simp
  show "has_prefix pathChallenge ''/''" "has_prefix pathAnswer ''/''" "has_prefix ''/'' ''/''" "has_prefix ''/'' ''/''" by code_simp+
  show "cl_jar demo_client = []" "has_http_scheme (cl_base demo_client)" by (simp_all add: demo_client_def has_http_scheme_def)
  show "servable free_gate ?r"
    using demo_servable [of "[]"] by (simp add: servable_def with_cookie_def demo_request_def demo_url_def free_gate_def demo_gate_def)
  show "unclaimed (gate_inspect free_gate (gw_state demo_world) ?r)"
    using demo_user_agent by (simp add: unclaimed_def gate_inspect_def inspectRequest_def demo_world_def demo_state_def new_state_def
        crawler_Claim_def req_Get_def hdr_Get_Values Let_def)
  show "h_rand (su_host (su_at demo_world 0)) = Some (replicate 16 CHR ''r'')" by (simp add: su_at_def demo_world_def)
  show "length (replicate 16 CHR ''r'') = randLen" by (simp add: randLen_def)
  show "timely free_gate demo_world" by (rule demo_timely)
  have "g_admit free_gate = demo_profile" by (simp add: free_gate_def demo_gate_def)
  then have "solvable free_gate ch" for ch
    using demo_work unfolding solvable_def by (intro exI [of _ 0]) (simp add: maxAttempts_def)
  then show "\<forall>ch t. Issue (g_hm free_gate) (g_issuer free_gate) (Some (replicate 16 CHR ''r''))
      (h_clock (su_host (su_at demo_world 0)) AtIssue) (requestAudience ?r) (g_admit free_gate) = Inr (ch, t) \<longrightarrow> solvable free_gate ch" by blast
qed

end
