(* ===== verification/Deploy.thy ===== *)
theory Deploy
  imports Client
begin

text \<open>
  The deployments of the acceptance suite (\<open>acceptance/harness/deploy.go\<close>): how a Compose project is named, brought up, waited for and
  asked for its published ports. Running \<open>docker\<close>, free ports, random keys and the process environment are parameters: a world that
  runs commands. A map of environment variables is an association list, and its order is the order in which they are passed.
\<close>

record deployment =
  dp_Project :: bytes
  dp_Dir :: bytes
  dp_Files :: "bytes list"
  dp_GateURL :: bytes
  dp_AppURL :: bytes
  dp_Env :: "bytes list"

text \<open>A command's directory, environment and arguments; its output and whether it failed.\<close>

record 'w machine =
  mc_Run :: "bytes \<Rightarrow> bytes list \<Rightarrow> bytes list \<Rightarrow> 'w \<Rightarrow> (bytes \<times> bool) \<times> 'w"
  mc_FreePort :: "'w \<Rightarrow> nat option \<times> 'w"
  mc_Rand :: "nat \<Rightarrow> 'w \<Rightarrow> bytes option \<times> 'w"
  mc_Environ :: "bytes list"
  mc_urls :: url_ops
  mc_net :: "'w network"

datatype deploy_error = ErrFreePort | ErrRandom | ErrCompose bytes | ErrClient | ErrNotReady client_error bytes | ErrOutput bytes

subsection \<open>Names and commands\<close>

text \<open>The search for the repository root, at most eight directories up; \<open>parent\<close> is \<open>filepath.Dir\<close>, \<open>there\<close> whether a file of that name is in it.\<close>

fun root_from :: "(bytes \<Rightarrow> bytes) \<Rightarrow> (bytes \<Rightarrow> bytes \<Rightarrow> bool) \<Rightarrow> nat \<Rightarrow> bytes \<Rightarrow> bytes option" where
  "root_from parent there 0 dir = None"
| "root_from parent there (Suc k) dir =
     (if there dir ''go.mod'' \<and> there dir ''Dockerfile'' then Some dir
      else if parent dir = dir then None
      else root_from parent there k (parent dir))"

definition RepoRoot :: "(bytes \<Rightarrow> bytes) \<Rightarrow> (bytes \<Rightarrow> bytes \<Rightarrow> bool) \<Rightarrow> bytes option \<Rightarrow> bytes option" where
  "RepoRoot parent there wd = (case wd of None \<Rightarrow> None | Some dir \<Rightarrow> root_from parent there 8 dir)"

definition RandomKey :: "'w machine \<Rightarrow> 'w \<Rightarrow> bytes option \<times> 'w" where
  "RandomKey mc w = (let (rnd, w) = mc_Rand mc 32 w in (map_option (b64_encode StdEncoding) rnd, w))"

definition project_rune :: "nat \<Rightarrow> bool" where
  "project_rune r \<longleftrightarrow> 97 \<le> r \<and> r \<le> 122 \<or> 48 \<le> r \<and> r \<le> 57 \<or> r = 45 \<or> r = 95"

text \<open>Rune by rune: a character outside ASCII becomes one dash.\<close>

function project_runes :: "bytes \<Rightarrow> bytes" where
  "project_runes [] = []"
| "project_runes (c # s) =
     (case utf8_decode (c # s) of (r, w) \<Rightarrow>
        (if project_rune r then val_byte r else CHR ''-'') # project_runes (drop w (c # s)))"
  by pat_completeness auto
termination
  by (relation "measure length") (auto dest!: utf8_decode_pos)

definition sanitizeProject :: "bytes \<Rightarrow> bytes" where
  "sanitizeProject s = trim_right_while (\<lambda>c. c = CHR ''-'') (trim_left_while (\<lambda>c. c = CHR ''-'') (project_runes s))"

definition compose_args :: "deployment \<Rightarrow> bytes list \<Rightarrow> bytes list" where
  "compose_args d args = [''docker'', ''compose'', ''-p'', dp_Project d] @ concat (map (\<lambda>f. [''-f'', f]) (dp_Files d)) @ args"

definition compose :: "'w machine \<Rightarrow> deployment \<Rightarrow> bytes list \<Rightarrow> 'w \<Rightarrow> (bytes \<times> bool) \<times> 'w" where
  "compose mc d args w = mc_Run mc (dp_Dir d) (dp_Env d) (compose_args d args) w"

definition deploy_Logs :: "'w machine \<Rightarrow> deployment \<Rightarrow> 'w \<Rightarrow> bytes \<times> 'w" where
  "deploy_Logs mc d w = (let ((out, failed), w) = compose mc d [''logs'', ''--no-color''] w in (out, w))"

definition deploy_Exec :: "'w machine \<Rightarrow> deployment \<Rightarrow> bytes \<Rightarrow> bytes list \<Rightarrow> 'w \<Rightarrow> (bytes \<times> bool) \<times> 'w" where
  "deploy_Exec mc d service args w = compose mc d ([''exec'', ''-T'', service] @ args) w"

definition deploy_Restart :: "'w machine \<Rightarrow> deployment \<Rightarrow> bytes \<Rightarrow> 'w \<Rightarrow> (bytes \<times> bool) \<times> 'w" where
  "deploy_Restart mc d service w = compose mc d [''restart'', service] w"

definition deploy_Client :: "'w machine \<Rightarrow> deployment \<Rightarrow> client option" where
  "deploy_Client mc d = NewClient (mc_urls mc) (dp_GateURL d)"

definition deploy_Direct :: "'w machine \<Rightarrow> deployment \<Rightarrow> client option" where
  "deploy_Direct mc d = NewClient (mc_urls mc) (dp_AppURL d)"

subsection \<open>Bringing a project up\<close>

text \<open>The teardown that \<open>Start\<close> returns.\<close>

definition deploy_stop :: "'w machine \<Rightarrow> deployment \<Rightarrow> 'w \<Rightarrow> 'w" where
  "deploy_stop mc d w = snd (compose mc d [''down'', ''--volumes'', ''--remove-orphans'', ''--timeout'', ''5''] w)"

definition local_url :: "nat \<Rightarrow> bytes" where
  "local_url port = ''http://127.0.0.1:'' @ show_nat port"

definition deploy_env :: "nat \<Rightarrow> nat \<Rightarrow> bytes \<Rightarrow> (bytes \<times> bytes) list \<Rightarrow> (bytes \<times> bytes) list" where
  "deploy_env gatePort appPort key env =
     foldl (\<lambda>full (k, v). AList.update k v full)
       [(''GATE_PORT'', show_nat gatePort), (''APP_PORT'', show_nat appPort),
        (''ANTEROOM_HMAC_KEY'', b64_encode StdEncoding key), (''ANTEROOM_HMAC_KEY_B'', b64_encode StdEncoding key)] env"

definition new_deployment :: "'w machine \<Rightarrow> bytes \<Rightarrow> bytes \<Rightarrow> bytes list \<Rightarrow> (bytes \<times> bytes) list \<Rightarrow> nat \<Rightarrow> nat \<Rightarrow> bytes \<Rightarrow> deployment" where
  "new_deployment mc name dir files env gatePort appPort key =
     \<lparr>dp_Project = sanitizeProject (name @ ''-'' @ show_nat gatePort), dp_Dir = dir, dp_Files = files,
      dp_GateURL = local_url gatePort, dp_AppURL = local_url appPort,
      dp_Env = mc_Environ mc @ map (\<lambda>(k, v). k @ ''='' @ v) (deploy_env gatePort appPort key env)\<rparr>"

text \<open>
  The deployment, if it came to one, and the error. The caller tears down with \<open>deploy_stop\<close> whenever there is a deployment. The
  outer \<open>None\<close> is a wait for the gate that does not end. \<open>ready\<close> is the deadline of that wait, 30 seconds after the command.
\<close>

definition deploy_ready :: "'w machine \<Rightarrow> deployment \<Rightarrow> time \<Rightarrow> 'w \<Rightarrow> (deploy_error option \<times> 'w) option" where
  "deploy_ready mc d ready w =
     (case NewClient (mc_urls mc) (dp_GateURL d) of
        None \<Rightarrow> Some (Some ErrClient, w)
      | Some c \<Rightarrow>
         (case WaitReady (mc_urls mc) (mc_net mc) (Some ready) c w of
            None \<Rightarrow> None
          | Some (None, c, w) \<Rightarrow> Some (None, w)
          | Some (Some e, c, w) \<Rightarrow> (let (out, w) = deploy_Logs mc d w in Some (Some (ErrNotReady e out), w))))"

definition Start :: "'w machine \<Rightarrow> bytes \<Rightarrow> bytes \<Rightarrow> bytes list \<Rightarrow> (bytes \<times> bytes) list \<Rightarrow> 'w
    \<Rightarrow> (deployment option \<times> deploy_error option \<times> 'w) option" where
  "Start mc name dir files env w =
     (let (gate, w) = mc_FreePort mc w in
      case gate of
        None \<Rightarrow> Some (None, Some ErrFreePort, w)
      | Some gatePort \<Rightarrow>
         (let (app, w) = mc_FreePort mc w in
          case app of
            None \<Rightarrow> Some (None, Some ErrFreePort, w)
          | Some appPort \<Rightarrow>
             (let (rnd, w) = mc_Rand mc 32 w in
              case rnd of
                None \<Rightarrow> Some (None, Some ErrRandom, w)
              | Some key \<Rightarrow>
                 (let d = new_deployment mc name dir files env gatePort appPort key;
                      ((out, failed), w) = compose mc d [''up'', ''-d'', ''--build''] w
                  in if failed then Some (Some d, Some (ErrCompose out), w)
                     else
                       (let (now, w) = nw_Now (mc_net mc) w in
                        map_option (\<lambda>(e, w). (Some d, e, w)) (deploy_ready mc d (now + 30 * second) w))))))"

subsection \<open>The published ports\<close>

fun dec_uint16 :: "nat \<Rightarrow> json list \<Rightarrow> nat option" where
  "dec_uint16 v [] = Some v"
| "dec_uint16 v (JNull # js) = dec_uint16 v js"
| "dec_uint16 v (JNum n # js) =
     (case parse_int64 n of
        None \<Rightarrow> None
      | Some i \<Rightarrow> if 0 \<le> i \<and> i < 65536 \<and> take 1 n \<noteq> ''-'' then dec_uint16 (nat i) js else None)"
| "dec_uint16 v (_ # js) = None"

fun dec_publishers :: "json list \<Rightarrow> nat list option" where
  "dec_publishers [] = Some []"
| "dec_publishers (JNull # xs) = map_option (\<lambda>ps. 0 # ps) (dec_publishers xs)"
| "dec_publishers (JObj ms # xs) =
     (case (dec_uint16 0 (obj_values ''PublishedPort'' ms), dec_publishers xs) of
        (Some p, Some ps) \<Rightarrow> Some (p # ps) | _ \<Rightarrow> None)"
| "dec_publishers (_ # xs) = None"

fun dec_publisher_list :: "nat list \<Rightarrow> json list \<Rightarrow> nat list option" where
  "dec_publisher_list ps [] = Some ps"
| "dec_publisher_list ps (JNull # js) = dec_publisher_list [] js"
| "dec_publisher_list ps (JArr xs # js) = (case dec_publishers xs of None \<Rightarrow> None | Some ps \<Rightarrow> dec_publisher_list ps js)"
| "dec_publisher_list ps (_ # js) = None"

definition unmarshal_row :: "bytes \<Rightarrow> (bytes \<times> nat list) option" where
  "unmarshal_row line =
     (case json_parse line of
        Some (JObj ms) \<Rightarrow>
          (case (dec_string [] (obj_values ''Service'' ms), dec_publisher_list [] (obj_values ''Publishers'' ms)) of
             (Some s, Some ps) \<Rightarrow> Some (s, ps) | _ \<Rightarrow> None)
      | _ \<Rightarrow> None)"

definition add_ports :: "bytes \<Rightarrow> nat list \<Rightarrow> (bytes \<rightharpoonup> nat list) \<Rightarrow> (bytes \<rightharpoonup> nat list)" where
  "add_ports service ps ports =
     ports(service \<mapsto> (case ports service of None \<Rightarrow> [] | Some old \<Rightarrow> old) @ filter (\<lambda>p. p \<noteq> 0) ps)"

fun host_ports :: "(bytes \<rightharpoonup> nat list) \<Rightarrow> bytes list \<Rightarrow> deploy_error + (bytes \<rightharpoonup> nat list)" where
  "host_ports ports [] = Inr ports"
| "host_ports ports (line # lines) =
     (let line = trim_space line in
      if line = [] \<or> \<not> has_prefix line ''{'' then host_ports ports lines
      else
        (case unmarshal_row line of
           None \<Rightarrow> Inl (ErrOutput line)
         | Some (service, ps) \<Rightarrow> host_ports (add_ports service ps ports) lines))"

definition HostPorts :: "'w machine \<Rightarrow> deployment \<Rightarrow> 'w \<Rightarrow> (deploy_error + (bytes \<rightharpoonup> nat list)) \<times> 'w" where
  "HostPorts mc d w =
     (let ((out, failed), w) = compose mc d [''ps'', ''--format'', ''json''] w
      in (if failed then Inl (ErrCompose out) else host_ports Map.empty (split_on CHR 0x0A (trim_space out)), w))"

subsection \<open>Facts\<close>

definition project_char :: "char \<Rightarrow> bool" where
  "project_char c \<longleftrightarrow> project_rune (byte_val c)"

lemma project_runes_chars: "list_all project_char (project_runes s)"
proof (induction s rule: project_runes.induct)
  case (2 c s)
  obtain r w where "utf8_decode (c # s) = (r, w)" by force
  moreover have "byte_val CHR ''-'' = 45" by (simp add: byte_val_def)
  then have "project_char (if project_rune r then val_byte r else CHR ''-'')" for r
    by (auto simp: project_char_def project_rune_def)
  ultimately show ?case using 2 by simp
qed simp

lemma trimmed_ends:
  assumes "trim_right_while p (trim_left_while p s) = t" and "t \<noteq> []"
  shows "\<not> p (hd t) \<and> \<not> p (last t)"
proof
  let ?d = "dropWhile p s"
  have t: "rev t = dropWhile p (rev ?d)" using assms(1) by (auto simp: trim_right_while_def trim_left_while_def)
  with assms(2) have "dropWhile p (rev ?d) \<noteq> []" by (metis rev_is_Nil_conv)
  from hd_dropWhile [OF this] show "\<not> p (last t)" unfolding t [symmetric] using assms(2) by (simp add: hd_rev)
  have "rev ?d = takeWhile p (rev ?d) @ rev t" by (simp add: t)
  then have d: "?d = t @ rev (takeWhile p (rev ?d))" by (metis rev_append rev_rev_ident)
  with assms(2) have "?d \<noteq> []" by (metis append_is_Nil_conv)
  from hd_dropWhile [OF this] show "\<not> p (hd t)" using d assms(2) by (metis hd_append2)
qed

text \<open>A project name is made of letters, digits, dashes and underscores, and no dash is at its ends.\<close>

lemma sanitizeProject_name:
  "list_all project_char (sanitizeProject s)
   \<and> (sanitizeProject s \<noteq> [] \<longrightarrow> hd (sanitizeProject s) \<noteq> CHR ''-'' \<and> last (sanitizeProject s) \<noteq> CHR ''-'')"
proof -
  have "set (sanitizeProject s) \<subseteq> set (project_runes s)"
    unfolding sanitizeProject_def trim_right_while_def trim_left_while_def by (auto dest!: set_dropWhileD)
  then have "list_all project_char (sanitizeProject s)" using project_runes_chars [of s] by (auto simp: list_all_iff)
  then show ?thesis using trimmed_ends [OF sanitizeProject_def [symmetric], of s] by blast
qed

text \<open>
  What is left out of the report is not published: a service is in it exactly when a line names it, and its ports are the ones that are not
  zero in those lines, in order.
\<close>

lemma host_ports_rows:
  assumes "\<forall>line\<in>set lines. trim_space line \<noteq> [] \<and> has_prefix (trim_space line) ''{''"
    and "map (\<lambda>line. unmarshal_row (trim_space line)) lines = map Some rows"
  shows "\<exists>m. host_ports ports lines = Inr m
    \<and> (\<forall>s. m s = (if ports s = None \<and> s \<notin> fst ` set rows then None
         else Some ((case ports s of None \<Rightarrow> [] | Some old \<Rightarrow> old) @ filter (\<lambda>p. p \<noteq> 0) (concat (map snd (filter (\<lambda>r. fst r = s) rows))))))"
  using assms
proof (induction lines arbitrary: ports rows)
  case (Cons line lines)
  then obtain s ps rows' where r: "rows = (s, ps) # rows'" "unmarshal_row (trim_space line) = Some (s, ps)"
    "map (\<lambda>line. unmarshal_row (trim_space line)) lines = map Some rows'" by (cases rows) auto
  obtain m where "host_ports (add_ports s ps ports) lines = Inr m" and
    m: "\<forall>t. m t = (if add_ports s ps ports t = None \<and> t \<notin> fst ` set rows' then None
         else Some ((case add_ports s ps ports t of None \<Rightarrow> [] | Some old \<Rightarrow> old)
           @ filter (\<lambda>p. p \<noteq> 0) (concat (map snd (filter (\<lambda>r. fst r = t) rows')))))"
    using Cons.IH [OF _ r(3), of "add_ports s ps ports"] Cons.prems(1) by auto
  then have "host_ports ports (line # lines) = Inr m" using Cons.prems(1) r(2) by (simp add: Let_def)
  then show ?case using m by (intro exI [of _ m]) (auto simp: r(1) add_ports_def)
qed (simp split: option.split)

text \<open>A project comes up or fails, but it does not hang: the wait for the gate ends with the clock.\<close>

lemma deploy_ready_ends:
  assumes "keeps_time (mc_net mc) clock"
  shows "\<exists>res. deploy_ready mc d ready w = Some res"
proof (cases "NewClient (mc_urls mc) (dp_GateURL d)")
  case None
  then show ?thesis by (simp add: deploy_ready_def)
next
  case (Some c)
  obtain res c' w' where "WaitReady (mc_urls mc) (mc_net mc) (Some ready) c w = Some (res, c', w')"
    using WaitReady_ends [OF assms, of "mc_urls mc" "Some ready" c w] by auto
  with Some show ?thesis by (cases res) (simp_all add: deploy_ready_def split: prod.split)
qed

lemma Start_ends: "keeps_time (mc_net mc) clock \<Longrightarrow> \<exists>res. Start mc name dir files env w = Some res"
  using deploy_ready_ends by (fastforce simp: Start_def Let_def split: option.split prod.split)

end
