(* ===== verification/Expose.thy ===== *)
theory Expose
  imports Decision Activity Crawler Writer "HOL-Library.List_Lexorder"
begin

text \<open>
  The rest of \<open>internal/metrics/expose.go\<close> and what is registered: the JSON form of the registry, the runtime families, the build
  labels, the gate's families (\<open>newGateMetrics\<close> in \<open>internal/gate/metrics.go\<close>), the crawler's, and the gauge of the activity log. A family
  carries the value that a scrape reads; a gauge function is its value at the scrape. The texts that Go prints for a float, in the exposition
  (\<open>fmt\<close>) and in JSON (\<open>jf\<close>), are parameters.
\<close>

subsection \<open>Indented JSON\<close>

text \<open>\<open>Encoder.SetIndent\<close> with two spaces: a line for each element and member, and none in an empty array or object.\<close>

definition json_line :: "nat \<Rightarrow> bytes" where
  "json_line d = CHR 0x0A # replicate (2 * d) (CHR '' '')"

fun json_pretty :: "nat \<Rightarrow> json \<Rightarrow> bytes"
  and pretty_elems :: "nat \<Rightarrow> json list \<Rightarrow> bytes"
  and pretty_members :: "nat \<Rightarrow> (bytes \<times> json) list \<Rightarrow> bytes" where
  "json_pretty d (JArr xs) = (if xs = [] then ''[]'' else CHR ''['' # pretty_elems (Suc d) xs @ json_line d @ '']'')"
| "json_pretty d (JObj ms) = (if ms = [] then ''{}'' else CHR ''{'' # pretty_members (Suc d) ms @ json_line d @ ''}'')"
| "json_pretty d j = json_print j"
| "pretty_elems d [] = []"
| "pretty_elems d (x # xs) = json_line d @ json_pretty d x @ (if xs = [] then [] else CHR '','' # pretty_elems d xs)"
| "pretty_members d [] = []"
| "pretty_members d ((k, x) # ms) =
     json_line d @ CHR 0x22 # escape_string k @ CHR 0x22 # CHR '':'' # CHR '' '' # json_pretty d x
     @ (if ms = [] then [] else CHR '','' # pretty_members d ms)"

definition json_EncodeIndent :: "json \<Rightarrow> bytes" where
  "json_EncodeIndent j = json_pretty 0 j @ nl"

text \<open>A Go map, encoded with its keys in order.\<close>

definition json_map :: "(bytes \<times> json) list \<Rightarrow> json" where
  "json_map m = JObj (sort_key fst m)"

subsection \<open>The registry as JSON\<close>

definition json_uint :: "64 word \<Rightarrow> json" where
  "json_uint n = JNum (show_uint n)"

definition bucket_map :: "(rat \<Rightarrow> bytes) \<Rightarrow> histogram \<Rightarrow> (bytes \<times> json) list" where
  "bucket_map fmt h =
     (let (cum, count, s) = snapshot h
      in AList.update ''+Inf'' (json_uint count) (foldl (\<lambda>m (b, c). AList.update (fmt b) (json_uint c) m) [] (zip (h_bounds h) cum)))"

definition histogramJSON :: "(rat \<Rightarrow> bytes) \<Rightarrow> (rat \<Rightarrow> bytes) \<Rightarrow> histogram \<Rightarrow> json" where
  "histogramJSON fmt jf h =
     (let (cum, count, s) = snapshot h
      in json_map [(''count'', json_uint count), (''sum'', JNum (jf s)), (''buckets'', json_map (bucket_map fmt h))])"

text \<open>The children of a vector in their order, and the unknown child once it has been hit.\<close>

definition vec_map :: "('a \<Rightarrow> json) \<Rightarrow> ('a \<Rightarrow> 64 word) \<Rightarrow> 'a vec \<Rightarrow> (bytes \<times> json) list" where
  "vec_map js n v =
     (let m = foldl (\<lambda>m x. AList.update x (js (child v x)) m) [] (v_order v)
      in if 0 < n (v_unknown v) then AList.update unknownLabel (js (v_unknown v)) m else m)"

definition jsonValue :: "(rat \<Rightarrow> bytes) \<Rightarrow> (rat \<Rightarrow> bytes) \<Rightarrow> family \<Rightarrow> json" where
  "jsonValue fmt jf f =
     (case f_metric f of
        MCounter c \<Rightarrow> json_uint c
      | MGauge g \<Rightarrow> JNum (show_int (gauge_Value g))
      | MGaugeFn v \<Rightarrow> JNum (jf v)
      | MConst lbls v \<Rightarrow> (if lbls \<noteq> [] then json_map [(''labels'', JStr lbls), (''value'', JNum (jf v))] else JNum (jf v))
      | MCounterVec v \<Rightarrow> json_map (vec_map json_uint id v)
      | MHistogram h \<Rightarrow> histogramJSON fmt jf h
      | MHistVec v \<Rightarrow> json_map (vec_map (histogramJSON fmt jf) h_count v))"

definition WriteJSON :: "(rat \<Rightarrow> bytes) \<Rightarrow> (rat \<Rightarrow> bytes) \<Rightarrow> registry \<Rightarrow> bytes" where
  "WriteJSON fmt jf r = json_EncodeIndent (json_map (foldl (\<lambda>m f. AList.update (f_name f) (jsonValue fmt jf f) m) [] r))"

subsection \<open>Serving the exposition\<close>

definition exposition_type :: bytes where
  "exposition_type = ''text/plain; version=0.0.4; charset=utf-8''"

definition wr_Set :: "'w writer \<Rightarrow> bytes \<Rightarrow> bytes \<Rightarrow> 'w \<Rightarrow> 'w" where
  "wr_Set ops k v w = wr_SetHeader ops (hdr_Set (wr_Header ops w) k v) w"

definition metrics_Handler :: "'w writer \<Rightarrow> (rat \<Rightarrow> bytes) \<Rightarrow> registry \<Rightarrow> bytes \<Rightarrow> 'w \<Rightarrow> 'w" where
  "metrics_Handler ops fmt r meth w =
     (if meth \<noteq> ''GET'' \<and> meth \<noteq> ''HEAD'' then http_Error ops ''GET only'' 405 w
      else wr_Write ops (WritePrometheus fmt r) (wr_Set ops ''Content-Type'' exposition_type w))"

subsection \<open>Runtime families\<close>

record build_info =
  bi_Main_Version :: bytes
  bi_Settings :: "(bytes \<times> bytes) list"

record mem_stats =
  ms_HeapAlloc :: nat
  ms_Sys :: nat
  ms_HeapObjects :: nat

text \<open>\<open>memCache\<close>: the statistics of the last second are shared.\<close>

type_synonym mem_cache = "(time \<times> mem_stats) option"

definition memCache_get :: "time \<Rightarrow> mem_stats \<Rightarrow> mem_cache \<Rightarrow> mem_stats \<times> mem_cache" where
  "memCache_get now fresh m =
     (case m of
        None \<Rightarrow> (fresh, Some (now, fresh))
      | Some (taken, ms) \<Rightarrow> if second < time_sub now taken then (fresh, Some (now, fresh)) else (ms, m))"

fun vcs_setting :: "bytes \<Rightarrow> bytes \<Rightarrow> (bytes \<times> bytes) list \<Rightarrow> bytes" where
  "vcs_setting key v [] = v"
| "vcs_setting key v ((k, x) # ss) = vcs_setting key (if k = key then x else v) ss"

text \<open>\<open>goversion\<close> is \<open>runtime.Version\<close>; \<open>stampR\<close> and \<open>stampV\<close> are what the linker set.\<close>

definition buildLabels :: "bytes \<Rightarrow> bytes \<Rightarrow> bytes \<Rightarrow> build_info option \<Rightarrow> bytes" where
  "buildLabels goversion stampR stampV bi =
     (let unknown = ''unknown'';
          (version, revision, revTime, modified) =
            (case bi of
               None \<Rightarrow> (unknown, unknown, unknown, unknown)
             | Some bi \<Rightarrow> (if bi_Main_Version bi \<noteq> [] then bi_Main_Version bi else unknown,
                           vcs_setting ''vcs.revision'' unknown (bi_Settings bi),
                           vcs_setting ''vcs.time'' unknown (bi_Settings bi),
                           vcs_setting ''vcs.modified'' unknown (bi_Settings bi)));
          revision = (if stampR \<noteq> [] then stampR else revision);
          version = (if stampV \<noteq> [] then stampV else version)
      in label_pair ''version'' (EscapeLabel version) @ '','' @ label_pair ''revision'' (EscapeLabel revision) @ '',''
         @ label_pair ''revision_time'' (EscapeLabel revTime) @ '','' @ label_pair ''modified'' (EscapeLabel modified) @ '',''
         @ label_pair ''goversion'' (EscapeLabel goversion))"

record go_runtime =
  rt_startTime :: rat
  rt_goroutines :: nat
  rt_mem :: mem_stats
  rt_version :: bytes
  rt_build :: "build_info option"
  rt_stamp_Revision :: bytes
  rt_stamp_Version :: bytes

fun register_all :: "registry \<Rightarrow> family list \<Rightarrow> registry option" where
  "register_all r [] = Some r"
| "register_all r (f # fs) = (case registry_add r f of None \<Rightarrow> None | Some r \<Rightarrow> register_all r fs)"

definition runtime_families :: "go_runtime \<Rightarrow> family list" where
  "runtime_families rt =
     [\<lparr>f_name = ''process_start_time_seconds'', f_typ = ''gauge'',
        f_help = ''Unix time the process started, for uptime and restart detection.'',
        f_metric = MGaugeFn (rt_startTime rt)\<rparr>,
      \<lparr>f_name = ''go_goroutines'', f_typ = ''gauge'',
        f_help = ''Number of goroutines that currently exist.'',
        f_metric = MGaugeFn (of_nat (rt_goroutines rt))\<rparr>,
      \<lparr>f_name = ''go_memstats_alloc_bytes'', f_typ = ''gauge'',
        f_help = ''Bytes of allocated heap objects.'',
        f_metric = MGaugeFn (of_nat (ms_HeapAlloc (rt_mem rt)))\<rparr>,
      \<lparr>f_name = ''go_memstats_sys_bytes'', f_typ = ''gauge'',
        f_help = ''Bytes of memory obtained from the OS.'',
        f_metric = MGaugeFn (of_nat (ms_Sys (rt_mem rt)))\<rparr>,
      \<lparr>f_name = ''go_memstats_heap_objects'', f_typ = ''gauge'',
        f_help = ''Number of allocated heap objects.'',
        f_metric = MGaugeFn (of_nat (ms_HeapObjects (rt_mem rt)))\<rparr>,
      \<lparr>f_name = ''anteroom_build_info'', f_typ = ''gauge'',
        f_help = ''Build information. Constant 1; the interesting parts are the labels.'',
        f_metric = MConst (buildLabels (rt_version rt) (rt_stamp_Revision rt) (rt_stamp_Version rt) (rt_build rt)) 1\<rparr>]"

definition RegisterRuntime :: "go_runtime \<Rightarrow> registry \<Rightarrow> registry option" where
  "RegisterRuntime rt r = register_all r (runtime_families rt)"

subsection \<open>What the gate registers\<close>

definition gate_families :: "gate_metrics \<Rightarrow> family list" where
  "gate_families m =
     [\<lparr>f_name = ''anteroom_http_requests_total'', f_typ = ''counter'',
        f_help = ''Requests handled, by the ladder rung that answered (the same vocabulary as '' @ [CHR 0x60] @ ''anteroom -v'' @ [CHR 0x60] @ '' and the docs).'',
        f_metric = MCounterVec (gm_requests m)\<rparr>,
      \<lparr>f_name = ''anteroom_http_requests_in_flight'', f_typ = ''gauge'',
        f_help = ''Requests currently being handled, including long-lived streams.'',
        f_metric = MGauge (gm_inFlight m)\<rparr>,
      \<lparr>f_name = ''anteroom_challenges_issued_total'', f_typ = ''counter'',
        f_help = ''Challenges handed out, by kind (admit = full difficulty, renew = cheap background renewal).'',
        f_metric = MCounterVec (gm_issued m)\<rparr>,
      \<lparr>f_name = ''anteroom_challenge_answers_total'', f_typ = ''counter'',
        f_help = ''Answer submissions, by outcome.'',
        f_metric = MCounterVec (gm_answers m)\<rparr>,
      \<lparr>f_name = ''anteroom_challenge_solve_duration_seconds'', f_typ = ''histogram'',
        f_help = ''Time from challenge issue to a successful answer. Includes network and page-load time, not just hashing; bounded by the 60s challenge window.'',
        f_metric = MHistVec (gm_solveTime m)\<rparr>,
      \<lparr>f_name = ''anteroom_passes_minted_total'', f_typ = ''counter'',
        f_help = ''Passes minted, by kind (pow = solved puzzle, paid = x402 settlement or durable recovery).'',
        f_metric = MCounterVec (gm_minted m)\<rparr>,
      \<lparr>f_name = ''anteroom_payment_value_microdollars_total'', f_typ = ''counter'',
        f_help = ''Settled x402 payment value, in millionths of the display currency (a $0.01 settlement adds 10000).'',
        f_metric = MCounter (gm_paidValue m)\<rparr>,
      \<lparr>f_name = ''anteroom_upstream_errors_total'', f_typ = ''counter'',
        f_help = ''Proxy round trips that failed to reach the upstream (served to the visitor as 502).'',
        f_metric = MCounter (gm_upstreamErr m)\<rparr>,
      \<lparr>f_name = ''anteroom_challenge_bytes_total'', f_typ = ''counter'',
        f_help = ''Response body bytes the gate authored itself: wait pages, the solver, challenge and payment negotiation, refusals, and error responses.'',
        f_metric = MCounter (gm_challengeBytes m)\<rparr>,
      \<lparr>f_name = ''anteroom_upstream_bytes_total'', f_typ = ''counter'',
        f_help = ''Response body bytes proxied from the upstream '' @ [CHR 0xE2, CHR 0x80, CHR 0x94] @ '' the real traffic, served to admitted, bypassed, and preflight requests.'',
        f_metric = MCounter (gm_upstreamBytes m)\<rparr>,
      \<lparr>f_name = ''anteroom_http_bytes_total'', f_typ = ''counter'',
        f_help = ''Response body bytes served on the gate'' @ [CHR 0x27] @ ''s listener, altogether; always the sum of the challenge and upstream byte counters. Headers and post-upgrade (WebSocket) traffic are not counted.'',
        f_metric = MCounter (gm_bytesTotal m)\<rparr>]"

record crawler_metrics =
  cm_dnsOutcomes :: "counter vec"
  cm_dnsCacheHits :: counter
  cm_dnsSaturated :: counter
  cm_dnsInFlight :: nat

definition crawler_families :: "crawler_metrics \<Rightarrow> family list" where
  "crawler_families m =
     [\<lparr>f_name = ''anteroom_crawler_dns_lookups_total'', f_typ = ''counter'',
        f_help = ''Forward-confirmed reverse-DNS lookups, by outcome.'',
        f_metric = MCounterVec (cm_dnsOutcomes m)\<rparr>,
      \<lparr>f_name = ''anteroom_crawler_dns_cache_hits_total'', f_typ = ''counter'',
        f_help = ''Crawler verifications answered from the DNS-result cache.'',
        f_metric = MCounter (cm_dnsCacheHits m)\<rparr>,
      \<lparr>f_name = ''anteroom_crawler_dns_saturated_total'', f_typ = ''counter'',
        f_help = ''Crawler verifications deferred because the DNS concurrency limit was full.'',
        f_metric = MCounter (cm_dnsSaturated m)\<rparr>,
      \<lparr>f_name = ''anteroom_crawler_dns_in_flight'', f_typ = ''gauge'',
        f_help = ''Crawler forward-confirmed reverse-DNS lookups currently in progress.'',
        f_metric = MGaugeFn (of_nat (cm_dnsInFlight m))\<rparr>]"

definition crawler_RegisterMetrics :: "crawler_metrics \<Rightarrow> registry \<Rightarrow> registry option" where
  "crawler_RegisterMetrics m r = register_all r (crawler_families m)"

definition tracked_family :: "nat \<Rightarrow> family" where
  "tracked_family n =
     \<lparr>f_name = ''anteroom_tracked_ips'', f_typ = ''gauge'',
        f_help = ''IPs currently in the challenge-activity log ([activity] section). Count only; the addresses are served at the admin /activity endpoint.'',
        f_metric = MGaugeFn (of_nat n)\<rparr>"

text \<open>The registry as \<open>New\<close> leaves it: the gate's families, the crawler's and, with an activity log, its size.\<close>

definition gate_registry :: "gate_metrics \<Rightarrow> crawler_metrics \<Rightarrow> nat option \<Rightarrow> registry option" where
  "gate_registry gm cm tracked =
     (case register_all [] (gate_families gm) of
        None \<Rightarrow> None
      | Some r \<Rightarrow>
         (case crawler_RegisterMetrics cm r of
            None \<Rightarrow> None
          | Some r \<Rightarrow> (case tracked of None \<Rightarrow> Some r | Some n \<Rightarrow> registry_add r (tracked_family n))))"

text \<open>What a scrape of the operator's listener walks, in the order of registration.\<close>

definition operator_families :: "gate_metrics \<Rightarrow> crawler_metrics \<Rightarrow> nat option \<Rightarrow> go_runtime \<Rightarrow> registry" where
  "operator_families gm cm tracked rt =
     gate_families gm @ crawler_families cm @ (case tracked of None \<Rightarrow> [] | Some n \<Rightarrow> [tracked_family n]) @ runtime_families rt"


subsection \<open>Indented text is read back\<close>

lemma skip_ws_line [simp]: "skip_ws (json_line d @ s) = skip_ws s"
proof -
  have "skip_ws (replicate k (CHR '' '') @ s) = skip_ws s" for k by (induction k) (simp_all add: skip_ws_def json_space_def byte_val_def)
  then show ?thesis by (simp add: json_line_def skip_ws_def json_space_def byte_val_def)
qed

lemma skip_ws_blank [simp]: "skip_ws (CHR '' '' # s) = skip_ws s"
  by (simp add: skip_ws_def json_space_def byte_val_def)

lemma p_value_ws: "skip_ws s = skip_ws t \<Longrightarrow> p_value n s = p_value n t"
  by (cases n) simp_all

lemma p_members_ws: "skip_ws s = skip_ws t \<Longrightarrow> p_members n s = p_members n t"
  by (cases n) simp_all

lemma p_elems_ws: "skip_ws s = skip_ws t \<Longrightarrow> p_elems n s = p_elems n t"
  by (cases n) (simp_all add: p_value_ws [of s t])

lemma num_stop_line [simp]: "num_stop (json_line d @ s)"
  by (simp add: json_line_def num_stop_def is_digit_def byte_val_def)

definition pretty_at :: "nat \<Rightarrow> bool" where
  "pretty_at n \<longleftrightarrow>
     (\<forall>d j r. json_ok j \<longrightarrow> num_stop r \<longrightarrow> 2 * length (json_print j) \<le> n \<longrightarrow> p_value n (json_pretty d j @ r) = Some (j, r))
   \<and> (\<forall>d e xs r. json_ok_elems xs \<longrightarrow> xs \<noteq> [] \<longrightarrow> 2 * length (json_print_elems xs) + 1 \<le> n \<longrightarrow>
        p_elems n (pretty_elems d xs @ json_line e @ CHR '']'' # r) = Some (xs, r))
   \<and> (\<forall>d e ms r. json_ok_members ms \<longrightarrow> ms \<noteq> [] \<longrightarrow> 2 * length (json_print_members ms) + 1 \<le> n \<longrightarrow>
        p_members n (pretty_members d ms @ json_line e @ CHR ''}'' # r) = Some (ms, r))"

lemma pretty_atD:
  assumes "pretty_at n"
  shows "json_ok j \<Longrightarrow> num_stop r \<Longrightarrow> 2 * length (json_print j) \<le> n \<Longrightarrow> p_value n (json_pretty d j @ r) = Some (j, r)"
    and "json_ok_elems xs \<Longrightarrow> xs \<noteq> [] \<Longrightarrow> 2 * length (json_print_elems xs) + 1 \<le> n \<Longrightarrow>
      p_elems n (pretty_elems d xs @ json_line e @ CHR '']'' # r) = Some (xs, r)"
    and "json_ok_members ms \<Longrightarrow> ms \<noteq> [] \<Longrightarrow> 2 * length (json_print_members ms) + 1 \<le> n \<Longrightarrow>
      p_members n (pretty_members d ms @ json_line e @ CHR ''}'' # r) = Some (ms, r)"
  using assms unfolding pretty_at_def by blast+

lemma pretty_first:
  "json_ok j \<Longrightarrow> \<exists>c t. json_pretty d j = c # t \<and> \<not> json_space c \<and> c \<noteq> CHR '']'' \<and> c \<noteq> CHR ''}''"
  using json_print_first [of j] by (cases j) (auto simp: json_space_def byte_val_def)

lemma skip_ws_stop: "\<not> json_space c \<Longrightarrow> skip_ws (c # t) = c # t"
  by (simp add: skip_ws_def)

lemma pretty_elems_first: "json_ok x \<Longrightarrow> \<exists>c t. skip_ws (pretty_elems d (x # xs) @ r) = c # t \<and> c \<noteq> CHR '']''"
  using pretty_first [of x d] by (auto simp: skip_ws_stop)

lemma pretty_members_first: "\<exists>t. skip_ws (pretty_members d (m # ms) @ r) = CHR 0x22 # t"
  by (cases m) simp

lemma pretty_value_step:
  assumes at_n: "pretty_at n" and ok: "json_ok j" and st: "num_stop r" and len: "2 * length (json_print j) \<le> Suc n"
  shows "p_value (Suc n) (json_pretty d j @ r) = Some (j, r)"
proof -
  have leaf: "json_pretty d j = json_print j \<Longrightarrow> ?thesis"
    using print_at [of "Suc n"] ok st len unfolding print_value_at_def by simp
  show ?thesis
  proof (cases j)
    case (JArr xs)
    show ?thesis
    proof (cases xs)
      case (Cons x ys)
      then have "p_elems n (pretty_elems (Suc d) xs @ json_line d @ CHR '']'' # r) = Some (xs, r)"
        using pretty_atD(2) [OF at_n, of xs] ok len JArr by simp
      moreover obtain c t where "skip_ws (pretty_elems (Suc d) xs @ json_line d @ CHR '']'' # r) = c # t" "c \<noteq> CHR '']''"
        using pretty_elems_first [of x "Suc d" ys "json_line d @ CHR '']'' # r"] ok JArr Cons by auto
      ultimately show ?thesis using JArr Cons by (simp add: skip_ws_def [of "CHR ''['' # _"] json_space_def byte_val_def)
    qed (use leaf JArr in simp)
  next
    case (JObj ms)
    show ?thesis
    proof (cases ms)
      case (Cons m ys)
      then have "p_members n (pretty_members (Suc d) ms @ json_line d @ CHR ''}'' # r) = Some (ms, r)"
        using pretty_atD(3) [OF at_n, of ms] ok len JObj by simp
      moreover obtain t where "skip_ws (pretty_members (Suc d) ms @ json_line d @ CHR ''}'' # r) = CHR 0x22 # t"
        using pretty_members_first [of "Suc d" m ys "json_line d @ CHR ''}'' # r"] Cons by auto
      ultimately show ?thesis using JObj Cons by (simp add: skip_ws_def [of "CHR ''{'' # _"] json_space_def byte_val_def)
    qed (use leaf JObj in simp)
  qed (use leaf in simp_all)
qed

lemma pretty_elems_step:
  assumes at_n: "pretty_at n" and ok: "json_ok_elems xs" and ne: "xs \<noteq> []" and len: "2 * length (json_print_elems xs) + 1 \<le> Suc n"
  shows "p_elems (Suc n) (pretty_elems d xs @ json_line e @ CHR '']'' # r) = Some (xs, r)"
proof -
  from ne obtain x ys where xs: "xs = x # ys" by (cases xs) auto
  let ?r = "if ys = [] then json_line e @ CHR '']'' # r else CHR '','' # pretty_elems d ys @ json_line e @ CHR '']'' # r"
  have "p_value n (json_pretty d x @ ?r) = Some (x, ?r)"
    using pretty_atD(1) [OF at_n, of x] ok len unfolding xs length_print_elems_Cons by simp
  then have "p_value n (json_line d @ json_pretty d x @ ?r) = Some (x, ?r)" by (subst p_value_ws) simp_all
  moreover have "ys \<noteq> [] \<Longrightarrow> p_elems n (pretty_elems d ys @ json_line e @ CHR '']'' # r) = Some (ys, r)"
    using pretty_atD(2) [OF at_n, of ys] ok len json_print_pos [of x] unfolding xs length_print_elems_Cons by simp
  ultimately show ?thesis unfolding xs by (auto split: if_splits)
qed

lemma pretty_members_step:
  assumes at_n: "pretty_at n" and ok: "json_ok_members ms" and ne: "ms \<noteq> []" and len: "2 * length (json_print_members ms) + 1 \<le> Suc n"
  shows "p_members (Suc n) (pretty_members d ms @ json_line e @ CHR ''}'' # r) = Some (ms, r)"
proof -
  from ne obtain k x ys where ms: "ms = (k, x) # ys" by (cases ms) auto
  let ?r = "if ys = [] then json_line e @ CHR ''}'' # r else CHR '','' # pretty_members d ys @ json_line e @ CHR ''}'' # r"
  have "p_value n (json_pretty d x @ ?r) = Some (x, ?r)"
    using pretty_atD(1) [OF at_n, of x] ok len unfolding ms length_print_members_Cons by simp
  then have "p_value n (CHR '' '' # json_pretty d x @ ?r) = Some (x, ?r)" by (subst p_value_ws) simp_all
  moreover have "ys \<noteq> [] \<Longrightarrow> p_members n (pretty_members d ys @ json_line e @ CHR ''}'' # r) = Some (ys, r)"
    using pretty_atD(3) [OF at_n, of ys] ok len unfolding ms length_print_members_Cons by simp
  ultimately show ?thesis using ok unfolding ms by (auto simp: p_string_escape split: if_splits)
qed

lemma pretty_at: "pretty_at n"
proof (induction n)
  case 0
  then show ?case using json_print_pos by (auto simp: pretty_at_def)
next
  case (Suc n)
  show ?case unfolding pretty_at_def
    by (intro conjI allI impI pretty_value_step [OF Suc] pretty_elems_step [OF Suc] pretty_members_step [OF Suc])
qed

lemma length_pretty: "length (json_print j) \<le> length (json_pretty d j)"
  "length (json_print_elems xs) \<le> length (pretty_elems d xs)" "length (json_print_members ms) \<le> length (pretty_members d ms)"
proof (induction d j and d xs and d ms rule: json_pretty_pretty_elems_pretty_members.induct)
qed (simp_all add: length_print_elems_Cons length_print_members_Cons json_line_def del: json_print_elems.simps(2,3) json_print_members.simps(2,3),
  (intro impI, simp)+)

lemma json_parse_EncodeIndent:
  assumes ok: "json_ok j" and deep: "json_depth j \<le> maxNestingDepth"
  shows "json_parse (json_EncodeIndent j) = Some j"
proof -
  let ?n = "2 * length (json_EncodeIndent j) + 2"
  have "p_value ?n (json_pretty 0 j @ nl) = Some (j, nl)"
    using pretty_atD(1) [OF pretty_at, of j nl ?n 0] ok length_pretty(1) [of j 0]
    by (simp add: json_EncodeIndent_def nl_def num_stop_def is_digit_def byte_val_def)
  with deep show ?thesis by (simp add: json_parse_def json_EncodeIndent_def skip_ws_def nl_def json_space_def byte_val_def del: p_value.simps)
qed

subsection \<open>Nothing is registered twice\<close>

lemma register_all_distinct: "distinct (map f_name (r @ fs)) \<Longrightarrow> register_all r fs = Some (r @ fs)"
proof (induction fs arbitrary: r)
  case (Cons f fs)
  then have "registry_add r f = Some (r @ [f])" by (auto simp: registry_add_def)
  with Cons.IH [of "r @ [f]"] Cons.prems show ?case by simp
qed simp

text \<open>No start of a gate with an admin listener panics in the registry, whatever the metrics are worth.\<close>

lemma operator_registry:
  "\<exists>r. gate_registry gm cm tracked = Some r \<and> RegisterRuntime rt r = Some (operator_families gm cm tracked rt)
     \<and> distinct (map f_name (operator_families gm cm tracked rt))"
proof -
  define tf where "tf = (case tracked of None \<Rightarrow> [] | Some n \<Rightarrow> [tracked_family n])"
  let ?cf = "crawler_families cm"
  let ?fs = "gate_families gm @ ?cf @ tf @ runtime_families rt"
  have tn: "map f_name tf = [] \<or> map f_name tf = [''anteroom_tracked_ips'']" by (cases tracked) (simp_all add: tf_def tracked_family_def)
  have "map f_name ?fs = map f_name (gate_families gm) @ map f_name ?cf @ map f_name tf @ map f_name (runtime_families rt)" by simp
  then have d: "distinct (map f_name ?fs)" using tn
    by (elim disjE) (simp_all only: gate_families_def runtime_families_def crawler_families_def list.map family.simps append.simps, code_simp+)
  have g: "register_all [] (gate_families gm) = Some (gate_families gm)"
    "register_all (gate_families gm) ?cf = Some (gate_families gm @ ?cf)" "register_all (gate_families gm @ ?cf) tf = Some ((gate_families gm @ ?cf) @ tf)"
    using register_all_distinct [of "[]" "gate_families gm"] register_all_distinct [of "gate_families gm" ?cf]
      register_all_distinct [of "gate_families gm @ ?cf" tf] d by (simp_all add: Int_Un_distrib Int_Un_distrib2)
  have "(case tracked of None \<Rightarrow> Some r | Some n \<Rightarrow> registry_add r (tracked_family n)) = register_all r tf" for r
    by (simp add: tf_def split: option.splits)
  then have "gate_registry gm cm tracked = Some (gate_families gm @ ?cf @ tf)"
    by (simp add: gate_registry_def crawler_RegisterMetrics_def g)
  moreover have "RegisterRuntime rt (gate_families gm @ ?cf @ tf) = Some ?fs"
    using register_all_distinct [of "gate_families gm @ ?cf @ tf" "runtime_families rt"] d by (simp add: RegisterRuntime_def)
  moreover have "?fs = operator_families gm cm tracked rt" by (simp add: operator_families_def tf_def)
  ultimately show ?thesis using d by auto
qed

text \<open>A scrape's memory statistics are at most one second old.\<close>

lemma memCache_fresh:
  "memCache_get now fresh m = (ms, m') \<Longrightarrow> \<exists>taken. m' = Some (taken, ms) \<and> (taken = now \<and> ms = fresh \<or> m = m' \<and> time_sub now taken \<le> second)"
  by (auto simp: memCache_get_def split: option.splits if_splits)

text \<open>Both forms of a histogram give the same cumulative counts.\<close>

lemma bucket_map_foldl:
  "distinct (map fmt (map fst ps)) \<Longrightarrow> (\<forall>p\<in>set ps. fmt (fst p) \<notin> fst ` set m) \<Longrightarrow>
     foldl (\<lambda>m (b, c). AList.update (fmt b) (js c) m) m ps = m @ map (\<lambda>(b, c). (fmt b, js c)) ps"
proof (induction ps arbitrary: m)
  case (Cons p ps)
  obtain b c where p: "p = (b, c)" by force
  have u: "AList.update (fmt b) (js c) m = m @ [(fmt b, js c)]"
    using Cons.prems(2) p by (induction m) auto
  have "\<forall>q\<in>set ps. fmt (fst q) \<noteq> fmt b" using Cons.prems(1) by (force simp: p)
  then show ?case using Cons.IH [of "m @ [(fmt b, js c)]"] Cons.prems by (simp add: p u)
qed simp

lemma bucket_map_cumulative:
  assumes "distinct (map fmt (h_bounds h))" and "''+Inf'' \<notin> fmt ` set (h_bounds h)" and "length (h_counts h) = Suc (length (h_bounds h))"
    and "i < length (h_bounds h)"
  shows "map_of (bucket_map fmt h) (fmt (h_bounds h ! i)) = Some (json_uint (fst (snapshot h) ! i))"
    and "map_of (bucket_map fmt h) ''+Inf'' = Some (json_uint (h_count h))"
proof -
  let ?ps = "zip (h_bounds h) (fst (snapshot h))"
  have l: "length (fst (snapshot h)) = Suc (length (h_bounds h))" using assms(3) by (simp add: snapshot_def length_running)
  then have m: "map fst ?ps = h_bounds h" by (simp add: map_fst_zip_take)
  have f: "foldl (\<lambda>m (b, c). AList.update (fmt b) (json_uint c) m) [] ?ps = map (\<lambda>(b, c). (fmt b, json_uint c)) ?ps"
    using bucket_map_foldl [of fmt ?ps "[]"] assms(1) m by simp
  have b: "map_of (bucket_map fmt h) k = (if k = ''+Inf'' then Some (json_uint (h_count h)) else map_of (map (\<lambda>(b, c). (fmt b, json_uint c)) ?ps) k)" for k
    using f by (simp add: bucket_map_def snapshot_def update_conv)
  have "map_of (map (\<lambda>(b, c). (fmt b, json_uint c)) ?ps) (fmt (h_bounds h ! i)) = Some (json_uint (fst (snapshot h) ! i))"
  proof (rule map_of_is_SomeI)
    have "map fst (map (\<lambda>(b, c). (fmt b, json_uint c)) ?ps) = map fmt (map fst ?ps)" by (simp add: comp_def case_prod_beta)
    then show "distinct (map fst (map (\<lambda>(b, c). (fmt b, json_uint c)) ?ps))" using assms(1) m by simp
    show "(fmt (h_bounds h ! i), json_uint (fst (snapshot h) ! i)) \<in> set (map (\<lambda>(b, c). (fmt b, json_uint c)) ?ps)"
      using assms(4) l by (force simp: set_zip)
  qed
  with b show "map_of (bucket_map fmt h) (fmt (h_bounds h ! i)) = Some (json_uint (fst (snapshot h) ! i))"
    using assms(2) nth_mem [OF assms(4)] by (metis image_eqI)
  show "map_of (bucket_map fmt h) ''+Inf'' = Some (json_uint (h_count h))" using b by simp
qed

end
