(* ===== verification/Admin.thy ===== *)
theory Admin
  imports Expose Mime Request
begin

text \<open>
  \<open>internal/admin/admin.go\<close>: the operator's listener. It routes with the standard \<open>ServeMux\<close>, whose rules are written out for the
  five patterns; the text of a redirect's target (\<open>url.URL.String\<close>) is a parameter. Dates count from the epoch.
\<close>

subsection \<open>Dates and durations as text\<close>

definition leap_year :: "nat \<Rightarrow> bool" where
  "leap_year y \<longleftrightarrow> 4 dvd y \<and> (\<not> 100 dvd y \<or> 400 dvd y)"

definition month_days :: "nat \<Rightarrow> nat \<Rightarrow> nat" where
  "month_days y m = (if m = 2 then (if leap_year y then 29 else 28) else if m \<in> {4, 6, 9, 11} then 30 else 31)"

fun next_day :: "nat \<times> nat \<times> nat \<Rightarrow> nat \<times> nat \<times> nat" where
  "next_day (y, m, d) = (if d < month_days y m then (y, m, Suc d) else if m < 12 then (y, Suc m, 1) else (Suc y, 1, 1))"

definition civil_date :: "nat \<Rightarrow> nat \<times> nat \<times> nat" where
  "civil_date days = (next_day ^^ days) (1970, 1, 1)"

definition pad_nat :: "nat \<Rightarrow> nat \<Rightarrow> bytes" where
  "pad_nat w n = replicate (w - length (show_nat n)) (CHR ''0'') @ show_nat n"

text \<open>\<open>UTC().Format(time.RFC3339)\<close>.\<close>

definition format_RFC3339 :: "time \<Rightarrow> bytes" where
  "format_RFC3339 t =
     (let s = nat (time_unix t); (y, m, d) = civil_date (s div 86400); r = s mod 86400
      in pad_nat 4 y @ ''-'' @ pad_nat 2 m @ ''-'' @ pad_nat 2 d @ ''T''
         @ pad_nat 2 (r div 3600) @ '':'' @ pad_nat 2 (r div 60 mod 60) @ '':'' @ pad_nat 2 (r mod 60) @ ''Z'')"

text \<open>\<open>fmtFrac\<close>: the last \<open>prec\<close> digits without their trailing zeros, after a point.\<close>

definition fmt_frac :: "nat \<Rightarrow> nat \<Rightarrow> bytes" where
  "fmt_frac prec v =
     (let ds = rev (dropWhile (\<lambda>c. c = CHR ''0'') (rev (pad_nat prec (v mod 10 ^ prec))))
      in if ds = [] then [] else CHR ''.'' # ds)"

definition duration_String :: "duration \<Rightarrow> bytes" where
  "duration_String d =
     (let u = nat \<bar>d\<bar>;
          s = (if u < 1000000000 then
                 (if u = 0 then ''0s''
                  else if u < 1000 then show_nat u @ ''ns''
                  else if u < 1000000 then show_nat (u div 1000) @ fmt_frac 3 u @ [CHR 0xC2, CHR 0xB5] @ ''s''
                  else show_nat (u div 1000000) @ fmt_frac 6 u @ ''ms'')
               else
                 (let secs = u div 1000000000; mins = secs div 60; hours = mins div 60
                  in (if 0 < hours then show_nat hours @ ''h'' else [])
                     @ (if 0 < mins then show_nat (mins mod 60) @ ''m'' else [])
                     @ show_nat (secs mod 60) @ fmt_frac 9 u @ ''s''))
      in if d < 0 then CHR ''-'' # s else s)"

subsection \<open>The activity document\<close>

definition activityEntry :: "act_row \<Rightarrow> json" where
  "activityEntry e = JObj
     [(''ip'', JStr (row_IP e)), (''first_seen'', JStr (format_RFC3339 (row_FirstSeen e))),
      (''last_seen'', JStr (format_RFC3339 (row_LastSeen e))), (''failed'', json_uint (row_Failed e)),
      (''succeeded_admit'', json_uint (row_SucceededAdmit e)), (''succeeded_renew'', json_uint (row_SucceededRenew e))]"

definition activityResponse :: "duration \<Rightarrow> time \<Rightarrow> act_row list \<Rightarrow> json" where
  "activityResponse ttl generated rows = JObj
     [(''window'', JStr (duration_String ttl)), (''generated_at'', JStr (format_RFC3339 generated)),
      (''ips'', JArr (map activityEntry rows))]"

text \<open>The clock is read twice: by the snapshot, then for the document.\<close>

definition writeActivity :: "'w writer \<Rightarrow> act_log \<Rightarrow> time \<Rightarrow> time \<Rightarrow> 'w \<Rightarrow> 'w \<times> act_log" where
  "writeActivity ops l now generated w =
     (let (rows, l) = Snapshot l now
      in (wr_Write ops (json_EncodeIndent (activityResponse (Log_TTL l) generated rows)) w, l))"

subsection \<open>Routing\<close>

datatype admin_page = PageMetrics | PageStats | PageActivity | PageHealthz | PageIndex

datatype admin_match = Matched admin_page | CleanedTo bytes | OtherMethods | Unmatched

definition path_unescape :: "bytes \<Rightarrow> bytes" where
  "path_unescape s = (case percentHexUnescape s of None \<Rightarrow> s | Some t \<Rightarrow> t)"

text \<open>The first segment of a rooted path, unescaped, and what follows it.\<close>

definition first_segment :: "bytes \<Rightarrow> bytes \<times> bytes" where
  "first_segment path =
     (if path = ''/'' then (''/'', [])
      else (path_unescape (takeWhile (\<lambda>c. c \<noteq> CHR ''/'') (drop 1 path)), dropWhile (\<lambda>c. c \<noteq> CHR ''/'') (drop 1 path)))"

definition admin_pattern :: "bytes \<Rightarrow> admin_page option" where
  "admin_pattern path =
     (case first_segment path of
        (seg, rest) \<Rightarrow>
          if rest \<noteq> [] then None
          else if seg = ''metrics'' then Some PageMetrics
          else if seg = ''stats'' then Some PageStats
          else if seg = ''activity'' then Some PageActivity
          else if seg = ''healthz'' then Some PageHealthz
          else if seg = ''/'' then Some PageIndex
          else None)"

definition admin_match :: "bytes \<Rightarrow> bytes \<Rightarrow> admin_match" where
  "admin_match meth escaped =
     (let path = (if meth = ''CONNECT'' then escaped else cleanPath escaped) in
      if path \<noteq> escaped then CleanedTo path
      else (case admin_pattern path of
              None \<Rightarrow> Unmatched
            | Some p \<Rightarrow> if meth = ''GET'' \<or> meth = ''HEAD'' then Matched p else OtherMethods))"

subsection \<open>The handlers\<close>

record admin_env =
  ae_fmt :: "rat \<Rightarrow> bytes"
  ae_jsonFloat :: "rat \<Rightarrow> bytes"
  ae_URL :: "bytes \<Rightarrow> bytes \<Rightarrow> bytes"
  ae_metrics :: gate_metrics
  ae_crawler :: crawler_metrics
  ae_runtime :: go_runtime
  ae_now :: time
  ae_generated :: time

definition indexHTML :: bytes where
  "indexHTML =
     ''<!doctype html>'' @ nl
     @ ''<title>anteroom admin</title>'' @ nl
     @ ''<h1>anteroom admin</h1>'' @ nl
     @ ''<ul>'' @ nl
     @ ''<li><a href='' @ [CHR 0x22] @ ''/metrics'' @ [CHR 0x22] @ ''>/metrics</a> '' @ [CHR 0xE2, CHR 0x80, CHR 0x94] @ '' Prometheus text exposition (point your scraper here)</li>'' @ nl
     @ ''<li><a href='' @ [CHR 0x22] @ ''/stats'' @ [CHR 0x22] @ ''>/stats</a> '' @ [CHR 0xE2, CHR 0x80, CHR 0x94] @ '' the same counters as JSON</li>'' @ nl
     @ ''<li><a href='' @ [CHR 0x22] @ ''/activity'' @ [CHR 0x22] @ ''>/activity</a> '' @ [CHR 0xE2, CHR 0x80, CHR 0x94] @ '' per-IP challenge activity for external ban tooling (404 unless <code>[activity]</code> is configured)</li>'' @ nl
     @ ''<li><a href='' @ [CHR 0x22] @ ''/healthz'' @ [CHR 0x22] @ ''>/healthz</a> '' @ [CHR 0xE2, CHR 0x80, CHR 0x94] @ '' liveness</li>'' @ nl
     @ ''</ul>'' @ nl
     @ ''<p>Counters reset when the process restarts; scrapers detect that via'' @ nl
     @ ''<code>process_start_time_seconds</code>. This surface is unauthenticated '' @ [CHR 0xE2, CHR 0x80, CHR 0x94] @ nl
     @ ''and with <code>[activity]</code> configured it includes visitor IP addresses '' @ [CHR 0xE2, CHR 0x80, CHR 0x94] @ nl
     @ ''keep it on loopback or a private interface.</p>'' @ nl"

text \<open>A scrape evaluates the gauge of the activity log, which prunes it.\<close>

definition scrape :: "admin_env \<Rightarrow> act_log option \<Rightarrow> registry \<times> act_log option" where
  "scrape e act =
     (case act of
        None \<Rightarrow> (operator_families (ae_metrics e) (ae_crawler e) None (ae_runtime e), None)
      | Some l \<Rightarrow>
         (let (n, l) = Log_Len l (ae_now e)
          in (operator_families (ae_metrics e) (ae_crawler e) (Some n) (ae_runtime e), Some l)))"

definition serve_page :: "'w writer \<Rightarrow> admin_env \<Rightarrow> admin_page \<Rightarrow> bytes \<Rightarrow> act_log option \<Rightarrow> 'w \<Rightarrow> 'w \<times> act_log option" where
  "serve_page ops e page meth act w =
     (case page of
        PageMetrics \<Rightarrow> (let (r, act) = scrape e act in (metrics_Handler ops (ae_fmt e) r meth w, act))
      | PageStats \<Rightarrow>
          (let w = wr_Set ops ''Cache-Control'' ''no-store'' (wr_Set ops ''Content-Type'' ''application/json'' w);
               (r, act) = scrape e act
           in (wr_Write ops (WriteJSON (ae_fmt e) (ae_jsonFloat e) r) w, act))
      | PageActivity \<Rightarrow>
          (case act of
             None \<Rightarrow> (http_Error ops ''activity log is not enabled; add an [activity] section to anteroom.toml'' 404
                         (wr_Set ops ''Cache-Control'' ''no-store'' w), None)
           | Some l \<Rightarrow>
              (let w = wr_Set ops ''Cache-Control'' ''no-store'' (wr_Set ops ''Content-Type'' ''application/json'' w);
                   (w, l) = writeActivity ops l (ae_now e) (ae_generated e) w
               in (w, Some l)))
      | PageHealthz \<Rightarrow>
          (wr_Write ops (''ok'' @ nl) (wr_Set ops ''Cache-Control'' ''no-store'' (wr_Set ops ''Content-Type'' text_plain w)), act)
      | PageIndex \<Rightarrow> (wr_Write ops indexHTML (wr_Set ops ''Content-Type'' ''text/html; charset=utf-8'' w), act))"

text \<open>\<open>http.Redirect\<close>, whose body is a link for \<open>GET\<close> only, and the mux's own refusals.\<close>

definition html_escape :: "bytes \<Rightarrow> bytes" where
  "html_escape s = concat (map (\<lambda>c. if c = CHR ''&'' then ''&amp;'' else if c = CHR ''<'' then ''&lt;'' else if c = CHR ''>'' then ''&gt;''
     else if c = CHR 0x22 then ''&#34;'' else if c = CHR 0x27 then ''&#39;'' else [c]) s)"

definition http_Redirect :: "'w writer \<Rightarrow> bytes \<Rightarrow> bytes \<Rightarrow> 'w \<Rightarrow> 'w" where
  "http_Redirect ops meth url w =
     (let hadCT = (hdr_Values (wr_Header ops w) ''Content-Type'' \<noteq> []);
          w = wr_Set ops ''Location'' url w;
          w = (if \<not> hadCT \<and> (meth = ''GET'' \<or> meth = ''HEAD'') then wr_Set ops ''Content-Type'' ''text/html; charset=utf-8'' w else w);
          w = wr_WriteHeader ops 301 w
      in if \<not> hadCT \<and> meth = ''GET''
         then wr_Write ops (''<a href='' @ [CHR 0x22] @ html_escape url @ [CHR 0x22] @ ''>Moved Permanently</a>.'' @ nl @ nl) w else w)"

definition admin_ServeHTTP :: "'w writer \<Rightarrow> admin_env \<Rightarrow> request \<Rightarrow> act_log option \<Rightarrow> 'w \<Rightarrow> 'w \<times> act_log option" where
  "admin_ServeHTTP ops e r act w =
     (case admin_match (req_Method r) (req_EscapedPath r) of
        Matched p \<Rightarrow> serve_page ops e p (req_Method r) act w
      | CleanedTo path \<Rightarrow> (http_Redirect ops (req_Method r) (ae_URL e path (req_RawQuery r)) w, act)
      | OtherMethods \<Rightarrow> (http_Error ops ''Method Not Allowed'' 405 (wr_Set ops ''Allow'' ''GET, HEAD'' w), act)
      | Unmatched \<Rightarrow> (http_Error ops ''404 page not found'' 404 w, act))"

text \<open>The server's own response, without the gate's recorder.\<close>

definition net_writer :: "response writer" where
  "net_writer = \<lparr>wr_Header = rp_Header, wr_SetHeader = (\<lambda>h w. w\<lparr>rp_Header := h\<rparr>), wr_WriteHeader = net_WriteHeader, wr_Write = net_Write\<rparr>"

interpretation net_wr: response_writer net_writer rp_Sent rp_Body
  by unfold_locales (auto simp: net_writer_def net_WriteHeader_def net_Write_def Let_def)


subsection \<open>The document is read back\<close>

lemma ascii_replicate: "ascii_char c \<Longrightarrow> ascii_string (replicate k c)"
  by (simp add: ascii_string_def list_all_iff)

lemma ascii_pad [simp]: "ascii_string (pad_nat w n)"
  unfolding pad_nat_def ascii_string_append by (simp add: ascii_replicate ascii_char_def byte_val_def)

lemma ascii_sub: "ascii_string s \<Longrightarrow> set t \<subseteq> set s \<Longrightarrow> ascii_string t"
  by (auto simp: ascii_string_def list_all_iff)

lemma ascii_frac [simp]: "ascii_string (fmt_frac prec v)"
proof -
  have "ascii_string (rev (dropWhile P (rev (pad_nat w n))))" for P w n
    by (rule ascii_sub [OF ascii_pad [of w n]]) (use set_dropWhileD in fastforce)
  then show ?thesis by (simp add: fmt_frac_def Let_def ascii_char_def byte_val_def)
qed

lemma ascii_RFC3339 [simp]: "ascii_string (format_RFC3339 t)"
  by (simp add: format_RFC3339_def Let_def split_beta ascii_char_def byte_val_def)

lemma ascii_duration: "second \<le> d \<Longrightarrow> ascii_string (duration_String d)"
  by (simp add: duration_String_def Let_def second_def ascii_char_def byte_val_def)

lemma int_lit_uint [simp]: "int_lit (show_uint w)"
proof -
  have "int_lit (show_int (uint w))" by (rule int_lit_show_int)
  then show ?thesis by (simp add: show_int_def show_uint_def)
qed

lemma json_ok_elems_map [simp]: "json_ok_elems (map f xs) \<longleftrightarrow> (\<forall>x\<in>set xs. json_ok (f x))"
  by (induction xs) simp_all

lemma activityResponse_ok:
  "second \<le> ttl \<Longrightarrow> \<forall>r\<in>set rows. ascii_string (row_IP r) \<Longrightarrow> json_ok (activityResponse ttl g rows)"
  by (simp add: activityResponse_def activityEntry_def json_uint_def ascii_duration ascii_char_def byte_val_def)

subsection \<open>Facts on the surface\<close>

lemma net_simps [simp]:
  "wr_Header net_writer w = rp_Header w" "rp_Header (wr_Set net_writer k v w) = hdr_Set (rp_Header w) k v"
  "rp_Sent (wr_Set net_writer k v w) = rp_Sent w" "rp_Body (wr_Set net_writer k v w) = rp_Body w"
  "wr_Write net_writer = net_Write" "rp_Body (net_Write b w) = rp_Body w @ b"
  "rp_Sent (net_Write b w) = (case rp_Sent w of None \<Rightarrow> Some (200, rp_Header w) | Some a \<Rightarrow> Some a)"
  by (auto simp: net_writer_def wr_Set_def net_Write_def net_WriteHeader_def Let_def split: option.splits)

lemma admin_activity_path: "admin_match ''GET'' ''/activity'' = Matched PageActivity"
  by code_simp

lemma Snapshot_rows:
  assumes "log_ok l"
  shows "snd (Snapshot l now) = act_prune l now" "distinct (map row_IP (fst (Snapshot l now)))"
    "sorted (map (\<lambda>r. - row_LastSeen r) (fst (Snapshot l now)))"
    "set (fst (Snapshot l now)) = row_of ` {(ip, en). map_of (l_entries l) ip = Some en \<and> time_sub now (e_lastSeen en) \<le> l_ttl l}"
proof -
  have d: "distinct (map fst (l_entries l))" using assms by (simp add: log_ok_def)
  note S = Snapshot_deterministic [OF refl refl d, of now]
  show "snd (Snapshot l now) = act_prune l now" by (simp add: Snapshot_def Let_def)
  have "map row_IP (map row_of (l_entries (act_prune l now))) = map fst (l_entries (act_prune l now))" by (simp add: row_of_def split_beta comp_def)
  moreover have "distinct (map fst (l_entries (act_prune l now)))" using d by (simp add: act_prune_def distinct_map_filter)
  ultimately have "distinct (map row_IP (map row_of (l_entries (act_prune l now))))" by (simp only:)
  then show "distinct (map row_IP (fst (Snapshot l now)))"
    by (auto simp: Snapshot_def Let_def distinct_map intro: inj_on_imageI inj_on_imageI2)
  from S have "sorted (map (\<lambda>r. (- row_LastSeen r, row_IP r)) (fst (Snapshot l now)))" by blast
  then show "sorted (map (\<lambda>r. - row_LastSeen r) (fst (Snapshot l now)))"
    by (auto simp: sorted_map elim!: sorted_wrt_mono_rel [rotated])
  show "set (fst (Snapshot l now)) = row_of ` {(ip, en). map_of (l_entries l) ip = Some en \<and> time_sub now (e_lastSeen en) \<le> l_ttl l}"
    using S d by auto
qed

text \<open>What a polling tool reads: the address and the three counts of each entry.\<close>

definition json_text :: "bytes \<Rightarrow> json \<Rightarrow> bytes" where
  "json_text k j = (case j of JObj ms \<Rightarrow> (case obj_lookup k ms of Some (JStr s) \<Rightarrow> s | Some (JNum n) \<Rightarrow> n | _ \<Rightarrow> []) | _ \<Rightarrow> [])"

definition polled_entries :: "json \<Rightarrow> (bytes \<times> bytes \<times> bytes \<times> bytes) list" where
  "polled_entries j =
     (case j of
        JObj ms \<Rightarrow>
          (case obj_lookup ''ips'' ms of
             Some (JArr xs) \<Rightarrow> map (\<lambda>x. (json_text ''ip'' x, json_text ''failed'' x, json_text ''succeeded_admit'' x, json_text ''succeeded_renew'' x)) xs
           | _ \<Rightarrow> [])
      | _ \<Rightarrow> [])"

lemma polled_activity:
  "polled_entries (activityResponse ttl g rows)
     = map (\<lambda>r. (row_IP r, show_uint (row_Failed r), show_uint (row_SucceededAdmit r), show_uint (row_SucceededRenew r))) rows"
  "json_text ''window'' (activityResponse ttl g rows) = duration_String ttl"
  by (simp_all add: polled_entries_def activityResponse_def activityEntry_def json_text_def obj_lookup_def json_uint_def)

text \<open>C36: the activity page is faithful, and off is never taken for empty. With the log on, \<open>GET /activity\<close> is answered 200, and
  what a
  polling tool reads from its body is the window and, most recent first, one entry for each address seen within it and no other, with
  its three counts. Without the log the same request is answered 404. Serving the page forgets only what has expired.\<close>

theorem activity_surface:
  assumes "log_ok l" and "\<forall>ip\<in>dom (map_of (l_entries l)). ascii_string ip" and "second \<le> l_ttl l"
    and "req_Method r = ''GET''" and "req_EscapedPath r = ''/activity''"
  shows "\<exists>w h rows. admin_ServeHTTP net_writer e r (Some l) new_response = (w, Some (act_prune l (ae_now e)))
    \<and> rp_Sent w = Some (200, h) \<and> hdr_Get h ''Content-Type'' = ''application/json''
    \<and> (\<exists>j. json_parse (rp_Body w) = Some j \<and> json_text ''window'' j = duration_String (l_ttl l)
         \<and> polled_entries j = map (\<lambda>r. (row_IP r, show_uint (row_Failed r), show_uint (row_SucceededAdmit r), show_uint (row_SucceededRenew r))) rows)
    \<and> distinct (map row_IP rows) \<and> sorted (map (\<lambda>r. - row_LastSeen r) rows)
    \<and> set rows = row_of ` {(ip, en). map_of (l_entries l) ip = Some en \<and> time_sub (ae_now e) (e_lastSeen en) \<le> l_ttl l}
    \<and> (\<exists>h'. rp_Sent (fst (admin_ServeHTTP net_writer e r None new_response)) = Some (404, h'))"
proof -
  note S = Snapshot_rows [OF assms(1), of "ae_now e"]
  define rows where "rows = fst (Snapshot l (ae_now e))"
  have sn: "Snapshot l (ae_now e) = (rows, act_prune l (ae_now e))" using S(1) by (simp add: rows_def prod_eq_iff)
  have "\<forall>r\<in>set rows. ascii_string (row_IP r)" using S(4) assms(2) by (auto simp: rows_def row_of_def dom_def)
  then have "json_ok (activityResponse (l_ttl l) (ae_generated e) rows)" by (rule activityResponse_ok [OF assms(3)])
  moreover have "json_depth (activityResponse (l_ttl l) (ae_generated e) rows) \<le> maxNestingDepth"
    by (simp add: activityResponse_def activityEntry_def json_uint_def)
  ultimately have p: "json_parse (json_EncodeIndent (activityResponse (l_ttl l) (ae_generated e) rows)) = Some (activityResponse (l_ttl l) (ae_generated e) rows)"
    by (rule json_parse_EncodeIndent)
  have "\<exists>h'. rp_Sent (fst (admin_ServeHTTP net_writer e r None new_response)) = Some (404, h')"
    using net_wr.http_Error_sends [of "wr_Set net_writer ''Cache-Control'' ''no-store'' new_response" 404]
    by (auto simp: admin_ServeHTTP_def assms(4,5) admin_activity_path serve_page_def is_interim_def new_response_def)
  then show ?thesis using p S(2-4) unfolding rows_def [symmetric]
    by (auto simp: admin_ServeHTTP_def assms(4,5) admin_activity_path serve_page_def writeActivity_def sn Log_TTL_def act_prune_def
        new_response_def hdr_Get_def hdr_Set_def polled_activity)
qed

definition demo_admin :: admin_env where
  "demo_admin = \<lparr>ae_fmt = (\<lambda>_. ''0''), ae_jsonFloat = (\<lambda>_. ''0''), ae_URL = (\<lambda>p q. p), ae_metrics = newGateMetrics,
     ae_crawler = \<lparr>cm_dnsOutcomes = new_vec 0 ''outcome'' [''verified'', ''unverified'', ''indeterminate''], cm_dnsCacheHits = 0,
       cm_dnsSaturated = 0, cm_dnsInFlight = 0\<rparr>,
     ae_runtime = \<lparr>rt_startTime = 0, rt_goroutines = 1, rt_mem = \<lparr>ms_HeapAlloc = 0, ms_Sys = 0, ms_HeapObjects = 0\<rparr>, rt_version = ''go'',
       rt_build = None, rt_stamp_Revision = [], rt_stamp_Version = []\<rparr>,
     ae_now = 9, ae_generated = 86400 * second\<rparr>"

definition demo_poll :: request where
  "demo_poll = \<lparr>req_Method = ''GET'', req_Path = ''/activity'', req_EscapedPath = ''/activity'', req_RawQuery = [], req_Host = ''h'',
     req_Header = hdr_empty, req_RemoteAddr = ''127.0.0.1:1'', req_TLS = False, req_Body = []\<rparr>"

lemma activity_surface_witness:
  "\<exists>j rows. json_parse (rp_Body (fst (admin_ServeHTTP net_writer demo_admin demo_poll (Some demo_log) new_response))) = Some j
     \<and> length (polled_entries j) = length rows
     \<and> set rows = row_of ` {(ip, en). map_of (l_entries demo_log) ip = Some en \<and> time_sub 9 (e_lastSeen en) \<le> l_ttl demo_log}"
proof -
  have d: "log_ok demo_log" "\<forall>ip\<in>dom (map_of (l_entries demo_log)). ascii_string ip" "second \<le> l_ttl demo_log"
    by (simp_all add: demo_log log_ok_def dom_def ascii_char_def byte_val_def minute_def second_def)
  from activity_surface [OF d, of demo_poll demo_admin] show ?thesis
    by (fastforce simp: demo_poll_def demo_admin_def)
qed


end
