(* ===== verification/App.thy ===== *)
theory App
  imports Admin Csp
begin

text \<open>
  The demonstration site behind the gate (\<open>examples/hello-app/main.go\<close>): its routes and handlers. The long documents are parameters
  (\<open>app_texts\<close>), as are \<open>http.FileServer\<close> and what a handler is told by its request's context. Its pages with policies are the matrix that the
  gate's script has to cope with.
\<close>

subsection \<open>The routes\<close>

definition app_addr :: "bytes \<Rightarrow> bytes" where
  "app_addr listen = (if listen = [] then '':3000'' else listen)"

datatype app_page =
    AppIndex | AppAbout | AppItems | AppStatic | AppText bytes | AppSitemap | AppFeed | AppWebhook | AppEvents | AppBig
  | AppCsp bytes bytes | AppSwOwner | AppSwScript | AppSwRegister | AppSlow | AppSetCookie | AppEcho | AppRenewal

definition cspCases :: "(bytes \<times> bytes) list" where
  "cspCases =
     [(''none'', []), (''self'', ''default-src '' @ quoted ''self'' @ ''; script-src '' @ quoted ''self''),
      (''unsafe-inline'', ''script-src '' @ quoted ''self'' @ '' '' @ quoted ''unsafe-inline''),
      (''strict-dynamic'', ''script-src '' @ quoted ''nonce-appnonce123'' @ '' '' @ quoted ''strict-dynamic''),
      (''hash'', ''script-src '' @ quoted ''sha256-AAAAAAAAAAAAAAAAAAAAAAAAAAAAAAAAAAAAAAAAAAA=''),
      (''none-directive'', ''script-src '' @ quoted ''none''), (''sandbox'', ''sandbox''),
      (''host-allowlist'', ''script-src https://cdn.example.com''), (''report-only'', []), (''meta'', []), (''meta-strict'', [])]"

text \<open>The patterns of \<open>main\<close>, by their segments. \<open>/static/\<close> and \<open>/\<close> stand for what is below them.\<close>

definition app_exact :: "(bytes list \<times> app_page) list" where
  "app_exact =
     [([''about''], AppAbout), ([''api'', ''items''], AppItems),
      ([''robots.txt''], AppText (''User-agent: *'' @ nl @ ''Allow: /'' @ nl @ ''Sitemap: /sitemap.xml'' @ nl)),
      ([''sitemap.xml''], AppSitemap), ([''feed.xml''], AppFeed), ([''webhooks'', ''inbound''], AppWebhook), ([''events''], AppEvents),
      ([''download'', ''big.bin''], AppBig)]
     @ map (\<lambda>(name, policy). ([''csp'', name], AppCsp name policy)) cspCases
     @ [([''sw-owner''], AppSwOwner), ([''app-sw.js''], AppSwScript), ([''sw-register.js''], AppSwRegister), ([''slow''], AppSlow),
        ([''set-cookie''], AppSetCookie), ([''echo''], AppEcho), ([''renewal''], AppRenewal), ([''healthz''], AppText (''ok'' @ nl))]"

text \<open>The mux of the standard library: a path that is not clean and a missing trailing slash are redirected.\<close>

datatype app_match = AppServe app_page | AppRedirect bytes

definition path_segments :: "bytes \<Rightarrow> bytes list" where
  "path_segments path = map path_unescape (split_on CHR ''/'' (drop 1 path))"

definition app_pattern :: "bytes \<Rightarrow> app_page" where
  "app_pattern path =
     (case map_of app_exact (path_segments path) of
        Some p \<Rightarrow> p
      | None \<Rightarrow> (case path_segments path of seg # seg' # segs \<Rightarrow> if seg = ''static'' then AppStatic else AppIndex | _ \<Rightarrow> AppIndex))"

definition app_route :: "request \<Rightarrow> app_match" where
  "app_route r =
     (let escaped = req_EscapedPath r; path = (if req_Method r = ''CONNECT'' then escaped else cleanPath escaped) in
      if path_segments path = [''static''] then AppRedirect (cleanPath (req_Path r) @ ''/'')
      else if path \<noteq> escaped then AppRedirect path
      else AppServe (app_pattern path))"

subsection \<open>The handlers\<close>

record app_texts =
  tx_shellTop :: "bytes \<Rightarrow> bytes \<Rightarrow> bytes \<Rightarrow> bytes \<Rightarrow> bytes \<Rightarrow> bytes"
  tx_pageTemplate :: "bytes \<Rightarrow> bytes \<Rightarrow> bytes \<Rightarrow> bytes \<Rightarrow> bytes"
  tx_metaCSPPage :: bytes
  tx_metaStrictCSPPage :: bytes
  tx_swOwner :: bytes
  tx_swOwnerScript :: bytes
  tx_swRegisterScript :: bytes
  tx_renewalBody :: bytes
  tx_sitemap :: bytes
  tx_feed :: bytes

text \<open>
  What else a handler sees: the request's protocol and header keys, how many pauses of the stream pass before the client is gone, and
  whether it waits out the slow page.
\<close>

record app_env =
  ap_texts :: app_texts
  ap_Proto :: bytes
  ap_keys :: "bytes list"
  ap_ticks :: nat
  ap_waits :: bool

definition shellBottom :: bytes where
  "shellBottom = nl @ ''</main></body></html>'' @ nl"

definition shellTop :: "app_texts \<Rightarrow> bytes \<Rightarrow> bytes \<Rightarrow> bytes" where
  "shellTop tx title current =
     (let mark = (\<lambda>path. if path = current then '' aria-current='' @ [CHR 0x22] @ ''page'' @ [CHR 0x22] else [])
      in tx_shellTop tx title (mark ''/'') (mark ''/about'') (mark ''/renewal'') (mark ''/sw-owner''))"

definition html_type :: bytes where "html_type = ''text/html; charset=utf-8''"

definition page :: "'w writer \<Rightarrow> app_texts \<Rightarrow> bytes \<Rightarrow> bytes \<Rightarrow> 'w \<Rightarrow> 'w" where
  "page ops tx title marker w =
     (let w = wr_Set ops ''Content-Type'' html_type w;
          path = (if title = ''home'' then ''/'' else ''/'' @ title);
          w = wr_Write ops (shellTop tx title path) w;
          w = wr_Write ops (''<h1>'' @ title @ ''</h1>'' @ nl @ ''<p id='' @ [CHR 0x22] @ ''marker'' @ [CHR 0x22] @ ''>'' @ marker @ ''</p>'' @ nl) w
      in wr_Write ops shellBottom w)"

definition app_index :: "'w writer \<Rightarrow> app_texts \<Rightarrow> request \<Rightarrow> 'w \<Rightarrow> 'w" where
  "app_index ops tx r w =
     (if req_Path r \<noteq> ''/'' then http_Error ops ''404 page not found'' 404 w else page ops tx ''home'' ''hello from the app'' w)"

definition about :: "'w writer \<Rightarrow> app_texts \<Rightarrow> 'w \<Rightarrow> 'w" where
  "about ops tx w = page ops tx ''about'' ''second document'' w"

definition apiItems :: "'w writer \<Rightarrow> 'w \<Rightarrow> 'w" where
  "apiItems ops w =
     wr_Write ops (json_Encode (JObj [(''items'', JArr
        [JObj [(''id'', JNum ''1''), (''name'', JStr ''first'')], JObj [(''id'', JNum ''2''), (''name'', JStr ''second'')]])]))
       (wr_Set ops ''Content-Type'' ''application/json'' w)"

definition webhook :: "'w writer \<Rightarrow> request \<Rightarrow> 'w \<Rightarrow> 'w" where
  "webhook ops r w =
     (if req_Method r \<noteq> ''POST'' then http_Error ops ''POST only'' 405 w
      else wr_Write ops (json_Encode (JObj [(''bytes'', JNum (show_nat (length (req_Body r)))), (''received'', JStr (req_Body r))]))
             (wr_Set ops ''Content-Type'' ''application/json'' w))"

definition events :: "'w writer \<Rightarrow> nat \<Rightarrow> 'w \<Rightarrow> 'w" where
  "events ops ticks w =
     foldl (\<lambda>w i. wr_Write ops (''data: tick '' @ show_nat i @ nl @ nl) w)
       (wr_Set ops ''Cache-Control'' ''no-cache'' (wr_Set ops ''Content-Type'' ''text/event-stream'' w)) [0..<min 5 (Suc ticks)]"

definition big_chunk :: bytes where
  "big_chunk = map (\<lambda>i. val_byte (i mod 251)) [0..<4096]"

definition bigFile :: "'w writer \<Rightarrow> 'w \<Rightarrow> 'w" where
  "bigFile ops w =
     foldl (\<lambda>w i. wr_Write ops big_chunk w)
       (wr_Set ops ''Content-Length'' (show_nat (8 * 2 ^ 20)) (wr_Set ops ''Content-Type'' ''application/octet-stream'' w))
       [0..<8 * 2 ^ 20 div 4096]"

definition slow :: "'w writer \<Rightarrow> bool \<Rightarrow> 'w \<Rightarrow> 'w" where
  "slow ops waits w = (if waits then wr_Write ops (''slow but finished'' @ nl) w else w)"

definition cspPage :: "'w writer \<Rightarrow> app_texts \<Rightarrow> bytes \<Rightarrow> bytes \<Rightarrow> 'w \<Rightarrow> 'w" where
  "cspPage ops tx name policy w =
     (let w = (if policy \<noteq> [] then wr_Set ops ''Content-Security-Policy'' policy w else w);
          w = (if name = ''report-only''
               then wr_Set ops ''Content-Security-Policy-Report-Only'' (''script-src '' @ quoted ''self'' @ ''; report-uri /csp-report'') w else w);
          w = wr_Set ops ''Content-Type'' html_type w
      in if name = ''meta'' then wr_Write ops (tx_metaCSPPage tx) w
         else if name = ''meta-strict'' then wr_Write ops (tx_metaStrictCSPPage tx) w
         else wr_Write ops (tx_pageTemplate tx (''csp/'' @ name) (''csp/'' @ name) (''csp/'' @ name) policy) w)"

definition swOwnerPage :: "'w writer \<Rightarrow> app_texts \<Rightarrow> 'w \<Rightarrow> 'w" where
  "swOwnerPage ops tx w =
     wr_Write ops shellBottom (wr_Write ops (tx_swOwner tx) (wr_Write ops (shellTop tx ''service worker'' ''/sw-owner'')
       (wr_Set ops ''Content-Type'' html_type w)))"

definition javascript_type :: bytes where "javascript_type = ''text/javascript; charset=utf-8''"

definition swOwnerScript :: "'w writer \<Rightarrow> app_texts \<Rightarrow> 'w \<Rightarrow> 'w" where
  "swOwnerScript ops tx w =
     wr_Write ops (tx_swOwnerScript tx) (wr_Set ops ''Service-Worker-Allowed'' ''/'' (wr_Set ops ''Content-Type'' javascript_type w))"

definition swRegisterScript :: "'w writer \<Rightarrow> app_texts \<Rightarrow> 'w \<Rightarrow> 'w" where
  "swRegisterScript ops tx w = wr_Write ops (tx_swRegisterScript tx) (wr_Set ops ''Content-Type'' javascript_type w)"

definition wr_Add :: "'w writer \<Rightarrow> bytes \<Rightarrow> bytes \<Rightarrow> 'w \<Rightarrow> 'w" where
  "wr_Add ops k v w = wr_SetHeader ops (hdr_Add (wr_Header ops w) k v) w"

definition setCookie :: "'w writer \<Rightarrow> 'w \<Rightarrow> 'w" where
  "setCookie ops w =
     wr_Write ops (''cookies set'' @ nl) (wr_Set ops ''Content-Type'' text_plain
       (wr_Add ops ''Set-Cookie'' ''app_pref=dark; Path=/'' (wr_Add ops ''Set-Cookie'' ''app_session=abc123; Path=/'' w)))"

text \<open>The keys of the JSON objects come out sorted.\<close>

definition echo :: "'w writer \<Rightarrow> bytes \<Rightarrow> bytes list \<Rightarrow> request \<Rightarrow> 'w \<Rightarrow> 'w" where
  "echo ops proto ks r w =
     (let names = sort ks;
          vals = (\<lambda>k. JArr (map JStr (hdr_Values (req_Header r) k)))
      in wr_Write ops (json_Encode (JObj
           [(''cookie_raw'', JStr (join '' | '' (hdr_Values (req_Header r) ''Cookie''))), (''header_names'', JArr (map JStr names)),
            (''headers'', JObj (map (\<lambda>k. (k, vals k)) names)), (''host'', JStr (req_Host r)), (''method'', JStr (req_Method r)),
            (''path'', JStr (req_Path r)), (''proto'', JStr proto), (''query'', JStr (req_RawQuery r)),
            (''raw_path'', JStr (req_EscapedPath r)), (''remote_addr'', JStr (req_RemoteAddr r))]))
           (wr_Set ops ''Content-Type'' ''application/json'' w))"

definition textFile :: "'w writer \<Rightarrow> bytes \<Rightarrow> 'w \<Rightarrow> 'w" where
  "textFile ops body w = wr_Write ops body (wr_Set ops ''Content-Type'' text_plain w)"

definition xmlFile :: "'w writer \<Rightarrow> bytes \<Rightarrow> 'w \<Rightarrow> 'w" where
  "xmlFile ops body w = wr_Write ops body (wr_Set ops ''Content-Type'' ''application/xml; charset=utf-8'' w)"

definition renewalPage :: "'w writer \<Rightarrow> app_texts \<Rightarrow> 'w \<Rightarrow> 'w" where
  "renewalPage ops tx w =
     wr_Write ops shellBottom (wr_Write ops (tx_renewalBody tx) (wr_Write ops (shellTop tx ''renewal'' ''/renewal'')
       (wr_Set ops ''Content-Type'' html_type w)))"

text \<open>\<open>files\<close> is the file server with its prefix stripped.\<close>

fun app_serve :: "'w writer \<Rightarrow> app_env \<Rightarrow> (request \<Rightarrow> 'w \<Rightarrow> 'w) \<Rightarrow> app_page \<Rightarrow> request \<Rightarrow> 'w \<Rightarrow> 'w" where
  "app_serve ops e files AppIndex r w = app_index ops (ap_texts e) r w"
| "app_serve ops e files AppAbout r w = about ops (ap_texts e) w"
| "app_serve ops e files AppItems r w = apiItems ops w"
| "app_serve ops e files AppStatic r w = files r w"
| "app_serve ops e files (AppText body) r w = textFile ops body w"
| "app_serve ops e files AppSitemap r w = xmlFile ops (tx_sitemap (ap_texts e)) w"
| "app_serve ops e files AppFeed r w = xmlFile ops (tx_feed (ap_texts e)) w"
| "app_serve ops e files AppWebhook r w = webhook ops r w"
| "app_serve ops e files AppEvents r w = events ops (ap_ticks e) w"
| "app_serve ops e files AppBig r w = bigFile ops w"
| "app_serve ops e files (AppCsp name policy) r w = cspPage ops (ap_texts e) name policy w"
| "app_serve ops e files AppSwOwner r w = swOwnerPage ops (ap_texts e) w"
| "app_serve ops e files AppSwScript r w = swOwnerScript ops (ap_texts e) w"
| "app_serve ops e files AppSwRegister r w = swRegisterScript ops (ap_texts e) w"
| "app_serve ops e files AppSlow r w = slow ops (ap_waits e) w"
| "app_serve ops e files AppSetCookie r w = setCookie ops w"
| "app_serve ops e files AppEcho r w = echo ops (ap_Proto e) (ap_keys e) r w"
| "app_serve ops e files AppRenewal r w = renewalPage ops (ap_texts e) w"

definition app_ServeHTTP :: "'w writer \<Rightarrow> app_env \<Rightarrow> (request \<Rightarrow> 'w \<Rightarrow> 'w) \<Rightarrow> (bytes \<Rightarrow> bytes \<Rightarrow> bytes) \<Rightarrow> request \<Rightarrow> 'w \<Rightarrow> 'w" where
  "app_ServeHTTP ops e files mkURL r w =
     (case app_route r of
        AppRedirect path \<Rightarrow> http_Redirect ops (req_Method r) (mkURL path (req_RawQuery r)) w
      | AppServe p \<Rightarrow> app_serve ops e files p r w)"

subsection \<open>The matrix of policies at the gate\<close>

text \<open>The policy in a page's own \<open>meta\<close> tag.\<close>

definition app_meta :: "bytes \<Rightarrow> bytes list" where
  "app_meta name =
     (if name = ''meta'' then [''script-src '' @ quoted ''self'']
      else if name = ''meta-strict'' then [''script-src '' @ quoted ''sha256-AAAAAAAAAAAAAAAAAAAAAAAAAAAAAAAAAAAAAAAAAAA='']
      else [])"

text \<open>The mode of a plan rests on the policies alone.\<close>

definition plan_mode :: "bytes list \<Rightarrow> bytes list \<Rightarrow> injectMode" where
  "plan_mode enforce meta =
     (let metaDirs = concat (map policies meta); dirs = concat (map policies enforce);
          enforcingR = filter sl_restricting dirs; metaR = filter sl_restricting metaDirs
      in if list_ex (\<lambda>d. sl_sandboxBlocks d \<or> sl_restricting d \<and> sl_has d (quoted ''none'')) (dirs @ metaDirs) then ModeSkip
         else if list_all (\<lambda>d. sl_has d (quoted ''self'')) (enforcingR @ metaR) then ModeExternal
         else if metaR \<noteq> [] then ModeSkip
         else if list_ex (\<lambda>d. sl_has d (quoted ''strict-dynamic'')) enforcingR then ModeInlineNonce
         else if enforcingR \<noteq> [] \<and> list_all (\<lambda>d. sl_has d (quoted ''unsafe-inline'') \<and> \<not> hasNonceOrHash d) enforcingR then ModeInline
         else ModeInlineHash)"

lemma planCSP_mode: "pl_mode (planCSP sha rnd enforce report meta) = plan_mode enforce meta"
  by (simp add: planCSP_def plan_mode_def plan_skip_def Let_def)

lemma demo_directives:
  "map (\<lambda>p. (policy_parts p = [p], directives p))
     [''default-src '' @ quoted ''self'' @ ''; script-src '' @ quoted ''self'', ''script-src '' @ quoted ''self'' @ '' '' @ quoted ''unsafe-inline'',
      ''script-src '' @ quoted ''nonce-appnonce123'' @ '' '' @ quoted ''strict-dynamic'',
      ''script-src '' @ quoted ''sha256-AAAAAAAAAAAAAAAAAAAAAAAAAAAAAAAAAAAAAAAAAAA='', ''script-src '' @ quoted ''none'', ''sandbox'',
      ''script-src https://cdn.example.com'', ''script-src '' @ quoted ''self'']
   = map (Pair True)
     [[(''default-src'', [quoted ''self'']), (''script-src'', [quoted ''self''])],
      [(''script-src'', [quoted ''self'', quoted ''unsafe-inline''])],
      [(''script-src'', [quoted ''nonce-appnonce123'', quoted ''strict-dynamic''])],
      [(''script-src'', [quoted ''sha256-aaaaaaaaaaaaaaaaaaaaaaaaaaaaaaaaaaaaaaaaaaa=''])], [(''script-src'', [quoted ''none''])], [(''sandbox'', [])],
      [(''script-src'', [''https://cdn.example.com''])], [(''script-src'', [quoted ''self''])]]"
  by code_simp

lemma plan_modes:
  "plan_mode [''default-src '' @ quoted ''self'' @ ''; script-src '' @ quoted ''self''] [] = ModeExternal"
  "plan_mode [''script-src '' @ quoted ''self'' @ '' '' @ quoted ''unsafe-inline''] [] = ModeExternal"
  "plan_mode [''script-src '' @ quoted ''nonce-appnonce123'' @ '' '' @ quoted ''strict-dynamic''] [] = ModeInlineNonce"
  "plan_mode [''script-src '' @ quoted ''sha256-AAAAAAAAAAAAAAAAAAAAAAAAAAAAAAAAAAAAAAAAAAA=''] [] = ModeInlineHash"
  "plan_mode [''script-src '' @ quoted ''none''] [] = ModeSkip" "plan_mode [''sandbox''] [] = ModeSkip"
  "plan_mode [''script-src https://cdn.example.com''] [] = ModeInlineHash"
  "plan_mode [] [''script-src '' @ quoted ''self''] = ModeExternal"
  "plan_mode [] [''script-src '' @ quoted ''sha256-AAAAAAAAAAAAAAAAAAAAAAAAAAAAAAAAAAAAAAAAAAA=''] = ModeSkip"
  "plan_mode [] [] = ModeExternal"
proof -
  have q: "quoted a = quoted b \<longleftrightarrow> a = b" "quoted a \<noteq> ''https://cdn.example.com''" "''https://cdn.example.com'' \<noteq> quoted a" for a b
    by (simp_all add: quoted_def)
  note f = demo_directives [unfolded list.map list.inject prod.inject eq_True simp_thms]
  note d = plan_mode_def policies_def effective_def governing_def directive_def script_directives_def sl_has_def q Let_def
  show "plan_mode [''default-src '' @ quoted ''self'' @ ''; script-src '' @ quoted ''self''] [] = ModeExternal"
    "plan_mode [''script-src '' @ quoted ''self'' @ '' '' @ quoted ''unsafe-inline''] [] = ModeExternal"
    "plan_mode [''script-src '' @ quoted ''nonce-appnonce123'' @ '' '' @ quoted ''strict-dynamic''] [] = ModeInlineNonce"
    "plan_mode [''script-src '' @ quoted ''sha256-AAAAAAAAAAAAAAAAAAAAAAAAAAAAAAAAAAAAAAAAAAA=''] [] = ModeInlineHash"
    "plan_mode [''script-src '' @ quoted ''none''] [] = ModeSkip"
    "plan_mode [''sandbox''] [] = ModeSkip"
    "plan_mode [''script-src https://cdn.example.com''] [] = ModeInlineHash"
    "plan_mode [] [''script-src '' @ quoted ''self''] = ModeExternal"
    "plan_mode [] [''script-src '' @ quoted ''sha256-AAAAAAAAAAAAAAAAAAAAAAAAAAAAAAAAAAAAAAAAAAA=''] = ModeSkip"
    "plan_mode [] [] = ModeExternal"
    using f by (simp_all add: d del: append.simps)
qed

text \<open>What the gate plans for each of the pages: an external script, one with a nonce or a hash of its own, or none.\<close>

lemma csp_matrix:
  "map (\<lambda>(name, policy). (name, pl_mode (planCSP sha rnd (if policy = [] then [] else [policy]) report (app_meta name)))) cspCases
   = [(''none'', ModeExternal), (''self'', ModeExternal), (''unsafe-inline'', ModeExternal), (''strict-dynamic'', ModeInlineNonce),
      (''hash'', ModeInlineHash), (''none-directive'', ModeSkip), (''sandbox'', ModeSkip), (''host-allowlist'', ModeInlineHash),
      (''report-only'', ModeExternal), (''meta'', ModeExternal), (''meta-strict'', ModeSkip)]"
proof -
  have "quoted x \<noteq> []" for x by (simp add: quoted_def)
  then show ?thesis
    unfolding planCSP_mode cspCases_def list.map prod.case by (simp add: app_meta_def plan_modes del: append.simps)
qed

text \<open>Each page of the matrix is reached under its name, and what it sends is its policy.\<close>

lemma csp_routes: "list_all (\<lambda>(name, policy). app_pattern (''/csp/'' @ name) = AppCsp name policy) cspCases"
  by code_simp

lemma cspPage_policy:
  "hdr_Values (rec_Header (cspPage recorder_writer tx name policy new_recorder)) ''Content-Security-Policy'' = (if policy = [] then [] else [policy])"
  by (simp add: cspPage_def Let_def wr_Set_def recorder_writer_def rec_Header_def rec_SetHeader_def rec_Write_def net_Write_def net_WriteHeader_def
      new_recorder_def new_response_def hdr_Values_def hdr_Set_def hdr_empty_def)

end
