(* ===== verification/Spec2Isabelle.thy ===== *)
theory Spec2Isabelle
  imports Solver Deploy App Admin Metrics Decision Passes GrantStore Guards Wire Callback Config Activity Crawler
begin

text \<open>
  Anteroom is a gate in front of one web application. It is a reverse proxy that admits, challenges or charges each request
  before the request reaches the protected origin. The sources are Go, under \<open>src/\<close>; the theories follow them function by
  function and keep their names.

  \<^bold>\<open>The parts and how they interact.\<close>

  The command (\<open>cmd/anteroom\<close>) loads a file (\<open>internal/config\<close>), builds a gate (\<open>gate.New\<close>) and serves it on two listeners. Each
  request runs down one ladder (\<open>gate.serve\<close>), and the first rung that applies ends it: a path that is not canonical or an authority
  that is not served here is refused; the gate's own endpoints answer; an exempted path or address range
  (\<open>internal/bypass\<close>) and a preflight go through; a claimed crawler or hosted fetcher (\<open>internal/crawler\<close>, \<open>internal/hosted\<close>) is
  verified by its address; a pass cookie (\<open>internal/token\<close>) goes through; and everybody else meets the wall. At the wall a
  browser gets the wait page, whose script fetches a challenge, solves it and posts it (\<open>internal/challenge\<close>,
  \<open>endpoints.go\<close>), a machine gets instructions or a price, and a presented payment is verified and settled by a facilitator
  (\<open>internal/payment\<close>, \<open>pay.go\<close>) and recorded for good before it is served. On the way back a script that renews the pass goes into the
  pages of admitted browsers (\<open>inject.go\<close>, \<open>injector.go\<close>). Every end of a request is one of the decisions of \<open>decision.go\<close>, which
  the counters (\<open>internal/metrics\<close>), the activity log (\<open>internal/activity\<close>) and the operator's listener (\<open>internal/admin\<close>) show.

  \<^bold>\<open>The theories.\<close>

  \<^item> The language and its library, as far as the sources use them: \<open>Prelude\<close> (bytes, errors as sums, instants and durations in
    nanoseconds), \<open>GoStrings\<close>, \<open>Base64\<close>, \<open>Json\<close> (printer and parser of \<open>encoding/json\<close>), \<open>NetIP\<close> (\<open>net/netip\<close>), \<open>Http\<close> (requests,
    header maps, cookies), \<open>Mime\<close>. A header map is a function from canonical names to the list of values.
  \<^item> Credentials: \<open>Token\<close> (\<open>internal/token/token.go\<close>), \<open>Challenge\<close> (\<open>internal/challenge/challenge.go\<close>).
  \<^item> What a request is: \<open>Bypass\<close> (\<open>internal/bypass/bypass.go\<close>), \<open>Request\<close> (\<open>internal/gate/request.go\<close> and the path, authority and cookie
    functions of \<open>gate.go\<close>), \<open>Crawler\<close> (\<open>internal/useragent\<close>, \<open>internal/hosted\<close>, \<open>internal/crawler\<close>).
  \<^item> Payments: \<open>Wire\<close> (\<open>wire.go\<close> and the interface of \<open>verifier.go\<close>), \<open>Guards\<close> (\<open>guards.go\<close>), \<open>GrantStore\<close> (\<open>store.go\<close>), \<open>Callback\<close>
    (\<open>callback.go\<close>), \<open>Offers\<close> and \<open>Pay\<close> (\<open>internal/gate/pay.go\<close>).
  \<^item> Bookkeeping: \<open>Metrics\<close> and \<open>Expose\<close> (\<open>internal/metrics\<close>), \<open>Activity\<close> (\<open>internal/activity\<close>), \<open>Decision\<close> (\<open>decision.go\<close>,
    \<open>internal/gate/metrics.go\<close>), \<open>Admin\<close> (\<open>internal/admin/admin.go\<close>).
  \<^item> The gate: \<open>Passes\<close> (the record \<open>gate\<close>, passes, scopes and the cookie, from \<open>gate.go\<close>), \<open>Writer\<close> (\<open>recorder\<close>, \<open>paidWriter\<close> and what the
    proxy writes), \<open>Pages\<close> (\<open>waitpage.go\<close>), \<open>Endpoints\<close> (\<open>endpoints.go\<close>, \<open>activity.go\<close>), \<open>FreeDoor\<close> (challenge to pass), \<open>Forward\<close>
    (\<open>forward\<close> and the proxy's \<open>Rewrite\<close>), \<open>Html\<close>, \<open>Csp\<close> and \<open>Injector\<close> (\<open>inject.go\<close>, \<open>injector.go\<close>), \<open>Ladder\<close> (\<open>serve\<close>, \<open>ServeHTTP\<close>,
    \<open>identity.go\<close>).
  \<^item> Construction: \<open>Config\<close> (\<open>internal/config\<close>), \<open>Build\<close> (\<open>gate.New\<close>), \<open>Startup\<close> (\<open>config.Load\<close> and \<open>cmd/anteroom\<close>).
  \<^item> The other side: \<open>Client\<close> and \<open>Solver\<close> (\<open>acceptance/harness/client.go\<close>, \<open>solver.go\<close>), a client that follows the instructions which the
    gate serves, with \<open>Solver.gate_network\<close> the gate as its network; \<open>Deploy\<close> (\<open>acceptance/harness/deploy.go\<close>), the deployments of the acceptance
    suite; \<open>App\<close> (\<open>examples/hello-app/main.go\<close>), the demonstration site, whose pages with policies the gate plans for.

  \<^bold>\<open>State and operations.\<close>

  A component's state is a record and each operation a function from the state to the state and its result; errors are
  values (\<open>Inl\<close> or \<open>None\<close>), one for each sentinel or message class of the code. \<open>Passes.gate\<close> is what \<open>New\<close> fixes; \<open>Endpoints.gate_state\<close> is what
  requests change: counters, activity log, crawler cache, grants, payment limiter, breakers, page cache, warnings given. \<open>ServeHTTP\<close> takes a
  request and the surroundings (readings of the clock, random bytes, DNS, file system, facilitator, store I/O, upstream) to the bytes written, the
  new state, the request that the upstream got and the decision. Requests that run at the same time are sequences of atomic steps where the
  code has a lock or a transaction: the store's theorems are about any interleaving of its transactions with those of other processes, the
  accounts about any run of requests. 64-bit counters are words; the sizes that the code bounds itself are \<open>int\<close> or \<open>nat\<close>.

  \<^bold>\<open>Interfaces.\<close>

  \<^item> \<open>codec\<close> (\<open>Prelude\<close>): what is written is read back. Interpreted for both base64 forms, the signed profile, the pass payload and the
    grant record.
  \<^item> \<open>grant_ledger\<close> (\<open>GrantStore\<close>): an abstract ledger of reservations and grants with the laws of \<open>Begin\<close>, \<open>Release\<close> and \<open>Commit\<close>; the
    bbolt store of \<open>store.go\<close> interprets it, and one grant for each payment is proved from the laws.
  \<^item> \<open>payment_verifier\<close> (\<open>Pay\<close>): what the pay door may believe of a verdict. The callback verifier interprets it.
  \<^item> \<open>response_writer\<close> (\<open>Writer\<close>): the first final status wins and bodies append. The recorder, the paid writer and the server's writer
    interpret it.

  \<^bold>\<open>What the lemmas show.\<close>

  Nothing reaches the upstream without the reason that its rung names, with the gate's own headers only (\<open>Ladder\<close>, \<open>Forward\<close>); a payment
  is served on a live grant only, one the store held or one that this request had settled and committed there, a payment has one grant,
  and an interrupted one is redeemed (\<open>Pay\<close>, \<open>GrantStore\<close>, \<open>Callback\<close>); a free
  pass costs work for this authority and network, it opens the site until it expires, and renewals end with the session (\<open>FreeDoor\<close>,
  \<open>Passes\<close>, \<open>Token\<close>, \<open>Challenge\<close>); a client that follows the documented procedure gets in (\<open>Solver\<close>); a page passes the injector unchanged but for the planned
  script (\<open>Injector\<close>, \<open>Html\<close>), whose element the page's own policies admit, save an external one beside \<open>strict-dynamic\<close> (\<open>Csp\<close>); no paid answer may be
  stored by a cache, and none of the gate's own, save its static documents, a refused method and one error of its own endpoints (\<open>Writer\<close>,
  \<open>Ladder\<close>); every request that ends is counted once, under the rung that ended it (\<open>Ladder\<close>, \<open>Metrics\<close>); an accepted configuration builds and
  serves exactly when the names of its keys differ (\<open>Config\<close>, \<open>Build\<close>, \<open>Startup\<close>). Where the code does not do what it means to, a lemma shows
  the input: \<open>padded_pass_is_forwarded\<close>,
  \<open>fractional_lifetime_fails\<close>, \<open>bare_dollar_is_expanded\<close>, \<open>difficulty_zero_refuses_all_ones\<close>, \<open>latin1_comment_panics\<close>,
  \<open>latin1_comment_misplaced\<close>, \<open>latin1_title_hangs\<close>, \<open>self_hides_strict_dynamic\<close>, \<open>loader_fetch_not_listed\<close>, \<open>duplicate_directive_not_extended\<close>,
  \<open>twin_file_ok\<close> with \<open>gate_New_same_kid\<close>, \<open>nul_value_accepted\<close> with \<open>nul_value_crosses_rails\<close>, \<open>refused_method_unmarked\<close>, \<open>WaitReady_unasked\<close>.

  \<^bold>\<open>Bounds and fuel.\<close>

  The JSON parser recurses on fuel, twice the length of its input and two, which \<open>Json.p_fuel\<close> shows is enough: more gives the same. Loops that may not end are
  partial functions with values in \<open>option\<close> (\<open>Html.metaPolicies\<close>, \<open>Client.wait_loop\<close>); that the first ends is a theorem for pages whose bytes keep their
  width under lower-casing, and false in general; the second ends with the clock. All other loops have a measure or are structural. The limits of the code are kept as they are: 4096 bytes of an
  answer, the injector's \<open>headBudget\<close>, \<open>2 ^ 24\<close> candidates of the solver, the log's and the cache's sizes.

  \<^bold>\<open>Parameters.\<close>

  HMAC-SHA256, SHA-256, random bytes, the clock, \<open>url.Parse\<close>, the TOML decoder's tables, DNS, \<open>math.Exp2\<close>, Unicode's lower-case table, the texts of floats, the order of a
  header map's keys, the entry that a full cache drops, a buffer's spare capacity, the embedded assets, the operator's page directory, the facilitator's answers, the store's file, the upstream and the commands of a deployment are arguments. Hypotheses on them state what
  the code relies on: tags of 32 bytes, digests of 32 bytes. No theorem assumes a hash without collisions: the sale of
  path sets under a rule (\<open>paid_scope_first_match\<close>) names the two texts that would have to collide.

  \<^bold>\<open>Not modelled.\<close>

  An answer that switches protocols (101), which the reverse proxy hijacks past the writers, and trailers (\<open>Writer.proxy_serve\<close>); the 502 of the
  reverse proxy for an \<open>Upgrade\<close> header with a character that does not print (\<open>Forward.proxy_outgoing\<close>). Unicode in \<open>EqualFold\<close> and \<open>TrimSpace\<close>,
  which fold and trim ASCII here (\<open>GoStrings\<close>). Overflow of \<open>UnixNano\<close> in the expiry of a cached verdict (\<open>Crawler\<close>): instants are unbounded.
  Logging, save for the flags that keep a warning from being repeated. \<open>Flush\<close>, \<open>Unwrap\<close>, hijacked connections and other streaming: a body is the sequence of its chunks. The
  transport's tuning (\<open>upstreamTransport\<close>), timeouts and cancellation inside one call. Preemption inside a critical section. Texts of errors that
  the operator reads: an error keeps its kind and the key it names. Floating-point rounding: rates, the tokens of \<open>Guards.Allow\<close>, and \<open>q\<close> values are rationals. The long
  documents of the demonstration site, which are parameters, and the scripts of the browser. The helpers of \<open>deploy.go\<close> that only skip or fail a test.
\<close>

end
